(* ===== verification/Aether_Prelude.thy ===== *)
theory Aether_Prelude
  imports Main "HOL-Library.Word" "HOL-Library.Signed_Division" "HOL-Library.Monad_Syntax"
begin

text \<open>
  Shared vocabulary of the development: the widths of Go's integer types, the outcome of a
  Go call (a value, an error value, or a run-time panic), and the arithmetic that moves
  between machine words and natural numbers.  The collection \<open>go_nat\<close> holds the
  conversions that the component proofs hand to the simplifier.
\<close>

unbundle bit_operations_syntax

section \<open>Types\<close>

type_synonym byte = "8 word"
type_synonym u16 = "16 word"
type_synonym u32 = "32 word"
type_synonym u64 = "64 word"
type_synonym i64 = "64 word"
type_synonym uuid = "128 word"

text \<open>
  Go's \<open>uint64\<close> and \<open>int64\<close> share the 64-bit representation: the conversions
  \<open>uint64(x)\<close> and \<open>int64(x)\<close> are the identity on words, and the signedness is in the
  operation that reads the word (\<open>unat\<close> or \<open>sint\<close>, \<open>div\<close> or \<open>sdiv\<close>).
  A \<open>uuid.UUID\<close> is an array of 16 bytes; byte \<open>i\<close> of the array is the byte of weight
  \<open>256 ^ i\<close> of the word, and \<open>uuid.Nil\<close> is \<open>0\<close>.
\<close>

abbreviation uuid_Nil :: uuid where "uuid_Nil \<equiv> 0"

datatype ('e, 'a) outcome = Ok 'a | Err 'e | Panic

text \<open>Sequencing of fallible calls: an error or a panic ends the calling function.\<close>

fun and_then :: "('e, 'a) outcome \<Rightarrow> ('a \<Rightarrow> ('e, 'b) outcome) \<Rightarrow> ('e, 'b) outcome" where
  "and_then (Ok x) f = f x"
| "and_then (Err e) f = Err e"
| "and_then Panic f = Panic"

fun map_err :: "('e \<Rightarrow> 'f) \<Rightarrow> ('e, 'a) outcome \<Rightarrow> ('f, 'a) outcome" where
  "map_err g (Ok x) = Ok x"
| "map_err g (Err e) = Err (g e)"
| "map_err g Panic = Panic"

fun is_ok :: "('e, 'a) outcome \<Rightarrow> bool" where
  "is_ok (Ok x) = True"
| "is_ok (Err e) = False"
| "is_ok Panic = False"

lemma and_then_Ok_iff: "and_then r f = Ok y \<longleftrightarrow> (\<exists>x. r = Ok x \<and> f x = Ok y)"
  by (cases r) auto

lemma and_then_Panic_iff: "and_then r f = Panic \<longleftrightarrow> r = Panic \<or> (\<exists>x. r = Ok x \<and> f x = Panic)"
  by (cases r) auto

lemma and_then_Err_iff: "and_then r f = Err e \<longleftrightarrow> r = Err e \<or> (\<exists>x. r = Ok x \<and> f x = Err e)"
  by (cases r) auto

lemma map_err_Ok_iff [simp]: "map_err g r = Ok x \<longleftrightarrow> r = Ok x"
  by (cases r) auto

lemma is_ok_iff: "is_ok r \<longleftrightarrow> (\<exists>x. r = Ok x)"
  by (cases r) auto

text \<open>
  Calls that also change the world outside the program: a program takes the world and returns
  its outcome with the changed world.  \<open>io_then\<close> runs one program after another, \<open>io_try\<close>
  goes on whatever error the first one returns (the caller logs or ignores it).
\<close>

type_synonym ('e, 'a, 'w) io = "'w \<Rightarrow> ('e, 'a) outcome \<times> 'w"

definition io_return :: "'a \<Rightarrow> ('e, 'a, 'w) io" where
  "io_return x w = (Ok x, w)"

definition io_fail :: "'e \<Rightarrow> ('e, 'a, 'w) io" where
  "io_fail e w = (Err e, w)"

definition io_then :: "('e, 'a, 'w) io \<Rightarrow> ('a \<Rightarrow> ('e, 'b, 'w) io) \<Rightarrow> ('e, 'b, 'w) io" where
  "io_then c f w = (case c w of (Ok x, w') \<Rightarrow> f x w' | (Err e, w') \<Rightarrow> (Err e, w') | (Panic, w') \<Rightarrow> (Panic, w'))"

definition io_try :: "('d, 'a, 'w) io \<Rightarrow> ('e, 'b, 'w) io \<Rightarrow> ('e, 'b, 'w) io" where
  "io_try c d w = (case c w of (Panic, w') \<Rightarrow> (Panic, w') | (_, w') \<Rightarrow> d w')"

text \<open>\<open>io_defer\<close> runs a deferred call after a function body, whatever its outcome.\<close>

definition io_defer :: "('e, 'a, 'w) io \<Rightarrow> ('w \<Rightarrow> 'w) \<Rightarrow> ('e, 'a, 'w) io" where
  "io_defer c d w = (case c w of (r, w') \<Rightarrow> (r, d w'))"

definition io_map_err :: "('e \<Rightarrow> 'f) \<Rightarrow> ('e, 'a, 'w) io \<Rightarrow> ('f, 'a, 'w) io" where
  "io_map_err g c w = (case c w of (r, w') \<Rightarrow> (map_err g r, w'))"

definition io_read :: "('w \<Rightarrow> ('e, 'a) outcome) \<Rightarrow> ('e, 'a, 'w) io" where
  "io_read f w = (f w, w)"

lemma io_read_eq [simp]: "io_read f w = (f w, w)"
  by (simp add: io_read_def)

lemma io_then_Ok_iff:
  "io_then c f w = (Ok y, w'') \<longleftrightarrow> (\<exists>x w'. c w = (Ok x, w') \<and> f x w' = (Ok y, w''))"
  by (auto simp: io_then_def split: prod.splits outcome.splits)

lemma io_then_OkE:
  assumes "io_then c f w = (Ok y, w'')"
  obtains x w' where "c w = (Ok x, w')" and "f x w' = (Ok y, w'')"
  using assms io_then_Ok_iff by metis

lemma io_map_err_Ok_iff [simp]: "io_map_err g c w = (Ok x, w') \<longleftrightarrow> c w = (Ok x, w')"
  by (auto simp: io_map_err_def split: prod.splits)

lemma io_return_eq [simp]: "io_return x w = (Ok x, w)"
  by (simp add: io_return_def)

lemma io_fail_eq [simp]: "io_fail e w = (Err e, w)"
  by (simp add: io_fail_def)

text \<open>Programs that leave a view of the world unchanged, closed under the combinators.\<close>

definition io_keeps :: "('w \<Rightarrow> 'x) \<Rightarrow> ('e, 'a, 'w) io \<Rightarrow> bool" where
  "io_keeps v c \<longleftrightarrow> (\<forall>w. v (snd (c w)) = v w)"

named_theorems io_keeps_intros \<open>rules that follow the structure of a program that keeps a view\<close>

lemma io_keepsD: "io_keeps v c \<Longrightarrow> c w = (r, w') \<Longrightarrow> v w' = v w"
  by (metis io_keeps_def snd_conv)

lemma io_keeps_basic [io_keeps_intros]:
  "io_keeps v (io_return x)" "io_keeps v (io_fail e)" "io_keeps v (io_read f)" "io_keeps v (Pair r)"
  by (simp_all add: io_keeps_def)

lemma io_keeps_then [io_keeps_intros]:
  assumes "io_keeps v c" and "\<And>x. io_keeps v (f x)"
  shows "io_keeps v (io_then c f)"
  unfolding io_keeps_def
proof
  fix w
  obtain r w' where c: "c w = (r, w')" by fastforce
  then have "v w' = v w" using assms(1) by (rule io_keepsD [rotated])
  with c assms(2) show "v (snd (io_then c f w)) = v w" by (cases r) (simp_all add: io_then_def io_keeps_def)
qed

lemma io_keeps_map_err [io_keeps_intros]: "io_keeps v c \<Longrightarrow> io_keeps v (io_map_err g c)"
  by (simp add: io_keeps_def io_map_err_def split_beta)

section \<open>Integer division\<close>

text \<open>
  Division and remainder of Go's integer types.  A zero divisor is a run-time panic; signed
  division truncates towards zero.
\<close>

definition i64_quot :: "i64 \<Rightarrow> i64 \<Rightarrow> i64" where
  "i64_quot a b = word_of_int (sint a sdiv sint b)"

definition i64_rem :: "i64 \<Rightarrow> i64 \<Rightarrow> i64" where
  "i64_rem a b = word_of_int (sint a smod sint b)"

definition i64_div :: "i64 \<Rightarrow> i64 \<Rightarrow> ('e, i64) outcome" where
  "i64_div a b = (if b = 0 then Panic else Ok (i64_quot a b))"

definition i64_mod :: "i64 \<Rightarrow> i64 \<Rightarrow> ('e, i64) outcome" where
  "i64_mod a b = (if b = 0 then Panic else Ok (i64_rem a b))"

definition u64_div :: "u64 \<Rightarrow> u64 \<Rightarrow> ('e, u64) outcome" where
  "u64_div a b = (if b = 0 then Panic else Ok (a div b))"

definition u64_mod :: "u64 \<Rightarrow> u64 \<Rightarrow> ('e, u64) outcome" where
  "u64_mod a b = (if b = 0 then Panic else Ok (a mod b))"

section \<open>Words as natural numbers\<close>

named_theorems go_nat \<open>conversions of 64-bit arithmetic to the natural numbers\<close>

lemma unat_u64_bound: "unat (w :: u64) < 18446744073709551616"
  using unsigned_less [of w] by simp

lemma unat_add_exact [go_nat]:
  "unat a + unat b < 18446744073709551616 \<Longrightarrow> unat (a + b :: u64) = unat a + unat b"
  by (simp add: unat_word_ariths)

lemma unat_mult_exact [go_nat]:
  "unat a * unat b < 18446744073709551616 \<Longrightarrow> unat (a * b :: u64) = unat a * unat b"
  by (simp add: unat_word_ariths)

lemma unat_sub_exact [go_nat]: "unat b \<le> unat a \<Longrightarrow> unat (a - b :: u64) = unat a - unat b"
  by (simp add: unat_sub word_le_nat_alt)

lemma le_unat [go_nat]: "a \<le> b \<longleftrightarrow> unat a \<le> unat (b :: u64)"
  by (rule word_le_nat_alt)

lemma less_unat [go_nat]: "a < b \<longleftrightarrow> unat a < unat (b :: u64)"
  by (rule word_less_nat_alt)

lemma eq_unat [go_nat]: "a = b \<longleftrightarrow> unat a = unat (b :: u64)"
  by (simp add: word_unat_eq_iff)

lemma sint_shift:
  "sint (w :: u64) = (int (unat w) + 9223372036854775808) mod 18446744073709551616 - 9223372036854775808"
proof -
  have "sint w = take_bit 64 (uint w + 2 ^ 63) - 2 ^ 63"
    by (simp only: sint_uint signed_take_bit_eq_take_bit_shift) simp
  then show ?thesis by (simp add: take_bit_eq_mod)
qed

text \<open>A word below \<open>2 ^ 63\<close> reads the same signed and unsigned; a larger one reads negative.\<close>

lemma sint_small: "unat (w :: u64) < 9223372036854775808 \<Longrightarrow> sint w = int (unat w)"
  unfolding sint_shift by (subst mod_pos_pos_trivial) linarith+

lemma sint_large:
  assumes "9223372036854775808 \<le> unat (w :: u64)"
  shows "sint w = int (unat w) - 18446744073709551616"
proof -
  have "(int (unat w) + 9223372036854775808) mod 18446744073709551616
      = (int (unat w) - 9223372036854775808) mod 18446744073709551616"
    using mod_add_self2 [of "int (unat w) - 9223372036854775808" "18446744073709551616"]
    by (simp add: add.commute)
  also have "\<dots> = int (unat w) - 9223372036854775808"
    using assms unat_u64_bound [of w] by (subst mod_pos_pos_trivial) linarith+
  finally show ?thesis unfolding sint_shift by simp
qed

lemma sint_pos_iff: "0 < sint (w :: u64) \<longleftrightarrow> 0 < unat w \<and> unat w < 9223372036854775808"
proof (cases "unat w < 9223372036854775808")
  case True
  from sint_small [OF this] True show ?thesis by linarith
next
  case False
  then have "sint w = int (unat w) - 18446744073709551616" by (simp add: sint_large)
  with False unat_u64_bound [of w] show ?thesis by linarith
qed

text \<open>The sign of a difference of two offsets that are valid \<open>int64\<close> values.\<close>

lemma sint_diff_pos_iff:
  assumes "unat a < 9223372036854775808" and "unat b < 9223372036854775808"
  shows "0 < sint (a - b :: u64) \<longleftrightarrow> unat b < unat a"
proof (cases "unat b \<le> unat a")
  case True
  then show ?thesis using assms by (auto simp: sint_pos_iff go_nat)
next
  case False
  then have "unat (a - b) = unat a + 18446744073709551616 - unat b"
    by (simp add: unat_sub_if_size word_size)
  with False assms show ?thesis by (auto simp: sint_pos_iff)
qed

lemma unat_i64_quot:
  assumes "unat a < 9223372036854775808" and "unat b < 9223372036854775808"
  shows "unat (i64_quot a b) = unat a div unat b"
proof -
  have "sint a sdiv sint b = int (unat a div unat b)"
    unfolding sint_small [OF assms(1)] sint_small [OF assms(2)]
    by (simp add: signed_divide_int_def zdiv_int sgn_if del: of_nat_unat)
  then have "i64_quot a b = word_of_nat (unat a div unat b)" by (simp add: i64_quot_def)
  then have "unat (i64_quot a b) = (unat a div unat b) mod 2 ^ 64"
    by (simp add: unat_of_nat take_bit_eq_mod)
  moreover have "unat a div unat b < 18446744073709551616"
    using assms(1) div_le_dividend [of "unat a" "unat b"] by linarith
  ultimately show ?thesis by simp
qed

lemma unat_i64_rem:
  assumes "unat a < 9223372036854775808" and "unat b < 9223372036854775808"
  shows "unat (i64_rem a b) = unat a mod unat b"
proof -
  have "sint a smod sint b = int (unat a mod unat b)"
    unfolding sint_small [OF assms(1)] sint_small [OF assms(2)]
    by (simp add: signed_modulo_int_def signed_divide_int_def zmod_int sgn_if
        minus_div_mult_eq_mod del: of_nat_unat)
  then have "i64_rem a b = word_of_nat (unat a mod unat b)" by (simp add: i64_rem_def)
  then have "unat (i64_rem a b) = (unat a mod unat b) mod 2 ^ 64"
    by (simp add: unat_of_nat take_bit_eq_mod)
  moreover have "unat a mod unat b < 18446744073709551616"
    using assms(1) mod_less_eq_dividend [of "unat a" "unat b"] by linarith
  ultimately show ?thesis by simp
qed

lemma sint_word_of_int_small:
  assumes "0 \<le> k" and "k < 9223372036854775808"
  shows "sint (word_of_int k :: u64) = k"
proof -
  have "uint (word_of_int k :: u64) = k mod 18446744073709551616"
    by (simp add: uint_word_of_int)
  also have "\<dots> = k" using assms by (intro mod_pos_pos_trivial) linarith+
  finally have "int (unat (word_of_int k :: u64)) = k" by simp
  then show ?thesis using assms(2) sint_small [of "word_of_int k"] by linarith
qed

lemma sint_less_small:
  assumes "unat a < 9223372036854775808" and "unat b < 9223372036854775808"
  shows "sint (a :: u64) < sint (b :: u64) \<longleftrightarrow> unat a < unat b"
    and "sint a \<le> sint b \<longleftrightarrow> unat a \<le> unat b"
  unfolding sint_small [OF assms(1)] sint_small [OF assms(2)] by linarith+

lemma sint_nonneg_small: "unat (a :: u64) < 9223372036854775808 \<Longrightarrow> \<not> sint a < 0"
  using sint_small [of a] by linarith

section \<open>Lists\<close>

lemma map_filter_append [simp]: "List.map_filter f (xs @ ys) = List.map_filter f xs @ List.map_filter f ys"
  by (simp add: List.map_filter_def)

end
