(* ===== verification/Header_Mapping.thy ===== *)
theory Header_Mapping
  imports Aether_Prelude
begin

text \<open>
  The build mappings of the block-storage header,
  \<open>packages/shared/pkg/storage/header/mapping.go\<close>: \<open>BuildMap\<close>, \<open>CreateMapping\<close>,
  \<open>MergeMappings\<close> and \<open>NormalizeMappings\<close>, on 64-bit words as the code has them.
  The semantic view of a list of mappings is \<open>resolve\<close>: which build, and which offset of
  that build's storage, holds a given byte of the current layer.  The lemmas relate every
  operation to this view: merging is override of one view by the other, creating maps the
  dirty blocks in order to consecutive storage blocks, normalizing keeps the view.
\<close>

section \<open>Data and operations\<close>

record BuildMap =
  Offset :: u64
  Length :: u64
  BuildId :: uuid
  BuildStorageOffset :: u64

definition BuildMap_Copy :: "BuildMap \<Rightarrow> BuildMap" where
  "BuildMap_Copy m =
     \<lparr>Offset = Offset m, Length = Length m, BuildId = BuildId m,
      BuildStorageOffset = BuildStorageOffset m\<rparr>"

text \<open>
  \<open>CreateMapping\<close> iterates over the set bits of a third-party bit set; its method
  \<open>NextSet\<close> is the parameter \<open>nextSet\<close>.  The iteration is a loop that ends when
  \<open>nextSet\<close> finds no further bit.  The loop state is the loop variable and the three
  locals \<open>startBlock\<close>, \<open>blockLength\<close> and \<open>buildStorageOffset\<close>.
\<close>

definition block_map :: "uuid \<Rightarrow> u64 \<Rightarrow> u64 \<Rightarrow> u64 \<Rightarrow> u64 \<Rightarrow> BuildMap" where
  "block_map buildId blockSize startBlock blockLength storage =
     \<lparr>Offset = startBlock * blockSize, Length = blockLength * blockSize,
      BuildId = buildId, BuildStorageOffset = storage\<rparr>"

partial_function (option) CreateMapping_loop ::
  "(u64 \<Rightarrow> u64 option) \<Rightarrow> uuid \<Rightarrow> u64 \<Rightarrow> u64 option \<Rightarrow> u64 \<Rightarrow> u64 \<Rightarrow> u64 \<Rightarrow> BuildMap list
     \<Rightarrow> (u64 \<times> u64 \<times> u64 \<times> BuildMap list) option" where
  "CreateMapping_loop nextSet buildId blockSize cur startBlock blockLength storage mappings =
     (case cur of
        None \<Rightarrow> Some (startBlock, blockLength, storage, mappings)
      | Some blockIdx \<Rightarrow>
          if startBlock + blockLength = blockIdx then
            CreateMapping_loop nextSet buildId blockSize (nextSet (blockIdx + 1))
              startBlock (blockLength + 1) storage mappings
          else if 0 < blockLength then
            (let m = block_map buildId blockSize startBlock blockLength storage
             in CreateMapping_loop nextSet buildId blockSize (nextSet (blockIdx + 1))
                  blockIdx 1 (storage + Length m) (mappings @ [m]))
          else
            CreateMapping_loop nextSet buildId blockSize (nextSet (blockIdx + 1))
              blockIdx 1 storage mappings)"

definition CreateMapping ::
  "uuid \<Rightarrow> (u64 \<Rightarrow> u64 option) \<Rightarrow> i64 \<Rightarrow> BuildMap list option" where
  "CreateMapping buildId nextSet blockSize =
     map_option
       (\<lambda>(startBlock, blockLength, storage, mappings).
          if 0 < blockLength
          then mappings @ [block_map buildId blockSize startBlock blockLength storage]
          else mappings)
       (CreateMapping_loop nextSet buildId blockSize (nextSet 0) 0 0 0 [])"

text \<open>
  \<open>MergeMappings\<close>.  The indices \<open>baseIdx\<close> and \<open>diffIdx\<close> are the list of mappings that
  remain, and the store of the right part into \<open>baseMapping[baseIdx]\<close> replaces the first
  remaining base.  The differences are computed on \<open>int64\<close>, so their signs are read with
  \<open>sint\<close>.
\<close>

abbreviation map_end :: "BuildMap \<Rightarrow> u64" where
  "map_end m \<equiv> Offset m + Length m"

definition leftBase :: "BuildMap \<Rightarrow> BuildMap \<Rightarrow> BuildMap list" where
  "leftBase base diff =
     (let leftBaseLength = Offset diff - Offset base
      in if 0 < sint leftBaseLength
         then [\<lparr>Offset = Offset base, Length = leftBaseLength, BuildId = BuildId base,
                BuildStorageOffset = BuildStorageOffset base\<rparr>]
         else [])"

definition rightBase :: "BuildMap \<Rightarrow> BuildMap \<Rightarrow> BuildMap list" where
  "rightBase base diff =
     (let rightBaseShift = Offset diff + Length diff - Offset base;
          rightBaseLength = Length base - rightBaseShift
      in if 0 < sint rightBaseLength
         then [\<lparr>Offset = Offset base + rightBaseShift, Length = rightBaseLength,
                BuildId = BuildId base,
                BuildStorageOffset = BuildStorageOffset base + rightBaseShift\<rparr>]
         else [])"

text \<open>
  The last branch of the loop only prints a message and goes round again with the same
  indices.  It is the last, unchanged recursive call below, and the termination proof shows
  that no pair of mappings reaches it, not even through wrap-around.
\<close>

function MergeMappings_loop :: "BuildMap list \<Rightarrow> BuildMap list \<Rightarrow> BuildMap list" where
  "MergeMappings_loop [] diffs = diffs"
| "MergeMappings_loop (base # bases) [] = base # bases"
| "MergeMappings_loop (base # bases) (diff # diffs) =
     (if Length base = 0 then MergeMappings_loop bases (diff # diffs)
      else if Length diff = 0 then MergeMappings_loop (base # bases) diffs
      else if map_end base \<le> Offset diff then base # MergeMappings_loop bases (diff # diffs)
      else if map_end diff \<le> Offset base then diff # MergeMappings_loop (base # bases) diffs
      else if Offset diff \<le> Offset base \<and> map_end base \<le> map_end diff
        then MergeMappings_loop bases (diff # diffs)
      else if Offset base \<le> Offset diff \<and> map_end diff \<le> map_end base
        then leftBase base diff @ diff # MergeMappings_loop (rightBase base diff @ bases) diffs
      else if Offset diff < Offset base
        then diff # MergeMappings_loop (rightBase base diff @ bases) diffs
      else if Offset base < Offset diff
        then leftBase base diff @ MergeMappings_loop bases (diff # diffs)
      else MergeMappings_loop (base # bases) (diff # diffs))"
  by pat_completeness auto
termination
  by (relation "measure (\<lambda>(bases, diffs). length bases + length diffs)")
    (auto simp: leftBase_def rightBase_def Let_def not_le)

definition MergeMappings :: "BuildMap list \<Rightarrow> BuildMap list \<Rightarrow> BuildMap list" where
  "MergeMappings baseMapping diffMapping =
     (if diffMapping = [] then baseMapping
      else MergeMappings_loop baseMapping diffMapping)"

fun NormalizeMappings_loop :: "BuildMap \<Rightarrow> BuildMap list \<Rightarrow> BuildMap list" where
  "NormalizeMappings_loop current [] = [current]"
| "NormalizeMappings_loop current (mp # mappings) =
     (if BuildId mp \<noteq> BuildId current
      then current # NormalizeMappings_loop (BuildMap_Copy mp) mappings
      else NormalizeMappings_loop (current\<lparr>Length := Length current + Length mp\<rparr>) mappings)"

fun NormalizeMappings :: "BuildMap list \<Rightarrow> BuildMap list" where
  "NormalizeMappings [] = []"
| "NormalizeMappings (m # mappings) = NormalizeMappings_loop (BuildMap_Copy m) mappings"

section \<open>The view of a list of mappings\<close>

abbreviation lo :: "BuildMap \<Rightarrow> nat" where "lo m \<equiv> unat (Offset m)"
abbreviation len :: "BuildMap \<Rightarrow> nat" where "len m \<equiv> unat (Length m)"
abbreviation hi :: "BuildMap \<Rightarrow> nat" where "hi m \<equiv> unat (Offset m) + unat (Length m)"
abbreviation store_off :: "BuildMap \<Rightarrow> nat" where "store_off m \<equiv> unat (BuildStorageOffset m)"

text \<open>
  \<open>resolve ms off\<close> is the build and the storage offset that hold byte \<open>off\<close>, if any
  mapping covers it.
\<close>

fun resolve :: "BuildMap list \<Rightarrow> nat \<Rightarrow> (uuid \<times> nat) option" where
  "resolve [] off = None"
| "resolve (m # ms) off =
     (if lo m \<le> off \<and> off < hi m then Some (BuildId m, store_off m + (off - lo m))
      else resolve ms off)"

text \<open>
  A mapping is in range when neither its end nor its storage end wraps around and its end
  is a valid \<open>int64\<close>.  A list is ordered when every mapping ends before the later ones
  start, and contiguous from \<open>a\<close> to \<open>b\<close> when each mapping starts where the previous ends.
\<close>

definition in_range :: "BuildMap \<Rightarrow> bool" where
  "in_range m \<longleftrightarrow> hi m < 9223372036854775808 \<and> store_off m + len m < 18446744073709551616"

definition ordered :: "BuildMap list \<Rightarrow> bool" where
  "ordered ms \<longleftrightarrow> sorted_wrt (\<lambda>m m'. hi m \<le> lo m') ms"

fun contiguous :: "nat \<Rightarrow> BuildMap list \<Rightarrow> nat \<Rightarrow> bool" where
  "contiguous a [] b \<longleftrightarrow> a = b"
| "contiguous a (m # ms) b \<longleftrightarrow> lo m = a \<and> contiguous (hi m) ms b"

lemma BuildMap_Copy_id [simp]: "BuildMap_Copy m = m"
  by (simp add: BuildMap_Copy_def)

lemma ordered_Nil [simp]: "ordered []"
  by (simp add: ordered_def)

lemma ordered_Cons [simp]: "ordered (m # ms) \<longleftrightarrow> (\<forall>m' \<in> set ms. hi m \<le> lo m') \<and> ordered ms"
  by (simp add: ordered_def)

lemma resolve_append: "resolve (xs @ ys) off = (case resolve xs off of None \<Rightarrow> resolve ys off | r \<Rightarrow> r)"
  by (induction xs) auto

lemma resolve_None_below: "\<forall>m \<in> set ms. off < lo m \<Longrightarrow> resolve ms off = None"
  by (induction ms) auto

lemma resolve_Some_mem:
  "resolve ms off = Some r \<Longrightarrow>
     \<exists>m \<in> set ms. lo m \<le> off \<and> off < hi m \<and> r = (BuildId m, store_off m + (off - lo m))"
  by (induction ms) (auto split: if_splits)

lemma resolve_None_iff: "resolve ms off = None \<longleftrightarrow> (\<forall>m \<in> set ms. \<not> (lo m \<le> off \<and> off < hi m))"
  by (induction ms) auto

section \<open>Merging\<close>

text \<open>The two remainders of a base mapping, read on the natural numbers.\<close>

lemma leftBase_nat:
  assumes "in_range base" and "in_range diff"
  shows "leftBase base diff =
     (if lo base < lo diff
      then [\<lparr>Offset = Offset base, Length = Offset diff - Offset base, BuildId = BuildId base,
             BuildStorageOffset = BuildStorageOffset base\<rparr>]
      else [])"
  using assms by (simp add: leftBase_def Let_def in_range_def sint_diff_pos_iff)

lemma in_range_unat_end [simp]: "in_range m \<Longrightarrow> unat (Offset m + Length m) = hi m"
  by (simp add: in_range_def go_nat)

lemma rightBase_nat:
  assumes "in_range base" and "in_range diff"
  shows "rightBase base diff =
     (if hi diff < hi base
      then [\<lparr>Offset = map_end diff, Length = map_end base - map_end diff, BuildId = BuildId base,
             BuildStorageOffset = BuildStorageOffset base + (map_end diff - Offset base)\<rparr>]
      else [])"
proof -
  have len: "Length base - (Offset diff + Length diff - Offset base) = map_end base - map_end diff"
    by (simp add: algebra_simps)
  have off: "Offset base + (Offset diff + Length diff - Offset base) = map_end diff"
    by simp
  have "0 < sint (map_end base - map_end diff) \<longleftrightarrow> hi diff < hi base"
    using assms sint_diff_pos_iff [of "map_end base" "map_end diff"] by (simp add: in_range_def)
  then show ?thesis
    by (simp only: rightBase_def Let_def len off)
qed

text \<open>One iteration of the merge, read on natural numbers.\<close>

lemma MergeMappings_loop_step:
  assumes "in_range base" and "in_range diff"
  shows "MergeMappings_loop (base # bases) (diff # diffs) =
     (if len base = 0 then MergeMappings_loop bases (diff # diffs)
      else if len diff = 0 then MergeMappings_loop (base # bases) diffs
      else if hi base \<le> lo diff then base # MergeMappings_loop bases (diff # diffs)
      else if hi diff \<le> lo base then diff # MergeMappings_loop (base # bases) diffs
      else if lo diff \<le> lo base \<and> hi base \<le> hi diff then MergeMappings_loop bases (diff # diffs)
      else if hi diff < hi base
        then leftBase base diff @ diff # MergeMappings_loop (rightBase base diff @ bases) diffs
      else leftBase base diff @ (if hi diff = hi base then diff # MergeMappings_loop bases diffs
             else MergeMappings_loop bases (diff # diffs)))"
proof -
  have e: "unat (map_end base) = hi base" "unat (map_end diff) = hi diff"
    using assms by simp_all
  show ?thesis
    by (subst MergeMappings_loop.simps(3), simp only: go_nat e unat_0)
      (auto simp: leftBase_nat [OF assms] rightBase_nat [OF assms])
qed

text \<open>
  The two parts that are cut from a base mapping, by their place and their storage: the left
  part ends where the diff starts, the right part starts where the diff ends.
\<close>

definition left_part :: "BuildMap \<Rightarrow> BuildMap \<Rightarrow> BuildMap \<Rightarrow> bool" where
  "left_part l b d \<longleftrightarrow>
     in_range l \<and> BuildId l = BuildId b \<and> lo l = lo b \<and> hi l = lo d \<and> store_off l = store_off b"

definition right_part :: "BuildMap \<Rightarrow> BuildMap \<Rightarrow> BuildMap \<Rightarrow> bool" where
  "right_part r b d \<longleftrightarrow>
     in_range r \<and> BuildId r = BuildId b \<and> lo r = hi d \<and> hi r = hi b
       \<and> store_off r = store_off b + (hi d - lo b)"

lemma right_part_intro:
  assumes "in_range b" and "in_range d" and "lo b \<le> hi d" and "hi d < hi b"
  shows "right_part \<lparr>Offset = map_end d, Length = map_end b - map_end d, BuildId = BuildId b,
           BuildStorageOffset = BuildStorageOffset b + (map_end d - Offset b)\<rparr> b d"
    (is "right_part ?r b d")
proof -
  have lo: "lo ?r = hi d" and len: "len ?r = hi b - hi d"
    using assms by (simp_all add: go_nat)
  have shift: "unat (map_end d - Offset b) = hi d - lo b"
    using assms by (simp add: go_nat)
  then have "store_off b + unat (map_end d - Offset b) < 18446744073709551616"
    using assms by (auto simp: in_range_def)
  from unat_add_exact [OF this] have st: "store_off ?r = store_off b + (hi d - lo b)"
    by (simp only: shift BuildMap.simps)
  have "in_range ?r"
    unfolding in_range_def lo len st using assms(1,3,4) by (auto simp: in_range_def)
  then show ?thesis
    unfolding right_part_def lo len st using assms(4) by simp
qed

lemma left_part_intro:
  assumes "in_range b" and "in_range d" and "lo b < lo d" and "lo d < hi b"
  shows "left_part \<lparr>Offset = Offset b, Length = Offset d - Offset b, BuildId = BuildId b,
           BuildStorageOffset = BuildStorageOffset b\<rparr> b d"
  using assms by (auto simp: left_part_def in_range_def go_nat)

definition mergeable :: "BuildMap list \<Rightarrow> BuildMap list \<Rightarrow> bool" where
  "mergeable bs ds \<longleftrightarrow>
     (\<forall>m \<in> set bs. in_range m) \<and> (\<forall>m \<in> set ds. in_range m) \<and> ordered bs \<and> ordered ds"

lemma mergeable_tl_base: "mergeable (b # bs) ds \<Longrightarrow> mergeable bs ds"
  by (simp add: mergeable_def)

lemma mergeable_tl_diff: "mergeable bs (d # ds) \<Longrightarrow> mergeable bs ds"
  by (simp add: mergeable_def)

lemma mergeable_right:
  assumes "mergeable (b # bs) ds" and "right_part r b d"
  shows "mergeable (r # bs) ds"
  using assms by (auto simp: mergeable_def right_part_def)

text \<open>
  The loop as an induction rule: one case for each way the first base and the first diff can
  lie to each other, with the result that the iteration contributes.  The properties of the
  merge below are instances of this rule.
\<close>

lemma merge_induct [consumes 1, case_names no_base no_diff zero_base zero_diff base_first
    diff_first covered cut_both cut_front same_end cut_back]:
  assumes pre: "mergeable bases diffs"
    and no_base: "\<And>ds. mergeable [] ds \<Longrightarrow> P [] ds ds"
    and no_diff: "\<And>b bs. mergeable (b # bs) [] \<Longrightarrow> P (b # bs) [] (b # bs)"
    and zero_base: "\<And>b bs d ds res. mergeable (b # bs) (d # ds) \<Longrightarrow> len b = 0 \<Longrightarrow>
          P bs (d # ds) res \<Longrightarrow> P (b # bs) (d # ds) res"
    and zero_diff: "\<And>b bs d ds res. mergeable (b # bs) (d # ds) \<Longrightarrow> 0 < len b \<Longrightarrow> len d = 0 \<Longrightarrow>
          P (b # bs) ds res \<Longrightarrow> P (b # bs) (d # ds) res"
    and base_first: "\<And>b bs d ds res. mergeable (b # bs) (d # ds) \<Longrightarrow> 0 < len b \<Longrightarrow> 0 < len d \<Longrightarrow>
          hi b \<le> lo d \<Longrightarrow> P bs (d # ds) res \<Longrightarrow> P (b # bs) (d # ds) (b # res)"
    and diff_first: "\<And>b bs d ds res. mergeable (b # bs) (d # ds) \<Longrightarrow> 0 < len b \<Longrightarrow> 0 < len d \<Longrightarrow>
          hi d \<le> lo b \<Longrightarrow> P (b # bs) ds res \<Longrightarrow> P (b # bs) (d # ds) (d # res)"
    and covered: "\<And>b bs d ds res. mergeable (b # bs) (d # ds) \<Longrightarrow> 0 < len b \<Longrightarrow> 0 < len d \<Longrightarrow>
          lo d \<le> lo b \<Longrightarrow> hi b \<le> hi d \<Longrightarrow> P bs (d # ds) res \<Longrightarrow> P (b # bs) (d # ds) res"
    and cut_both: "\<And>b bs d ds l r res. mergeable (b # bs) (d # ds) \<Longrightarrow> 0 < len d \<Longrightarrow>
          lo b < lo d \<Longrightarrow> hi d < hi b \<Longrightarrow> left_part l b d \<Longrightarrow> right_part r b d \<Longrightarrow>
          P (r # bs) ds res \<Longrightarrow> P (b # bs) (d # ds) (l # d # res)"
    and cut_front: "\<And>b bs d ds r res. mergeable (b # bs) (d # ds) \<Longrightarrow> 0 < len d \<Longrightarrow>
          lo d \<le> lo b \<Longrightarrow> lo b < hi d \<Longrightarrow> hi d < hi b \<Longrightarrow> right_part r b d \<Longrightarrow>
          P (r # bs) ds res \<Longrightarrow> P (b # bs) (d # ds) (d # res)"
    and same_end: "\<And>b bs d ds l res. mergeable (b # bs) (d # ds) \<Longrightarrow> 0 < len d \<Longrightarrow>
          lo b < lo d \<Longrightarrow> hi d = hi b \<Longrightarrow> left_part l b d \<Longrightarrow>
          P bs ds res \<Longrightarrow> P (b # bs) (d # ds) (l # d # res)"
    and cut_back: "\<And>b bs d ds l res. mergeable (b # bs) (d # ds) \<Longrightarrow> 0 < len d \<Longrightarrow>
          lo b < lo d \<Longrightarrow> lo d < hi b \<Longrightarrow> hi b < hi d \<Longrightarrow> left_part l b d \<Longrightarrow>
          P bs (d # ds) res \<Longrightarrow> P (b # bs) (d # ds) (l # res)"
  shows "P bases diffs (MergeMappings_loop bases diffs)"
  using pre
proof (induction "length bases + length diffs" arbitrary: bases diffs rule: less_induct)
  case less
  show ?case
  proof (cases bases)
    case Nil
    with less.prems no_base show ?thesis by simp
  next
    case bs: (Cons b bs)
    show ?thesis
    proof (cases diffs)
      case Nil
      with bs less.prems no_diff show ?thesis by simp
    next
      case ds: (Cons d ds)
      have pre: "mergeable (b # bs) (d # ds)" using less.prems bs ds by simp
      have r: "in_range b" "in_range d" using pre by (simp_all add: mergeable_def)
      note M = MergeMappings_loop_step [OF r, of bs ds]
      note LR = leftBase_nat [OF r] rightBase_nat [OF r]
      have IH: "P bs' ds' (MergeMappings_loop bs' ds')"
        if "length bs' + length ds' < length bases + length diffs" and "mergeable bs' ds'" for bs' ds'
        using less.hyps that by blast
      have rest: "P bs (d # ds) (MergeMappings_loop bs (d # ds))"
        "P (b # bs) ds (MergeMappings_loop (b # bs) ds)" "P bs ds (MergeMappings_loop bs ds)"
        using bs ds by (auto intro!: IH mergeable_tl_base [OF pre] mergeable_tl_diff [OF pre]
            mergeable_tl_diff [OF mergeable_tl_base [OF pre]])
      have right: "P (x # bs) ds (MergeMappings_loop (x # bs) ds)" if "right_part x b d" for x
        using that bs ds mergeable_right [OF mergeable_tl_diff [OF pre]] by (intro IH) auto
      note left = left_part_intro [OF r] and right_p = right_part_intro [OF r]
      have "lo b < lo d \<or> lo d \<le> lo b" "hi b < hi d \<or> hi b = hi d \<or> hi d < hi b"
        "hi b \<le> lo d \<or> lo d < hi b" "hi d \<le> lo b \<or> lo b < hi d" "len b = 0 \<or> 0 < len b"
        "len d = 0 \<or> 0 < len d" "hi b = hi d \<Longrightarrow> hi d = hi b" "hi b = hi d \<Longrightarrow> hi b \<le> hi d"
        "hi b < hi d \<Longrightarrow> hi b \<le> hi d"
        by linarith+
      then consider "len b = 0" | "0 < len b" "len d = 0"
        | "0 < len b" "0 < len d" "hi b \<le> lo d" | "0 < len b" "0 < len d" "hi d \<le> lo b"
        | "0 < len b" "0 < len d" "lo d \<le> lo b" "hi b \<le> hi d" "lo d < hi b" "lo b < hi d"
        | "0 < len d" "lo b < lo d" "hi d < hi b" | "0 < len d" "lo d \<le> lo b" "lo b < hi d" "hi d < hi b"
        | "0 < len d" "lo b < lo d" "hi d = hi b" | "0 < len d" "lo b < lo d" "lo d < hi b" "hi b < hi d"
        by blast
      then have "P (b # bs) (d # ds) (MergeMappings_loop (b # bs) (d # ds))"
      proof cases
        case 1 with M rest(1) zero_base [OF pre] show ?thesis by simp
      next
        case 2 with M rest(2) zero_diff [OF pre] show ?thesis by simp
      next
        case 3 with M rest(1) base_first [OF pre] show ?thesis by simp
      next
        case 4 with M rest(2) diff_first [OF pre] show ?thesis by simp
      next
        case 5 with M rest(1) covered [OF pre] show ?thesis by simp
      next
        case 6 with M LR cut_both [OF pre _ _ _ left right_p right] right_p show ?thesis by simp
      next
        case 7 with M LR cut_front [OF pre _ _ _ _ right_p right] right_p show ?thesis by simp
      next
        case 8 with M LR same_end [OF pre _ _ _ left rest(3)] show ?thesis by simp
      next
        case 9 with M LR cut_back [OF pre _ _ _ _ left rest(1)] show ?thesis by simp
      qed
      with bs ds show ?thesis by simp
    qed
  qed
qed

lemma ordered_resolve_tail: "ordered (m # ms) \<Longrightarrow> off < hi m \<Longrightarrow> resolve ms off = None"
  by (rule resolve_None_below) auto

lemma mergeable_tails:
  assumes "mergeable (b # bs) (d # ds)"
  shows "off < hi b \<Longrightarrow> resolve bs off = None" and "off < hi d \<Longrightarrow> resolve ds off = None"
  using assms ordered_resolve_tail [of b bs off] ordered_resolve_tail [of d ds off]
  by (simp_all add: mergeable_def)

lemma MergeMappings_loop_resolve:
  assumes "mergeable bases diffs"
  shows "resolve (MergeMappings_loop bases diffs) off =
     (case resolve diffs off of None \<Rightarrow> resolve bases off | Some r \<Rightarrow> Some r)"
  using assms
proof (induction rule: merge_induct)
  case (no_base ds)
  show ?case by (simp split: option.splits)
next
  case (no_diff b bs)
  show ?case by simp
next
  case (zero_base b bs d ds res)
  then show ?case by (auto split: option.splits)
next
  case (zero_diff b bs d ds res)
  then show ?case by auto
next
  case (base_first b bs d ds res)
  then show ?case using mergeable_tails [OF base_first(1), of off]
    by (auto split: option.splits)
next
  case (diff_first b bs d ds res)
  then show ?case by simp
next
  case (covered b bs d ds res)
  then show ?case by (auto split: option.splits)
next
  case (cut_both b bs d ds l r res)
  then show ?case using mergeable_tails [OF cut_both(1), of off]
    by (auto simp: left_part_def right_part_def split: option.splits)
next
  case (cut_front b bs d ds r res)
  then show ?case using mergeable_tails [OF cut_front(1), of off]
    by (auto simp: right_part_def split: option.splits)
next
  case (same_end b bs d ds l res)
  then show ?case using mergeable_tails [OF same_end(1), of off]
    by (auto simp: left_part_def split: option.splits)
next
  case (cut_back b bs d ds l res)
  then show ?case using mergeable_tails [OF cut_back(1), of off]
    by (auto simp: left_part_def split: option.splits)
qed

text \<open>A property of single mappings that survives cutting holds of every merged mapping.\<close>

lemma MergeMappings_loop_all:
  assumes "mergeable bases diffs" and "\<forall>m \<in> set bases. Q m" and "\<forall>m \<in> set diffs. Q m"
    and "\<And>l b d. Q b \<Longrightarrow> Q d \<Longrightarrow> in_range b \<Longrightarrow> lo b < lo d \<Longrightarrow> left_part l b d \<Longrightarrow> Q l"
    and "\<And>r b d. Q b \<Longrightarrow> Q d \<Longrightarrow> in_range b \<Longrightarrow> lo b < hi d \<Longrightarrow> hi d < hi b \<Longrightarrow> right_part r b d \<Longrightarrow> Q r"
  shows "\<forall>m \<in> set (MergeMappings_loop bases diffs). Q m"
  using assms(1-3)
proof (induction rule: merge_induct)
  case (cut_both b bs d ds l r res)
  then show ?case using assms(4) [of b d l] assms(5) [of b d r] by (auto simp: mergeable_def)
next
  case (cut_front b bs d ds r res)
  then show ?case using assms(5) [of b d r] by (auto simp: mergeable_def)
next
  case (same_end b bs d ds l res)
  then show ?case using assms(4) [of b d l] by (auto simp: mergeable_def)
next
  case (cut_back b bs d ds l res)
  then show ?case using assms(4) [of b d l] by (auto simp: mergeable_def)
qed auto

lemma MergeMappings_loop_in_range:
  assumes "mergeable bases diffs"
  shows "\<forall>m \<in> set (MergeMappings_loop bases diffs). in_range m"
  using assms
  by (rule MergeMappings_loop_all) (use assms in \<open>auto simp: mergeable_def left_part_def right_part_def\<close>)

lemma MergeMappings_loop_builds:
  assumes "mergeable bases diffs"
  shows "BuildId ` set (MergeMappings_loop bases diffs) \<subseteq> BuildId ` set bases \<union> BuildId ` set diffs"
  using MergeMappings_loop_all [OF assms, of "\<lambda>m. BuildId m \<in> BuildId ` set bases \<union> BuildId ` set diffs"]
  by (auto simp: left_part_def right_part_def)

lemma MergeMappings_loop_lower:
  assumes "mergeable bases diffs" and "\<forall>m \<in> set bases. k \<le> lo m" and "\<forall>m \<in> set diffs. k \<le> lo m"
  shows "\<forall>m \<in> set (MergeMappings_loop bases diffs). k \<le> lo m"
  using assms by (rule MergeMappings_loop_all) (auto simp: left_part_def right_part_def)

text \<open>Cutting keeps mappings non-empty, and keeps the alignment to a block size.\<close>

definition block_aligned :: "nat \<Rightarrow> BuildMap \<Rightarrow> bool" where
  "block_aligned bs m \<longleftrightarrow> bs dvd lo m \<and> bs dvd len m \<and> bs dvd store_off m \<and> 0 < len m"

lemma MergeMappings_loop_aligned:
  assumes "mergeable bases diffs" and "\<forall>m \<in> set bases. block_aligned bs m"
    and "\<forall>m \<in> set diffs. block_aligned bs m"
  shows "\<forall>m \<in> set (MergeMappings_loop bases diffs). block_aligned bs m"
  using assms
proof (rule MergeMappings_loop_all)
  fix l b d assume "block_aligned bs b" "block_aligned bs d" "lo b < lo d" "left_part l b d"
  then have "len l = lo d - lo b" by (auto simp: left_part_def)
  then show "block_aligned bs l"
    using \<open>block_aligned bs b\<close> \<open>block_aligned bs d\<close> \<open>lo b < lo d\<close> \<open>left_part l b d\<close>
    by (auto simp: block_aligned_def left_part_def dvd_diff_nat)
next
  fix r b d
  assume a: "block_aligned bs b" "block_aligned bs d" "lo b < hi d" "hi d < hi b" "right_part r b d"
  then have "len r = hi b - hi d" by (auto simp: right_part_def)
  with a show "block_aligned bs r"
    by (auto simp: block_aligned_def right_part_def intro!: dvd_diff_nat dvd_add)
qed

text \<open>The result is ordered.\<close>

lemma mergeable_lower:
  "mergeable (b # bs) (d # ds) \<Longrightarrow>
     (\<forall>m \<in> set bs. hi b \<le> lo m) \<and> (\<forall>m \<in> set ds. hi d \<le> lo m)"
  by (simp add: mergeable_def)

text \<open>Every merged mapping starts no earlier than some input mapping; so the tails stay behind.\<close>

definition merge_ordered :: "BuildMap list \<Rightarrow> BuildMap list \<Rightarrow> BuildMap list \<Rightarrow> bool" where
  "merge_ordered bs ds res \<longleftrightarrow>
     ordered res \<and> (\<forall>k. (\<forall>x \<in> set bs. k \<le> lo x) \<longrightarrow> (\<forall>x \<in> set ds. k \<le> lo x) \<longrightarrow> (\<forall>m \<in> set res. k \<le> lo m))"

lemma merge_orderedD:
  "merge_ordered bs ds res \<Longrightarrow> \<forall>x \<in> set bs. k \<le> lo x \<Longrightarrow> \<forall>x \<in> set ds. k \<le> lo x \<Longrightarrow>
     \<forall>m \<in> set res. k \<le> lo m"
  unfolding merge_ordered_def by blast

lemma merge_orderedI:
  assumes "ordered res"
    and "\<And>k. \<forall>x \<in> set bs. k \<le> lo x \<Longrightarrow> \<forall>x \<in> set ds. k \<le> lo x \<Longrightarrow> \<forall>m \<in> set res. k \<le> lo m"
  shows "merge_ordered bs ds res"
  using assms unfolding merge_ordered_def by blast

lemma merge_ordered_mono:
  assumes "merge_ordered bs ds res" and "set bs \<subseteq> set bs'" and "set ds \<subseteq> set ds'"
  shows "merge_ordered bs' ds' res"
  using assms unfolding merge_ordered_def by (meson subsetD)

lemma merge_ordered_Cons:
  assumes "merge_ordered bs ds res" and "\<forall>m \<in> set res. hi x \<le> lo m"
    and "\<exists>y \<in> set bs \<union> set ds. lo y \<le> lo x"
  shows "merge_ordered bs ds (x # res)"
proof (rule merge_orderedI)
  show "ordered (x # res)" using assms(1,2) by (simp add: merge_ordered_def)
  fix k assume k: "\<forall>y \<in> set bs. k \<le> lo y" "\<forall>y \<in> set ds. k \<le> lo y"
  then have "k \<le> lo x" using assms(3) by fastforce
  then show "\<forall>m \<in> set (x # res). k \<le> lo m" using merge_orderedD [OF assms(1) k] by simp
qed

lemma merge_ordered_right:
  assumes "merge_ordered (r # bs) ds res" and "lo b \<le> lo r"
  shows "merge_ordered (b # bs) ds res"
proof (rule merge_orderedI)
  show "ordered res" using assms(1) by (simp add: merge_ordered_def)
  fix k assume "\<forall>x \<in> set (b # bs). k \<le> lo x" "\<forall>x \<in> set ds. k \<le> lo x"
  with assms(2) show "\<forall>m \<in> set res. k \<le> lo m"
    by (intro merge_orderedD [OF assms(1)]) auto
qed

lemma MergeMappings_loop_ordered:
  assumes "mergeable bases diffs"
  shows "merge_ordered bases diffs (MergeMappings_loop bases diffs)"
  using assms
proof (induction rule: merge_induct)
  case (no_base ds)
  then show ?case by (simp add: merge_ordered_def mergeable_def)
next
  case (no_diff b bs)
  then show ?case by (simp add: merge_ordered_def mergeable_def)
next
  case (zero_base b bs d ds res)
  show ?case using zero_base.IH by (rule merge_ordered_mono) auto
next
  case (zero_diff b bs d ds res)
  show ?case using zero_diff.IH by (rule merge_ordered_mono) auto
next
  case (covered b bs d ds res)
  show ?case using covered.IH by (rule merge_ordered_mono) auto
next
  case (base_first b bs d ds res)
  have "\<forall>m \<in> set res. hi b \<le> lo m"
    using mergeable_lower [OF base_first(1)] base_first(4)
    by (intro merge_orderedD [OF base_first.IH]) auto
  then show ?case
    by (intro merge_ordered_Cons merge_ordered_mono [OF base_first.IH]) auto
next
  case (diff_first b bs d ds res)
  have "\<forall>m \<in> set res. hi d \<le> lo m"
    using mergeable_lower [OF diff_first(1)] diff_first(4)
    by (intro merge_orderedD [OF diff_first.IH]) auto
  then show ?case
    by (intro merge_ordered_Cons merge_ordered_mono [OF diff_first.IH]) auto
next
  case (cut_both b bs d ds l r res)
  note parts = cut_both(5,6) [unfolded left_part_def right_part_def]
  have low: "\<forall>m \<in> set res. hi d \<le> lo m"
    using mergeable_lower [OF cut_both(1)] cut_both(4) parts
    by (intro merge_orderedD [OF cut_both.IH]) auto
  have "merge_ordered (b # bs) ds res"
    using cut_both.IH parts cut_both(3) by (auto intro: merge_ordered_right)
  then have "merge_ordered (b # bs) (d # ds) (d # res)"
    using low by (intro merge_ordered_Cons) (auto intro: merge_ordered_mono)
  then show ?case by (rule merge_ordered_Cons) (use low parts in auto)
next
  case (cut_front b bs d ds r res)
  note parts = cut_front(6) [unfolded right_part_def]
  have low: "\<forall>m \<in> set res. hi d \<le> lo m"
    using mergeable_lower [OF cut_front(1)] cut_front(5) parts
    by (intro merge_orderedD [OF cut_front.IH]) auto
  have "merge_ordered (b # bs) ds res"
    using cut_front.IH parts cut_front(4) by (auto intro: merge_ordered_right)
  then show ?case
    using low by (intro merge_ordered_Cons) (auto intro: merge_ordered_mono)
next
  case (same_end b bs d ds l res)
  note parts = same_end(5) [unfolded left_part_def]
  have low: "\<forall>m \<in> set res. hi d \<le> lo m"
    using mergeable_lower [OF same_end(1)] same_end(4)
    by (intro merge_orderedD [OF same_end.IH]) auto
  then have "merge_ordered (b # bs) (d # ds) (d # res)"
    by (intro merge_ordered_Cons merge_ordered_mono [OF same_end.IH]) auto
  then show ?case by (rule merge_ordered_Cons) (use low parts in auto)
next
  case (cut_back b bs d ds l res)
  note parts = cut_back(6) [unfolded left_part_def]
  have "\<forall>m \<in> set res. lo d \<le> lo m"
    using mergeable_lower [OF cut_back(1)] cut_back(4)
    by (intro merge_orderedD [OF cut_back.IH]) auto
  with parts show ?case
    by (intro merge_ordered_Cons merge_ordered_mono [OF cut_back.IH]) auto
qed

text \<open>
  Contiguity.  The result starts at the first remaining diff or at the first remaining base,
  whichever is earlier, and runs without a gap to the end of the base.
\<close>

definition merge_start :: "nat \<Rightarrow> BuildMap list \<Rightarrow> nat" where
  "merge_start k ds = (case ds of [] \<Rightarrow> k | d # _ \<Rightarrow> min k (lo d))"

lemma contiguous_ge: "contiguous a ms e \<Longrightarrow> a \<le> e"
  by (induction ms arbitrary: a) (auto, fastforce)

lemma contiguous_lower: "contiguous a ms e \<Longrightarrow> m \<in> set ms \<Longrightarrow> a \<le> lo m \<and> hi m \<le> e"
  by (induction ms arbitrary: a) (auto dest: contiguous_ge, fastforce+)

lemma contiguous_ordered: "contiguous a ms e \<Longrightarrow> ordered ms"
  by (induction ms arbitrary: a) (auto dest: contiguous_lower)

lemma mergeable_next: "mergeable bs (d # d' # ds) \<Longrightarrow> hi d \<le> lo d'"
  by (simp add: mergeable_def)

lemma MergeMappings_loop_contiguous:
  assumes "mergeable bases diffs" and "contiguous k bases e"
    and "\<forall>d \<in> set diffs. 0 < len d \<and> hi d \<le> e" and "\<And>d ds. diffs = d # ds \<Longrightarrow> k \<le> hi d"
  shows "contiguous (merge_start k diffs) (MergeMappings_loop bases diffs) e"
  using assms
proof (induction arbitrary: k rule: merge_induct)
  case (no_base ds)
  show ?case
  proof (cases ds)
    case Nil
    with no_base show ?thesis by (simp add: merge_start_def)
  next
    case (Cons d ds')
    then have "hi d = e" and "ds' = []"
      using no_base by (auto simp: mergeable_def) (cases ds'; fastforce)
    with Cons no_base show ?thesis by (auto simp: merge_start_def)
  qed
next
  case (no_diff b bs)
  then show ?case by (auto simp: merge_start_def)
next
  case (zero_base b bs d ds res)
  then show ?case by (auto simp: merge_start_def)
next
  case (zero_diff b bs d ds res)
  then show ?case by auto
next
  case (base_first b bs d ds res)
  then have "contiguous (merge_start (hi b) (d # ds)) res e" by (intro base_first.IH) auto
  with base_first show ?case by (simp add: merge_start_def)
next
  case (diff_first b bs d ds res)
  note low = mergeable_lower [OF diff_first(1)]
  have "hi d = k" using diff_first by fastforce
  have "contiguous (merge_start k ds) res e"
    using diff_first low by (intro diff_first.IH) (auto dest: mergeable_next)
  moreover have "merge_start k ds = k"
    using low \<open>hi d = k\<close> by (auto simp: merge_start_def split: list.splits)
  ultimately show ?case using diff_first \<open>hi d = k\<close> by (auto simp: merge_start_def)
next
  case (covered b bs d ds res)
  then have "contiguous (merge_start (hi b) (d # ds)) res e" by (intro covered.IH) auto
  with covered show ?case by (auto simp: merge_start_def min_def split: if_splits)
next
  case (cut_both b bs d ds l r res)
  note low = mergeable_lower [OF cut_both(1)] and parts = cut_both(5,6) [unfolded left_part_def right_part_def]
  have "contiguous (merge_start (hi d) ds) res e"
    using cut_both low parts by (intro cut_both.IH) (auto dest: mergeable_next)
  moreover have "merge_start (hi d) ds = hi d"
    using low by (auto simp: merge_start_def split: list.splits)
  ultimately show ?case using cut_both(2-4,8) parts by (auto simp: merge_start_def)
next
  case (cut_front b bs d ds r res)
  note low = mergeable_lower [OF cut_front(1)] and parts = cut_front(6) [unfolded right_part_def]
  have "contiguous (merge_start (hi d) ds) res e"
    using cut_front low parts by (intro cut_front.IH) (auto dest: mergeable_next)
  moreover have "merge_start (hi d) ds = hi d"
    using low by (auto simp: merge_start_def split: list.splits)
  ultimately show ?case using cut_front(2-5,8) parts by (auto simp: merge_start_def)
next
  case (same_end b bs d ds l res)
  note low = mergeable_lower [OF same_end(1)] and parts = same_end(5) [unfolded left_part_def]
  have "contiguous (merge_start (hi b) ds) res e"
    using same_end low parts by (intro same_end.IH) (auto dest: mergeable_next)
  moreover have "merge_start (hi b) ds = hi d"
    using low same_end(4) by (auto simp: merge_start_def split: list.splits)
  ultimately show ?case using same_end(2-4,7) parts by (auto simp: merge_start_def)
next
  case (cut_back b bs d ds l res)
  note parts = cut_back(6) [unfolded left_part_def]
  have "contiguous (merge_start (hi b) (d # ds)) res e"
    using cut_back by (intro cut_back.IH) auto
  with cut_back(2-5,8) parts show ?case by (auto simp: merge_start_def)
qed

section \<open>Creating mappings from a bit set\<close>

text \<open>
  The documented behaviour of \<open>BitSet.NextSet\<close>: for a bit set whose set bits are, in
  increasing order, the list \<open>bits\<close>, it returns the first set bit at or after the given
  index, and reports failure when there is none.
\<close>

definition next_set_of :: "(u64 \<Rightarrow> u64 option) \<Rightarrow> u64 list \<Rightarrow> bool" where
  "next_set_of nextSet bits \<longleftrightarrow>
     sorted_wrt (<) bits \<and> (\<forall>i. nextSet i = find (\<lambda>b. i \<le> b) bits)"

text \<open>The loop over the bit set, as a recursion over its list of set bits.\<close>

fun runs :: "uuid \<Rightarrow> u64 \<Rightarrow> u64 list \<Rightarrow> u64 \<Rightarrow> u64 \<Rightarrow> u64 \<Rightarrow> BuildMap list" where
  "runs buildId blockSize [] startBlock blockLength storage =
     (if 0 < blockLength then [block_map buildId blockSize startBlock blockLength storage] else [])"
| "runs buildId blockSize (b # bits) startBlock blockLength storage =
     (if startBlock + blockLength = b then
        runs buildId blockSize bits startBlock (blockLength + 1) storage
      else if 0 < blockLength then
        block_map buildId blockSize startBlock blockLength storage
          # runs buildId blockSize bits b 1 (storage + blockLength * blockSize)
      else runs buildId blockSize bits b 1 storage)"

lemma find_next_bit:
  fixes b :: u64
  assumes "sorted_wrt (<) (pre @ b # rest)" and "unat b < 18446744073709551615"
  shows "find (\<lambda>x. b + 1 \<le> x) (pre @ b # rest) = (case rest of [] \<Rightarrow> None | r # _ \<Rightarrow> Some r)"
proof -
  have step: "b + 1 \<le> x \<longleftrightarrow> b < x" for x
    using assms(2) unat_add_exact [of b 1] by (simp add: le_unat less_unat Suc_le_eq)
  have "find (\<lambda>x. b < x) (pre @ b # rest) = find (\<lambda>x. b < x) rest"
    using assms(1) by (induction pre) (auto simp: sorted_wrt_append)
  also have "\<dots> = (case rest of [] \<Rightarrow> None | r # _ \<Rightarrow> Some r)"
    using assms(1) by (cases rest) (auto simp: sorted_wrt_append)
  finally show ?thesis by (simp only: step)
qed

lemma CreateMapping_loop_runs:
  assumes "next_set_of nextSet (pre @ rest)" and "\<forall>b \<in> set rest. unat b < 18446744073709551615"
  shows "\<exists>s' l' st' acc'. CreateMapping_loop nextSet buildId blockSize
            (case rest of [] \<Rightarrow> None | r # _ \<Rightarrow> Some r) s l st acc = Some (s', l', st', acc')
          \<and> (if 0 < l' then acc' @ [block_map buildId blockSize s' l' st'] else acc')
              = acc @ runs buildId blockSize rest s l st"
  using assms
proof (induction rest arbitrary: pre s l st acc)
  case Nil
  then show ?case by (simp add: CreateMapping_loop.simps)
next
  case (Cons b rest)
  have "nextSet (b + 1) = (case rest of [] \<Rightarrow> None | r # _ \<Rightarrow> Some r)"
    using Cons.prems find_next_bit [of pre b rest] by (simp add: next_set_of_def)
  moreover have "next_set_of nextSet ((pre @ [b]) @ rest)" and "\<forall>b \<in> set rest. unat b < 18446744073709551615"
    using Cons.prems by simp_all
  note IH = Cons.IH [OF this]
  ultimately show ?case
    using IH [of s "l + 1" st acc] IH [of b 1 st acc]
      IH [of b 1 "st + l * blockSize" "acc @ [block_map buildId blockSize s l st]"]
    by (subst CreateMapping_loop.simps) (auto simp: Let_def block_map_def)
qed

lemma CreateMapping_runs:
  assumes "next_set_of nextSet bits" and "\<forall>b \<in> set bits. unat b < 18446744073709551615"
  shows "CreateMapping buildId nextSet blockSize = Some (runs buildId blockSize bits 0 0 0)"
proof -
  have "nextSet 0 = (case bits of [] \<Rightarrow> None | r # _ \<Rightarrow> Some r)"
    using assms(1) by (cases bits) (auto simp: next_set_of_def)
  with CreateMapping_loop_runs [of nextSet "[]" bits buildId blockSize 0 0 0 "[]"] assms
  show ?thesis by (auto simp: CreateMapping_def)
qed

text \<open>
  The block with number \<open>k\<close> lies in a run of blocks exactly when its bytes lie in the run's
  byte range.
\<close>

lemma block_interval:
  fixes B :: nat
  assumes "0 < B"
  shows "s * B \<le> off \<and> off < s * B + l * B \<longleftrightarrow> s \<le> off div B \<and> off div B < s + l"
  using assms by (metis add_mult_distrib div_less_iff_less_mult less_eq_div_iff_mult_less_eq)

lemma block_offset: "0 < (B :: nat) \<Longrightarrow> off = (off div B) * B + off mod B"
  by simp

text \<open>The premises under which the arithmetic of the loop does not wrap around.\<close>

definition runs_fit :: "nat \<Rightarrow> nat \<Rightarrow> u64 list \<Rightarrow> nat \<Rightarrow> nat \<Rightarrow> nat \<Rightarrow> bool" where
  "runs_fit B E bits s l st \<longleftrightarrow>
     0 < B \<and> E < 9223372036854775808 \<and> sorted_wrt (<) bits
     \<and> (\<forall>b \<in> set bits. s + l \<le> unat b \<and> (unat b + 1) * B \<le> E) \<and> (s + l) * B \<le> E
     \<and> st + (l + length bits) * B < 18446744073709551616 \<and> B dvd st \<and> st \<le> s * B"

lemma runs_fit_extend:
  assumes "runs_fit B E (b # bits) s l st" and "s + l = unat b"
  shows "runs_fit B E bits s (l + 1) st"
  using assms by (auto simp: runs_fit_def less_unat algebra_simps Suc_le_eq)

lemma runs_fit_new:
  assumes "runs_fit B E (b # bits) s l st"
  shows "runs_fit B E bits (unat b) 1 (st + l * B)"
proof -
  have "(s + l) * B \<le> unat b * B" using assms by (simp add: runs_fit_def)
  then show ?thesis
    using assms by (auto simp: runs_fit_def less_unat algebra_simps Suc_le_eq)
qed

lemma runs_fit_le:
  assumes "runs_fit B E bits s l st"
  shows "s * B \<le> E" and "l * B \<le> E" and "s * B + l * B \<le> E"
  using assms by (auto simp: runs_fit_def algebra_simps)

lemma runs_fit_word:
  fixes s l st bs :: u64
  assumes "runs_fit (unat bs) E bits (unat s) (unat l) (unat st)"
  shows "unat (s + l) = unat s + unat l" and "unat (s * bs) = unat s * unat bs"
    and "unat (l * bs) = unat l * unat bs" and "unat (st + l * bs) = unat st + unat l * unat bs"
    and "bits \<noteq> [] \<Longrightarrow> unat (l + 1) = unat l + 1"
proof -
  have "0 < unat bs" and E: "E < 9223372036854775808"
    using assms by (simp_all add: runs_fit_def)
  then have "unat s + unat l \<le> (unat s + unat l) * unat bs" by simp
  also have "\<dots> \<le> E" using assms by (simp add: runs_fit_def)
  finally have sl: "unat s + unat l \<le> E" .
  with E show "unat (s + l) = unat s + unat l" and "unat (l + 1) = unat l + 1"
    using unat_add_exact [of l 1] by (simp_all add: unat_add_exact)
  show "unat (s * bs) = unat s * unat bs" and l: "unat (l * bs) = unat l * unat bs"
    using runs_fit_le [OF assms] E by (simp_all add: unat_mult_exact)
  show "unat (st + l * bs) = unat st + unat l * unat bs"
    using assms l by (simp add: unat_add_exact runs_fit_def algebra_simps)
qed

lemma block_map_nat:
  fixes s l st bs :: u64
  assumes "runs_fit (unat bs) E bits (unat s) (unat l) (unat st)"
  shows "lo (block_map i bs s l st) = unat s * unat bs" and "len (block_map i bs s l st) = unat l * unat bs"
    and "store_off (block_map i bs s l st) = unat st" and "BuildId (block_map i bs s l st) = i"
    and "in_range (block_map i bs s l st)"
proof -
  show *: "lo (block_map i bs s l st) = unat s * unat bs" "len (block_map i bs s l st) = unat l * unat bs"
    "store_off (block_map i bs s l st) = unat st" "BuildId (block_map i bs s l st) = i"
    using runs_fit_word [OF assms] by (simp_all add: block_map_def)
  show "in_range (block_map i bs s l st)"
    unfolding in_range_def * using assms by (auto simp: runs_fit_def algebra_simps)
qed

text \<open>
  The number of set bits below block \<open>k\<close>: the dirty blocks are stored one after the other,
  so this is the position of block \<open>k\<close> in the build's storage.
\<close>

definition bit_rank :: "u64 list \<Rightarrow> nat \<Rightarrow> nat" where
  "bit_rank bits k = length (filter (\<lambda>b. unat b < k) bits)"

definition runs_view :: "uuid \<Rightarrow> nat \<Rightarrow> u64 list \<Rightarrow> nat \<Rightarrow> nat \<Rightarrow> nat \<Rightarrow> nat \<Rightarrow> (uuid \<times> nat) option" where
  "runs_view i B bits s l st off =
     (let k = off div B in
      if s \<le> k \<and> k < s + l then Some (i, st + (off - s * B))
      else if k \<in> unat ` set bits
        then Some (i, st + (l + bit_rank bits k) * B + off mod B)
      else None)"

lemma bit_rank_Cons_first:
  assumes "sorted_wrt (<) (b # bits)"
  shows "bit_rank (b # bits) (unat b) = 0"
  using assms by (auto simp: bit_rank_def filter_empty_conv less_unat)

lemma runs_view_extend:
  assumes "runs_fit B E (b # bits) s l st" and "s + l = unat b"
  shows "runs_view i B bits s (l + 1) st off = runs_view i B (b # bits) s l st off"
proof (cases "off div B = unat b")
  case True
  have "0 < B" using assms by (simp add: runs_fit_def)
  have "off = unat b * B + off mod B" using True block_offset [OF \<open>0 < B\<close>, of off] by simp
  moreover have "unat b * B = s * B + l * B" by (simp add: assms(2) [symmetric] add_mult_distrib)
  ultimately have "off - s * B = l * B + off mod B" by linarith
  then show ?thesis
    using True assms bit_rank_Cons_first [of b bits]
    by (auto simp: runs_view_def Let_def runs_fit_def)
next
  case False
  then show ?thesis
    using assms by (auto simp: runs_view_def Let_def bit_rank_def runs_fit_def less_unat)
qed

lemma runs_view_new:
  assumes "runs_fit B E (b # bits) s l st" and "s + l \<noteq> unat b"
  shows "runs_view i B (b # bits) s l st off =
     (if s \<le> off div B \<and> off div B < s + l then Some (i, st + (off - s * B))
      else runs_view i B bits (unat b) 1 (st + l * B) off)"
proof (cases "off div B = unat b")
  case True
  have "0 < B" using assms by (simp add: runs_fit_def)
  have "off = unat b * B + off mod B" using True block_offset [OF \<open>0 < B\<close>, of off] by simp
  then show ?thesis
    using True assms bit_rank_Cons_first [of b bits]
    by (auto simp: runs_view_def Let_def runs_fit_def algebra_simps)
next
  case False
  then show ?thesis
    using assms by (auto simp: runs_view_def Let_def bit_rank_def runs_fit_def less_unat algebra_simps)
qed

lemma runs_resolve:
  assumes "runs_fit (unat bs) E bits (unat s) (unat l) (unat st)"
  shows "resolve (runs i bs bits s l st) off =
     runs_view i (unat bs) bits (unat s) (unat l) (unat st) off"
  using assms
proof (induction bits arbitrary: s l st)
  case Nil
  have B: "0 < unat bs" using Nil by (simp add: runs_fit_def)
  show ?case
    using block_map_nat [OF Nil, of i] block_interval [OF B, of "unat s" off "unat l"]
    by (simp add: runs_view_def Let_def word_gt_0)
next
  case (Cons b bits)
  note nat = block_map_nat [OF Cons.prems, of i] and W = runs_fit_word [OF Cons.prems]
  have eq: "s + l = b \<longleftrightarrow> unat s + unat l = unat b" by (simp add: eq_unat W(1))
  show ?case
  proof (cases "unat s + unat l = unat b")
    case True
    have "runs_fit (unat bs) E bits (unat s) (unat (l + 1)) (unat st)"
      using runs_fit_extend [OF Cons.prems True] W(5) by simp
    from Cons.IH [OF this] show ?thesis
      using True eq W(5) runs_view_extend [OF Cons.prems True] by simp
  next
    case False
    have "runs_fit (unat bs) E bits (unat b) (unat (1 :: u64)) (unat (st + l * bs))"
      using runs_fit_new [OF Cons.prems] W(4) by simp
    note IH = Cons.IH [OF this]
    show ?thesis
    proof (cases "l = 0")
      case True
      then show ?thesis
        using False eq IH runs_view_new [OF Cons.prems False, of i off] by auto
    next
      case l: False
      have B: "0 < unat bs" using Cons.prems by (simp add: runs_fit_def)
      show ?thesis
        using False eq l IH runs_view_new [OF Cons.prems False, of i off] W(4) nat
          block_interval [OF B, of "unat s" off "unat l"]
        by (simp add: word_gt_0)
    qed
  qed
qed

definition run_map :: "uuid \<Rightarrow> nat \<Rightarrow> nat \<Rightarrow> nat \<Rightarrow> BuildMap \<Rightarrow> bool" where
  "run_map i B a E m \<longleftrightarrow>
     in_range m \<and> block_aligned B m \<and> BuildId m = i \<and> store_off m \<le> lo m \<and> a \<le> lo m \<and> hi m \<le> E"

lemma block_map_run_map:
  assumes "runs_fit (unat bs) E bits (unat s) (unat l) (unat st)" and "l \<noteq> 0"
  shows "run_map i (unat bs) (unat s * unat bs) E (block_map i bs s l st)"
  using block_map_nat [OF assms(1), of i] runs_fit_le [OF assms(1)] assms(1,2)
  by (auto simp: run_map_def block_aligned_def runs_fit_def unat_gt_0)

lemma runs_maps:
  assumes "runs_fit (unat bs) E bits (unat s) (unat l) (unat st)"
  shows "(\<forall>m \<in> set (runs i bs bits s l st). run_map i (unat bs) (unat s * unat bs) E m)
    \<and> ordered (runs i bs bits s l st)"
  using assms
proof (induction bits arbitrary: s l st)
  case Nil
  then show ?case using block_map_run_map [OF Nil] by (auto simp: word_gt_0)
next
  case (Cons b bits)
  note W = runs_fit_word [OF Cons.prems]
  have eq: "s + l = b \<longleftrightarrow> unat s + unat l = unat b" by (simp add: eq_unat W(1))
  have sb: "unat s + unat l \<le> unat b" using Cons.prems by (simp add: runs_fit_def)
  then have sB: "unat s * unat bs + unat l * unat bs \<le> unat b * unat bs"
    by (metis add_mult_distrib mult_le_mono1)
  show ?case
  proof (cases "unat s + unat l = unat b")
    case True
    have "runs_fit (unat bs) E bits (unat s) (unat (l + 1)) (unat st)"
      using runs_fit_extend [OF Cons.prems True] W(5) by simp
    from Cons.IH [OF this] show ?thesis using True eq by simp
  next
    case False
    have "runs_fit (unat bs) E bits (unat b) (unat (1 :: u64)) (unat (st + l * bs))"
      using runs_fit_new [OF Cons.prems] W(4) by simp
    from Cons.IH [OF this]
    have IH: "\<forall>m \<in> set (runs i bs bits b 1 (st + l * bs)). run_map i (unat bs) (unat b * unat bs) E m"
      "ordered (runs i bs bits b 1 (st + l * bs))" by blast+
    have "\<forall>m \<in> set (runs i bs bits b 1 (st + l * bs)). run_map i (unat bs) (unat s * unat bs) E m"
      using IH(1) sB by (auto simp: run_map_def)
    moreover have "l \<noteq> 0 \<Longrightarrow>
        \<forall>m \<in> set (runs i bs bits b 1 (st + l * bs)). hi (block_map i bs s l st) \<le> lo m"
      using IH(1) sB block_map_nat [OF Cons.prems, of i] by (auto simp: run_map_def)
    ultimately show ?thesis
      using False eq IH(2) block_map_run_map [OF Cons.prems, of i] by (auto simp: word_gt_0)
  qed
qed

text \<open>
  The conditions on a bit set of dirty blocks: the bits are those of \<open>bits\<close>, and the last
  block ends within the first \<open>E\<close> bytes, which a 64-bit signed offset can address.
\<close>

definition dirty_bits :: "(u64 \<Rightarrow> u64 option) \<Rightarrow> u64 list \<Rightarrow> u64 \<Rightarrow> nat \<Rightarrow> bool" where
  "dirty_bits nextSet bits bs E \<longleftrightarrow>
     next_set_of nextSet bits \<and> 0 < unat bs \<and> E < 9223372036854775808
     \<and> (\<forall>b \<in> set bits. (unat b + 1) * unat bs \<le> E)"

lemma sorted_bits_length: "sorted_wrt (<) (bits :: u64 list) \<Longrightarrow> \<forall>b \<in> set bits. unat b < n \<Longrightarrow> length bits \<le> n"
proof -
  assume "sorted_wrt (<) bits" and b: "\<forall>b \<in> set bits. unat b < n"
  then have "distinct (map unat bits)"
    by (induction bits) (auto simp: less_unat)
  then have "length bits = card (unat ` set bits)" by (metis distinct_card length_map list.set_map)
  also have "\<dots> \<le> card {..<n}" using b by (intro card_mono) auto
  finally show ?thesis by simp
qed

lemma dirty_bits_fit:
  assumes "dirty_bits nextSet bits bs E"
  shows "runs_fit (unat bs) E bits 0 0 0" and "\<forall>b \<in> set bits. unat b < 18446744073709551615"
proof -
  have B: "0 < unat bs" and E: "E < 9223372036854775808"
    and s: "sorted_wrt (<) bits" and b: "\<forall>b \<in> set bits. (unat b + 1) * unat bs \<le> E"
    using assms by (auto simp: dirty_bits_def next_set_of_def)
  have lt: "unat b < E div unat bs" if "b \<in> set bits" for b
    using b that B by (metis Suc_eq_plus1 Suc_le_eq less_eq_div_iff_mult_less_eq)
  then have "length bits \<le> E div unat bs" using s by (intro sorted_bits_length) auto
  then have "length bits * unat bs \<le> E" using B by (simp add: less_eq_div_iff_mult_less_eq)
  then show "runs_fit (unat bs) E bits 0 0 0" using B E s b by (auto simp: runs_fit_def)
  show "\<forall>b \<in> set bits. unat b < 18446744073709551615"
  proof
    fix b assume "b \<in> set bits"
    from lt [OF this] have "unat b < E" using div_le_dividend [of E "unat bs"] by linarith
    with E show "unat b < 18446744073709551615" by simp
  qed
qed

lemma CreateMapping_view:
  assumes "dirty_bits nextSet bits bs E"
  shows "\<exists>ms. CreateMapping i nextSet bs = Some ms
    \<and> (\<forall>off. resolve ms off =
          (if off div unat bs \<in> unat ` set bits
           then Some (i, bit_rank bits (off div unat bs) * unat bs + off mod unat bs) else None))
    \<and> (\<forall>m \<in> set ms. run_map i (unat bs) 0 E m) \<and> ordered ms"
proof -
  note fit = dirty_bits_fit [OF assms]
  have fit0: "runs_fit (unat bs) E bits (unat (0 :: u64)) (unat (0 :: u64)) (unat (0 :: u64))"
    using fit(1) by simp
  have "CreateMapping i nextSet bs = Some (runs i bs bits 0 0 0)"
    using assms fit(2) by (intro CreateMapping_runs) (auto simp: dirty_bits_def)
  with runs_resolve [OF fit0, of i] runs_maps [OF fit0, of i] show ?thesis
    by (simp add: runs_view_def Let_def)
qed

section \<open>Normalizing\<close>

text \<open>
  \<open>NormalizeMappings\<close> joins neighbours with the same build without looking at their storage
  offsets.  This is sound when neighbouring bytes of one build are neighbours in its storage
  too (\<open>coherent\<close>), except for the nil build, whose blocks are zero and have no storage.
  \<open>visible\<close> forgets the storage offset of nil blocks.
\<close>

definition coherent :: "(nat \<Rightarrow> (uuid \<times> nat) option) \<Rightarrow> bool" where
  "coherent f \<longleftrightarrow>
     (\<forall>off i st st'. f off = Some (i, st) \<longrightarrow> f (Suc off) = Some (i, st') \<longrightarrow> i \<noteq> uuid_Nil
        \<longrightarrow> st' = Suc st)"

definition visible :: "(uuid \<times> nat) option \<Rightarrow> (uuid \<times> nat) option" where
  "visible = map_option (\<lambda>(i, st). if i = uuid_Nil then (i, 0) else (i, st))"

lemma coherentD:
  "coherent f \<Longrightarrow> f off = Some (i, st) \<Longrightarrow> f (Suc off) = Some (i, st') \<Longrightarrow> i \<noteq> uuid_Nil \<Longrightarrow> st' = Suc st"
  unfolding coherent_def by blast

lemma visible_Some_iff:
  "i \<noteq> uuid_Nil \<Longrightarrow> visible r = Some (i, st) \<longleftrightarrow> r = Some (i, st)"
  by (auto simp: visible_def split: prod.splits if_splits)

lemma coherent_visible:
  assumes "coherent f" and "\<And>off. visible (g off) = visible (f off)"
  shows "coherent g"
  unfolding coherent_def
proof (intro allI impI)
  fix off i st st' assume "g off = Some (i, st)" "g (Suc off) = Some (i, st')" "i \<noteq> uuid_Nil"
  then have "f off = Some (i, st)" "f (Suc off) = Some (i, st')"
    using assms(2) visible_Some_iff by metis+
  with assms(1) \<open>i \<noteq> uuid_Nil\<close> show "st' = Suc st" by (blast intro: coherentD)
qed

lemma coherent_tail:
  assumes "coherent (resolve (m # ms))" and "ordered (m # ms)"
  shows "coherent (resolve ms)"
  unfolding coherent_def
proof (intro allI impI)
  fix off i st st'
  assume r: "resolve ms off = Some (i, st)" "resolve ms (Suc off) = Some (i, st')" "i \<noteq> uuid_Nil"
  have "hi m \<le> off"
    using r(1) ordered_resolve_tail [OF assms(2), of off] by (cases "off < hi m") auto
  with r have "resolve (m # ms) off = Some (i, st)" "resolve (m # ms) (Suc off) = Some (i, st')"
    by simp_all
  with assms(1) r(3) show "st' = Suc st" by (blast intro: coherentD)
qed

text \<open>A mapping whose storage lies no further out than the block itself; all builders give such.\<close>

definition snug :: "nat \<Rightarrow> BuildMap \<Rightarrow> bool" where
  "snug B m \<longleftrightarrow> block_aligned B m \<and> store_off m \<le> lo m"

lemma snug_in_range: "snug B m \<Longrightarrow> hi m < 9223372036854775808 \<Longrightarrow> in_range m"
  by (auto simp: snug_def in_range_def)

lemma join_neighbours:
  assumes "lo mp = hi c" and "hi mp < 9223372036854775808"
  shows "hi (c\<lparr>Length := Length c + Length mp\<rparr>) = hi mp"
    and "len (c\<lparr>Length := Length c + Length mp\<rparr>) = len c + len mp"
  using assms by (simp_all add: unat_add_exact)

lemma coherent_neighbours:
  assumes "coherent (resolve (c # mp # ms))" and "lo mp = hi c" and "0 < len c" and "0 < len mp"
    and "BuildId mp = BuildId c" and "BuildId c \<noteq> uuid_Nil"
  shows "store_off mp = store_off c + len c"
proof -
  have "resolve (c # mp # ms) (hi c - 1) = Some (BuildId c, store_off c + (len c - 1))"
    using assms by auto
  moreover have "resolve (c # mp # ms) (Suc (hi c - 1)) = Some (BuildId c, store_off mp)"
    using assms by simp
  ultimately have "store_off mp = Suc (store_off c + (len c - 1))"
    using assms(1,6) by (blast intro: coherentD)
  with assms(3) show ?thesis by simp
qed

lemma join_visible:
  assumes "coherent (resolve (c # mp # ms))" and "lo mp = hi c" and "0 < len c" and "0 < len mp"
    and "BuildId mp = BuildId c" and "hi mp < 9223372036854775808"
  shows "visible (resolve (c\<lparr>Length := Length c + Length mp\<rparr> # ms) off) =
    visible (resolve (c # mp # ms) off)"
  using join_neighbours [OF assms(2,6)] coherent_neighbours [OF assms(1-5)] assms(2-5)
  by (cases "BuildId c = uuid_Nil") (auto simp: visible_def)

lemma NormalizeMappings_loop_correct:
  assumes "contiguous a (c # ms) e" and "e < 9223372036854775808"
    and "\<forall>m \<in> set (c # ms). snug B m" and "coherent (resolve (c # ms))"
  shows "contiguous a (NormalizeMappings_loop c ms) e
    \<and> (\<forall>m \<in> set (NormalizeMappings_loop c ms). snug B m)
    \<and> BuildId ` set (NormalizeMappings_loop c ms) \<subseteq> BuildId ` set (c # ms)
    \<and> (\<forall>off. visible (resolve (NormalizeMappings_loop c ms) off) = visible (resolve (c # ms) off))"
  using assms
proof (induction ms arbitrary: a c)
  case Nil
  then show ?case by simp
next
  case (Cons mp ms)
  have ord: "ordered (c # mp # ms)" using Cons.prems(1) by (rule contiguous_ordered)
  have pos: "0 < len c" "0 < len mp" and snug: "snug B c" "snug B mp"
    using Cons.prems(3) by (auto simp: snug_def block_aligned_def)
  have adj: "lo mp = hi c" using Cons.prems(1) by simp
  have "hi mp \<le> e" using contiguous_lower [OF Cons.prems(1), of mp] by simp
  then have range: "hi mp < 9223372036854775808" using Cons.prems(2) by simp
  show ?case
  proof (cases "BuildId mp = BuildId c")
    case False
    have "contiguous (hi c) (mp # ms) e" "coherent (resolve (mp # ms))"
      using Cons.prems(1) coherent_tail [OF Cons.prems(4) ord] by auto
    from Cons.IH [OF this(1) Cons.prems(2) _ this(2)] Cons.prems(1,3) False
    show ?thesis by (auto simp: visible_def)
  next
    case True
    let ?c = "c\<lparr>Length := Length c + Length mp\<rparr>"
    note j = join_neighbours [OF adj range] and v = join_visible [OF Cons.prems(4) adj pos True range]
    have eq: "NormalizeMappings_loop c (mp # ms) = NormalizeMappings_loop ?c ms" using True by simp
    have sub: "BuildId ` set (?c # ms) \<subseteq> BuildId ` set (c # mp # ms)" by auto
    have "contiguous a (?c # ms) e" using Cons.prems(1) j(1) by (auto simp: add.assoc)
    moreover have "snug B ?c"
      using snug j(2) by (auto simp: snug_def block_aligned_def)
    then have "\<forall>m \<in> set (?c # ms). snug B m" using Cons.prems(3) by simp
    moreover have "coherent (resolve (?c # ms))" using Cons.prems(4) v by (rule coherent_visible)
    ultimately show ?thesis
      unfolding eq using Cons.IH [of a ?c, unfolded v] Cons.prems(2) sub by blast
  qed
qed

section \<open>The operations on well-formed inputs\<close>

text \<open>
  The form in which the header uses the operations: mappings aligned to the block size
  \<open>B\<close> that end within \<open>E\<close> bytes.
\<close>

definition maps_within :: "nat \<Rightarrow> nat \<Rightarrow> BuildMap list \<Rightarrow> bool" where
  "maps_within B E ms \<longleftrightarrow>
     E < 9223372036854775808 \<and> ordered ms \<and> (\<forall>m \<in> set ms. snug B m \<and> hi m \<le> E)"

lemma maps_within_in_range: "maps_within B E ms \<Longrightarrow> m \<in> set ms \<Longrightarrow> in_range m"
  by (auto simp: maps_within_def intro!: snug_in_range)

lemma maps_within_mergeable: "maps_within B E bs \<Longrightarrow> maps_within B E ds \<Longrightarrow> mergeable bs ds"
  unfolding mergeable_def by (auto intro: maps_within_in_range) (auto simp: maps_within_def)

lemma MergeMappings_resolve:
  assumes "maps_within B E bs" and "maps_within B E ds"
  shows "resolve (MergeMappings bs ds) = resolve bs ++ resolve ds"
  using MergeMappings_loop_resolve [OF maps_within_mergeable [OF assms]]
  by (auto simp: MergeMappings_def fun_eq_iff map_add_def)

lemma MergeMappings_snug:
  assumes "maps_within B E bs" and "maps_within B E ds"
  shows "\<forall>m \<in> set (MergeMappings_loop bs ds). snug B m \<and> hi m \<le> E"
proof -
  note mg = maps_within_mergeable [OF assms]
  have "\<forall>m \<in> set (MergeMappings_loop bs ds). block_aligned B m"
    using mg assms by (intro MergeMappings_loop_aligned) (auto simp: maps_within_def snug_def)
  moreover have "\<forall>m \<in> set (MergeMappings_loop bs ds). store_off m \<le> lo m \<and> hi m \<le> E"
    using mg by (rule MergeMappings_loop_all)
      (use assms in \<open>auto simp: maps_within_def snug_def left_part_def right_part_def\<close>)
  ultimately show ?thesis by (auto simp: snug_def)
qed

lemma MergeMappings_within:
  assumes "maps_within B E bs" and "maps_within B E ds"
  shows "maps_within B E (MergeMappings bs ds)"
  using assms MergeMappings_snug [OF assms] MergeMappings_loop_ordered [OF maps_within_mergeable [OF assms]]
  by (simp add: MergeMappings_def maps_within_def merge_ordered_def)

lemma MergeMappings_contiguous:
  assumes "maps_within B E bs" and "maps_within B E ds" and "contiguous 0 bs E"
  shows "contiguous 0 (MergeMappings bs ds) E"
proof (cases ds)
  case Nil
  with assms show ?thesis by (simp add: MergeMappings_def)
next
  case (Cons d ds')
  have "contiguous (merge_start 0 ds) (MergeMappings_loop bs ds) E"
    using assms maps_within_mergeable [OF assms(1,2)]
    by (intro MergeMappings_loop_contiguous) (auto simp: maps_within_def snug_def block_aligned_def)
  with Cons show ?thesis by (simp add: MergeMappings_def merge_start_def)
qed

lemma MergeMappings_builds:
  assumes "maps_within B E bs" and "maps_within B E ds"
  shows "BuildId ` set (MergeMappings bs ds) \<subseteq> BuildId ` set bs \<union> BuildId ` set ds"
  using MergeMappings_loop_builds [OF maps_within_mergeable [OF assms]]
  by (auto simp: MergeMappings_def)

lemma CreateMapping_within:
  assumes "dirty_bits nextSet bits bs E" and "CreateMapping i nextSet bs = Some ms"
  shows "maps_within (unat bs) E ms" and "BuildId ` set ms \<subseteq> {i}"
  using CreateMapping_view [OF assms(1), of i] assms
  by (auto simp: maps_within_def run_map_def snug_def dirty_bits_def)

lemma NormalizeMappings_correct:
  assumes "contiguous 0 ms E" and "maps_within B E ms" and "coherent (resolve ms)"
  shows "contiguous 0 (NormalizeMappings ms) E \<and> maps_within B E (NormalizeMappings ms)
    \<and> BuildId ` set (NormalizeMappings ms) \<subseteq> BuildId ` set ms
    \<and> (\<forall>off. visible (resolve (NormalizeMappings ms) off) = visible (resolve ms off))"
proof (cases ms)
  case Nil
  with assms show ?thesis by simp
next
  case (Cons c cs)
  have "contiguous 0 (NormalizeMappings ms) E
    \<and> (\<forall>m \<in> set (NormalizeMappings ms). snug B m)
    \<and> BuildId ` set (NormalizeMappings ms) \<subseteq> BuildId ` set ms
    \<and> (\<forall>off. visible (resolve (NormalizeMappings ms) off) = visible (resolve ms off))"
    using NormalizeMappings_loop_correct [of 0 c cs E B] assms unfolding Cons maps_within_def
    by (simp only: NormalizeMappings.simps BuildMap_Copy_id) blast
  then show ?thesis
    using contiguous_ordered contiguous_lower assms(2) by (auto simp: maps_within_def)
qed

end
