(* ===== verification/Header_Index.thy ===== *)
theory Header_Index
  imports Header_Mapping
begin

text \<open>
  The header of a block-storage layer: block arithmetic (\<open>header/block.go\<close>), the empty
  block test (\<open>header/diff.go\<close>), validation and inspection of mappings
  (\<open>header/inspect.go\<close>) and the index from blocks to mappings with its lookups
  (\<open>header/header.go\<close>).  The bit set that holds the first blocks of the mappings is a
  third-party type; its operations are the fields of \<open>bitset_ops\<close> and \<open>bitset_laws\<close> states
  their documented behaviour.
\<close>

section \<open>Blocks\<close>

definition TotalBlocks :: "i64 \<Rightarrow> i64 \<Rightarrow> ('e, i64) outcome" where
  "TotalBlocks sz blockSize = i64_div (sz + blockSize - 1) blockSize"

definition BlockIdx :: "i64 \<Rightarrow> i64 \<Rightarrow> ('e, i64) outcome" where
  "BlockIdx off blockSize = i64_div off blockSize"

definition BlockOffset :: "i64 \<Rightarrow> i64 \<Rightarrow> i64" where
  "BlockOffset idx blockSize = idx * blockSize"

definition BlocksOffsets :: "i64 \<Rightarrow> i64 \<Rightarrow> ('e, i64 list) outcome" where
  "BlocksOffsets sz blockSize =
     and_then (TotalBlocks sz blockSize) (\<lambda>n.
       if sint n < 0 then Panic
       else Ok (map (\<lambda>i. BlockOffset (word_of_nat i) blockSize) [0..<nat (sint n)]))"

definition PageSize :: nat where "PageSize = push_bit 11 2"
definition HugepageSize :: nat where "HugepageSize = push_bit 20 2"
definition RootfsBlockSize :: nat where "RootfsBlockSize = push_bit 11 2"

datatype diff_error = BlockSizeNotSupported

definition IsEmptyBlock :: "byte list \<Rightarrow> i64 \<Rightarrow> (diff_error, bool) outcome" where
  "IsEmptyBlock block blockSize =
     (if blockSize = word_of_nat HugepageSize then Ok (block = replicate HugepageSize 0)
      else if blockSize = word_of_nat RootfsBlockSize then Ok (block = replicate RootfsBlockSize 0)
      else Err BlockSizeNotSupported)"

section \<open>Inspection\<close>

definition Layers :: "BuildMap list \<Rightarrow> uuid set" where
  "Layers mappings = fold (\<lambda>m layers. insert (BuildId m) layers) mappings {}"

definition BuildMap_Equal :: "BuildMap \<Rightarrow> BuildMap \<Rightarrow> bool" where
  "BuildMap_Equal mapping other \<longleftrightarrow>
     Offset mapping = Offset other \<and> Length mapping = Length other \<and> BuildId mapping = BuildId other"

fun Equal_loop :: "BuildMap list \<Rightarrow> BuildMap list \<Rightarrow> bool" where
  "Equal_loop (x # xs) (y # ys) = (if \<not> BuildMap_Equal x y then False else Equal_loop xs ys)"
| "Equal_loop _ _ = True"

definition Equal :: "BuildMap list \<Rightarrow> BuildMap list \<Rightarrow> bool" where
  "Equal a b = (if length a \<noteq> length b then False else Equal_loop a b)"

text \<open>
  The errors of \<open>ValidateMappings\<close>.  The message of the last error formats the last mapping,
  so an empty list of mappings that does not cover the size is an index out of range.  All
  messages divide by the block size.
\<close>

datatype validate_error = WrongOffset | InvalidLength | BeyondSize | NotCovered

fun ValidateMappings_loop ::
  "u64 \<Rightarrow> u64 \<Rightarrow> u64 \<Rightarrow> BuildMap list \<Rightarrow> (validate_error, u64) outcome" where
  "ValidateMappings_loop sz blockSize currentOffset [] = Ok currentOffset"
| "ValidateMappings_loop sz blockSize currentOffset (m # mappings) =
     (if currentOffset \<noteq> Offset m then (if blockSize = 0 then Panic else Err WrongOffset)
      else and_then (u64_mod (Length m) blockSize) (\<lambda>r.
        if r \<noteq> 0 then Err InvalidLength
        else if sz < currentOffset + Length m then Err BeyondSize
        else ValidateMappings_loop sz blockSize (currentOffset + Length m) mappings))"

definition ValidateMappings :: "BuildMap list \<Rightarrow> u64 \<Rightarrow> u64 \<Rightarrow> (validate_error, unit) outcome" where
  "ValidateMappings mappings sz blockSize =
     and_then (ValidateMappings_loop sz blockSize 0 mappings) (\<lambda>currentOffset.
       if currentOffset \<noteq> sz
       then (if mappings = [] \<or> blockSize = 0 then Panic else Err NotCovered)
       else Ok ())"

section \<open>The header\<close>

record Metadata =
  md_Version :: u64
  md_BlockSize :: u64
  md_Size :: u64
  md_Generation :: u64
  md_BuildId :: uuid
  md_BaseBuildId :: uuid

record 'b bitset_ops =
  bs_New :: "u64 \<Rightarrow> 'b"
  bs_Set :: "'b \<Rightarrow> u64 \<Rightarrow> 'b"
  bs_NextSet :: "'b \<Rightarrow> u64 \<Rightarrow> u64 option"
  bs_PreviousSet :: "'b \<Rightarrow> u64 \<Rightarrow> u64 option"

record 'b Header =
  h_Metadata :: Metadata
  h_blockStarts :: 'b
  h_startMap :: "i64 \<rightharpoonup> BuildMap"
  h_Mapping :: "BuildMap list"

datatype header_error =
    BlockSizeZero | OutOfBounds | NotAligned | NoSource | NoMapping | BeyondMapping
  | NegativeLength | InvalidMappings validate_error

definition NormalizeFixVersion :: u64 where "NormalizeFixVersion = 3"

fun NewHeader_loop ::
  "'b bitset_ops \<Rightarrow> u64 \<Rightarrow> BuildMap list \<Rightarrow> 'b \<Rightarrow> (i64 \<rightharpoonup> BuildMap)
     \<Rightarrow> (header_error, 'b \<times> (i64 \<rightharpoonup> BuildMap)) outcome" where
  "NewHeader_loop ops blockSize [] intervals startMap = Ok (intervals, startMap)"
| "NewHeader_loop ops blockSize (m # ms) intervals startMap =
     and_then (BlockIdx (Offset m) blockSize) (\<lambda>block.
       NewHeader_loop ops blockSize ms (bs_Set ops intervals block) (startMap(block \<mapsto> m)))"

definition NewHeader ::
  "'b bitset_ops \<Rightarrow> Metadata \<Rightarrow> BuildMap list \<Rightarrow> (header_error, 'b Header) outcome" where
  "NewHeader ops metadata mapping =
     (if md_BlockSize metadata = 0 then Err BlockSizeZero
      else
        let mapping = (if mapping = []
                       then [\<lparr>Offset = 0, Length = md_Size metadata, BuildId = md_BuildId metadata,
                              BuildStorageOffset = 0\<rparr>]
                       else mapping)
        in and_then (TotalBlocks (md_Size metadata) (md_BlockSize metadata)) (\<lambda>blocks.
           and_then (NewHeader_loop ops (md_BlockSize metadata) mapping (bs_New ops blocks) Map.empty)
             (\<lambda>(intervals, startMap).
               Ok \<lparr>h_Metadata = metadata, h_blockStarts = intervals, h_startMap = startMap,
                   h_Mapping = mapping\<rparr>)))"

definition IsNormalizeFixApplied :: "'b Header \<Rightarrow> bool" where
  "IsNormalizeFixApplied t \<longleftrightarrow> NormalizeFixVersion \<le> md_Version (h_Metadata t)"

text \<open>
  \<open>getMapping\<close>: for versions before the fix a failed check is only logged and the lookup
  goes on.
\<close>

definition getMapping ::
  "'b bitset_ops \<Rightarrow> 'b Header \<Rightarrow> i64 \<Rightarrow> (header_error, BuildMap \<times> i64) outcome" where
  "getMapping ops t off =
     (let sz = md_Size (h_Metadata t); bs = md_BlockSize (h_Metadata t);
          fix = IsNormalizeFixApplied t
      in if (sint off < 0 \<or> sint sz \<le> sint off) \<and> fix then Err OutOfBounds
         else and_then (i64_mod off bs) (\<lambda>r.
           if r \<noteq> 0 \<and> fix then Err NotAligned
           else and_then (BlockIdx off bs) (\<lambda>block.
             case bs_PreviousSet ops (h_blockStarts t) block of
               None \<Rightarrow> Err NoSource
             | Some start \<Rightarrow>
                 (case h_startMap t start of
                    None \<Rightarrow> Err NoMapping
                  | Some mapping \<Rightarrow>
                      let shift = (block - start) * bs
                      in if sint (Length mapping) \<le> sint shift \<and> fix then Err BeyondMapping
                         else Ok (mapping, shift)))))"

definition GetShiftedMapping ::
  "'b bitset_ops \<Rightarrow> 'b Header \<Rightarrow> i64 \<Rightarrow> (header_error, i64 \<times> i64 \<times> uuid) outcome" where
  "GetShiftedMapping ops t off =
     and_then (getMapping ops t off) (\<lambda>(mapping, shift).
       let mappedOffset = BuildStorageOffset mapping + shift;
           mappedLength = Length mapping - shift
       in if sint mappedLength < 0 \<and> IsNormalizeFixApplied t then Err NegativeLength
          else Ok (mappedOffset, mappedLength, BuildId mapping))"

section \<open>Block arithmetic\<close>

lemma BlockIdx_nat:
  assumes "unat off < 9223372036854775808" and "0 < unat bs" and "unat bs < 9223372036854775808"
  shows "BlockIdx off bs = Ok (i64_quot off bs)" and "unat (i64_quot off bs) = unat off div unat bs"
  using assms by (auto simp: BlockIdx_def i64_div_def unat_i64_quot)

lemma TotalBlocks_nat:
  assumes "unat sz + unat bs < 9223372036854775808" and "0 < unat bs"
  shows "\<exists>n. TotalBlocks sz bs = Ok n \<and> unat n = (unat sz + unat bs - 1) div unat bs"
proof -
  have "unat (sz + bs) = unat sz + unat bs" using assms(1) by (simp add: unat_add_exact)
  then have e: "unat (sz + bs - 1) = unat sz + unat bs - 1"
    using assms(2) unat_sub_exact [of 1 "sz + bs"] by simp
  then have "unat (i64_quot (sz + bs - 1) bs) = (unat sz + unat bs - 1) div unat bs"
    using assms by (subst unat_i64_quot) auto
  with assms(2) show ?thesis by (auto simp: TotalBlocks_def i64_div_def)
qed

text \<open>Every byte of the data lies in one of its blocks.\<close>

lemma block_below_total:
  fixes off B E :: nat
  assumes "off < E" and "0 < B"
  shows "off div B < (E + B - 1) div B"
proof -
  have "off div B + 1 = (off + B) div B" using assms(2) div_add_self2 [of B off] by simp
  also have "\<dots> \<le> (E + B - 1) div B" using assms by (intro div_le_mono) simp
  finally show ?thesis by simp
qed

section \<open>Validation\<close>

lemma ValidateMappings_loop_Ok_iff:
  assumes "0 < unat bs" and "\<forall>m \<in> set ms. hi m < 18446744073709551616"
  shows "ValidateMappings_loop sz bs cur ms = Ok e \<longleftrightarrow>
    contiguous (unat cur) ms (unat e) \<and> (\<forall>m \<in> set ms. unat bs dvd len m \<and> hi m \<le> unat sz)"
  using assms(2)
proof (induction ms arbitrary: cur)
  case Nil
  then show ?case by (auto simp: eq_unat)
next
  case (Cons m ms)
  have bs: "bs \<noteq> 0" using assms(1) by auto
  have md: "Length m mod bs \<noteq> 0 \<longleftrightarrow> \<not> unat bs dvd len m"
    by (simp add: eq_unat unat_mod mod_eq_0_iff_dvd)
  have IH: "ValidateMappings_loop sz bs (Offset m + Length m) ms = Ok e \<longleftrightarrow>
      contiguous (hi m) ms (unat e) \<and> (\<forall>m \<in> set ms. unat bs dvd len m \<and> hi m \<le> unat sz)"
    using Cons.IH [of "Offset m + Length m"] Cons.prems by (simp add: unat_add_exact)
  have lt: "sz < Offset m + Length m \<longleftrightarrow> unat sz < hi m"
    using Cons.prems by (simp add: less_unat unat_add_exact)
  show ?case
  proof (cases "cur = Offset m")
    case True
    then show ?thesis using bs by (auto simp: u64_mod_def IH lt md not_less split: if_splits)
  next
    case False
    then show ?thesis using bs by (auto simp: eq_unat [of cur])
  qed
qed

lemma ValidateMappings_Ok_iff:
  assumes "0 < unat bs" and "\<forall>m \<in> set ms. hi m < 18446744073709551616"
  shows "ValidateMappings ms sz bs = Ok () \<longleftrightarrow>
    contiguous 0 ms (unat sz) \<and> (\<forall>m \<in> set ms. unat bs dvd len m)"
proof -
  have "ValidateMappings ms sz bs = Ok () \<longleftrightarrow> ValidateMappings_loop sz bs 0 ms = Ok sz"
    by (auto simp: ValidateMappings_def and_then_Ok_iff split: if_splits)
  then show ?thesis
    using ValidateMappings_loop_Ok_iff [OF assms, of sz 0 sz] contiguous_lower by auto
qed

section \<open>Lookups\<close>

text \<open>
  The documented behaviour of the third-party bit set: \<open>elems\<close> lists the set bits in
  increasing order and \<open>cap\<close> is the length of the bit set.  \<open>PreviousSet\<close> is specified for
  indices below the length.
\<close>

definition bitset_laws :: "'b bitset_ops \<Rightarrow> ('b \<Rightarrow> u64 list) \<Rightarrow> ('b \<Rightarrow> nat) \<Rightarrow> bool" where
  "bitset_laws ops elems cap \<longleftrightarrow>
     (\<forall>n. elems (bs_New ops n) = [] \<and> cap (bs_New ops n) = unat n)
     \<and> (\<forall>b i. unat i < 9223372036854775808 \<longrightarrow>
          set (elems (bs_Set ops b i)) = insert i (set (elems b))
          \<and> cap (bs_Set ops b i) = max (cap b) (unat i + 1))
     \<and> (\<forall>b. next_set_of (bs_NextSet ops b) (elems b))
     \<and> (\<forall>b i. unat i < cap b \<longrightarrow> bs_PreviousSet ops b i = find (\<lambda>j. j \<le> i) (rev (elems b)))"

lemma previous_set_max:
  assumes "bitset_laws ops elems cap" and "unat i < cap b" and "j \<in> set (elems b)" and "j \<le> i"
    and "\<And>k. k \<in> set (elems b) \<Longrightarrow> k \<le> i \<Longrightarrow> k \<le> j"
  shows "bs_PreviousSet ops b i = Some j"
proof -
  have s: "sorted_wrt (<) (elems b)" and p: "bs_PreviousSet ops b i = find (\<lambda>j. j \<le> i) (rev (elems b))"
    using assms(1,2) by (auto simp: bitset_laws_def next_set_of_def)
  obtain k where k: "find (\<lambda>j. j \<le> i) (rev (elems b)) = Some k"
    using assms(3,4) by (metis find_None_iff2 option.exhaust set_rev)
  then obtain n where n: "n < length (elems b)" "rev (elems b) ! n \<le> i" "k = rev (elems b) ! n"
      "\<And>m. m < n \<Longrightarrow> \<not> rev (elems b) ! m \<le> i"
    by (auto simp: find_Some_iff)
  have "k \<le> j" using n assms(5) [of k] by (metis length_rev nth_mem set_rev)
  moreover have "j \<le> k"
  proof -
    obtain m where m: "m < length (elems b)" "rev (elems b) ! m = j"
      using assms(3) by (metis in_set_conv_nth length_rev set_rev)
    then have "\<not> m < n" using n(4) assms(4) by blast
    moreover have "sorted_wrt (>) (rev (elems b))" using s by (simp add: sorted_wrt_rev)
    ultimately show ?thesis
      using m n by (metis leI length_rev linorder_not_less nat_neq_iff order.strict_iff_order sorted_wrt_iff_nth_less)
  qed
  ultimately show ?thesis using p k by simp
qed

text \<open>
  A header's metadata and mappings that describe a whole layer: positive sizes that fit a
  signed offset, and mappings that are aligned, non-empty and contiguous from 0 to the size.
\<close>

definition layer_ok :: "Metadata \<Rightarrow> BuildMap list \<Rightarrow> bool" where
  "layer_ok md ms \<longleftrightarrow>
     0 < unat (md_Size md) \<and> 0 < unat (md_BlockSize md)
     \<and> unat (md_Size md) + unat (md_BlockSize md) < 9223372036854775808
     \<and> maps_within (unat (md_BlockSize md)) (unat (md_Size md)) ms
     \<and> contiguous 0 ms (unat (md_Size md))"

lemma layer_ok_nonempty: "layer_ok md ms \<Longrightarrow> ms \<noteq> []"
  by (auto simp: layer_ok_def)

lemma NewHeader_loop_Ok:
  assumes "bitset_laws ops elems cap" and "0 < unat bs" and "unat bs < 9223372036854775808"
    and "\<forall>m \<in> set ms. hi m < 9223372036854775808"
  shows "\<exists>b' f'. NewHeader_loop ops bs ms b f = Ok (b', f')
    \<and> set (elems b') = set (elems b) \<union> (\<lambda>m. i64_quot (Offset m) bs) ` set ms \<and> cap b \<le> cap b'
    \<and> (\<forall>k. f' k = (case find (\<lambda>m. i64_quot (Offset m) bs = k) (rev ms) of
                       None \<Rightarrow> f k | Some m \<Rightarrow> Some m))"
  using assms(4)
proof (induction ms arbitrary: b f)
  case Nil
  then show ?case by simp
next
  case (Cons m ms)
  let ?q = "i64_quot (Offset m) bs"
  have off: "lo m < 9223372036854775808" using Cons.prems by auto
  note q = BlockIdx_nat [OF off assms(2,3)]
  have "unat ?q < 9223372036854775808"
    using q(2) off div_le_dividend [of "lo m" "unat bs"] by linarith
  then have set: "set (elems (bs_Set ops b ?q)) = insert ?q (set (elems b))"
    "cap b \<le> cap (bs_Set ops b ?q)"
    using assms(1) by (auto simp: bitset_laws_def)
  have fnd: "find P (rev ms @ [m]) = (case find P (rev ms) of None \<Rightarrow> (if P m then Some m else None) | r \<Rightarrow> r)" for P
    by (induction ms rule: rev_induct) auto
  obtain b' f' where *: "NewHeader_loop ops bs ms (bs_Set ops b ?q) (f(?q \<mapsto> m)) = Ok (b', f')"
    "set (elems b') = insert ?q (set (elems b)) \<union> (\<lambda>m. i64_quot (Offset m) bs) ` set ms"
    "cap b \<le> cap b'"
    "\<forall>k. f' k = (case find (\<lambda>m. i64_quot (Offset m) bs = k) (rev ms) of
                       None \<Rightarrow> (f(?q \<mapsto> m)) k | Some m \<Rightarrow> Some m)"
    using Cons.IH [of "bs_Set ops b ?q" "f(?q \<mapsto> m)"] Cons.prems set by fastforce
  have "NewHeader_loop ops bs (m # ms) b f = Ok (b', f')" by (simp add: q(1) *(1))
  moreover have "f' k = (case find (\<lambda>m. i64_quot (Offset m) bs = k) (rev (m # ms)) of
                       None \<Rightarrow> f k | Some m \<Rightarrow> Some m)" for k
    using spec [OF *(4), of k]
    by (cases "find (\<lambda>m. i64_quot (Offset m) bs = k) (rev ms)") (auto simp: fnd)
  ultimately show ?case using *(2,3) by (intro exI [of _ b'] exI [of _ f']) auto
qed

text \<open>In a contiguous list of aligned mappings the mapping of a byte starts at the greatest
  first block that is not after the byte's block.\<close>

lemma aligned_div:
  fixes B :: nat
  assumes "0 < B" and "B dvd a"
  shows "a div B \<le> off div B \<longleftrightarrow> a \<le> off" and "a div B * B = a"
proof -
  show "a div B * B = a" using assms by simp
  then show "a div B \<le> off div B \<longleftrightarrow> a \<le> off"
    using assms(1) by (metis div_le_mono less_eq_div_iff_mult_less_eq)
qed

lemma contiguous_covers:
  "contiguous a ms e \<Longrightarrow> a \<le> off \<Longrightarrow> off < e \<Longrightarrow> \<exists>m \<in> set ms. lo m \<le> off \<and> off < hi m"
proof (induction ms arbitrary: a)
  case (Cons m ms)
  then show ?case by (cases "off < hi m") auto
qed simp

lemma ordered_disjoint:
  "ordered ms \<Longrightarrow> m \<in> set ms \<Longrightarrow> m' \<in> set ms \<Longrightarrow> m \<noteq> m' \<Longrightarrow> hi m \<le> lo m' \<or> hi m' \<le> lo m"
  by (induction ms) auto

lemma ordered_resolve:
  assumes "ordered ms" and "m \<in> set ms" and "lo m \<le> off" and "off < hi m"
  shows "resolve ms off = Some (BuildId m, store_off m + (off - lo m))"
  using assms
proof (induction ms)
  case (Cons x xs)
  show ?case
  proof (cases "m = x")
    case False
    then have "m \<in> set xs" using Cons.prems by simp
    then have "hi x \<le> off" using Cons.prems by fastforce
    with Cons False show ?thesis by simp
  qed (use Cons.prems in simp)
qed simp

text \<open>The header that \<open>NewHeader\<close> builds from a well-formed layer, and what its index holds.\<close>

definition indexes :: "'b bitset_ops \<Rightarrow> ('b \<Rightarrow> u64 list) \<Rightarrow> ('b \<Rightarrow> nat) \<Rightarrow> 'b Header \<Rightarrow> bool" where
  "indexes ops elems cap h \<longleftrightarrow>
     (let bs = md_BlockSize (h_Metadata h); key = (\<lambda>m. i64_quot (Offset m) bs) in
      set (elems (h_blockStarts h)) = key ` set (h_Mapping h)
      \<and> (unat (md_Size (h_Metadata h)) + unat bs - 1) div unat bs \<le> cap (h_blockStarts h)
      \<and> (\<forall>k. h_startMap h k = find (\<lambda>m. key m = k) (rev (h_Mapping h))))"

lemma NewHeader_Ok:
  assumes "bitset_laws ops elems cap" and "layer_ok md ms"
  shows "\<exists>h. NewHeader ops md ms = Ok h \<and> h_Metadata h = md \<and> h_Mapping h = ms \<and> indexes ops elems cap h"
proof -
  let ?bs = "md_BlockSize md"
  have bs: "0 < unat ?bs" "unat ?bs < 9223372036854775808"
    and sz: "unat (md_Size md) + unat ?bs < 9223372036854775808"
    and hi: "\<forall>m \<in> set ms. hi m < 9223372036854775808"
    using assms(2) by (auto simp: layer_ok_def maps_within_def)
  obtain n where n: "TotalBlocks (md_Size md) ?bs = (Ok n :: (header_error, i64) outcome)"
    "unat n = (unat (md_Size md) + unat ?bs - 1) div unat ?bs"
    using TotalBlocks_nat [OF sz bs(1)] by blast
  obtain b f where bf: "NewHeader_loop ops ?bs ms (bs_New ops n) Map.empty = Ok (b, f)"
    "set (elems b) = set (elems (bs_New ops n)) \<union> (\<lambda>m. i64_quot (Offset m) ?bs) ` set ms"
    "cap (bs_New ops n) \<le> cap b"
    "\<forall>k. f k = (case find (\<lambda>m. i64_quot (Offset m) ?bs = k) (rev ms) of
                       None \<Rightarrow> None | Some m \<Rightarrow> Some m)"
    using NewHeader_loop_Ok [OF assms(1) bs hi, of "bs_New ops n" Map.empty] by blast
  have new: "elems (bs_New ops n) = []" "cap (bs_New ops n) = unat n"
    using assms(1) by (auto simp: bitset_laws_def)
  have "?bs \<noteq> 0" using bs(1) by auto
  then have "NewHeader ops md ms =
      Ok \<lparr>h_Metadata = md, h_blockStarts = b, h_startMap = f, h_Mapping = ms\<rparr>"
    using layer_ok_nonempty [OF assms(2)] n(1) bf(1) by (simp add: NewHeader_def Let_def)
  then show ?thesis
    using bf(2-4) n(2) new by (auto simp: indexes_def Let_def split: option.splits)
qed

lemma quot_inj:
  assumes "maps_within B E ms" and "m \<in> set ms" and "m' \<in> set ms" and "B = unat bs" and "0 < B"
    and "B < 9223372036854775808" and "i64_quot (Offset m') bs = i64_quot (Offset m) bs"
  shows "m' = m"
proof (rule ccontr)
  assume "m' \<noteq> m"
  have s: "snug B m" "snug B m'" and r: "lo m < 9223372036854775808" "lo m' < 9223372036854775808"
    using assms(1-3) by (auto simp: maps_within_def)
  have "lo m' div B = lo m div B"
    using assms(4,6,7) r by (metis unat_i64_quot)
  then have "lo m' = lo m"
    using s assms(5) by (metis aligned_div(2) snug_def block_aligned_def)
  moreover have "hi m \<le> lo m' \<or> hi m' \<le> lo m"
    using ordered_disjoint assms(1-3) \<open>m' \<noteq> m\<close> by (metis maps_within_def)
  ultimately show False using s by (auto simp: snug_def block_aligned_def)
qed

lemma getMapping_finds:
  assumes laws: "bitset_laws ops elems cap" and ok: "layer_ok (h_Metadata h) (h_Mapping h)"
    and ix: "indexes ops elems cap h" and off: "unat off < unat (md_Size (h_Metadata h))"
    and al: "unat (md_BlockSize (h_Metadata h)) dvd unat off"
  shows "\<exists>m shift. getMapping ops h off = Ok (m, shift) \<and> m \<in> set (h_Mapping h)
    \<and> lo m \<le> unat off \<and> unat off < hi m \<and> unat shift = unat off - lo m"
proof -
  define bs where "bs = md_BlockSize (h_Metadata h)"
  define B where "B = unat bs"
  define E where "E = unat (md_Size (h_Metadata h))"
  let ?ms = "h_Mapping h" and ?key = "\<lambda>m. i64_quot (Offset m) bs" and ?k = "i64_quot off bs"
  have B: "0 < B" "B < 9223372036854775808" "E < 9223372036854775808" "unat off < 9223372036854775808"
    and mw: "maps_within B E ?ms" and ct: "contiguous 0 ?ms E"
    using ok off by (auto simp: layer_ok_def bs_def B_def E_def)
  have small: "lo m < 9223372036854775808" "unat (?key m) = lo m div B" "B dvd lo m" if "m \<in> set ?ms" for m
    using that mw B by (auto simp: maps_within_def B_def snug_def block_aligned_def intro!: unat_i64_quot)
  have k: "unat ?k = unat off div B" using B by (simp add: unat_i64_quot B_def)
  obtain m where m: "m \<in> set ?ms" "lo m \<le> unat off" "unat off < hi m"
    using contiguous_covers [OF ct, of "unat off"] off by (auto simp: E_def)
  have cap: "unat ?k < cap (h_blockStarts h)"
    using ix block_below_total [OF off, of B] B k by (simp add: indexes_def Let_def bs_def B_def)
  have le: "?key m' \<le> ?k \<longleftrightarrow> lo m' \<le> unat off" if "m' \<in> set ?ms" for m'
    using small [OF that] k aligned_div(1) [of B "lo m'" "unat off"] B by (simp add: le_unat)
  have prev: "bs_PreviousSet ops (h_blockStarts h) ?k = Some (?key m)"
  proof (rule previous_set_max [OF laws cap])
    have els: "set (elems (h_blockStarts h)) = ?key ` set ?ms"
      using ix by (simp add: indexes_def Let_def bs_def)
    then show "?key m \<in> set (elems (h_blockStarts h))" using m(1) by auto
    show "?key m \<le> ?k" using le [OF m(1)] m(2) by simp
    fix j assume "j \<in> set (elems (h_blockStarts h))" and "j \<le> ?k"
    then obtain m' where m': "m' \<in> set ?ms" "j = ?key m'" "lo m' \<le> unat off"
      using els le by auto
    have "lo m' \<le> lo m"
      using ordered_disjoint [of ?ms m m'] mw m m' by (cases "m = m'") (auto simp: maps_within_def)
    then show "j \<le> ?key m"
      using m'(2) small(2) [OF m(1)] small(2) [OF m'(1)] by (simp add: le_unat div_le_mono)
  qed
  have "h_startMap h (?key m) = find (\<lambda>m'. ?key m' = ?key m) (rev ?ms)"
    using ix by (simp add: indexes_def Let_def bs_def)
  also have "\<dots> = Some m"
  proof -
    obtain m' where f: "find (\<lambda>m'. ?key m' = ?key m) (rev ?ms) = Some m'"
      using m(1) by (metis (mono_tags, lifting) find_None_iff2 option.exhaust set_rev)
    then have "m' \<in> set ?ms" "?key m' = ?key m" by (auto simp: find_Some_iff) (metis length_rev nth_mem set_rev)
    then have "m' = m" using quot_inj [OF mw m(1)] B by (simp add: B_def)
    with f show ?thesis by simp
  qed
  finally have start: "h_startMap h (?key m) = Some m" .
  have q: "BlockIdx off bs = (Ok ?k :: (header_error, i64) outcome)"
    "i64_mod off bs = (Ok 0 :: (header_error, i64) outcome)"
  proof -
    have "unat (i64_rem off bs) = 0" using al B by (simp add: unat_i64_rem B_def bs_def)
    then have "i64_rem off bs = 0" by (simp add: eq_unat)
    then show "BlockIdx off bs = (Ok ?k :: (header_error, i64) outcome)"
      "i64_mod off bs = (Ok 0 :: (header_error, i64) outcome)"
      using B(1) by (auto simp: BlockIdx_def i64_div_def i64_mod_def B_def)
  qed
  define shift where "shift = (?k - ?key m) * bs"
  have shift: "unat shift = unat off - lo m"
  proof -
    have "unat (?k - ?key m) = unat off div B - lo m div B"
      using le [OF m(1)] m(2) k small(2) [OF m(1)] by (simp add: unat_sub_exact le_unat)
    moreover have "(unat off div B - lo m div B) * B = unat off - lo m"
      using al small(3) [OF m(1)] by (simp add: diff_mult_distrib B_def bs_def)
    moreover have "unat off - lo m < 18446744073709551616" using B by simp
    ultimately show ?thesis unfolding shift_def by (subst unat_mult_exact) (simp_all add: B_def)
  qed
  have "len m < 9223372036854775808" using m(1) mw B(3) by (fastforce simp: maps_within_def)
  then have "\<not> sint (Length m) \<le> sint shift"
    using shift m(2,3) B(4) by (subst sint_less_small(2)) auto
  moreover have "\<not> (sint off < 0 \<or> sint (md_Size (h_Metadata h)) \<le> sint off)"
    using sint_nonneg_small [of off]
      sint_less_small(2) [of "md_Size (h_Metadata h)" off] B off by (simp add: E_def)
  ultimately have "getMapping ops h off = Ok (m, shift)"
    using q prev start by (simp add: getMapping_def Let_def bs_def [symmetric] shift_def)
  with m shift show ?thesis by blast
qed

lemma GetShiftedMapping_resolves:
  assumes "bitset_laws ops elems cap" and "layer_ok (h_Metadata h) (h_Mapping h)"
    and "indexes ops elems cap h" and "unat off < unat (md_Size (h_Metadata h))"
    and "unat (md_BlockSize (h_Metadata h)) dvd unat off"
  shows "\<exists>o' l i. GetShiftedMapping ops h off = Ok (o', l, i)
    \<and> resolve (h_Mapping h) (unat off) = Some (i, unat o')
    \<and> 0 < unat l \<and> unat off + unat l \<le> unat (md_Size (h_Metadata h))
    \<and> (\<forall>j < unat l. resolve (h_Mapping h) (unat off + j) = Some (i, unat o' + j))"
proof -
  obtain m shift where g: "getMapping ops h off = Ok (m, shift)" and m: "m \<in> set (h_Mapping h)"
    "lo m \<le> unat off" "unat off < hi m" and s: "unat shift = unat off - lo m"
    using getMapping_finds [OF assms] by blast
  have mw: "maps_within (unat (md_BlockSize (h_Metadata h))) (unat (md_Size (h_Metadata h))) (h_Mapping h)"
    using assms(2) by (simp add: layer_ok_def)
  then have r: "hi m \<le> unat (md_Size (h_Metadata h))" "in_range m" "ordered (h_Mapping h)"
    using m(1) maps_within_in_range by (auto simp: maps_within_def)
  have o: "unat (BuildStorageOffset m + shift) = store_off m + (unat off - lo m)"
    using s m r(2) by (subst unat_add_exact) (auto simp: in_range_def)
  have l: "unat (Length m - shift) = hi m - unat off"
    using s m by (subst unat_sub_exact) auto
  have "\<not> sint (Length m - shift) < 0"
    using r(2) l by (intro sint_nonneg_small) (auto simp: in_range_def)
  then have "GetShiftedMapping ops h off = Ok (BuildStorageOffset m + shift, Length m - shift, BuildId m)"
    using g by (simp add: GetShiftedMapping_def Let_def)
  moreover have "resolve (h_Mapping h) (unat off + j) = Some (BuildId m, unat (BuildStorageOffset m + shift) + j)"
    if "j < unat (Length m - shift)" for j
    using ordered_resolve [OF r(3) m(1), of "unat off + j"] that m l o by simp
  ultimately show ?thesis
    using m r(1) l by (intro exI conjI) (auto, fastforce)
qed

end
