(* ===== verification/Header_Snapshot.thy ===== *)
theory Header_Snapshot
  imports Header_Index
begin

text \<open>
  Snapshots of a layer: the metadata of a template and of its next generations
  (\<open>header/serialization.go\<close>) and the difference of a snapshot to its base
  (\<open>header/metadata.go\<close>): the builder that sorts the written blocks into dirty and empty
  ones, and the header of the next generation.  The main result is that a lookup in the new
  header finds an empty block as the nil build, a dirty block at its place in the new build's
  storage, and every other block where the base header finds it, over any chain of snapshots.
\<close>

section \<open>Operations\<close>

definition metadataVersion :: u64 where "metadataVersion = 3"

definition NewTemplateMetadata :: "uuid \<Rightarrow> u64 \<Rightarrow> u64 \<Rightarrow> Metadata" where
  "NewTemplateMetadata buildId blockSize sz =
     \<lparr>md_Version = metadataVersion, md_BlockSize = blockSize, md_Size = sz, md_Generation = 0,
      md_BuildId = buildId, md_BaseBuildId = buildId\<rparr>"

definition NextGeneration :: "Metadata \<Rightarrow> uuid \<Rightarrow> Metadata" where
  "NextGeneration m buildID =
     \<lparr>md_Version = md_Version m, md_BlockSize = md_BlockSize m, md_Size = md_Size m,
      md_Generation = md_Generation m + 1, md_BuildId = buildID,
      md_BaseBuildId = md_BaseBuildId m\<rparr>"

record 'b DiffMetadata =
  dm_Dirty :: 'b
  dm_Empty :: 'b
  dm_BlockSize :: i64

definition ignoreBuildID :: uuid where "ignoreBuildID = uuid_Nil"

text \<open>Not returning (a bit set whose iteration does not end) is \<open>None\<close>.\<close>

definition toDiffMapping ::
  "'b bitset_ops \<Rightarrow> 'b DiffMetadata \<Rightarrow> uuid \<Rightarrow> BuildMap list option" where
  "toDiffMapping ops d buildID =
     Option.bind (CreateMapping buildID (bs_NextSet ops (dm_Dirty d)) (dm_BlockSize d)) (\<lambda>dirtyMappings.
     Option.bind (CreateMapping ignoreBuildID (bs_NextSet ops (dm_Empty d)) (dm_BlockSize d)) (\<lambda>emptyMappings.
       Some (MergeMappings dirtyMappings emptyMappings)))"

definition ToDiffHeader ::
  "'b bitset_ops \<Rightarrow> 'b DiffMetadata \<Rightarrow> 'b Header \<Rightarrow> uuid \<Rightarrow> (header_error, 'b Header) outcome option" where
  "ToDiffHeader ops d originalHeader buildID =
     map_option (\<lambda>diffMapping.
       let m = NormalizeMappings (MergeMappings (h_Mapping originalHeader) diffMapping);
           metadata = NextGeneration (h_Metadata originalHeader) buildID
       in and_then (NewHeader ops metadata m) (\<lambda>header.
            case ValidateMappings (h_Mapping header) (md_Size (h_Metadata header))
                   (md_BlockSize (h_Metadata header)) of
              Panic \<Rightarrow> Panic
            | Err e \<Rightarrow> (if IsNormalizeFixApplied header then Err (InvalidMappings e) else Ok header)
            | Ok _ \<Rightarrow> Ok header))
       (toDiffMapping ops d buildID)"

record 'b DiffMetadataBuilder =
  dmb_dirty :: 'b
  dmb_empty :: 'b
  dmb_blockSize :: i64

definition NewDiffMetadataBuilder :: "'b bitset_ops \<Rightarrow> i64 \<Rightarrow> i64 \<Rightarrow> ('e, 'b DiffMetadataBuilder) outcome" where
  "NewDiffMetadataBuilder ops sz blockSize =
     and_then (TotalBlocks sz blockSize) (\<lambda>blocks.
       Ok \<lparr>dmb_dirty = bs_New ops blocks, dmb_empty = bs_New ops 0, dmb_blockSize = blockSize\<rparr>)"

text \<open>
  \<open>Process\<close> writes to an \<open>io.Writer\<close>, which is code of the caller: \<open>write\<close> takes the block
  and the writer's state and returns the number of bytes written, or the error, and the new
  state.  The builder is updated also when the write fails.
\<close>

datatype process_error = EmptyCheck diff_error | WriteError | ShortWrite

definition DiffMetadataBuilder_Process ::
  "'b bitset_ops \<Rightarrow> (byte list \<Rightarrow> 'w \<Rightarrow> i64 option \<times> 'w) \<Rightarrow> 'b DiffMetadataBuilder \<Rightarrow> 'w \<Rightarrow> byte list
     \<Rightarrow> i64 \<Rightarrow> (process_error, unit) outcome \<times> 'b DiffMetadataBuilder \<times> 'w" where
  "DiffMetadataBuilder_Process ops write b out block off =
     (case BlockIdx off (dmb_blockSize b) of
        Panic \<Rightarrow> (Panic, b, out)
      | Err e \<Rightarrow> (Err e, b, out)
      | Ok blockIdx \<Rightarrow>
          (case IsEmptyBlock block (dmb_blockSize b) of
             Panic \<Rightarrow> (Panic, b, out)
           | Err e \<Rightarrow> (Err (EmptyCheck e), b, out)
           | Ok True \<Rightarrow> (Ok (), b\<lparr>dmb_empty := bs_Set ops (dmb_empty b) blockIdx\<rparr>, out)
           | Ok False \<Rightarrow>
               (let b' = b\<lparr>dmb_dirty := bs_Set ops (dmb_dirty b) blockIdx\<rparr>;
                    (n, out') = write block out
                in case n of
                     None \<Rightarrow> (Err WriteError, b', out')
                   | Some n \<Rightarrow>
                       (if n \<noteq> dmb_blockSize b then Err ShortWrite else Ok (), b', out'))))"

definition DiffMetadataBuilder_Build :: "'b DiffMetadataBuilder \<Rightarrow> 'b DiffMetadata" where
  "DiffMetadataBuilder_Build b =
     \<lparr>dm_Dirty = dmb_dirty b, dm_Empty = dmb_empty b, dm_BlockSize = dmb_blockSize b\<rparr>"

section \<open>The header of the next generation\<close>

text \<open>A diff whose blocks lie within the first \<open>E\<close> bytes.\<close>

definition diff_ok :: "'b bitset_ops \<Rightarrow> ('b \<Rightarrow> u64 list) \<Rightarrow> 'b DiffMetadata \<Rightarrow> Metadata \<Rightarrow> bool" where
  "diff_ok ops elems d md \<longleftrightarrow>
     dm_BlockSize d = md_BlockSize md
     \<and> (\<forall>b \<in> set (elems (dm_Dirty d)) \<union> set (elems (dm_Empty d)).
          (unat b + 1) * unat (md_BlockSize md) \<le> unat (md_Size md))"

text \<open>What the new header resolves an offset to.\<close>

definition snapshot_view :: "('b \<Rightarrow> u64 list) \<Rightarrow> 'b DiffMetadata \<Rightarrow> uuid \<Rightarrow>
    (nat \<Rightarrow> (uuid \<times> nat) option) \<Rightarrow> nat \<Rightarrow> (uuid \<times> nat) option" where
  "snapshot_view elems d buildID base off =
     (let B = unat (dm_BlockSize d); k = off div B in
      if k \<in> unat ` set (elems (dm_Empty d)) then Some (uuid_Nil, 0)
      else if k \<in> unat ` set (elems (dm_Dirty d))
        then Some (buildID, bit_rank (elems (dm_Dirty d)) k * B + off mod B)
      else visible (base off))"

lemma diff_dirty_bits:
  assumes "bitset_laws ops elems cap" and "layer_ok md ms" and "diff_ok ops elems d md"
    and "b = dm_Dirty d \<or> b = dm_Empty d"
  shows "dirty_bits (bs_NextSet ops b) (elems b) (dm_BlockSize d) (unat (md_Size md))"
  using assms by (auto simp: dirty_bits_def bitset_laws_def layer_ok_def diff_ok_def)

lemma toDiffMapping_view:
  assumes "bitset_laws ops elems cap" and "layer_ok md ms" and "diff_ok ops elems d md"
  shows "\<exists>dm. toDiffMapping ops d buildID = Some dm
    \<and> maps_within (unat (md_BlockSize md)) (unat (md_Size md)) dm
    \<and> BuildId ` set dm \<subseteq> {buildID, uuid_Nil}
    \<and> (\<forall>off. visible (resolve dm off) = visible (snapshot_view elems d buildID Map.empty off))
    \<and> (\<forall>off i st. resolve dm off = Some (i, st) \<longrightarrow> i \<noteq> uuid_Nil \<longrightarrow>
          st = bit_rank (elems (dm_Dirty d)) (off div unat (md_BlockSize md)) * unat (md_BlockSize md)
                + off mod unat (md_BlockSize md))"
proof -
  have bs: "dm_BlockSize d = md_BlockSize md" using assms(3) by (simp add: diff_ok_def)
  note D = CreateMapping_view [OF diff_dirty_bits [OF assms, of "dm_Dirty d"], of buildID, simplified]
  note M = CreateMapping_view [OF diff_dirty_bits [OF assms, of "dm_Empty d"], of uuid_Nil, simplified]
  obtain ds where ds: "CreateMapping buildID (bs_NextSet ops (dm_Dirty d)) (dm_BlockSize d) = Some ds"
    "\<And>off. resolve ds off = (if off div unat (dm_BlockSize d) \<in> unat ` set (elems (dm_Dirty d))
        then Some (buildID, bit_rank (elems (dm_Dirty d)) (off div unat (dm_BlockSize d)) *
               unat (dm_BlockSize d) + off mod unat (dm_BlockSize d)) else None)"
    using D by blast
  obtain es where es: "CreateMapping uuid_Nil (bs_NextSet ops (dm_Empty d)) (dm_BlockSize d) = Some es"
    "\<And>off. resolve es off = (if off div unat (dm_BlockSize d) \<in> unat ` set (elems (dm_Empty d))
        then Some (uuid_Nil, bit_rank (elems (dm_Empty d)) (off div unat (dm_BlockSize d)) *
               unat (dm_BlockSize d) + off mod unat (dm_BlockSize d)) else None)"
    using M by blast
  note dw = CreateMapping_within [OF diff_dirty_bits [OF assms, of "dm_Dirty d"] ds(1), simplified]
  note ew = CreateMapping_within [OF diff_dirty_bits [OF assms, of "dm_Empty d"] es(1), simplified]
  have "toDiffMapping ops d buildID = Some (MergeMappings ds es)"
    using ds(1) es(1) by (simp add: toDiffMapping_def ignoreBuildID_def)
  moreover have "resolve (MergeMappings ds es) off = (resolve ds ++ resolve es) off" for off
    using MergeMappings_resolve [OF dw(1) ew(1)] by simp
  moreover have "BuildId ` set (MergeMappings ds es) \<subseteq> {buildID, uuid_Nil}"
    using MergeMappings_builds [OF dw(1) ew(1)] dw(2) ew(2) by blast
  ultimately show ?thesis
    using MergeMappings_within [OF dw(1) ew(1)] bs
    by (intro exI [of _ "MergeMappings ds es"])
      (auto simp: map_add_def ds(2) es(2) snapshot_view_def Let_def visible_def split: if_splits)
qed

lemma bit_rank_Suc:
  assumes "sorted_wrt (<) bits" and "k \<in> unat ` set bits"
  shows "bit_rank bits (Suc k) = Suc (bit_rank bits k)"
  using assms
proof (induction bits)
  case (Cons b bits)
  show ?case
  proof (cases "unat b = k")
    case True
    then have "\<forall>x \<in> set bits. k < unat x" using Cons.prems(1) by (auto simp: less_unat)
    then have "filter (\<lambda>b. unat b < Suc k) bits = []" "filter (\<lambda>b. unat b < k) bits = []"
      by (auto simp: filter_empty_conv)
    with True show ?thesis by (simp add: bit_rank_def)
  next
    case False
    with Cons show ?thesis by (auto simp: bit_rank_def less_unat)
  qed
qed simp

lemma block_Suc:
  fixes off B :: nat
  assumes "0 < B"
  shows "Suc off div B = off div B \<and> Suc off mod B = Suc (off mod B)
    \<or> Suc off div B = Suc (off div B) \<and> Suc off mod B = 0 \<and> off mod B = B - 1"
  using assms by (cases "Suc (off mod B) = B") (auto simp: div_Suc mod_Suc)

lemma rank_offset_Suc:
  assumes "sorted_wrt (<) bits" and "0 < B" and "off div B \<in> unat ` set bits"
  shows "bit_rank bits (Suc off div B) * B + Suc off mod B = Suc (bit_rank bits (off div B) * B + off mod B)"
  using block_Suc [OF assms(2), of off] bit_rank_Suc [OF assms(1,3)] assms(2) by auto

lemma visible_simps:
  "visible None = None" "visible (Some (i, st)) = Some (i, if i = uuid_Nil then 0 else st)"
  by (simp_all add: visible_def)

lemma visible_idem [simp]: "visible (visible r) = visible r"
  by (cases r) (auto simp: visible_def split: prod.splits)

lemma visible_override:
  "visible ((f ++ g) off) = (case visible (g off) of None \<Rightarrow> visible (f off) | Some r \<Rightarrow> Some r)"
  by (auto simp: visible_def map_add_def split: option.splits)

lemma merged_coherent:
  assumes "coherent f" and "\<And>off i st. f off = Some (i, st) \<Longrightarrow> i \<noteq> new"
    and "\<And>off i st. g off = Some (i, st) \<Longrightarrow> i \<noteq> uuid_Nil \<Longrightarrow>
       i = new \<and> off div B \<in> unat ` set bits \<and> st = bit_rank bits (off div B) * B + off mod B"
    and "sorted_wrt (<) bits" and "0 < B"
  shows "coherent (f ++ g)"
  unfolding coherent_def
proof (intro allI impI)
  fix off i st st'
  assume a: "(f ++ g) off = Some (i, st)" "(f ++ g) (Suc off) = Some (i, st')" "i \<noteq> uuid_Nil"
  then consider "g off = Some (i, st)" "g (Suc off) = Some (i, st')"
    | "f off = Some (i, st)" "f (Suc off) = Some (i, st')"
    | "i = new" "\<exists>off st. f off = Some (new, st)"
    using assms(3) unfolding map_add_Some_iff by blast
  then show "st' = Suc st"
  proof cases
    case 1
    then show ?thesis using assms(3) a(3) rank_offset_Suc [OF assms(4,5), of off] by metis
  next
    case 2
    then show ?thesis using assms(1) a(3) by (blast intro: coherentD)
  next
    case 3
    then show ?thesis using assms(2) by blast
  qed
qed

lemma resolve_builds: "resolve ms off = Some (i, st) \<Longrightarrow> i \<in> BuildId ` set ms"
  using resolve_Some_mem [of ms off "(i, st)"] by auto

lemma ToDiffHeader_next:
  assumes laws: "bitset_laws ops elems cap" and ok: "layer_ok (h_Metadata h) (h_Mapping h)"
    and coh: "coherent (resolve (h_Mapping h))" and diff: "diff_ok ops elems d (h_Metadata h)"
    and new: "buildID \<noteq> uuid_Nil" "buildID \<notin> BuildId ` set (h_Mapping h)"
  shows "\<exists>h'. ToDiffHeader ops d h buildID = Some (Ok h')
    \<and> h_Metadata h' = NextGeneration (h_Metadata h) buildID
    \<and> layer_ok (h_Metadata h') (h_Mapping h') \<and> indexes ops elems cap h'
    \<and> coherent (resolve (h_Mapping h'))
    \<and> BuildId ` set (h_Mapping h') \<subseteq> BuildId ` set (h_Mapping h) \<union> {buildID, uuid_Nil}
    \<and> (\<forall>off. visible (resolve (h_Mapping h') off)
          = snapshot_view elems d buildID (resolve (h_Mapping h)) off)"
proof -
  let ?md = "h_Metadata h" and ?ms = "h_Mapping h"
  let ?B = "unat (md_BlockSize ?md)" and ?E = "unat (md_Size ?md)"
  obtain dm where dm: "toDiffMapping ops d buildID = Some dm" "maps_within ?B ?E dm"
    "BuildId ` set dm \<subseteq> {buildID, uuid_Nil}"
    "\<And>off. visible (resolve dm off) = visible (snapshot_view elems d buildID Map.empty off)"
    "\<And>off i st. resolve dm off = Some (i, st) \<Longrightarrow> i \<noteq> uuid_Nil \<Longrightarrow>
        st = bit_rank (elems (dm_Dirty d)) (off div ?B) * ?B + off mod ?B"
    using toDiffMapping_view [OF laws ok diff, of buildID] by blast
  have bs: "dm_BlockSize d = md_BlockSize ?md" and B: "0 < ?B"
    and w: "maps_within ?B ?E ?ms" and c: "contiguous 0 ?ms ?E"
    using diff ok by (auto simp: diff_ok_def layer_ok_def)
  let ?m = "MergeMappings ?ms dm"
  have res: "resolve ?m = resolve ?ms ++ resolve dm" using w dm(2) by (rule MergeMappings_resolve)
  have dirty: "i = buildID \<and> off div ?B \<in> unat ` set (elems (dm_Dirty d))"
    if "resolve dm off = Some (i, st)" "i \<noteq> uuid_Nil" for off i st
  proof -
    have "visible (resolve dm off) = Some (i, st)" using that by (simp add: visible_Some_iff)
    then show ?thesis
      using dm(4) [of off] that(2)
      by (auto simp: snapshot_view_def Let_def bs visible_def split: if_splits)
  qed
  have "coherent (resolve ?m)"
    unfolding res
  proof (rule merged_coherent [OF coh, where bits = "elems (dm_Dirty d)" and B = ?B and new = buildID])
    show "sorted_wrt (<) (elems (dm_Dirty d))" using laws by (simp add: bitset_laws_def next_set_of_def)
    show "i \<noteq> buildID" if "resolve ?ms off = Some (i, st)" for off i st
      using resolve_builds [OF that] new(2) by auto
  qed (use dirty dm(5) B in auto)
  then have N: "contiguous 0 (NormalizeMappings ?m) ?E" "maps_within ?B ?E (NormalizeMappings ?m)"
    "BuildId ` set (NormalizeMappings ?m) \<subseteq> BuildId ` set ?m"
    "\<And>off. visible (resolve (NormalizeMappings ?m) off) = visible (resolve ?m off)"
    "coherent (resolve (NormalizeMappings ?m))"
    using NormalizeMappings_correct [OF MergeMappings_contiguous [OF w dm(2) c] MergeMappings_within [OF w dm(2)]]
    by (auto intro: coherent_visible)
  let ?md' = "NextGeneration ?md buildID"
  have md': "md_Size ?md' = md_Size ?md" "md_BlockSize ?md' = md_BlockSize ?md"
    by (simp_all add: NextGeneration_def)
  have ok': "layer_ok ?md' (NormalizeMappings ?m)"
    using ok N(1,2) by (simp add: layer_ok_def md')
  obtain h' where h': "NewHeader ops ?md' (NormalizeMappings ?m) = Ok h'" "h_Metadata h' = ?md'"
    "h_Mapping h' = NormalizeMappings ?m" "indexes ops elems cap h'"
    using NewHeader_Ok [OF laws ok'] by blast
  have "ValidateMappings (NormalizeMappings ?m) (md_Size ?md) (md_BlockSize ?md) = Ok ()"
    using N(1,2) B by (subst ValidateMappings_Ok_iff)
      (auto simp: maps_within_def snug_def block_aligned_def)
  then have "ToDiffHeader ops d h buildID = Some (Ok h')"
    by (simp add: ToDiffHeader_def dm(1) h' Let_def md')
  moreover have "visible (resolve (NormalizeMappings ?m) off) = snapshot_view elems d buildID (resolve ?ms) off" for off
    using N(4) [of off] dm(4) [of off] new(1)
    unfolding res visible_override
    by (auto simp: snapshot_view_def Let_def visible_simps split: if_splits)
  moreover have "BuildId ` set (NormalizeMappings ?m) \<subseteq> BuildId ` set ?ms \<union> {buildID, uuid_Nil}"
    using N(3) MergeMappings_builds [OF w dm(2)] dm(3) by blast
  ultimately show ?thesis using h' ok' N(5) by metis
qed

section \<open>Chains of snapshots\<close>

text \<open>
  The headers that a template and any number of snapshots give: a template header is created
  from its metadata with no mappings, and each snapshot takes a new build id and a diff whose
  blocks lie in the layer.
\<close>

inductive header_chain :: "'b bitset_ops \<Rightarrow> ('b \<Rightarrow> u64 list) \<Rightarrow> 'b Header \<Rightarrow> bool"
  for ops :: "'b bitset_ops" and elems :: "'b \<Rightarrow> u64 list" where
  template: "NewHeader ops (NewTemplateMetadata buildId bs sz) [] = Ok h \<Longrightarrow>
     0 < unat sz \<Longrightarrow> unat bs dvd unat sz \<Longrightarrow> unat sz + unat bs < 9223372036854775808 \<Longrightarrow>
     header_chain ops elems h"
| snapshot: "header_chain ops elems h \<Longrightarrow> diff_ok ops elems d (h_Metadata h) \<Longrightarrow>
     buildID \<noteq> uuid_Nil \<Longrightarrow> buildID \<notin> BuildId ` set (h_Mapping h) \<Longrightarrow>
     ToDiffHeader ops d h buildID = Some (Ok h') \<Longrightarrow> header_chain ops elems h'"

definition whole_map :: "Metadata \<Rightarrow> BuildMap" where
  "whole_map md = \<lparr>Offset = 0, Length = md_Size md, BuildId = md_BuildId md, BuildStorageOffset = 0\<rparr>"

lemma NewHeader_default: "NewHeader ops md [] = NewHeader ops md [whole_map md]"
  by (simp add: NewHeader_def whole_map_def)

lemma whole_map_layer:
  assumes "0 < unat (md_Size md)" and "unat (md_BlockSize md) dvd unat (md_Size md)"
    and "unat (md_Size md) + unat (md_BlockSize md) < 9223372036854775808"
  shows "layer_ok md [whole_map md]" and "coherent (resolve [whole_map md])"
proof -
  have "0 < unat (md_BlockSize md)" using assms(1,2) by (cases "unat (md_BlockSize md) = 0") auto
  with assms show "layer_ok md [whole_map md]"
    by (simp add: layer_ok_def maps_within_def snug_def block_aligned_def whole_map_def)
  show "coherent (resolve [whole_map md])"
    by (auto simp: coherent_def whole_map_def split: if_splits)
qed

lemma header_chain_ok:
  assumes "header_chain ops elems h" and "bitset_laws ops elems cap"
  shows "layer_ok (h_Metadata h) (h_Mapping h) \<and> coherent (resolve (h_Mapping h)) \<and> indexes ops elems cap h"
  using assms
proof (induction rule: header_chain.induct)
  case (template buildId bs sz h)
  let ?md = "NewTemplateMetadata buildId bs sz"
  have md: "md_Size ?md = sz" "md_BlockSize ?md = bs" by (simp_all add: NewTemplateMetadata_def)
  have "layer_ok ?md [whole_map ?md]" "coherent (resolve [whole_map ?md])"
    using whole_map_layer [of ?md] template by (simp_all add: md)
  moreover have "NewHeader ops ?md [whole_map ?md] = Ok h"
    using template NewHeader_default [of ops ?md] by simp
  ultimately show ?case
    using NewHeader_Ok [OF template.prems, of ?md "[whole_map ?md]"] by (metis outcome.inject(1))
next
  case (snapshot h d buildID h')
  then show ?case using ToDiffHeader_next [of ops elems cap h d buildID] by auto
qed

section \<open>Building the diff\<close>

text \<open>
  The builder over a sequence of blocks with their offsets, until the first failure.
\<close>

fun process_blocks ::
  "'b bitset_ops \<Rightarrow> (byte list \<Rightarrow> 'w \<Rightarrow> i64 option \<times> 'w) \<Rightarrow> 'b DiffMetadataBuilder \<Rightarrow> 'w
     \<Rightarrow> (byte list \<times> i64) list \<Rightarrow> (process_error, unit) outcome \<times> 'b DiffMetadataBuilder \<times> 'w" where
  "process_blocks ops write b out [] = (Ok (), b, out)"
| "process_blocks ops write b out ((block, off) # rest) =
     (case DiffMetadataBuilder_Process ops write b out block off of
        (Ok _, b', out') \<Rightarrow> process_blocks ops write b' out' rest
      | r \<Rightarrow> r)"

text \<open>A writer that appends to a buffer, as \<open>bytes.Buffer\<close> and a regular file do.\<close>

definition append_write :: "byte list \<Rightarrow> byte list \<Rightarrow> i64 option \<times> byte list" where
  "append_write block out = (Some (word_of_nat (length block)), out @ block)"

definition block_no :: "nat \<Rightarrow> (byte list \<times> i64) \<Rightarrow> nat" where
  "block_no B e = unat (snd e) div B"

definition zero_block :: "nat \<Rightarrow> (byte list \<times> i64) \<Rightarrow> bool" where
  "zero_block B e \<longleftrightarrow> fst e = replicate B 0"

text \<open>The blocks of a sequence: full blocks of a supported size at addressable offsets.\<close>

definition blocks_ok :: "i64 \<Rightarrow> (byte list \<times> i64) list \<Rightarrow> bool" where
  "blocks_ok bs es \<longleftrightarrow>
     (bs = word_of_nat HugepageSize \<or> bs = word_of_nat RootfsBlockSize)
     \<and> (\<forall>e \<in> set es. length (fst e) = unat bs \<and> unat (snd e) < 9223372036854775808)"

lemma supported_sizes:
  assumes "bs = word_of_nat HugepageSize \<or> bs = word_of_nat RootfsBlockSize"
  shows "0 < unat bs" and "unat bs < 9223372036854775808"
    and "IsEmptyBlock block bs = Ok (block = replicate (unat bs) 0)"
  using assms by (auto simp: IsEmptyBlock_def HugepageSize_def RootfsBlockSize_def)

lemma Collect_mem_Cons:
  "{x. (x = y \<or> x \<in> set ys) \<and> P x} = (if P y then insert y {x \<in> set ys. P x} else {x \<in> set ys. P x})"
  by auto

lemma Process_append:
  assumes "blocks_ok (dmb_blockSize b) [(block, off)]" and "bitset_laws ops elems cap"
  shows "\<exists>k. unat k = unat off div unat (dmb_blockSize b)
    \<and> DiffMetadataBuilder_Process ops append_write b out block off =
       (if block = replicate (unat (dmb_blockSize b)) 0
        then (Ok (), b\<lparr>dmb_empty := bs_Set ops (dmb_empty b) k\<rparr>, out)
        else (Ok (), b\<lparr>dmb_dirty := bs_Set ops (dmb_dirty b) k\<rparr>, out @ block))"
proof -
  let ?bs = "dmb_blockSize b"
  have sup: "?bs = word_of_nat HugepageSize \<or> ?bs = word_of_nat RootfsBlockSize"
    and len: "length block = unat ?bs" and off: "unat off < 9223372036854775808"
    using assms(1) by (auto simp: blocks_ok_def)
  note s = supported_sizes [OF sup] and q = BlockIdx_nat [OF off s(1,2)]
  have "word_of_nat (length block) = ?bs" by (simp add: len)
  then show ?thesis
    by (intro exI [of _ "i64_quot off ?bs"])
      (simp add: q s(3) DiffMetadataBuilder_Process_def append_write_def)
qed

lemma process_blocks_append:
  assumes "blocks_ok (dmb_blockSize b) es" and "bitset_laws ops elems cap"
  shows "\<exists>b'. process_blocks ops append_write b out es =
      (Ok (), b', out @ concat (map fst (filter (\<lambda>e. \<not> zero_block (unat (dmb_blockSize b)) e) es)))
    \<and> dmb_blockSize b' = dmb_blockSize b
    \<and> unat ` set (elems (dmb_dirty b')) = unat ` set (elems (dmb_dirty b)) \<union>
        block_no (unat (dmb_blockSize b)) ` {e \<in> set es. \<not> zero_block (unat (dmb_blockSize b)) e}
    \<and> unat ` set (elems (dmb_empty b')) = unat ` set (elems (dmb_empty b)) \<union>
        block_no (unat (dmb_blockSize b)) ` {e \<in> set es. zero_block (unat (dmb_blockSize b)) e}"
  using assms(1)
proof (induction es arbitrary: b out)
  case Nil
  then show ?case by simp
next
  case (Cons e es)
  obtain block off where e: "e = (block, off)" by fastforce
  let ?bs = "dmb_blockSize b"
  obtain k where k: "unat k = unat off div unat ?bs"
    "DiffMetadataBuilder_Process ops append_write b out block off =
       (if block = replicate (unat ?bs) 0
        then (Ok (), b\<lparr>dmb_empty := bs_Set ops (dmb_empty b) k\<rparr>, out)
        else (Ok (), b\<lparr>dmb_dirty := bs_Set ops (dmb_dirty b) k\<rparr>, out @ block))"
    using Process_append [OF _ assms(2), of b block off out] Cons.prems by (auto simp: blocks_ok_def e)
  have "unat k \<le> unat off" by (simp add: k(1))
  then have "unat k < 9223372036854775808" using Cons.prems by (auto simp: blocks_ok_def e)
  then have set: "set (elems (bs_Set ops x k)) = insert k (set (elems x))" for x
    using assms(2) by (simp add: bitset_laws_def)
  have step: "process_blocks ops append_write b out (e # es) =
      (if zero_block (unat ?bs) e
       then process_blocks ops append_write (b\<lparr>dmb_empty := bs_Set ops (dmb_empty b) k\<rparr>) out es
       else process_blocks ops append_write (b\<lparr>dmb_dirty := bs_Set ops (dmb_dirty b) k\<rparr>) (out @ block) es)"
    using k(2) by (simp add: e zero_block_def)
  have no: "block_no (unat ?bs) e = unat k" by (simp add: e block_no_def k(1))
  have rest: "blocks_ok ?bs es" using Cons.prems by (simp add: blocks_ok_def)
  show ?case
  proof (cases "zero_block (unat ?bs) e")
    case True
    obtain b' where "process_blocks ops append_write (b\<lparr>dmb_empty := bs_Set ops (dmb_empty b) k\<rparr>) out es =
        (Ok (), b', out @ concat (map fst (filter (\<lambda>e. \<not> zero_block (unat ?bs) e) es)))"
      "dmb_blockSize b' = ?bs"
      "unat ` set (elems (dmb_dirty b')) = unat ` set (elems (dmb_dirty b)) \<union>
        block_no (unat ?bs) ` {e \<in> set es. \<not> zero_block (unat ?bs) e}"
      "unat ` set (elems (dmb_empty b')) = unat ` set (elems (bs_Set ops (dmb_empty b) k)) \<union>
        block_no (unat ?bs) ` {e \<in> set es. zero_block (unat ?bs) e}"
      using Cons.IH [of "b\<lparr>dmb_empty := bs_Set ops (dmb_empty b) k\<rparr>" out] rest by auto
    with True show ?thesis
      unfolding step by (intro exI [of _ b']) (simp add: set no Collect_mem_Cons)
  next
    case False
    obtain b' where "process_blocks ops append_write (b\<lparr>dmb_dirty := bs_Set ops (dmb_dirty b) k\<rparr>) (out @ block) es =
        (Ok (), b', (out @ block) @ concat (map fst (filter (\<lambda>e. \<not> zero_block (unat ?bs) e) es)))"
      "dmb_blockSize b' = ?bs"
      "unat ` set (elems (dmb_dirty b')) = unat ` set (elems (bs_Set ops (dmb_dirty b) k)) \<union>
        block_no (unat ?bs) ` {e \<in> set es. \<not> zero_block (unat ?bs) e}"
      "unat ` set (elems (dmb_empty b')) = unat ` set (elems (dmb_empty b)) \<union>
        block_no (unat ?bs) ` {e \<in> set es. zero_block (unat ?bs) e}"
      using Cons.IH [of "b\<lparr>dmb_dirty := bs_Set ops (dmb_dirty b) k\<rparr>" "out @ block"] rest by auto
    with False show ?thesis
      unfolding step by (intro exI [of _ b']) (simp add: set no Collect_mem_Cons, simp add: e)
  qed
qed

text \<open>The position of a dirty block in the written data is its rank among the dirty blocks.\<close>

lemma chunk_of_concat:
  "\<forall>x \<in> set xs. length x = B \<Longrightarrow> j < length xs \<Longrightarrow> take B (drop (j * B) (concat xs)) = xs ! j"
proof (induction xs arbitrary: j)
  case (Cons x xs)
  then show ?case by (cases j) auto
qed simp

lemma sorted_below_card:
  fixes xs :: "nat list"
  assumes "sorted_wrt (<) xs" and "j < length xs"
  shows "card {b \<in> set xs. b < xs ! j} = j"
proof -
  have "{b \<in> set xs. b < xs ! j} = set (take j xs)"
  proof (intro set_eqI iffI)
    fix b assume "b \<in> {b \<in> set xs. b < xs ! j}"
    then obtain i where i: "i < length xs" "b = xs ! i" "xs ! i < xs ! j" by (auto simp: in_set_conv_nth)
    then have "i < j" using assms by (metis less_asym linorder_neqE_nat sorted_wrt_iff_nth_less)
    with i assms show "b \<in> set (take j xs)" by (auto simp: in_set_conv_nth)
  next
    fix b assume "b \<in> set (take j xs)"
    then obtain i where "i < j" "b = xs ! i" by (auto simp: in_set_conv_nth)
    with assms show "b \<in> {b \<in> set xs. b < xs ! j}" by (auto simp: sorted_wrt_iff_nth_less)
  qed
  moreover have "distinct (take j xs)" using assms(1) by (simp add: strict_sorted_iff)
  ultimately show ?thesis using assms(2) by (simp add: distinct_card)
qed

lemma bit_rank_card:
  assumes "sorted_wrt (<) bits"
  shows "bit_rank bits k = card {b \<in> unat ` set bits. b < k}"
proof -
  have "distinct (map unat bits)"
    using assms by (induction bits) (auto simp: less_unat)
  then have d: "distinct (filter (\<lambda>b. b < k) (map unat bits))" by simp
  have "bit_rank bits k = length (filter (\<lambda>b. b < k) (map unat bits))"
    by (simp add: bit_rank_def filter_map o_def)
  also have "\<dots> = card (set (filter (\<lambda>b. b < k) (map unat bits)))" using distinct_card [OF d] by simp
  finally show ?thesis by simp
qed

definition increasing_blocks :: "nat \<Rightarrow> (byte list \<times> i64) list \<Rightarrow> bool" where
  "increasing_blocks B es \<longleftrightarrow> sorted_wrt (\<lambda>e e'. block_no B e < block_no B e') es"

lemma dirty_block_stored:
  assumes "blocks_ok bs es" and "increasing_blocks (unat bs) es" and "sorted_wrt (<) bits"
    and bits: "unat ` set bits = block_no (unat bs) ` {e \<in> set es. \<not> zero_block (unat bs) e}"
    and "e \<in> set es" and "\<not> zero_block (unat bs) e"
  shows "take (unat bs) (drop (bit_rank bits (block_no (unat bs) e) * unat bs)
    (concat (map fst (filter (\<lambda>e. \<not> zero_block (unat bs) e) es)))) = fst e"
proof -
  let ?B = "unat bs"
  let ?ds = "filter (\<lambda>e. \<not> zero_block ?B e) es"
  have "e \<in> set ?ds" using assms(5,6) by simp
  then obtain j where j: "j < length ?ds" "?ds ! j = e" by (metis in_set_conv_nth)
  have "sorted_wrt (<) (map (block_no ?B) ?ds)"
    using assms(2) by (simp add: increasing_blocks_def sorted_wrt_map sorted_wrt_filter)
  from sorted_below_card [OF this, of j] j
  have "card {b \<in> block_no ?B ` set ?ds. b < block_no ?B e} = j" by simp
  then have "bit_rank bits (block_no ?B e) = j"
    using bits by (simp add: bit_rank_card [OF assms(3)])
  moreover have "\<forall>x \<in> set (map fst ?ds). length x = ?B"
    using assms(1) by (auto simp: blocks_ok_def)
  ultimately show ?thesis
    using chunk_of_concat [of "map fst ?ds" ?B j] j by simp
qed

end
