(* ===== verification/Header_Codec.thy ===== *)
theory Header_Codec
  imports Header_Snapshot
begin

text \<open>
  The wire format of headers (\<open>header/serialization.go\<close>): the metadata and then the
  mappings, each as Go's \<open>encoding/binary\<close> writes a struct of fixed size in little-endian
  order: integer fields as 8 bytes, build ids as their 16 bytes.  Decoding what was encoded
  gives the header back, and an input that decodes is the encoding of its header.
\<close>

section \<open>Fixed-size fields\<close>

primrec le_bytes :: "nat \<Rightarrow> nat \<Rightarrow> byte list" where
  "le_bytes 0 x = []"
| "le_bytes (Suc n) x = word_of_nat (x mod 256) # le_bytes n (x div 256)"

primrec le_value :: "byte list \<Rightarrow> nat" where
  "le_value [] = 0"
| "le_value (b # bs) = unat b + 256 * le_value bs"

definition put_u64 :: "u64 \<Rightarrow> byte list" where "put_u64 w = le_bytes 8 (unat w)"
definition put_uuid :: "uuid \<Rightarrow> byte list" where "put_uuid w = le_bytes 16 (unat w)"
definition get_u64 :: "byte list \<Rightarrow> u64" where "get_u64 bs = word_of_nat (le_value (take 8 bs))"
definition get_uuid :: "byte list \<Rightarrow> uuid" where "get_uuid bs = word_of_nat (le_value (take 16 bs))"

lemma length_le_bytes [simp]: "length (le_bytes n x) = n"
  by (induction n arbitrary: x) auto

lemma le_value_le_bytes: "le_value (le_bytes n x) = x mod 256 ^ n"
proof (induction n arbitrary: x)
  case (Suc n)
  have "unat (word_of_nat (x mod 256) :: byte) = x mod 256" by (simp add: unat_of_nat)
  with Suc show ?case by (simp add: mod_mult2_eq)
qed simp

lemma le_value_less: "le_value bs < 256 ^ length bs"
proof (induction bs)
  case (Cons b bs)
  have "unat b < 256" using unsigned_less [of b] by simp
  with Cons show ?case by simp
qed simp

lemma le_bytes_le_value: "le_bytes (length bs) (le_value bs) = bs"
proof (induction bs)
  case (Cons b bs)
  have "unat b < 256" using unsigned_less [of b] by simp
  with Cons show ?case by simp
qed simp

lemma length_put [simp]: "length (put_u64 w) = 8" "length (put_uuid i) = 16"
  by (simp_all add: put_u64_def put_uuid_def)

lemma get_put [simp]: "get_u64 (put_u64 w @ rest) = w" "get_uuid (put_uuid i @ rest) = i"
proof -
  have w: "unat w < 256 ^ 8" "unat i < 256 ^ 16"
    using unsigned_less [of w] unsigned_less [of i] by simp_all
  show "get_u64 (put_u64 w @ rest) = w"
    using w(1) by (simp add: get_u64_def put_u64_def le_value_le_bytes)
  show "get_uuid (put_uuid i @ rest) = i"
    using w(2) by (simp add: get_uuid_def put_uuid_def le_value_le_bytes)
qed

lemma put_get:
  "8 \<le> length bs \<Longrightarrow> put_u64 (get_u64 bs) = take 8 bs"
  "16 \<le> length bs \<Longrightarrow> put_uuid (get_uuid bs) = take 16 bs"
proof -
  assume l: "8 \<le> length bs"
  have "le_value (take 8 bs) < 256 ^ 8" using le_value_less [of "take 8 bs"] l by simp
  then have "unat (get_u64 bs) = le_value (take 8 bs)"
    by (simp add: get_u64_def unat_of_nat)
  then show "put_u64 (get_u64 bs) = take 8 bs"
    using le_bytes_le_value [of "take 8 bs"] l by (simp add: put_u64_def min.absorb2)
next
  assume l: "16 \<le> length bs"
  have "le_value (take 16 bs) < 256 ^ 16" using le_value_less [of "take 16 bs"] l by simp
  then have "unat (get_uuid bs) = le_value (take 16 bs)"
    by (simp add: get_uuid_def unat_of_nat)
  then show "put_uuid (get_uuid bs) = take 16 bs"
    using le_bytes_le_value [of "take 16 bs"] l by (simp add: put_uuid_def min.absorb2)
qed

section \<open>Encoding and decoding\<close>

definition write_metadata :: "Metadata \<Rightarrow> byte list" where
  "write_metadata m =
     put_u64 (md_Version m) @ put_u64 (md_BlockSize m) @ put_u64 (md_Size m)
       @ put_u64 (md_Generation m) @ put_uuid (md_BuildId m) @ put_uuid (md_BaseBuildId m)"

definition write_mapping :: "BuildMap \<Rightarrow> byte list" where
  "write_mapping m =
     put_u64 (Offset m) @ put_u64 (Length m) @ put_uuid (BuildId m) @ put_u64 (BuildStorageOffset m)"

definition Serialize :: "Metadata \<Rightarrow> BuildMap list \<Rightarrow> byte list" where
  "Serialize metadata mappings = fold (\<lambda>m buf. buf @ write_mapping m) mappings (write_metadata metadata)"

definition read_metadata :: "byte list \<Rightarrow> Metadata" where
  "read_metadata bs =
     \<lparr>md_Version = get_u64 bs, md_BlockSize = get_u64 (drop 8 bs), md_Size = get_u64 (drop 16 bs),
      md_Generation = get_u64 (drop 24 bs), md_BuildId = get_uuid (drop 32 bs),
      md_BaseBuildId = get_uuid (drop 48 bs)\<rparr>"

definition read_mapping :: "byte list \<Rightarrow> BuildMap" where
  "read_mapping bs =
     \<lparr>Offset = get_u64 bs, Length = get_u64 (drop 8 bs), BuildId = get_uuid (drop 16 bs),
      BuildStorageOffset = get_u64 (drop 32 bs)\<rparr>"

datatype codec_error = ReadMetadata | ReadMapping | BadHeader header_error

text \<open>
  \<open>binary.Read\<close> reads exactly the size of the struct: it reports \<open>io.EOF\<close> when no byte is
  left, which ends the loop, and \<open>io.ErrUnexpectedEOF\<close> when some but too few are left.
\<close>

fun read_mappings :: "byte list \<Rightarrow> (codec_error, BuildMap list) outcome" where
  "read_mappings bs =
     (if bs = [] then Ok []
      else if length bs < 40 then Err ReadMapping
      else and_then (read_mappings (drop 40 bs)) (\<lambda>ms. Ok (read_mapping bs # ms)))"

declare read_mappings.simps [simp del]

definition DeserializeBytes :: "'b bitset_ops \<Rightarrow> byte list \<Rightarrow> (codec_error, 'b Header) outcome" where
  "DeserializeBytes ops data =
     (if length data < 64 then Err ReadMetadata
      else and_then (read_mappings (drop 64 data)) (\<lambda>mappings.
             map_err BadHeader (NewHeader ops (read_metadata data) mappings)))"

section \<open>Round trips\<close>

lemma length_write [simp]: "length (write_metadata m) = 64" "length (write_mapping b) = 40"
  by (simp_all add: write_metadata_def write_mapping_def)

lemma read_write_metadata [simp]: "read_metadata (write_metadata m @ rest) = m"
  by (simp add: read_metadata_def write_metadata_def)

lemma read_write_mapping [simp]: "read_mapping (write_mapping b @ rest) = b"
  by (simp add: read_mapping_def write_mapping_def)

lemma Serialize_concat: "Serialize md ms = write_metadata md @ concat (map write_mapping ms)"
proof -
  have "fold (\<lambda>m buf. buf @ write_mapping m) ms acc = acc @ concat (map write_mapping ms)" for acc
    by (induction ms arbitrary: acc) auto
  then show ?thesis by (simp add: Serialize_def)
qed

lemma read_mappings_concat: "read_mappings (concat (map write_mapping ms)) = Ok ms"
proof (induction ms)
  case Nil
  then show ?case by (simp add: read_mappings.simps)
next
  case (Cons m ms)
  have "write_mapping m \<noteq> []" by (metis length_write(2) list.size(3) zero_neq_numeral)
  with Cons show ?case by (subst read_mappings.simps) simp
qed

lemma DeserializeBytes_Serialize:
  "DeserializeBytes ops (Serialize md ms) = map_err BadHeader (NewHeader ops md ms)"
  by (simp add: DeserializeBytes_def Serialize_concat read_mappings_concat)

lemma write_read_mapping:
  assumes "40 \<le> length bs"
  shows "write_mapping (read_mapping bs) = take 40 bs"
proof -
  have "take 40 bs = take 8 bs @ take 8 (drop 8 bs) @ take 16 (drop 16 bs) @ take 8 (drop 32 bs)"
    using take_add [of 8 32 bs] take_add [of 8 24 "drop 8 bs"] take_add [of 16 8 "drop 16 bs"] by simp
  with assms show ?thesis by (simp add: write_mapping_def read_mapping_def put_get)
qed

lemma write_read_metadata:
  assumes "64 \<le> length bs"
  shows "write_metadata (read_metadata bs) = take 64 bs"
proof -
  have "take 64 bs = take 8 bs @ take 8 (drop 8 bs) @ take 8 (drop 16 bs) @ take 8 (drop 24 bs)
      @ take 16 (drop 32 bs) @ take 16 (drop 48 bs)"
    using take_add [of 8 56 bs] take_add [of 8 48 "drop 8 bs"] take_add [of 8 40 "drop 16 bs"]
      take_add [of 8 32 "drop 24 bs"] take_add [of 16 16 "drop 32 bs"] by simp
  with assms show ?thesis by (simp add: write_metadata_def read_metadata_def put_get)
qed

lemma write_read_mappings: "read_mappings bs = Ok ms \<Longrightarrow> concat (map write_mapping ms) = bs"
proof (induction bs arbitrary: ms rule: read_mappings.induct)
  case (1 bs)
  show ?case
  proof (cases "bs = []")
    case True
    with "1.prems" show ?thesis by (simp add: read_mappings.simps)
  next
    case False
    then have l: "40 \<le> length bs" using "1.prems" by (simp add: read_mappings.simps [of bs] split: if_splits)
    with False "1.prems" obtain ms' where ms: "read_mappings (drop 40 bs) = Ok ms'" "ms = read_mapping bs # ms'"
      by (auto simp: read_mappings.simps [of bs] and_then_Ok_iff)
    have "\<not> length bs < 40" using l by simp
    from "1.IH" [OF False this ms(1)] have "concat (map write_mapping ms') = drop 40 bs" .
    with ms(2) l show ?thesis by (simp add: write_read_mapping)
  qed
qed

lemma read_mappings_Nil_iff: "read_mappings bs = Ok [] \<longleftrightarrow> bs = []"
  using write_read_mappings [of bs "[]"] read_mappings.simps [of "[]"] by auto

lemma NewHeader_keeps:
  "NewHeader ops md ms = Ok h \<Longrightarrow> h_Metadata h = md \<and> (ms \<noteq> [] \<longrightarrow> h_Mapping h = ms)"
  by (auto simp: NewHeader_def Let_def and_then_Ok_iff split: if_splits)

lemma Serialize_DeserializeBytes:
  assumes "DeserializeBytes ops data = Ok h" and "length data \<noteq> 64"
  shows "Serialize (h_Metadata h) (h_Mapping h) = data"
proof -
  have l: "64 \<le> length data" using assms(1) by (auto simp: DeserializeBytes_def split: if_splits)
  then obtain ms where ms: "read_mappings (drop 64 data) = Ok ms" "NewHeader ops (read_metadata data) ms = Ok h"
    using assms(1) by (auto simp: DeserializeBytes_def and_then_Ok_iff)
  have "ms \<noteq> []" using ms(1) assms(2) l by (auto simp: read_mappings_Nil_iff)
  then have "h_Metadata h = read_metadata data" "h_Mapping h = ms"
    using NewHeader_keeps [OF ms(2)] by simp_all
  then show ?thesis
    using write_read_mappings [OF ms(1)] write_read_metadata [OF l] by (simp add: Serialize_concat)
qed

text \<open>A header that is cut off in the middle of a field is refused.\<close>

lemma read_mappings_length: "read_mappings bs = Ok ms \<Longrightarrow> length bs = 40 * length ms"
proof -
  assume "read_mappings bs = Ok ms"
  then have "bs = concat (map write_mapping ms)" by (simp add: write_read_mappings)
  then show ?thesis by (simp add: length_concat o_def sum_list_triv)
qed

end
