(* ===== verification/Header_Properties.thy ===== *)
theory Header_Properties
  imports Header_Codec
begin

text \<open>
  The properties of the block-storage header that its users rely on, stated over the
  operations of \<open>storage/header\<close>, with a concrete bit set that shows the assumptions on the
  third-party bit set can be met.
\<close>

section \<open>A bit set for the witnesses\<close>

text \<open>The bits that were set and the length.\<close>

definition list_elems :: "u64 list \<times> nat \<Rightarrow> u64 list" where
  "list_elems b = sort (remdups (fst b))"

definition list_bits :: "(u64 list \<times> nat) bitset_ops" where
  "list_bits =
     \<lparr>bs_New = (\<lambda>n. ([], unat n)),
      bs_Set = (\<lambda>b i. (i # fst b, max (snd b) (unat i + 1))),
      bs_NextSet = (\<lambda>b i. find (\<lambda>j. i \<le> j) (list_elems b)),
      bs_PreviousSet = (\<lambda>b i. find (\<lambda>j. j \<le> i) (rev (list_elems b)))\<rparr>"

lemma list_bits_laws: "bitset_laws list_bits list_elems snd"
  by (auto simp: bitset_laws_def list_bits_def list_elems_def next_set_of_def strict_sorted_iff)

definition example_md :: Metadata where
  "example_md = NewTemplateMetadata 7 4096 8192"

definition example_header :: "(u64 list \<times> nat) Header" where
  "example_header =
     \<lparr>h_Metadata = example_md, h_blockStarts = ([0], 2), h_startMap = [0 \<mapsto> whole_map example_md],
      h_Mapping = [whole_map example_md]\<rparr>"

definition example_diff :: "(u64 list \<times> nat) DiffMetadata" where
  "example_diff = \<lparr>dm_Dirty = ([1], 2), dm_Empty = ([0], 1), dm_BlockSize = 4096\<rparr>"

lemma example_ok:
  "layer_ok (h_Metadata example_header) (h_Mapping example_header)"
  "coherent (resolve (h_Mapping example_header))"
  "diff_ok list_bits list_elems example_diff (h_Metadata example_header)"
  "BuildId ` set (h_Mapping example_header) = {7}"
proof -
  have md: "unat (md_Size example_md) = 8192" "unat (md_BlockSize example_md) = 4096"
    by (simp_all add: example_md_def NewTemplateMetadata_def)
  show "layer_ok (h_Metadata example_header) (h_Mapping example_header)"
    "coherent (resolve (h_Mapping example_header))"
    using whole_map_layer [of example_md] by (simp_all add: md example_header_def del: resolve.simps)
  show "diff_ok list_bits list_elems example_diff (h_Metadata example_header)"
    by (simp add: diff_ok_def example_diff_def example_header_def example_md_def
        NewTemplateMetadata_def list_elems_def)
  show "BuildId ` set (h_Mapping example_header) = {7}"
    by (simp add: example_header_def whole_map_def example_md_def NewTemplateMetadata_def)
qed

lemma example_chain: "header_chain list_bits list_elems example_header"
proof (rule header_chain.template)
  have q: "i64_quot 0 (4096 :: u64) = 0" by (simp add: i64_quot_def)
  have t: "TotalBlocks 8192 4096 = (Ok 2 :: (header_error, i64) outcome)"
  proof -
    obtain n where n: "TotalBlocks 8192 4096 = (Ok n :: (header_error, i64) outcome)" "unat n = 2"
      using TotalBlocks_nat [of 8192 4096] by auto
    then have "n = 2" by (simp add: eq_unat)
    with n show ?thesis by simp
  qed
  show "NewHeader list_bits (NewTemplateMetadata 7 4096 8192) [] = Ok example_header"
    by (simp add: NewHeader_def NewTemplateMetadata_def t BlockIdx_def i64_div_def q Let_def
        example_header_def example_md_def whole_map_def list_bits_def)
qed simp_all

section \<open>Snapshots\<close>

text \<open>
  C1.  Taking a snapshot always succeeds, and the lookups in its header implement the
  snapshot: for every block-aligned offset of the layer \<open>GetShiftedMapping\<close> returns a
  non-empty run, and every byte of the run is where the snapshot has it: in no storage (the
  nil build) if its block was found empty, at the rank of its block in the new build's
  storage if the block is dirty, and otherwise where the base header has it.  The header has the
  next generation and the new build, keeps the version, sizes and base build, and is well formed
  again, so that it can be the base of the next snapshot.  This holds of well-formed base headers,
  diffs that fit them, and a build that is new to the header.
\<close>

theorem ToDiffHeader_implements_snapshot:
  assumes "bitset_laws ops elems cap" and "layer_ok (h_Metadata h) (h_Mapping h)"
    and "coherent (resolve (h_Mapping h))" and "diff_ok ops elems d (h_Metadata h)"
    and "buildID \<noteq> uuid_Nil" and "buildID \<notin> BuildId ` set (h_Mapping h)"
  shows "\<exists>h'. ToDiffHeader ops d h buildID = Some (Ok h')
    \<and> md_Generation (h_Metadata h') = md_Generation (h_Metadata h) + 1
    \<and> md_BuildId (h_Metadata h') = buildID \<and> md_BaseBuildId (h_Metadata h') = md_BaseBuildId (h_Metadata h)
    \<and> md_Version (h_Metadata h') = md_Version (h_Metadata h)
    \<and> md_Size (h_Metadata h') = md_Size (h_Metadata h) \<and> md_BlockSize (h_Metadata h') = md_BlockSize (h_Metadata h)
    \<and> layer_ok (h_Metadata h') (h_Mapping h') \<and> coherent (resolve (h_Mapping h'))
    \<and> (\<forall>off. unat off < unat (md_Size (h_Metadata h)) \<longrightarrow>
          unat (md_BlockSize (h_Metadata h)) dvd unat off \<longrightarrow>
          (\<exists>o' l i. GetShiftedMapping ops h' off = Ok (o', l, i) \<and> 0 < unat l
             \<and> (\<forall>j < unat l. visible (Some (i, unat o' + j))
                   = snapshot_view elems d buildID (resolve (h_Mapping h)) (unat off + j))))"
proof -
  obtain h' where h': "ToDiffHeader ops d h buildID = Some (Ok h')"
    "h_Metadata h' = NextGeneration (h_Metadata h) buildID"
    "layer_ok (h_Metadata h') (h_Mapping h')" "indexes ops elems cap h'"
    "\<And>off. visible (resolve (h_Mapping h') off)
          = snapshot_view elems d buildID (resolve (h_Mapping h)) off"
    and coh: "coherent (resolve (h_Mapping h'))"
    using ToDiffHeader_next [OF assms] by blast
  have md: "md_Size (h_Metadata h') = md_Size (h_Metadata h)"
    "md_BlockSize (h_Metadata h') = md_BlockSize (h_Metadata h)"
    by (simp_all add: h'(2) NextGeneration_def)
  have gen: "md_Generation (h_Metadata h') = md_Generation (h_Metadata h) + 1"
    "md_BuildId (h_Metadata h') = buildID" "md_BaseBuildId (h_Metadata h') = md_BaseBuildId (h_Metadata h)"
    "md_Version (h_Metadata h') = md_Version (h_Metadata h)"
    by (simp_all add: h'(2) NextGeneration_def)
  have "\<exists>o' l i. GetShiftedMapping ops h' off = Ok (o', l, i) \<and> 0 < unat l
      \<and> (\<forall>j < unat l. visible (Some (i, unat o' + j))
            = snapshot_view elems d buildID (resolve (h_Mapping h)) (unat off + j))"
    if "unat off < unat (md_Size (h_Metadata h))" "unat (md_BlockSize (h_Metadata h)) dvd unat off" for off
    using GetShiftedMapping_resolves [OF assms(1) h'(3,4), of off] that h'(5) md by metis
  with h'(1,3) md gen coh show ?thesis by blast
qed

theorem ToDiffHeader_implements_snapshot_witness:
  "\<exists>h'. ToDiffHeader list_bits example_diff example_header 9 = Some (Ok h')
    \<and> md_Generation (h_Metadata h') = md_Generation (h_Metadata example_header) + 1 \<and> layer_ok (h_Metadata h') (h_Mapping h')"
  using ToDiffHeader_implements_snapshot [OF list_bits_laws example_ok(1,2,3), of 9] example_ok(4)
  by auto

text \<open>
  C2.  In every header of a chain of snapshots, from the template on, every block-aligned
  offset of the layer can be looked up, and the run that is returned stays inside the layer
  and is the part of the layer that the mappings put there; and taking the next snapshot
  succeeds.
\<close>

theorem header_chain_lookup:
  assumes "bitset_laws ops elems cap" and "header_chain ops elems h"
  shows "(\<forall>off. unat off < unat (md_Size (h_Metadata h)) \<longrightarrow>
      unat (md_BlockSize (h_Metadata h)) dvd unat off \<longrightarrow>
      (\<exists>o' l i. GetShiftedMapping ops h off = Ok (o', l, i) \<and> 0 < unat l
         \<and> unat off + unat l \<le> unat (md_Size (h_Metadata h))
         \<and> (\<forall>j < unat l. resolve (h_Mapping h) (unat off + j) = Some (i, unat o' + j))))
    \<and> (\<forall>d buildID. diff_ok ops elems d (h_Metadata h) \<longrightarrow> buildID \<noteq> uuid_Nil \<longrightarrow>
          buildID \<notin> BuildId ` set (h_Mapping h) \<longrightarrow>
          (\<exists>h'. ToDiffHeader ops d h buildID = Some (Ok h') \<and> header_chain ops elems h'))"
proof -
  note ok = header_chain_ok [OF assms(2,1)]
  show ?thesis
  proof (intro conjI allI impI)
    fix off :: i64 assume "unat off < unat (md_Size (h_Metadata h))" "unat (md_BlockSize (h_Metadata h)) dvd unat off"
    then show "\<exists>o' l i. GetShiftedMapping ops h off = Ok (o', l, i) \<and> 0 < unat l
         \<and> unat off + unat l \<le> unat (md_Size (h_Metadata h))
         \<and> (\<forall>j < unat l. resolve (h_Mapping h) (unat off + j) = Some (i, unat o' + j))"
      using GetShiftedMapping_resolves [OF assms(1), of h off] ok by blast
  next
    fix d buildID
    assume "diff_ok ops elems d (h_Metadata h)" "buildID \<noteq> uuid_Nil" "buildID \<notin> BuildId ` set (h_Mapping h)"
    note d = this
    obtain h' where h': "ToDiffHeader ops d h buildID = Some (Ok h')"
      using ToDiffHeader_next [OF assms(1), of h d buildID] ok d by blast
    show "\<exists>h'. ToDiffHeader ops d h buildID = Some (Ok h') \<and> header_chain ops elems h'"
      using h' header_chain.snapshot [OF assms(2) d h'] by (intro exI [of _ h']) simp
  qed
qed

theorem header_chain_lookup_witness:
  "\<exists>h'. ToDiffHeader list_bits example_diff example_header 9 = Some (Ok h')
     \<and> header_chain list_bits list_elems h'"
  using header_chain_lookup [OF list_bits_laws example_chain] example_ok by simp

section \<open>Operations on mappings\<close>

text \<open>
  C5.  \<open>MergeMappings\<close> overrides: on ordered, block-aligned mappings an offset resolves
  through the diff if the diff covers it and through the base otherwise, and the result is
  ordered and block-aligned again.
\<close>

theorem MergeMappings_overrides:
  assumes "maps_within B E bases" and "maps_within B E diffs"
  shows "resolve (MergeMappings bases diffs) = resolve bases ++ resolve diffs
    \<and> maps_within B E (MergeMappings bases diffs)"
  using MergeMappings_resolve [OF assms] MergeMappings_within [OF assms] by simp

definition example_bases :: "BuildMap list" where
  "example_bases = [\<lparr>Offset = 0, Length = 12288, BuildId = 1, BuildStorageOffset = 0\<rparr>]"

definition example_diffs :: "BuildMap list" where
  "example_diffs = [\<lparr>Offset = 4096, Length = 4096, BuildId = 2, BuildStorageOffset = 0\<rparr>]"

lemma example_within: "maps_within 4096 12288 example_bases" "maps_within 4096 12288 example_diffs"
  by (simp_all add: maps_within_def snug_def block_aligned_def example_bases_def example_diffs_def)

theorem MergeMappings_overrides_witness:
  "resolve (MergeMappings example_bases example_diffs) 8192 = Some (1, 8192)
    \<and> resolve (MergeMappings example_bases example_diffs) 5000 = Some (2, 904)"
  using MergeMappings_overrides [OF example_within]
  by (simp add: example_bases_def example_diffs_def map_add_def)

text \<open>
  Merging a diff into a base that covers the layer without gap or overlap gives mappings
  that cover the layer without gap or overlap.
\<close>

lemma MergeMappings_covers:
  assumes "maps_within B E bases" and "maps_within B E diffs" and "contiguous 0 bases E"
  shows "contiguous 0 (MergeMappings bases diffs) E
    \<and> (\<forall>off < E. resolve (MergeMappings bases diffs) off \<noteq> None)"
proof -
  have c: "contiguous 0 (MergeMappings bases diffs) E" using assms by (rule MergeMappings_contiguous)
  then show ?thesis using contiguous_covers [OF c] by (auto simp: resolve_None_iff)
qed

text \<open>
  C6.  \<open>CreateMapping\<close> returns for every finite bit set, and maps exactly the set blocks, each
  to the storage block whose number is the count of set blocks before it.
\<close>

theorem CreateMapping_maps_set_blocks:
  assumes "dirty_bits nextSet bits bs E"
  shows "\<exists>ms. CreateMapping buildId nextSet bs = Some ms \<and> maps_within (unat bs) E ms
    \<and> (\<forall>off. resolve ms off =
          (if off div unat bs \<in> unat ` set bits
           then Some (buildId, bit_rank bits (off div unat bs) * unat bs + off mod unat bs) else None))"
  using CreateMapping_view [OF assms, of buildId] CreateMapping_within(1) [OF assms] by blast

theorem CreateMapping_maps_set_blocks_witness:
  "\<exists>ms. CreateMapping 5 (\<lambda>i. find (\<lambda>b. i \<le> b) [1, 2, 5]) 4096 = Some ms \<and> resolve ms 20481 = Some (5, 8193)"
proof -
  have "dirty_bits (\<lambda>i. find (\<lambda>b. i \<le> b) [1, 2, 5]) [1, 2, 5] 4096 24576"
    by (simp add: dirty_bits_def next_set_of_def)
  from CreateMapping_maps_set_blocks [OF this, of 5] show ?thesis
    by (auto simp: bit_rank_def)
qed

lemma NormalizeMappings_loop_adjacent:
  "distinct_adj (map BuildId (NormalizeMappings_loop c ms)) \<and> BuildId (hd (NormalizeMappings_loop c ms)) = BuildId c
    \<and> NormalizeMappings_loop c ms \<noteq> []"
proof (induction ms arbitrary: c)
  case (Cons m ms)
  show ?case
  proof (cases "BuildId m = BuildId c")
    case False
    from Cons [of "BuildMap_Copy m"] obtain y ys where "NormalizeMappings_loop (BuildMap_Copy m) ms = y # ys"
      "BuildId y = BuildId m" "distinct_adj (map BuildId (y # ys))"
      by (cases "NormalizeMappings_loop (BuildMap_Copy m) ms") (auto simp: BuildMap_Copy_def)
    with False show ?thesis by simp
  qed (use Cons in simp)
qed simp

lemma NormalizeMappings_adjacent: "distinct_adj (map BuildId (NormalizeMappings ms))"
  by (cases ms) (simp_all add: NormalizeMappings_loop_adjacent)

text \<open>
  C7.  \<open>NormalizeMappings\<close> keeps the coverage and, up to the storage offset of nil blocks,
  what every offset resolves to, provided that neighbouring bytes of one build are neighbours
  in its storage; and no two neighbours in the result have the same build.
\<close>

theorem NormalizeMappings_preserves:
  assumes "contiguous 0 ms E" and "maps_within B E ms" and "coherent (resolve ms)"
  shows "contiguous 0 (NormalizeMappings ms) E \<and> maps_within B E (NormalizeMappings ms)
    \<and> (\<forall>off. visible (resolve (NormalizeMappings ms) off) = visible (resolve ms off))
    \<and> distinct_adj (map BuildId (NormalizeMappings ms))"
  using NormalizeMappings_correct [OF assms] NormalizeMappings_adjacent by blast

theorem NormalizeMappings_preserves_witness:
  "contiguous 0 (NormalizeMappings example_bases) 12288 \<and> distinct_adj (map BuildId (NormalizeMappings example_bases))"
proof -
  have "contiguous 0 example_bases 12288" "coherent (resolve example_bases)"
    by (auto simp: example_bases_def coherent_def split: if_splits)
  from NormalizeMappings_preserves [OF this(1) example_within(1) this(2)] show ?thesis by blast
qed

text \<open>
  C13.  \<open>ValidateMappings\<close> is sound and complete for mappings whose ends do not wrap around: it
  accepts exactly the mappings that start at 0, have no gap and no overlap, end at the size
  and have lengths that are multiples of the block size.
\<close>

theorem ValidateMappings_sound_complete:
  assumes "0 < unat blockSize" and "\<forall>m \<in> set mappings. hi m < 18446744073709551616"
  shows "ValidateMappings mappings sz blockSize = Ok () \<longleftrightarrow>
    contiguous 0 mappings (unat sz) \<and> (\<forall>m \<in> set mappings. unat blockSize dvd len m)"
  using assms by (rule ValidateMappings_Ok_iff)

theorem ValidateMappings_sound_complete_witness:
  "ValidateMappings example_bases 12288 4096 = Ok ()"
  using ValidateMappings_sound_complete [of 4096 example_bases 12288] by (simp add: example_bases_def)

text \<open>
  The addition in \<open>ValidateMappings\<close> wraps around, so a mapping whose end overflows
  resets the running offset: the check accepts mappings that overlap.  It panics when there
  are no mappings and the size is not zero.
\<close>

lemma ValidateMappings_wraps:
  "ValidateMappings
     [\<lparr>Offset = 0, Length = 4096, BuildId = 1, BuildStorageOffset = 0\<rparr>,
      \<lparr>Offset = 4096, Length = 18446744073709547520, BuildId = 2, BuildStorageOffset = 0\<rparr>,
      \<lparr>Offset = 0, Length = 8192, BuildId = 3, BuildStorageOffset = 0\<rparr>] 8192 4096 = Ok ()
   \<and> ValidateMappings [] 8192 4096 = Panic"
  by (simp add: ValidateMappings_def u64_mod_def)

section \<open>Lookups that must fail\<close>

text \<open>
  From version 3 on, a lookup outside the layer or at an offset that is not a multiple
  of the block size is refused with the error that says so.
\<close>

lemma GetShiftedMapping_refuses:
  assumes "3 \<le> unat (md_Version (h_Metadata h))" and "0 < unat (md_BlockSize (h_Metadata h))"
    and "unat (md_BlockSize (h_Metadata h)) < 9223372036854775808"
    and "unat (md_Size (h_Metadata h)) < 9223372036854775808"
  shows "(sint off < 0 \<or> int (unat (md_Size (h_Metadata h))) \<le> sint off \<longrightarrow>
      GetShiftedMapping ops h off = Err OutOfBounds)
    \<and> (0 \<le> sint off \<and> sint off < int (unat (md_Size (h_Metadata h)))
        \<and> \<not> unat (md_BlockSize (h_Metadata h)) dvd unat off \<longrightarrow>
      GetShiftedMapping ops h off = Err NotAligned)"
proof -
  have fix3: "IsNormalizeFixApplied h"
    using assms(1) by (simp add: IsNormalizeFixApplied_def NormalizeFixVersion_def le_unat)
  have sz: "sint (md_Size (h_Metadata h)) = int (unat (md_Size (h_Metadata h)))"
    using assms(4) by (rule sint_small)
  have bs: "md_BlockSize (h_Metadata h) \<noteq> 0" using assms(2) by auto
  have "i64_rem off (md_BlockSize (h_Metadata h)) \<noteq> 0"
    if "0 \<le> sint off" "\<not> unat (md_BlockSize (h_Metadata h)) dvd unat off"
  proof -
    have "unat off < 9223372036854775808"
      using that(1) sint_large [of off] unat_u64_bound [of off] by linarith
    then have "unat (i64_rem off (md_BlockSize (h_Metadata h))) \<noteq> 0"
      using that(2) assms(3) by (simp add: unat_i64_rem mod_eq_0_iff_dvd)
    then show ?thesis by auto
  qed
  with fix3 sz bs show ?thesis
    by (auto simp: GetShiftedMapping_def getMapping_def Let_def i64_mod_def)
qed

section \<open>The written diff\<close>

text \<open>
  C8.  Processing full blocks in increasing order: every call succeeds, a zero block is
  recorded as empty and not as dirty, any other block as dirty and not as empty, and the
  bytes of a dirty block stand in the written data at the rank of the block, which is where
  the mapping of the snapshot looks for them; no other block is recorded at all.
\<close>

theorem builder_stores_dirty_blocks:
  assumes "bitset_laws ops elems cap" and "blocks_ok bs es" and "increasing_blocks (unat bs) es"
    and "NewDiffMetadataBuilder ops sz bs = (Ok b :: (process_error, _) outcome)"
  shows "\<exists>b' out. process_blocks ops append_write b [] es = (Ok (), b', out)
    \<and> (\<forall>e \<in> set es.
         if zero_block (unat bs) e
         then block_no (unat bs) e \<in> unat ` set (elems (dm_Empty (DiffMetadataBuilder_Build b')))
           \<and> block_no (unat bs) e \<notin> unat ` set (elems (dm_Dirty (DiffMetadataBuilder_Build b')))
         else block_no (unat bs) e \<notin> unat ` set (elems (dm_Empty (DiffMetadataBuilder_Build b')))
           \<and> block_no (unat bs) e \<in> unat ` set (elems (dm_Dirty (DiffMetadataBuilder_Build b')))
           \<and> take (unat bs) (drop
               (bit_rank (elems (dm_Dirty (DiffMetadataBuilder_Build b'))) (block_no (unat bs) e) * unat bs)
               out) = fst e)
    \<and> unat ` set (elems (dm_Dirty (DiffMetadataBuilder_Build b'))) \<union> unat ` set (elems (dm_Empty (DiffMetadataBuilder_Build b')))
        = block_no (unat bs) ` set es"
proof -
  have b: "dmb_blockSize b = bs" "elems (dmb_dirty b) = []" "elems (dmb_empty b) = []"
    using assms(1,4) by (auto simp: NewDiffMetadataBuilder_def and_then_Ok_iff bitset_laws_def)
  let ?out = "concat (map fst (filter (\<lambda>e. \<not> zero_block (unat bs) e) es))"
  obtain b' where b': "process_blocks ops append_write b [] es = (Ok (), b', ?out)"
    "unat ` set (elems (dmb_dirty b')) = block_no (unat bs) ` {e \<in> set es. \<not> zero_block (unat bs) e}"
    "unat ` set (elems (dmb_empty b')) = block_no (unat bs) ` {e \<in> set es. zero_block (unat bs) e}"
    using process_blocks_append [of b es ops elems cap "[]"] assms(1,2) b by auto
  have inj: "e = e'" if "e \<in> set es" "e' \<in> set es" "block_no (unat bs) e = block_no (unat bs) e'" for e e'
    using that assms(3) unfolding increasing_blocks_def by (induction es) auto
  have s: "sorted_wrt (<) (elems (dmb_dirty b'))"
    using assms(1) by (simp add: bitset_laws_def next_set_of_def)
  have empty: "block_no (unat bs) e \<in> unat ` set (elems (dmb_empty b')) \<longleftrightarrow> zero_block (unat bs) e"
    and dirty: "block_no (unat bs) e \<in> unat ` set (elems (dmb_dirty b')) \<longleftrightarrow> \<not> zero_block (unat bs) e"
    if "e \<in> set es" for e
    unfolding b'(2,3) using that inj by (blast, blast)
  have covered: "unat ` set (elems (dmb_dirty b')) \<union> unat ` set (elems (dmb_empty b')) = block_no (unat bs) ` set es"
    unfolding b'(2,3) by blast
  show ?thesis
    using b'(1) dirty_block_stored [OF assms(2,3) s b'(2)] empty dirty covered
    by (intro exI [of _ b'] exI [of _ ?out]) (simp add: DiffMetadataBuilder_Build_def)
qed

theorem builder_stores_dirty_blocks_witness:
  "\<exists>b' out. process_blocks list_bits append_write
      \<lparr>dmb_dirty = ([], 2), dmb_empty = ([], 0), dmb_blockSize = 4096\<rparr> []
      [(replicate 4096 0, 0), (replicate 4096 1, 4096)] = (Ok (), b', out)
    \<and> unat ` set (list_elems (dm_Dirty (DiffMetadataBuilder_Build b'))) \<union> unat ` set (list_elems (dm_Empty (DiffMetadataBuilder_Build b')))
        = {0, 1}"
proof -
  have n: "NewDiffMetadataBuilder list_bits 8192 4096 =
      (Ok \<lparr>dmb_dirty = ([], 2), dmb_empty = ([], 0), dmb_blockSize = 4096\<rparr> :: (process_error, _) outcome)"
  proof -
    obtain n where "TotalBlocks 8192 4096 = (Ok n :: (process_error, i64) outcome)" "unat n = 2"
      using TotalBlocks_nat [of 8192 4096] by auto
    then show ?thesis by (simp add: NewDiffMetadataBuilder_def list_bits_def)
  qed
  have "blocks_ok 4096 [(replicate 4096 0, 0), (replicate 4096 1, 4096)]"
    "increasing_blocks (unat (4096 :: i64)) [(replicate 4096 0, 0), (replicate 4096 1, 4096)]"
    by (simp_all add: blocks_ok_def RootfsBlockSize_def increasing_blocks_def block_no_def)
  from builder_stores_dirty_blocks [OF list_bits_laws this n] show ?thesis by (auto simp: block_no_def)
qed

section \<open>The wire format\<close>

text \<open>C9.  Decoding an encoded header gives the header that was encoded.\<close>

theorem Deserialize_Serialize:
  "DeserializeBytes ops (Serialize metadata mappings) = map_err BadHeader (NewHeader ops metadata mappings)"
  by (rule DeserializeBytes_Serialize)

text \<open>
  C14.  An input that decodes to a header is the encoding of that header, unless it holds no
  mapping at all, and an input whose length is not that of a whole number of mappings after
  the metadata is refused.
\<close>

theorem Serialize_Deserialize:
  "(DeserializeBytes ops data = Ok h \<and> length data \<noteq> 64 \<longrightarrow> Serialize (h_Metadata h) (h_Mapping h) = data)
   \<and> (length data < 64 \<or> \<not> 40 dvd length data - 64 \<longrightarrow> \<not> is_ok (DeserializeBytes ops data))"
proof (intro conjI impI)
  assume "DeserializeBytes ops data = Ok h \<and> length data \<noteq> 64"
  then show "Serialize (h_Metadata h) (h_Mapping h) = data" using Serialize_DeserializeBytes by blast
next
  assume "length data < 64 \<or> \<not> 40 dvd length data - 64"
  then show "\<not> is_ok (DeserializeBytes ops data)"
    using read_mappings_length [of "drop 64 data"]
    by (auto simp: is_ok_iff DeserializeBytes_def and_then_Ok_iff)
qed

theorem Serialize_Deserialize_witness:
  "\<exists>h. DeserializeBytes list_bits (Serialize example_md [whole_map example_md]) = Ok h \<and> h_Mapping h = [whole_map example_md]
    \<and> Serialize (h_Metadata h) (h_Mapping h) = Serialize example_md [whole_map example_md]"
proof -
  let ?data = "Serialize example_md [whole_map example_md]"
  have "layer_ok example_md [whole_map example_md]" using example_ok(1) by (simp add: example_header_def)
  from NewHeader_Ok [OF list_bits_laws this] obtain h where h: "NewHeader list_bits example_md [whole_map example_md] = Ok h"
    "h_Mapping h = [whole_map example_md]" by blast
  then have d: "DeserializeBytes list_bits ?data = Ok h" by (simp add: DeserializeBytes_Serialize)
  have "length ?data \<noteq> 64" by (simp add: Serialize_concat write_metadata_def write_mapping_def)
  with Serialize_Deserialize [of list_bits ?data h] d h(2) show ?thesis by blast
qed

end
