(* ===== verification/Go_Text.thy ===== *)
theory Go_Text
  imports Aether_Prelude
begin

text \<open>
  The part of Go's standard library on text that the agent uses: \<open>strings\<close>,
  \<open>strconv.Itoa\<close>, \<open>path/filepath\<close> on a Unix host and \<open>filepath.Match\<close>.  A Go string is a
  list of bytes, each byte a \<open>char\<close>; where the library decodes runes, only runes of one byte
  are modelled.
\<close>

section \<open>Strings\<close>

abbreviation slash :: char where "slash \<equiv> CHR ''/''"

definition HasPrefix :: "string \<Rightarrow> string \<Rightarrow> bool" where
  "HasPrefix s p \<longleftrightarrow> take (length p) s = p"

definition HasSuffix :: "string \<Rightarrow> string \<Rightarrow> bool" where
  "HasSuffix s p \<longleftrightarrow> length p \<le> length s \<and> drop (length s - length p) s = p"

definition TrimSuffix :: "string \<Rightarrow> string \<Rightarrow> string" where
  "TrimSuffix s p = (if HasSuffix s p then take (length s - length p) s else s)"

definition TrimPrefix :: "string \<Rightarrow> string \<Rightarrow> string" where
  "TrimPrefix s p = (if HasPrefix s p then drop (length p) s else s)"

fun Contains :: "string \<Rightarrow> string \<Rightarrow> bool" where
  "Contains [] p \<longleftrightarrow> p = []"
| "Contains (c # s) p \<longleftrightarrow> HasPrefix (c # s) p \<or> Contains s p"

fun split_on :: "char \<Rightarrow> string \<Rightarrow> string list" where
  "split_on d [] = [[]]"
| "split_on d (c # s) =
     (if c = d then [] # split_on d s
      else case split_on d s of [] \<Rightarrow> [[c]] | p # ps \<Rightarrow> (c # p) # ps)"

fun join_with :: "string \<Rightarrow> string list \<Rightarrow> string" where
  "join_with d [] = []"
| "join_with d [x] = x"
| "join_with d (x # y # ys) = x @ d @ join_with d (y # ys)"

definition digit_char :: "nat \<Rightarrow> char" where
  "digit_char d = char_of (48 + d)"

fun nat_digits :: "nat \<Rightarrow> string" where
  "nat_digits n = (if n < 10 then [digit_char n] else nat_digits (n div 10) @ [digit_char (n mod 10)])"

declare nat_digits.simps [simp del]

definition Itoa :: "int \<Rightarrow> string" where
  "Itoa i = (if i < 0 then CHR ''-'' # nat_digits (nat (- i)) else nat_digits (nat i))"

lemma HasPrefix_iff: "HasPrefix s p \<longleftrightarrow> (\<exists>r. s = p @ r)"
  unfolding HasPrefix_def by (metis append_eq_conv_conj append_take_drop_id)

lemma HasSuffix_iff: "HasSuffix s p \<longleftrightarrow> (\<exists>r. s = r @ p)"
proof
  show "\<exists>r. s = r @ p" if "HasSuffix s p"
    using that unfolding HasSuffix_def by (metis append_take_drop_id)
qed (auto simp: HasSuffix_def)

lemma TrimSuffix_append [simp]: "TrimSuffix (s @ p) p = s"
  by (simp add: TrimSuffix_def HasSuffix_def)

lemma Contains_single: "Contains s [c] \<longleftrightarrow> c \<in> set s"
  by (induction s) (auto simp: HasPrefix_def)

section \<open>Paths\<close>

text \<open>
  \<open>filepath.Clean\<close> works on the elements between slashes.  Of an element \<open>..\<close> the one before
  is dropped if there is one to drop, the element is kept if the path is relative, and lost at
  the root.
\<close>

fun clean_elems :: "bool \<Rightarrow> string list \<Rightarrow> string list \<Rightarrow> string list" where
  "clean_elems rooted out [] = rev out"
| "clean_elems rooted out (e # es) =
     (if e = [] \<or> e = ''.'' then clean_elems rooted out es
      else if e = ''..'' then
        (case out of
           o' # os \<Rightarrow> if o' = ''..'' then clean_elems rooted (e # out) es else clean_elems rooted os es
         | [] \<Rightarrow> if rooted then clean_elems rooted [] es else clean_elems rooted [e] es)
      else clean_elems rooted (e # out) es)"

definition IsAbs :: "string \<Rightarrow> bool" where
  "IsAbs path \<longleftrightarrow> HasPrefix path ''/''"

definition Clean :: "string \<Rightarrow> string" where
  "Clean path =
     (let es = join_with ''/'' (clean_elems (IsAbs path) [] (split_on slash path))
      in if IsAbs path then slash # es else if es = [] then ''.'' else es)"

definition through_last_slash :: "string \<Rightarrow> string" where
  "through_last_slash path = rev (dropWhile (\<lambda>c. c \<noteq> slash) (rev path))"

definition Dir :: "string \<Rightarrow> string" where
  "Dir path = Clean (through_last_slash path)"

definition Base :: "string \<Rightarrow> string" where
  "Base path =
     (if path = [] then ''.''
      else let p = rev (dropWhile (\<lambda>c. c = slash) (rev path))
           in if p = [] then ''/'' else rev (takeWhile (\<lambda>c. c \<noteq> slash) (rev p)))"

definition Join :: "string list \<Rightarrow> string" where
  "Join es =
     (case dropWhile (\<lambda>e. e = []) es of
        [] \<Rightarrow> [] | e # es' \<Rightarrow> Clean (join_with ''/'' (e # es')))"

section \<open>Globs\<close>

text \<open>
  \<open>filepath.Match\<close>, chunk by chunk: a chunk is the part of the pattern up to the next star
  outside a character class.  \<open>Err ()\<close> is \<open>ErrBadPattern\<close>.  Once a chunk has failed the rest
  of it is still parsed, to report a bad pattern.
\<close>

fun skip_stars :: "string \<Rightarrow> bool \<times> string" where
  "skip_stars [] = (False, [])"
| "skip_stars (c # cs) = (if c = CHR ''*'' then (True, snd (skip_stars cs)) else (False, c # cs))"

fun scan_body :: "bool \<Rightarrow> string \<Rightarrow> string \<times> string" where
  "scan_body inrange [] = ([], [])"
| "scan_body inrange (c # cs) =
     (if c = CHR 0x5C then
        (case cs of
           [] \<Rightarrow> ([c], [])
         | d # ds \<Rightarrow> let (chunk, rest) = scan_body inrange ds in (c # d # chunk, rest))
      else if c = CHR ''*'' \<and> \<not> inrange then ([], c # cs)
      else let (chunk, rest) = scan_body (if c = CHR ''['' then True
                                          else if c = CHR '']'' then False else inrange) cs
           in (c # chunk, rest))"

definition scanChunk :: "string \<Rightarrow> bool \<times> string \<times> string" where
  "scanChunk pattern = (let (star, rest) = skip_stars pattern in (star, scan_body False rest))"

definition getEsc :: "string \<Rightarrow> (unit, char \<times> string) outcome" where
  "getEsc chunk =
     (case chunk of
        [] \<Rightarrow> Err ()
      | c # cs \<Rightarrow>
          if c = CHR ''-'' \<or> c = CHR '']'' then Err ()
          else if c = CHR 0x5C
            then (case cs of d # e # ds \<Rightarrow> Ok (d, e # ds) | _ \<Rightarrow> Err ())
          else (if cs = [] then Err () else Ok (c, cs)))"

lemma getEsc_shorter: "getEsc chunk = Ok (c, rest) \<Longrightarrow> length rest < length chunk \<and> rest \<noteq> []"
  by (auto simp: getEsc_def split: list.splits if_splits)

text \<open>The ranges of a character class: whether \<open>r\<close> is in one, and the chunk after the class.\<close>

function class_ranges :: "char \<Rightarrow> bool \<Rightarrow> bool \<Rightarrow> string \<Rightarrow> (unit, bool \<times> string) outcome" where
  "class_ranges r some_range matched chunk =
     (if some_range \<and> chunk \<noteq> [] \<and> hd chunk = CHR '']'' then Ok (matched, tl chunk)
      else case getEsc chunk of
        Err e \<Rightarrow> Err e
      | Panic \<Rightarrow> Panic
      | Ok (lo, rest) \<Rightarrow>
          if hd rest = CHR ''-'' then
            (case getEsc (tl rest) of
               Err e \<Rightarrow> Err e
             | Panic \<Rightarrow> Panic
             | Ok (hi, rest') \<Rightarrow>
                 class_ranges r True
                   (matched \<or> (of_char lo \<le> (of_char r :: nat) \<and> of_char r \<le> (of_char hi :: nat))) rest')
          else class_ranges r True (matched \<or> r = lo) rest)"
  by pat_completeness auto
termination
  by (relation "measure (\<lambda>(_, _, _, chunk). length chunk)")
    (auto dest!: getEsc_shorter)

declare class_ranges.simps [simp del]

lemma class_ranges_shorter:
  "class_ranges r sr m chunk = Ok (b, rest) \<Longrightarrow> length rest < length chunk"
proof (induction r sr m chunk arbitrary: b rest rule: class_ranges.induct)
  case (1 r sr m chunk)
  note ih = "1.IH" and eq = "1.prems"
  show ?case
  proof (cases "sr \<and> chunk \<noteq> [] \<and> hd chunk = CHR '']''")
    case True
    then show ?thesis using eq by (cases chunk) (auto simp: class_ranges.simps [of r True m])
  next
    case False
    then obtain c rest1 where e1: "getEsc chunk = Ok (c, rest1)"
      using eq by (auto simp: class_ranges.simps [of r sr m chunk] split: outcome.splits)
    note s1 = getEsc_shorter [OF e1]
    show ?thesis
    proof (cases "hd rest1 = CHR ''-''")
      case True
      then obtain d rest2 where e2: "getEsc (tl rest1) = Ok (d, rest2)"
        using eq False e1 by (auto simp: class_ranges.simps [of r sr m chunk] split: outcome.splits)
      have "class_ranges r True (m \<or> of_char c \<le> (of_char r :: nat) \<and> of_char r \<le> (of_char d :: nat)) rest2
          = Ok (b, rest)"
        using eq unfolding class_ranges.simps [of r sr m chunk] if_not_P [OF False] by (simp add: e1 True e2)
      from ih(1) [OF False e1 refl True e2 refl this] show ?thesis
        using s1 getEsc_shorter [OF e2] by (cases rest1) auto
    next
      case no: False
      have "class_ranges r True (m \<or> r = c) rest1 = Ok (b, rest)"
        using eq unfolding class_ranges.simps [of r sr m chunk] if_not_P [OF False] by (simp add: e1 no)
      from ih(2) [OF False e1 refl no this] show ?thesis using s1 by simp
    qed
  qed
qed

function matchChunk_loop :: "string \<Rightarrow> string \<Rightarrow> bool \<Rightarrow> (unit, string option) outcome" where
  "matchChunk_loop [] s failed = Ok (if failed then None else Some s)"
| "matchChunk_loop (c # chunk) s failed0 =
     (let failed = (failed0 \<or> s = []) in
      if c = CHR ''['' then
        (let r = (if failed then char_of (0 :: nat) else hd s);
             s' = (if failed then s else tl s);
             negated = (chunk \<noteq> [] \<and> hd chunk = CHR ''^'');
             body = (if negated then tl chunk else chunk)
         in case class_ranges r False False body of
              Err e \<Rightarrow> Err e
            | Panic \<Rightarrow> Panic
            | Ok (matched, rest) \<Rightarrow> matchChunk_loop rest s' (failed \<or> matched = negated))
      else if c = CHR ''?'' then
        (if failed then matchChunk_loop chunk s True
         else matchChunk_loop chunk (tl s) (hd s = slash))
      else if c = CHR 0x5C then
        (case chunk of
           [] \<Rightarrow> Err ()
         | d # rest \<Rightarrow>
             if failed then matchChunk_loop rest s True
             else matchChunk_loop rest (tl s) (d \<noteq> hd s))
      else if failed then matchChunk_loop chunk s True
      else matchChunk_loop chunk (tl s) (c \<noteq> hd s))"
  by pat_completeness auto
termination
  by (relation "measure (\<lambda>(chunk, _, _). length chunk)")
    (auto dest!: class_ranges_shorter simp: tl_def split: if_splits list.splits)

declare matchChunk_loop.simps(2) [simp del]

definition matchChunk :: "string \<Rightarrow> string \<Rightarrow> (unit, string option) outcome" where
  "matchChunk chunk s = matchChunk_loop chunk s False"

fun star_try :: "string \<Rightarrow> bool \<Rightarrow> string \<Rightarrow> (unit, string option) outcome" where
  "star_try chunk final [] = Ok None"
| "star_try chunk final (c # name) =
     (if c = slash then Ok None
      else case matchChunk chunk name of
        Err e \<Rightarrow> Err e
      | Panic \<Rightarrow> Panic
      | Ok None \<Rightarrow> star_try chunk final name
      | Ok (Some t) \<Rightarrow> if final \<and> t \<noteq> [] then star_try chunk final name else Ok (Some t))"

lemma skip_stars_eq:
  "skip_stars pattern = (star, rest) \<Longrightarrow> \<exists>n. pattern = replicate n (CHR ''*'') @ rest
     \<and> star = (0 < n) \<and> (rest = [] \<or> hd rest \<noteq> CHR ''*'')"
proof (induction pattern arbitrary: star rest)
  case (Cons c cs)
  show ?case
  proof (cases "c = CHR ''*''")
    case True
    obtain star' where "skip_stars cs = (star', rest)" and "star" using Cons.prems True by (cases "skip_stars cs") auto
    with Cons.IH obtain n where "cs = replicate n (CHR ''*'') @ rest" "rest = [] \<or> hd rest \<noteq> CHR ''*''" by blast
    with True \<open>star\<close> show ?thesis by (intro exI [of _ "Suc n"]) auto
  qed (use Cons.prems in auto)
qed auto

lemma scan_body_append: "scan_body r pattern = (chunk, rest) \<Longrightarrow> pattern = chunk @ rest"
  by (induction r pattern arbitrary: chunk rest rule: scan_body.induct)
    (auto split: if_splits list.splits prod.splits)

lemma scan_body_nonempty: "pattern \<noteq> [] \<Longrightarrow> hd pattern \<noteq> CHR ''*'' \<Longrightarrow> fst (scan_body False pattern) \<noteq> []"
proof (cases pattern)
  case (Cons c cs)
  moreover assume "hd pattern \<noteq> CHR ''*''"
  ultimately show ?thesis
    unfolding Cons scan_body.simps(2) by (simp only: split: if_split list.split prod.split) (simp add: Let_def split: prod.splits)
qed simp

lemma scanChunk_shorter:
  assumes "pattern \<noteq> []" and "scanChunk pattern = (star, chunk, rest)"
  shows "length rest < length pattern"
proof -
  obtain body where b: "skip_stars pattern = (star, body)" "scan_body False body = (chunk, rest)"
    using assms(2) by (auto simp: scanChunk_def split: prod.splits)
  from skip_stars_eq [OF b(1)] obtain n where n: "pattern = replicate n (CHR ''*'') @ body"
    "star = (0 < n)" "body = [] \<or> hd body \<noteq> CHR ''*''" by blast
  have "body = chunk @ rest" using scan_body_append [OF b(2)] .
  then show ?thesis using n assms(1) scan_body_nonempty [of body] b(2) by (cases n) auto
qed

function check_rest :: "string \<Rightarrow> (unit, bool) outcome" where
  "check_rest pattern =
     (if pattern = [] then Ok False
      else case scanChunk pattern of (_, chunk, rest) \<Rightarrow>
        and_then (matchChunk chunk []) (\<lambda>_. check_rest rest))"
  by pat_completeness auto
termination
  by (relation "measure length") (auto simp: scanChunk_shorter dest: sym)

function Match :: "string \<Rightarrow> string \<Rightarrow> (unit, bool) outcome" where
  "Match pattern name =
     (if pattern = [] then Ok (name = [])
      else case scanChunk pattern of (star, chunk, rest) \<Rightarrow>
        if star \<and> chunk = [] then Ok (\<not> Contains name ''/'')
        else and_then (matchChunk chunk name) (\<lambda>m.
          case m of
            Some t \<Rightarrow>
              if t = [] \<or> rest \<noteq> [] then Match rest t
              else if star
                then and_then (star_try chunk (rest = []) name) (\<lambda>m'.
                  case m' of Some t' \<Rightarrow> Match rest t' | None \<Rightarrow> check_rest rest)
              else check_rest rest
          | None \<Rightarrow>
              if star
                then and_then (star_try chunk (rest = []) name) (\<lambda>m'.
                  case m' of Some t' \<Rightarrow> Match rest t' | None \<Rightarrow> check_rest rest)
              else check_rest rest))"
  by pat_completeness auto
termination
  by (relation "measure (length \<circ> fst)") (auto simp: scanChunk_shorter dest: sym)

declare check_rest.simps [simp del] Match.simps [simp del]

subsection \<open>A glob never crosses a directory\<close>

definition plain :: "string \<Rightarrow> bool" where
  "plain pattern \<longleftrightarrow> CHR ''['' \<notin> set pattern \<and> CHR 0x5C \<notin> set pattern"

abbreviation slashes :: "string \<Rightarrow> nat" where "slashes path \<equiv> count_list path slash"

lemma plain_append [simp]: "plain (a @ b) \<longleftrightarrow> plain a \<and> plain b"
  by (auto simp: plain_def)

lemma count_list_append [simp]: "count_list (a @ b) x = count_list a x + count_list b x"
  by (induction a) auto

lemma matchChunk_loop_depth:
  "plain chunk \<Longrightarrow> matchChunk_loop chunk s failed = Ok (Some t) \<Longrightarrow>
     \<not> failed \<and> (\<exists>u. s = u @ t \<and> slashes u = slashes chunk)"
proof (induction chunk arbitrary: s failed)
  case (Cons c chunk)
  have c: "c \<noteq> CHR ''[''" "c \<noteq> CHR 0x5C" "plain chunk" using Cons.prems(1) by (auto simp: plain_def)
  note eq = Cons.prems(2) [unfolded matchChunk_loop.simps(2) Let_def if_not_P [OF c(1)] if_not_P [OF c(2)]]
  have ok: "\<not> failed" "s \<noteq> []" using eq Cons.IH [OF c(3), of s True] by (auto split: if_splits)
  then obtain d s' where s: "s = d # s'" by (cases s) auto
  have "\<exists>f. matchChunk_loop chunk s' f = Ok (Some t) \<and> (\<not> f \<longrightarrow> d = c \<or> c = CHR ''?'' \<and> d \<noteq> slash)"
    using eq ok(1) s by (auto split: if_splits)
  with Cons.IH [OF c(3), of s'] obtain u where "s' = u @ t" "slashes u = slashes chunk"
    "d = c \<or> c = CHR ''?'' \<and> d \<noteq> slash" by blast
  with s ok(1) show ?case by (intro conjI exI [of _ "d # u"]) auto
qed (auto split: if_splits)

lemma matchChunk_depth:
  "plain chunk \<Longrightarrow> matchChunk chunk s = Ok (Some t) \<Longrightarrow> slashes s = slashes chunk + slashes t"
  using matchChunk_loop_depth [of chunk s False t] by (auto simp: matchChunk_def)

lemma star_try_depth:
  "plain chunk \<Longrightarrow> star_try chunk final name = Ok (Some t) \<Longrightarrow> slashes name = slashes chunk + slashes t"
  by (induction chunk final name rule: star_try.induct)
    (auto split: if_splits outcome.splits option.splits dest: matchChunk_depth)

lemma check_rest_never: "check_rest pattern \<noteq> Ok True"
proof (induction pattern rule: check_rest.induct)
  case (1 pattern)
  show ?case
  proof
    assume eq: "check_rest pattern = Ok True"
    obtain star chunk rest where sc: "scanChunk pattern = (star, chunk, rest)" by (cases "scanChunk pattern") auto
    have "pattern \<noteq> []" using eq by (auto simp: check_rest.simps [of pattern])
    with eq sc obtain x where "check_rest rest = Ok True"
      by (auto simp: check_rest.simps [of pattern] and_then_Ok_iff)
    with "1.IH" [OF \<open>pattern \<noteq> []\<close> sc [symmetric] refl] show False by simp
  qed
qed

lemma depth_stars [simp]: "slashes (replicate n (CHR ''*'')) = 0"
  by (induction n) auto

lemma scanChunk_parts:
  assumes "scanChunk pattern = (star, chunk, rest)"
  shows "plain pattern \<longleftrightarrow> plain chunk \<and> plain rest" and "slashes pattern = slashes chunk + slashes rest"
proof -
  obtain body where b: "skip_stars pattern = (star, body)" "scan_body False body = (chunk, rest)"
    using assms by (auto simp: scanChunk_def split: prod.splits)
  from skip_stars_eq [OF b(1)] obtain n where n: "pattern = replicate n (CHR ''*'') @ body" by blast
  have "plain (replicate n (CHR ''*''))" by (auto simp: plain_def)
  then show "plain pattern \<longleftrightarrow> plain chunk \<and> plain rest" "slashes pattern = slashes chunk + slashes rest"
    using n scan_body_append [OF b(2)] by simp_all
qed

lemma scanChunk_last:
  assumes "scanChunk pattern = (star, [], rest)"
  shows "rest = []"
proof -
  obtain body where b: "skip_stars pattern = (star, body)" "scan_body False body = ([], rest)"
    using assms by (auto simp: scanChunk_def split: prod.splits)
  then have "body = []" using skip_stars_eq [OF b(1)] scan_body_nonempty [of body] by auto
  with b(2) show ?thesis by simp
qed

lemma Match_depth: "plain pattern \<Longrightarrow> Match pattern name = Ok True \<Longrightarrow> slashes name = slashes pattern"
proof (induction "length pattern" arbitrary: pattern name rule: less_induct)
  case less
  show ?case
  proof (cases "pattern = []")
    case True
    then show ?thesis using less.prems(2) by (simp add: Match.simps [of "[]"])
  next
    case False
    obtain star chunk rest where sc: "scanChunk pattern = (star, chunk, rest)" by (cases "scanChunk pattern") auto
    note parts = scanChunk_parts [OF sc]
    have pl: "plain chunk" "plain rest" using less.prems(1) parts(1) by auto
    show ?thesis
    proof (cases "star \<and> chunk = []")
      case True
      then have "\<not> Contains name ''/''" "rest = []"
        using less.prems(2) False sc scanChunk_last [of pattern star rest] by (simp_all add: Match.simps [of pattern])
      then show ?thesis using parts(2) True by (simp add: Contains_single)
    next
      case no: False
      have star: "\<exists>t. Match rest t = Ok True \<and> slashes name = slashes chunk + slashes t"
        if k: "and_then (star_try chunk (rest = []) name)
          (\<lambda>m'. case m' of Some t' \<Rightarrow> Match rest t' | None \<Rightarrow> check_rest rest) = Ok True"
      proof -
        obtain m' where "star_try chunk (rest = []) name = Ok m'"
          "(case m' of Some t' \<Rightarrow> Match rest t' | None \<Rightarrow> check_rest rest) = Ok True"
          using k unfolding and_then_Ok_iff by blast
        then show ?thesis using check_rest_never [of rest] star_try_depth [OF pl(1)] by (cases m') auto
      qed
      from less.prems(2) obtain m where "matchChunk chunk name = Ok m" and
        m: "(case m of
            Some t \<Rightarrow>
              if t = [] \<or> rest \<noteq> [] then Match rest t
              else if star
                then and_then (star_try chunk (rest = []) name) (\<lambda>m'.
                  case m' of Some t' \<Rightarrow> Match rest t' | None \<Rightarrow> check_rest rest)
              else check_rest rest
          | None \<Rightarrow>
              if star
                then and_then (star_try chunk (rest = []) name) (\<lambda>m'.
                  case m' of Some t' \<Rightarrow> Match rest t' | None \<Rightarrow> check_rest rest)
              else check_rest rest) = Ok True"
        unfolding Match.simps [of pattern] if_not_P [OF False] sc prod.case if_not_P [OF no] and_then_Ok_iff
        by blast
      then have "\<exists>t. Match rest t = Ok True \<and> slashes name = slashes chunk + slashes t"
        using star check_rest_never [of rest] matchChunk_depth [OF pl(1)]
        by (cases m) (auto split: if_splits)
      then show ?thesis
        using less.hyps [OF scanChunk_shorter [OF False sc] pl(2)] parts(2) by auto
    qed
  qed
qed

subsection \<open>A pattern without metacharacters matches itself\<close>

definition no_meta :: "string \<Rightarrow> bool" where
  "no_meta pattern \<longleftrightarrow> (\<forall>c \<in> set pattern. c \<notin> {CHR ''*'', CHR ''?'', CHR ''['', CHR 0x5C})"

lemma scan_body_no_meta: "no_meta pattern \<Longrightarrow> scan_body r pattern = (pattern, [])"
proof (induction pattern arbitrary: r)
  case (Cons c cs)
  then have "scan_body r' cs = (cs, [])" for r' by (simp add: no_meta_def)
  moreover have "c \<noteq> CHR ''*''" "c \<noteq> CHR 0x5C" using Cons.prems by (simp_all add: no_meta_def)
  ultimately show ?case by (simp add: scan_body.simps(2))
qed simp

lemma scanChunk_no_meta:
  assumes "no_meta pattern"
  shows "scanChunk pattern = (False, pattern, [])"
proof -
  have "skip_stars pattern = (False, pattern)" using assms by (cases pattern) (auto simp: no_meta_def)
  then show ?thesis by (simp add: scanChunk_def scan_body_no_meta [OF assms])
qed

lemma matchChunk_loop_no_meta:
  "no_meta chunk \<Longrightarrow> matchChunk_loop chunk s failed =
     Ok (if \<not> failed \<and> HasPrefix s chunk then Some (drop (length chunk) s) else None)"
proof (induction chunk arbitrary: s failed)
  case (Cons c chunk)
  then have ih: "matchChunk_loop chunk s' f =
      Ok (if \<not> f \<and> HasPrefix s' chunk then Some (drop (length chunk) s') else None)" for s' f
    by (simp add: no_meta_def)
  have c: "c \<noteq> CHR ''[''" "c \<noteq> CHR ''?''" "c \<noteq> CHR 0x5C" using Cons.prems by (simp_all add: no_meta_def)
  show ?case
    unfolding matchChunk_loop.simps(2) Let_def if_not_P [OF c(1)] if_not_P [OF c(2)] if_not_P [OF c(3)] ih
    by (cases s) (auto simp: HasPrefix_def)
qed (simp add: HasPrefix_def)

lemma Match_no_meta:
  assumes "no_meta pattern"
  shows "Match pattern name = Ok (name = pattern)"
proof (cases "pattern = []")
  case False
  have e: "Match [] t = Ok (t = [])" "check_rest [] = Ok False" for t
    by (simp_all add: Match.simps [of "[]"] check_rest.simps [of "[]"])
  have "HasPrefix name pattern \<and> drop (length pattern) name = [] \<longleftrightarrow> name = pattern"
    by (auto simp: HasPrefix_iff)
  then show ?thesis
    using False by (auto simp: Match.simps [of pattern] scanChunk_no_meta [OF assms] matchChunk_def
        matchChunk_loop_no_meta [OF assms] e)
qed (simp add: Match.simps [of "[]"])

section \<open>Canonical paths\<close>

text \<open>
  \<open>filepath.Rel\<close> on the elements of the cleaned paths: the common front is dropped, each
  remaining element of the base becomes \<open>..\<close>.
\<close>

definition path_elems :: "string \<Rightarrow> string list" where
  "path_elems path = (if Clean path = ''.'' then [] else filter (\<lambda>e. e \<noteq> []) (split_on slash (Clean path)))"

fun strip_common :: "string list \<Rightarrow> string list \<Rightarrow> string list \<times> string list" where
  "strip_common (b # bs) (t # ts) = (if b = t then strip_common bs ts else (b # bs, t # ts))"
| "strip_common bs ts = (bs, ts)"

definition Rel :: "string \<Rightarrow> string \<Rightarrow> string option" where
  "Rel base targ =
     (if IsAbs base \<noteq> IsAbs targ then None
      else let (b, t) = strip_common (path_elems base) (path_elems targ)
           in if b \<noteq> [] \<and> hd b = ''..'' then None
              else let r = map (\<lambda>_. ''..'') b @ t in Some (if r = [] then ''.'' else join_with ''/'' r))"

definition valid_elem :: "string \<Rightarrow> bool" where
  "valid_elem e \<longleftrightarrow> e \<noteq> [] \<and> e \<noteq> ''.'' \<and> e \<noteq> ''..'' \<and> slash \<notin> set e"

definition abs_path :: "string list \<Rightarrow> string" where
  "abs_path es = slash # join_with ''/'' es"

lemma split_on_append: "d \<notin> set a \<Longrightarrow> split_on d (a @ d # s) = a # split_on d s"
  by (induction a) auto

lemma split_on_single: "d \<notin> set a \<Longrightarrow> split_on d a = [a]"
  by (induction a) auto

lemma split_on_join:
  "\<forall>e \<in> set es. d \<notin> set e \<Longrightarrow> es \<noteq> [] \<Longrightarrow> split_on d (join_with [d] es) = es"
proof (induction es)
  case (Cons x es)
  then show ?case
    using split_on_append [of d x "join_with [d] es"] split_on_single [of d x] by (cases es) auto
qed simp

lemma clean_elems_valid: "\<forall>e \<in> set es. valid_elem e \<Longrightarrow> clean_elems r out es = rev out @ es"
  by (induction es arbitrary: out) (auto simp: valid_elem_def)

lemma clean_elems_append:
  "\<forall>e \<in> set es. valid_elem e \<Longrightarrow> clean_elems r out (es @ fs) = clean_elems r (rev es @ out) fs"
  by (induction es arbitrary: out) (auto simp: valid_elem_def)

lemma join_with_snoc: "es \<noteq> [] \<Longrightarrow> join_with d (es @ [n]) = join_with d es @ d @ n"
  by (induction d es rule: join_with.induct) auto

lemma IsAbs_abs_path [simp]: "IsAbs (abs_path es)" "IsAbs (slash # s)"
  by (simp_all add: IsAbs_def HasPrefix_def abs_path_def)

lemma Clean_slash: "Clean (slash # s) = slash # join_with ''/'' (clean_elems True [] (split_on slash s))"
  by (simp add: Clean_def Let_def)

lemma split_abs:
  "\<forall>e \<in> set es. valid_elem e \<Longrightarrow> split_on slash (join_with ''/'' es) = (if es = [] then [[]] else es)"
  using split_on_join [of es] by (simp add: valid_elem_def)

lemma Clean_abs_path: "\<forall>e \<in> set es. valid_elem e \<Longrightarrow> Clean (abs_path es) = abs_path es"
  by (simp add: abs_path_def Clean_slash split_abs clean_elems_valid)

lemma Join_abs_path:
  assumes "\<forall>e \<in> set es. valid_elem e" and "valid_elem n"
  shows "Join [abs_path es, n] = abs_path (es @ [n])"
proof -
  have n: "split_on slash n = [n]" using assms(2) by (simp add: valid_elem_def split_on_single)
  have v: "\<forall>e \<in> set (es @ [n]). valid_elem e" using assms by simp
  show ?thesis
  proof (cases "es = []")
    case True
    have "Join [abs_path es, n] = Clean (slash # slash # n)" using True by (simp add: Join_def abs_path_def)
    also have "\<dots> = abs_path [n]" using n v clean_elems_valid [of "[n]" True "[]"] True
      by (simp add: Clean_slash abs_path_def)
    finally show ?thesis using True by simp
  next
    case False
    have "Join [abs_path es, n] = Clean (slash # join_with ''/'' (es @ [n]))"
      using False by (simp add: Join_def abs_path_def join_with_snoc)
    then show ?thesis using Clean_abs_path [OF v] by (simp add: abs_path_def)
  qed
qed

lemma path_elems_abs: "\<forall>e \<in> set es. valid_elem e \<Longrightarrow> path_elems (abs_path es) = es"
proof -
  assume v: "\<forall>e \<in> set es. valid_elem e"
  have "abs_path es \<noteq> ''.''" by (simp add: abs_path_def)
  moreover have "filter (\<lambda>e. e \<noteq> []) es = es" using v by (auto simp: valid_elem_def filter_id_conv)
  ultimately show ?thesis
    unfolding path_elems_def Clean_abs_path [OF v] using v
    by (simp add: abs_path_def split_abs)
qed

lemma strip_common_append: "strip_common es (es @ ns) = ([], ns)"
  by (induction es) auto

lemma Rel_abs_path:
  "\<forall>e \<in> set (es @ ns). valid_elem e \<Longrightarrow> Rel (abs_path es) (abs_path (es @ ns)) =
     Some (if ns = [] then ''.'' else join_with ''/'' ns)"
  by (simp add: Rel_def path_elems_abs strip_common_append)

lemma Dir_abs_path:
  assumes "\<forall>e \<in> set es. valid_elem e" and "valid_elem n"
  shows "Dir (abs_path (es @ [n])) = abs_path es"
proof -
  have n: "slash \<notin> set n" using assms(2) by (simp add: valid_elem_def)
  have t: "through_last_slash (s @ slash # n) = s @ [slash]" for s
  proof -
    have "dropWhile (\<lambda>c. c \<noteq> slash) (rev n @ slash # rev s) = slash # rev s"
      using n by (subst dropWhile_append2) auto
    then show ?thesis by (simp add: through_last_slash_def)
  qed
  show ?thesis
  proof (cases "es = []")
    case True
    then have "Dir (abs_path (es @ [n])) = Clean (slash # [])" using t [of "[]"] by (simp add: Dir_def abs_path_def)
    then show ?thesis using True by (simp add: Clean_slash abs_path_def)
  next
    case False
    then have "Dir (abs_path (es @ [n])) = Clean (slash # join_with ''/'' es @ [slash])"
      using t [of "slash # join_with ''/'' es"] by (simp add: Dir_def abs_path_def join_with_snoc)
    moreover have "split_on slash (join_with ''/'' es @ [slash]) = es @ [[]]"
    proof -
      have "\<forall>e \<in> set (es @ [[]]). slash \<notin> set e" using assms(1) by (auto simp: valid_elem_def)
      from split_on_join [OF this] show ?thesis using False by (simp add: join_with_snoc)
    qed
    ultimately show ?thesis
      by (simp add: Clean_slash abs_path_def clean_elems_append [OF assms(1)])
  qed
qed

lemma split_on_middle: "split_on d (a @ d # s) = split_on d a @ split_on d s"
proof (induction a)
  case (Cons x a)
  moreover have "split_on d a \<noteq> []" by (cases a) (auto split: list.splits)
  ultimately show ?case by (auto split: list.splits)
qed simp

lemma clean_elems_snoc: "valid_elem n \<Longrightarrow> clean_elems r out (es @ [n]) = clean_elems r out es @ [n]"
  by (induction r out es rule: clean_elems.induct) (auto simp: valid_elem_def split: list.splits)

text \<open>Joining a plain name keeps it at the end, whatever comes before.\<close>

lemma Join_ends:
  assumes "valid_elem n"
  shows "\<exists>front. Join [p, n] = front @ n"
proof -
  have ends: "\<exists>front. join_with ''/'' (es @ [n]) = front @ n" for es
    using join_with_snoc [of es "''/''" n] by (cases "es = []") auto
  have n: "split_on slash n = [n]" "n \<noteq> []" using assms by (simp_all add: valid_elem_def split_on_single)
  have "\<exists>es. split_on slash (if p = [] then n else p @ slash # n) = es @ [n]"
    using n split_on_middle [of slash p n] by auto
  then obtain es where es: "split_on slash (if p = [] then n else p @ slash # n) = es @ [n]" by blast
  obtain front where f: "join_with ''/'' (clean_elems (IsAbs (if p = [] then n else p @ slash # n)) [] es @ [n]) = front @ n"
    using ends by blast
  have "Join [p, n] = Clean (if p = [] then n else p @ slash # n)" using n(2) by (simp add: Join_def)
  also have "\<dots> = (if IsAbs (if p = [] then n else p @ slash # n) then slash # front @ n else front @ n)"
    unfolding Clean_def es using f n(2) by (simp add: clean_elems_snoc [OF assms] Let_def)
  finally show ?thesis by (metis append_Cons)
qed

end
