(* ===== verification/Agent_Runtime.thy ===== *)
theory Agent_Runtime
  imports Go_Text
begin

text \<open>
  Small parts the services share: the concurrent map and the running maximum of
  \<open>internal/utils\<close>, defaults of a request (\<open>internal/execcontext\<close>), users, paths and
  directories (\<open>internal/permissions\<close>) and the choice of the network interface
  (\<open>internal/net\<close>).  Calls into the operating system are parameters.
\<close>

section \<open>Utilities\<close>

text \<open>
  The map of \<open>utils/map.go\<close> wraps \<open>sync.Map\<close>, whose operations are atomic; \<open>Range\<close> visits the
  entries in an unspecified order, the argument \<open>order\<close>, until the callback returns false.
\<close>

type_synonym ('k, 'v) Map = "'k \<rightharpoonup> 'v"

definition NewMap :: "('k, 'v) Map" where "NewMap = Map.empty"

definition Map_Delete :: "('k, 'v) Map \<Rightarrow> 'k \<Rightarrow> ('k, 'v) Map" where
  "Map_Delete m key = m(key := None)"

definition Map_Load :: "('k, 'v) Map \<Rightarrow> 'k \<Rightarrow> 'v option" where
  "Map_Load m key = m key"

definition Map_LoadAndDelete :: "('k, 'v) Map \<Rightarrow> 'k \<Rightarrow> 'v option \<times> ('k, 'v) Map" where
  "Map_LoadAndDelete m key = (m key, m(key := None))"

definition Map_LoadOrStore :: "('k, 'v) Map \<Rightarrow> 'k \<Rightarrow> 'v \<Rightarrow> ('v \<times> bool) \<times> ('k, 'v) Map" where
  "Map_LoadOrStore m key v =
     (case m key of Some a \<Rightarrow> ((a, True), m) | None \<Rightarrow> ((v, False), m(key \<mapsto> v)))"

definition Map_Store :: "('k, 'v) Map \<Rightarrow> 'k \<Rightarrow> 'v \<Rightarrow> ('k, 'v) Map" where
  "Map_Store m key v = m(key \<mapsto> v)"

fun Map_Range :: "('k, 'v) Map \<Rightarrow> 'k list \<Rightarrow> ('k \<Rightarrow> 'v \<Rightarrow> 's \<Rightarrow> bool \<times> 's) \<Rightarrow> 's \<Rightarrow> 's" where
  "Map_Range m [] f s = s"
| "Map_Range m (k # order) f s =
     (case m k of
        None \<Rightarrow> Map_Range m order f s
      | Some v \<Rightarrow> (case f k v s of (go_on, s') \<Rightarrow> if go_on then Map_Range m order f s' else s'))"

text \<open>The contract of the map that the services rely on.\<close>

locale key_map =
  fixes empty :: "'m"
    and load :: "'m \<Rightarrow> 'k \<Rightarrow> 'v option"
    and store :: "'m \<Rightarrow> 'k \<Rightarrow> 'v \<Rightarrow> 'm"
    and delete :: "'m \<Rightarrow> 'k \<Rightarrow> 'm"
  assumes load_empty [simp]: "load empty k = None"
    and load_store: "load (store m k v) j = (if j = k then Some v else load m j)"
    and load_delete: "load (delete m k) j = (if j = k then None else load m j)"
begin

lemma load_store_delete: "load (delete (store m k v) k) j = load (delete m k) j"
  by (simp add: load_store load_delete)

lemma last_store_wins:
  "load (fold (\<lambda>(k, v) m. store m k v) kvs m) j =
     (case map_of (rev kvs) j of Some v \<Rightarrow> Some v | None \<Rightarrow> load m j)"
  by (induction kvs rule: rev_induct) (auto simp: load_store)

end

interpretation sync_map: key_map NewMap Map_Load Map_Store Map_Delete
  by unfold_locales (auto simp: NewMap_def Map_Load_def Map_Store_def Map_Delete_def)

text \<open>\<open>utils/atomic.go\<close>: the running maximum.\<close>

definition NewAtomicMax :: i64 where "NewAtomicMax = 0"

definition SetToGreater :: "i64 \<Rightarrow> i64 \<Rightarrow> bool \<times> i64" where
  "SetToGreater val newValue =
     (if sint newValue < sint val then (False, val) else (True, newValue))"

text \<open>\<open>utils/rfsnotify.go\<close>.\<close>

definition FsnotifyPath :: "string \<Rightarrow> bool \<Rightarrow> string" where
  "FsnotifyPath path recursive = (if recursive then Join [path, ''...''] else path)"

section \<open>Defaults of a request\<close>

record Defaults =
  df_EnvVars :: "(string, string) Map"
  df_User :: string
  df_Workdir :: "string option"
  df_UseOverlay :: bool

definition ResolveDefaultWorkdir :: "string \<Rightarrow> string option \<Rightarrow> string" where
  "ResolveDefaultWorkdir workdir defaultWorkdir =
     (if workdir \<noteq> [] then workdir
      else case defaultWorkdir of Some d \<Rightarrow> d | None \<Rightarrow> [])"

datatype username_error = UsernameNotProvided

definition ResolveDefaultUsername :: "string option \<Rightarrow> string \<Rightarrow> (username_error, string) outcome" where
  "ResolveDefaultUsername username defaultUsername =
     (case username of
        Some u \<Rightarrow> Ok u
      | None \<Rightarrow> if defaultUsername \<noteq> [] then Ok defaultUsername else Err UsernameNotProvided)"

section \<open>Users and paths\<close>

record User =
  u_Uid :: string
  u_Gid :: string
  u_Username :: string
  u_HomeDir :: string

datatype user_error = LookupFailed | InvalidUid | InvalidGid

text \<open>\<open>strconv.Atoi\<close>: an optional sign, decimal digits, and the range of \<open>int\<close>.\<close>

definition decimal :: "string \<Rightarrow> int option" where
  "decimal s =
     (if s \<noteq> [] \<and> list_all (\<lambda>c. 48 \<le> (of_char c :: nat) \<and> (of_char c :: nat) \<le> 57) s
      then Some (foldl (\<lambda>v c. 10 * v + (of_char c - 48)) 0 s) else None)"

definition Atoi :: "string \<Rightarrow> int option" where
  "Atoi s =
     (case s of
        [] \<Rightarrow> None
      | c # cs \<Rightarrow>
          (case (if c = CHR ''-'' then map_option uminus (decimal cs)
                 else if c = CHR ''+'' then decimal cs else decimal s) of
             None \<Rightarrow> None
           | Some v \<Rightarrow> if - (2 ^ 63) \<le> v \<and> v < 2 ^ 63 then Some v else None))"

definition GetUser :: "(string \<Rightarrow> User option) \<Rightarrow> string \<Rightarrow> (user_error, User) outcome" where
  "GetUser lookup username = (case lookup username of None \<Rightarrow> Err LookupFailed | Some u \<Rightarrow> Ok u)"

definition GetAuthUser :: "(string \<Rightarrow> User option) \<Rightarrow> string \<Rightarrow> (user_error, User) outcome" where
  "GetAuthUser lookup defaultUsername = GetUser lookup defaultUsername"

definition GetUserIdInts :: "User \<Rightarrow> (user_error, int \<times> int) outcome" where
  "GetUserIdInts u =
     (case Atoi (u_Uid u) of
        None \<Rightarrow> Err InvalidUid
      | Some uid \<Rightarrow> (case Atoi (u_Gid u) of None \<Rightarrow> Err InvalidGid | Some gid \<Rightarrow> Ok (uid, gid)))"

definition GetUserIdUints :: "User \<Rightarrow> (user_error, u32 \<times> u32) outcome" where
  "GetUserIdUints u = and_then (GetUserIdInts u) (\<lambda>(uid, gid). Ok (word_of_int uid, word_of_int gid))"

text \<open>
  \<open>ExpandAndResolve\<close>; the resolution of symbolic links is the parameter \<open>evalSymlinks\<close>, which
  is \<open>None\<close> on an error.  The function never returns an error.
\<close>

definition expand_home :: "string \<Rightarrow> User \<Rightarrow> string" where
  "expand_home path u = (if path \<noteq> [] \<and> hd path = CHR ''~'' then Join [u_HomeDir u, tl path] else path)"

definition in_workdir :: "string \<Rightarrow> string option \<Rightarrow> string" where
  "in_workdir path workdir =
     (case workdir of Some w \<Rightarrow> if \<not> IsAbs path then Join [w, path] else path | None \<Rightarrow> path)"

definition ExpandAndResolve ::
  "(string \<Rightarrow> string option) \<Rightarrow> string \<Rightarrow> User \<Rightarrow> string option \<Rightarrow> ('e, string) outcome" where
  "ExpandAndResolve evalSymlinks path u workdir =
     (let p = in_workdir (expand_home path u) workdir
      in case evalSymlinks p of None \<Rightarrow> Ok (Clean p) | Some resolved \<Rightarrow> Ok resolved)"

definition EnsureDirs ::
  "(string \<Rightarrow> ('e, unit, 'w) io) \<Rightarrow> (string \<Rightarrow> int \<Rightarrow> int \<Rightarrow> ('e, unit, 'w) io)
     \<Rightarrow> string \<Rightarrow> int \<Rightarrow> int \<Rightarrow> ('e, unit, 'w) io" where
  "EnsureDirs mkdirAll chown path uid gid =
     (let dir = Dir path in io_then (mkdirAll dir) (\<lambda>_. chown dir uid gid))"

section \<open>The network interface\<close>

text \<open>
  \<open>net.go\<close>: \<open>exists\<close> is \<open>os.Stat\<close> below \<open>/sys/class/net\<close>, \<open>entries\<close> the names \<open>os.ReadDir\<close>
  lists there (\<open>None\<close> on an error), and \<open>tc\<close> and \<open>mkdirAll\<close> run the command and create the
  directory.
\<close>

definition detectInterface :: "(string \<Rightarrow> bool) \<Rightarrow> string list option \<Rightarrow> string" where
  "detectInterface exists entries =
     (case find (\<lambda>name. exists (Join [''/sys/class/net'', name])) [''spr0'', ''eth0''] of
        Some name \<Rightarrow> name
      | None \<Rightarrow>
          (case entries of
             None \<Rightarrow> []
           | Some names \<Rightarrow> (case find (\<lambda>name. name \<noteq> ''lo'') names of Some name \<Rightarrow> name | None \<Rightarrow> [])))"

definition bpfPinDir :: string where "bpfPinDir = ''/sys/fs/bpf/aether''"

definition Net_Setup ::
  "(string \<Rightarrow> bool) \<Rightarrow> string list option \<Rightarrow> (string \<Rightarrow> ('e, unit, 'w) io)
     \<Rightarrow> (string list \<Rightarrow> ('e, unit, 'w) io) \<Rightarrow> ('e, unit, 'w) io" where
  "Net_Setup exists entries mkdirAll tc =
     (let iface = detectInterface exists entries
      in if iface = [] then io_return ()
         else io_try (mkdirAll bpfPinDir)
           (io_try (tc [''qdisc'', ''add'', ''dev'', iface, ''clsact'']) (io_return ())))"

section \<open>Properties\<close>

text \<open>
  The running maximum: after any sequence of updates its value is the largest (as a
  signed number) of the initial zero and the updates, whatever their order.
\<close>

lemma AtomicMax_is_max:
  "sint (fold (\<lambda>v val. snd (SetToGreater val v)) vs NewAtomicMax) = Max (insert 0 (sint ` set vs))"
proof -
  have "sint (fold (\<lambda>v val. snd (SetToGreater val v)) vs val) = Max (insert (sint val) (sint ` set vs))" for val :: i64
  proof (induction vs arbitrary: val)
    case (Cons v vs)
    have m: "sint (snd (SetToGreater val v)) = max (sint val) (sint v)" by (simp add: SetToGreater_def)
    show ?case
      unfolding fold_Cons o_apply Cons.IH m by (simp add: Max_insert [symmetric] insert_commute max.left_commute max.assoc
          del: Max_insert) (cases "vs = []"; simp add: max.assoc max.left_commute)
  qed simp
  from this [of NewAtomicMax] show ?thesis by (simp add: NewAtomicMax_def)
qed

section \<open>Decimal text\<close>

abbreviation digits_value :: "string \<Rightarrow> int" where
  "digits_value s \<equiv> foldl (\<lambda>v c. 10 * v + (of_char c - 48)) 0 s"

lemma of_digit_char: "d < 10 \<Longrightarrow> (of_char (digit_char d) :: nat) = 48 + d"
  by (simp add: digit_char_def)

lemma of_digit_char_int: "d < 10 \<Longrightarrow> (of_char (digit_char d) :: int) = 48 + int d"
  using of_digit_char [of d] by (metis of_nat_add of_nat_numeral of_nat_of_char)

lemma nat_digits_value: "digits_value (nat_digits n) = int n"
proof (induction n rule: nat_digits.induct)
  case (1 n)
  show ?case
  proof (cases "n < 10")
    case True
    then show ?thesis by (simp add: nat_digits.simps of_digit_char_int)
  next
    case False
    then have "digits_value (nat_digits n) = 10 * digits_value (nat_digits (n div 10)) + int (n mod 10)"
      by (subst nat_digits.simps) (simp add: of_digit_char_int)
    also have "\<dots> = 10 * int (n div 10) + int (n mod 10)" using 1 False by simp
    also have "\<dots> = int n" by (metis mult_div_mod_eq of_nat_add of_nat_mult of_nat_numeral)
    finally show ?thesis .
  qed
qed

lemma nat_digits_chars: "nat_digits n \<noteq> [] \<and> (\<forall>c \<in> set (nat_digits n). 48 \<le> (of_char c :: nat) \<and> (of_char c :: nat) \<le> 57)"
proof (induction n rule: nat_digits.induct)
  case (1 n)
  then show ?case by (cases "n < 10") (auto simp: nat_digits.simps [of n] of_digit_char)
qed

lemma decimal_nat_digits: "decimal (nat_digits n) = Some (int n)"
  using nat_digits_chars nat_digits_value by (simp add: decimal_def list_all_iff)

lemma Atoi_Itoa:
  assumes "0 \<le> i" and "i < 2 ^ 63"
  shows "Atoi (Itoa i) = Some i"
proof -
  obtain c cs where s: "nat_digits (nat i) = c # cs" using nat_digits_chars [of "nat i"] by (cases "nat_digits (nat i)") auto
  then have "48 \<le> (of_char c :: nat)" using nat_digits_chars [of "nat i"] by simp
  then have "c \<noteq> CHR ''-''" "c \<noteq> CHR ''+''" by auto
  then show ?thesis using assms s decimal_nat_digits [of "nat i"] by (simp add: Atoi_def Itoa_def)
qed

lemma digits_value_zeros: "digits_value (replicate k CHR ''0'' @ s) = digits_value s"
  by (induction k) simp_all

end
