(* ===== verification/Filesystem_Entries.thy ===== *)
theory Filesystem_Entries
  imports Agent_Runtime
begin

text \<open>
  File metadata and directory walks: \<open>packages/shared/pkg/filesystem/entry.go\<close> and
  \<open>model.go\<close>, and of the file system service \<open>utils.go\<close> and the listing of \<open>dir.go\<close>.  The
  system calls on the file system are the fields of \<open>fs_ops\<close>, over a world \<open>'w\<close>; error
  values carry whether \<open>os.IsNotExist\<close> holds of them and their text.  Of an RPC error only
  the code is kept, not the message.
\<close>

section \<open>Operating system interface\<close>

record os_error =
  oe_notExist :: bool
  oe_text :: string

text \<open>\<open>time.Time\<close> as seconds and nanoseconds from the Unix epoch; the zero time is year one.\<close>

datatype go_time = GoTime int int

definition zeroTime :: go_time where "zeroTime = GoTime (- 62135596800) 0"

definition time_Unix :: "int \<Rightarrow> int \<Rightarrow> go_time" where
  "time_Unix sec nsec = GoTime (sec + nsec div 1000000000) (nsec mod 1000000000)"

record Stat_t =
  st_Atim :: "int \<times> int"
  st_Mtim :: "int \<times> int"
  st_Ctim :: "int \<times> int"
  st_Uid :: u32
  st_Gid :: u32

record FileInfo =
  fi_Name :: string
  fi_Size :: i64
  fi_Mode :: u32
  fi_ModTime :: go_time
  fi_Sys :: "Stat_t option"

record 'w fs_ops =
  os_Stat :: "string \<Rightarrow> 'w \<Rightarrow> (os_error, FileInfo) outcome"
  os_Lstat :: "string \<Rightarrow> 'w \<Rightarrow> (os_error, FileInfo) outcome"
  os_EvalSymlinks :: "string \<Rightarrow> 'w \<Rightarrow> (os_error, string) outcome"
  os_Statfs :: "string \<Rightarrow> 'w \<Rightarrow> (os_error, u64) outcome"
  os_MkdirAll :: "string \<Rightarrow> (os_error, unit, 'w) io"
  os_Chown :: "string \<Rightarrow> int \<Rightarrow> int \<Rightarrow> (os_error, unit, 'w) io"
  os_Rename :: "string \<Rightarrow> string \<Rightarrow> (os_error, unit, 'w) io"
  os_RemoveAll :: "string \<Rightarrow> (os_error, unit, 'w) io"
  os_Lookup :: "string \<Rightarrow> User option"
  os_LookupId :: "string \<Rightarrow> string option"
  os_LookupGroupId :: "string \<Rightarrow> string option"

text \<open>File modes of package \<open>os\<close>: type bits at the top, permissions in the low nine bits.\<close>

definition ModeDir :: u32 where "ModeDir = push_bit 31 1"
definition ModeSymlink :: u32 where "ModeSymlink = push_bit 27 1"
definition ModeType :: u32 where "ModeType = 0x8F280000"

definition IsDir :: "u32 \<Rightarrow> bool" where "IsDir m \<longleftrightarrow> m AND ModeDir \<noteq> 0"
definition IsRegular :: "u32 \<Rightarrow> bool" where "IsRegular m \<longleftrightarrow> m AND ModeType = 0"
definition Perm :: "u32 \<Rightarrow> u32" where "Perm m = m AND 0x1FF"

definition FileMode_String :: "u32 \<Rightarrow> string" where
  "FileMode_String m =
     (let flags = concat (map (\<lambda>(i, c). if bit m (31 - i) then [c] else []) (enumerate 0 ''dalTLDpSugct?''))
      in (if flags = [] then ''-'' else flags)
         @ map (\<lambda>(i, c). if bit m (8 - i) then c else CHR ''-'') (enumerate 0 ''rwxrwxrwx''))"

section \<open>Entries\<close>

datatype FileType = UnknownFileType | FileFileType | DirectoryFileType | SymlinkFileType

record EntryInfo =
  ei_Name :: string
  ei_Type :: FileType
  ei_Path :: string
  ei_Size :: i64
  ei_Mode :: u32
  ei_Permissions :: string
  ei_UID :: u32
  ei_GID :: u32
  ei_AccessedTime :: go_time
  ei_CreatedTime :: go_time
  ei_ModifiedTime :: go_time
  ei_SymlinkTarget :: "string option"

definition getEntryType :: "u32 \<Rightarrow> FileType" where
  "getEntryType mode =
     (if IsRegular mode then FileFileType
      else if IsDir mode then DirectoryFileType
      else if mode AND ModeSymlink = ModeSymlink then SymlinkFileType
      else UnknownFileType)"

definition entry_followSymlink :: "'w fs_ops \<Rightarrow> 'w \<Rightarrow> string \<Rightarrow> string" where
  "entry_followSymlink os w path = (case os_EvalSymlinks os path w of Ok resolvedPath \<Rightarrow> resolvedPath | _ \<Rightarrow> path)"

definition toTimestamp :: "int \<times> int \<Rightarrow> go_time" where
  "toTimestamp spec = (if fst spec = 0 \<and> snd spec = 0 then zeroTime else time_Unix (fst spec) (snd spec))"

definition GetEntryInfo :: "'w fs_ops \<Rightarrow> 'w \<Rightarrow> string \<Rightarrow> FileInfo \<Rightarrow> EntryInfo" where
  "GetEntryInfo os w path fileInfo =
     (let fileMode = fi_Mode fileInfo;
          symlinkTarget = (if fileMode AND ModeSymlink \<noteq> 0 then Some (entry_followSymlink os w path) else None);
          (entryType, mode) =
            (case symlinkTarget of
               None \<Rightarrow> (getEntryType fileMode, Perm fileMode)
             | Some target \<Rightarrow>
                 (case os_Stat os target w of
                    Ok targetInfo \<Rightarrow> (getEntryType (fi_Mode targetInfo), Perm (fi_Mode targetInfo))
                  | _ \<Rightarrow> (UnknownFileType, 0)));
          entry = \<lparr>ei_Name = fi_Name fileInfo, ei_Type = entryType, ei_Path = path, ei_Size = fi_Size fileInfo,
                   ei_Mode = mode, ei_Permissions = FileMode_String fileMode, ei_UID = 0, ei_GID = 0,
                   ei_AccessedTime = zeroTime, ei_CreatedTime = zeroTime, ei_ModifiedTime = fi_ModTime fileInfo,
                   ei_SymlinkTarget = symlinkTarget\<rparr>
      in case fi_Sys fileInfo of
           Some base \<Rightarrow>
             entry\<lparr>ei_AccessedTime := toTimestamp (st_Atim base), ei_CreatedTime := toTimestamp (st_Ctim base),
                   ei_ModifiedTime := toTimestamp (st_Mtim base), ei_UID := st_Uid base, ei_GID := st_Gid base\<rparr>
         | None \<Rightarrow> entry)"

definition GetEntryFromPath :: "'w fs_ops \<Rightarrow> 'w \<Rightarrow> string \<Rightarrow> (os_error, EntryInfo) outcome" where
  "GetEntryFromPath os w path =
     and_then (os_Lstat os path w) (\<lambda>fileInfo. Ok (GetEntryInfo os w path fileInfo))"

section \<open>Entries of the service\<close>

datatype code =
    CodeNotFound | CodeInternal | CodeInvalidArgument | CodeAlreadyExists | CodeFailedPrecondition
  | CodeUnknown | CodeUnavailable | CodeUnimplemented | CodeCanceled

datatype rpc_error = Rpc code | UserError user_error | CtxDone

datatype rpc_FileType =
    FILE_TYPE_UNSPECIFIED | FILE_TYPE_FILE | FILE_TYPE_DIRECTORY | FILE_TYPE_SYMLINK

record rpc_EntryInfo =
  re_Name :: string
  re_Type :: rpc_FileType
  re_Path :: string
  re_Size :: i64
  re_Mode :: u32
  re_Permissions :: string
  re_Owner :: string
  re_Group :: string
  re_ModifiedTime :: "go_time option"
  re_SymlinkTarget :: "string option"

definition getFileOwnership :: "'w fs_ops \<Rightarrow> EntryInfo \<Rightarrow> string \<times> string" where
  "getFileOwnership os fileInfo =
     (let owner = Itoa (uint (ei_UID fileInfo)); grp = Itoa (uint (ei_GID fileInfo))
      in (case os_LookupId os owner of Some name \<Rightarrow> name | None \<Rightarrow> owner,
          case os_LookupGroupId os grp of Some name \<Rightarrow> name | None \<Rightarrow> grp))"

definition rpc_toTimestamp :: "go_time \<Rightarrow> go_time option" where
  "rpc_toTimestamp t = (if t = zeroTime then None else Some t)"

fun rpc_getEntryType :: "FileType \<Rightarrow> rpc_FileType" where
  "rpc_getEntryType FileFileType = FILE_TYPE_FILE"
| "rpc_getEntryType DirectoryFileType = FILE_TYPE_DIRECTORY"
| "rpc_getEntryType SymlinkFileType = FILE_TYPE_SYMLINK"
| "rpc_getEntryType UnknownFileType = FILE_TYPE_UNSPECIFIED"

definition entryInfo :: "'w fs_ops \<Rightarrow> 'w \<Rightarrow> string \<Rightarrow> (rpc_error, rpc_EntryInfo) outcome" where
  "entryInfo os w path =
     (case GetEntryFromPath os w path of
        Err err \<Rightarrow> if oe_notExist err then Err (Rpc CodeNotFound) else Err (Rpc CodeInternal)
      | Panic \<Rightarrow> Panic
      | Ok info \<Rightarrow>
          let (owner, grp) = getFileOwnership os info
          in Ok \<lparr>re_Name = ei_Name info, re_Type = rpc_getEntryType (ei_Type info), re_Path = ei_Path info, re_Size = ei_Size info,
                 re_Mode = ei_Mode info, re_Permissions = ei_Permissions info, re_Owner = owner, re_Group = grp,
                 re_ModifiedTime = rpc_toTimestamp (ei_ModifiedTime info),
                 re_SymlinkTarget = ei_SymlinkTarget info\<rparr>)"

definition nfsSuperMagic :: u64 where "nfsSuperMagic = 0x6969"
definition cifsMagic :: u64 where "cifsMagic = 0xFF534D42"
definition smbSuperMagic :: u64 where "smbSuperMagic = 0x517B"
definition smb2MagicNumber :: u64 where "smb2MagicNumber = 0xFE534D42"
definition fuseSuperMagic :: u64 where "fuseSuperMagic = 0x65735546"

definition IsPathOnNetworkMount :: "'w fs_ops \<Rightarrow> 'w \<Rightarrow> string \<Rightarrow> (os_error, bool) outcome" where
  "IsPathOnNetworkMount os w path =
     and_then (os_Statfs os path w) (\<lambda>t.
       Ok (t \<in> {nfsSuperMagic, cifsMagic, smbSuperMagic, smb2MagicNumber, fuseSuperMagic}))"

section \<open>Walking a directory\<close>

text \<open>
  \<open>filepath.WalkDir\<close> on the tree below its root: a directory lists its children in order, and
  \<open>Unreadable\<close> is a directory whose listing fails.  The callback threads a state and returns
  how to go on; \<open>SkipDir\<close> for a file skips the rest of the directory the file is in.
\<close>

datatype ftree = FileT | DirT "(string \<times> ftree) list" | Unreadable

datatype 'e walk_ctl = Continue | SkipDir | WalkErr 'e

fun walk_tree ::
  "(string \<Rightarrow> bool \<Rightarrow> 's \<Rightarrow> 'e walk_ctl \<times> 's) \<Rightarrow> string \<Rightarrow> ftree \<Rightarrow> 's \<Rightarrow> 'e walk_ctl \<times> 's"
and walk_list ::
  "(string \<Rightarrow> bool \<Rightarrow> 's \<Rightarrow> 'e walk_ctl \<times> 's) \<Rightarrow> string \<Rightarrow> (string \<times> ftree) list \<Rightarrow> 's \<Rightarrow> 'e walk_ctl \<times> 's" where
  "walk_tree fn path t s =
     (case fn path False s of
        (WalkErr e, s') \<Rightarrow> (WalkErr e, s')
      | (SkipDir, s') \<Rightarrow> (case t of FileT \<Rightarrow> (SkipDir, s') | _ \<Rightarrow> (Continue, s'))
      | (Continue, s') \<Rightarrow>
          (case t of
             FileT \<Rightarrow> (Continue, s')
           | Unreadable \<Rightarrow> (case fn path True s' of (SkipDir, s'') \<Rightarrow> (Continue, s'') | r \<Rightarrow> r)
           | DirT children \<Rightarrow> walk_list fn path children s'))"
| "walk_list fn path [] s = (Continue, s)"
| "walk_list fn path ((name, t) # cs) s =
     (case walk_tree fn (Join [path, name]) t s of
        (SkipDir, s') \<Rightarrow> (Continue, s')
      | (WalkErr e, s') \<Rightarrow> (WalkErr e, s')
      | (Continue, s') \<Rightarrow> walk_list fn path cs s')"

declare walk_tree.simps [simp del]

text \<open>The callback of \<open>walkDir\<close>; its second argument says that the walk reports an error.\<close>

definition walkDir_fn ::
  "(string \<Rightarrow> (rpc_error, rpc_EntryInfo) outcome) \<Rightarrow> string \<Rightarrow> string \<Rightarrow> nat
     \<Rightarrow> string \<Rightarrow> bool \<Rightarrow> rpc_EntryInfo list \<Rightarrow> rpc_error walk_ctl \<times> rpc_EntryInfo list" where
  "walkDir_fn info requestedPath dirPath depth path err entries =
     (if err then (WalkErr (Rpc CodeInternal), entries)
      else if path = dirPath then (Continue, entries)
      else case Rel dirPath path of
        None \<Rightarrow> (WalkErr (Rpc CodeInternal), entries)
      | Some relPath \<Rightarrow>
          if depth < length (split_on slash relPath) then (SkipDir, entries)
          else case info path of
            Err e \<Rightarrow> if e = Rpc CodeNotFound then (Continue, entries) else (WalkErr e, entries)
          | Panic \<Rightarrow> (WalkErr (Rpc CodeInternal), entries)
          | Ok entry \<Rightarrow> (Continue, entries @ [entry\<lparr>re_Path := Join [requestedPath, relPath]\<rparr>]))"

text \<open>The tree below \<open>dirPath\<close> is an argument, \<open>None\<close> if the root cannot be examined.\<close>

definition walkDir ::
  "(string \<Rightarrow> (rpc_error, rpc_EntryInfo) outcome) \<Rightarrow> ftree option \<Rightarrow> string \<Rightarrow> string \<Rightarrow> nat
     \<Rightarrow> (rpc_error, rpc_EntryInfo list) outcome" where
  "walkDir info root requestedPath dirPath depth =
     (let fn = walkDir_fn info requestedPath dirPath depth
      in case (case root of None \<Rightarrow> fn dirPath True [] | Some t \<Rightarrow> walk_tree fn dirPath t []) of
           (WalkErr e, _) \<Rightarrow> Err (Rpc CodeInternal)
         | (_, entries) \<Rightarrow> Ok entries)"

section \<open>What a listing contains\<close>

text \<open>The paths below a directory down to a depth, as lists of names, parents before children.\<close>

fun below :: "nat \<Rightarrow> string list \<Rightarrow> ftree \<Rightarrow> string list list"
and below_list :: "nat \<Rightarrow> string list \<Rightarrow> (string \<times> ftree) list \<Rightarrow> string list list" where
  "below d ns FileT = []"
| "below d ns Unreadable = []"
| "below d ns (DirT cs) = below_list d ns cs"
| "below_list d ns [] = []"
| "below_list d ns ((n, t) # cs) =
     (if d = 0 then [] else (ns @ [n]) # below (d - 1) (ns @ [n]) t) @ below_list d ns cs"

fun tree_ok :: "ftree \<Rightarrow> bool" and trees_ok :: "(string \<times> ftree) list \<Rightarrow> bool" where
  "tree_ok FileT = True"
| "tree_ok Unreadable = False"
| "tree_ok (DirT cs) = trees_ok cs"
| "trees_ok [] = True"
| "trees_ok ((n, t) # cs) = (valid_elem n \<and> tree_ok t \<and> trees_ok cs)"

definition listed_entry ::
  "(string \<Rightarrow> (rpc_error, rpc_EntryInfo) outcome) \<Rightarrow> string \<Rightarrow> string list \<Rightarrow> string list \<Rightarrow> rpc_EntryInfo option" where
  "listed_entry info requestedPath es ns =
     (case info (abs_path (es @ ns)) of
        Ok e \<Rightarrow> Some (e\<lparr>re_Path := Join [requestedPath, join_with ''/'' ns]\<rparr>) | _ \<Rightarrow> None)"

definition found_or_gone :: "(string \<Rightarrow> (rpc_error, rpc_EntryInfo) outcome) \<Rightarrow> bool" where
  "found_or_gone info \<longleftrightarrow> (\<forall>path. is_ok (info path) \<or> info path = Err (Rpc CodeNotFound))"

lemma abs_path_inj:
  "\<forall>e \<in> set es. valid_elem e \<Longrightarrow> \<forall>e \<in> set fs. valid_elem e \<Longrightarrow> abs_path es = abs_path fs \<longleftrightarrow> es = fs"
  using path_elems_abs by metis

lemma walkDir_fn_below:
  assumes "\<forall>e \<in> set (es @ ns). valid_elem e" and "ns \<noteq> []" and "found_or_gone info"
  shows "walkDir_fn info req (abs_path es) depth (abs_path (es @ ns)) False s =
    (if depth < length ns then (SkipDir, s) else (Continue, s @ List.map_filter (listed_entry info req es) [ns]))"
proof -
  have ne: "abs_path (es @ ns) \<noteq> abs_path es"
    using abs_path_inj [of "es @ ns" es] assms(1,2) by auto
  have r: "Rel (abs_path es) (abs_path (es @ ns)) = Some (join_with ''/'' ns)"
    using Rel_abs_path [OF assms(1)] assms(2) by simp
  have l: "length (split_on slash (join_with ''/'' ns)) = length ns"
    using split_on_join [of ns] assms(1,2) by (simp add: valid_elem_def)
  have g: "is_ok (info (abs_path (es @ ns))) \<or> info (abs_path (es @ ns)) = Err (Rpc CodeNotFound)"
    using assms(3) by (simp add: found_or_gone_def)
  show ?thesis
    using ne r l g
    by (cases "info (abs_path (es @ ns))") (auto simp: walkDir_fn_def listed_entry_def List.map_filter_def)
qed

lemma walk_list_too_deep:
  assumes "\<forall>e \<in> set (es @ ns). valid_elem e" and "depth \<le> length ns" and "found_or_gone info"
  shows "trees_ok cs \<Longrightarrow>
    walk_list (walkDir_fn info req (abs_path es) depth) (abs_path (es @ ns)) cs s = (Continue, s)"
proof (induction cs)
  case (Cons c cs)
  obtain n t where c: "c = (n, t)" by fastforce
  then have n: "valid_elem n" "trees_ok cs" using Cons.prems by simp_all
  have "walkDir_fn info req (abs_path es) depth (abs_path (es @ ns @ [n])) False s = (SkipDir, s)"
    using walkDir_fn_below [of es "ns @ [n]" info req depth s] assms n by simp
  then show ?case
    using Join_abs_path [OF assms(1) n(1)] Cons.IH [OF n(2)] c
    by (simp add: walk_tree.simps split: ftree.splits)
qed simp

lemma walk_below:
  assumes "found_or_gone info"
  shows "tree_ok t \<Longrightarrow> ns \<noteq> [] \<Longrightarrow> \<forall>e \<in> set (es @ ns). valid_elem e \<Longrightarrow> length ns + d = depth \<Longrightarrow>
      walk_tree (walkDir_fn info req (abs_path es) depth) (abs_path (es @ ns)) t s =
        (Continue, s @ List.map_filter (listed_entry info req es) (ns # below d ns t))"
    and "trees_ok cs \<Longrightarrow> \<forall>e \<in> set (es @ ns). valid_elem e \<Longrightarrow> length ns + d = depth \<Longrightarrow>
      walk_list (walkDir_fn info req (abs_path es) depth) (abs_path (es @ ns)) cs s =
        (Continue, s @ List.map_filter (listed_entry info req es) (below_list d ns cs))"
proof (induction d ns t and d ns cs arbitrary: s and s rule: below_below_list.induct)
  case (1 d ns)
  then show ?case using walkDir_fn_below [of es ns info req depth s] assms by (simp add: walk_tree.simps)
next
  case (3 d ns cs)
  have "walkDir_fn info req (abs_path es) depth (abs_path (es @ ns)) False s =
      (Continue, s @ List.map_filter (listed_entry info req es) [ns])"
    using walkDir_fn_below [of es ns info req depth s] assms 3 by simp
  then show ?case
    using 3 map_filter_append [of "listed_entry info req es" "[ns]" "below_list d ns cs"]
    by (simp add: walk_tree.simps)
next
  case (5 d ns n t cs)
  show ?case
  proof (cases "d = 0")
    case True
    then have "below_list d ns ((n, t) # cs) = []" using "5.prems" by (induction cs) auto
    then show ?thesis
      using walk_list_too_deep [of es ns depth info "(n, t) # cs" req s] assms "5.prems" True
      by (simp add: List.map_filter_def del: walk_list.simps below_list.simps)
  next
    case False
    have v: "valid_elem n" "tree_ok t" "trees_ok cs" using "5.prems"(1) by simp_all
    let ?fn = "walkDir_fn info req (abs_path es) depth"
    have "walk_tree ?fn (abs_path (es @ ns @ [n])) t s =
        (Continue, s @ List.map_filter (listed_entry info req es) ((ns @ [n]) # below (d - 1) (ns @ [n]) t))"
      using "5.IH"(1) [OF False v(2), of s] "5.prems" v(1) False by simp
    then have "walk_list ?fn (abs_path (es @ ns)) ((n, t) # cs) s = walk_list ?fn (abs_path (es @ ns)) cs
        (s @ List.map_filter (listed_entry info req es) ((ns @ [n]) # below (d - 1) (ns @ [n]) t))"
      using Join_abs_path [OF "5.prems"(2) v(1)] by simp
    also have "\<dots> = (Continue, s @ List.map_filter (listed_entry info req es) (below_list d ns ((n, t) # cs)))"
      using "5.IH"(2) [OF v(3) "5.prems"(2,3)] False
        map_filter_append [of "listed_entry info req es" "(ns @ [n]) # below (d - 1) (ns @ [n]) t" "below_list d ns cs"]
      by simp
    finally show ?thesis .
  qed
qed (simp_all add: List.map_filter_def)

section \<open>Properties\<close>

text \<open>
  C21.  \<open>walkDir\<close> lists exactly the entries at most \<open>depth\<close> levels below the directory, parents
  before their children and siblings in the order of the directory, each under the requested
  path; entries that vanish during the walk are left out and nothing else is.
\<close>

theorem walkDir_lists_depth:
  assumes "found_or_gone info" and "trees_ok cs" and "\<forall>e \<in> set es. valid_elem e"
  shows "walkDir info (Some (DirT cs)) req (abs_path es) depth =
    Ok (List.map_filter (listed_entry info req es) (below depth [] (DirT cs)))"
proof -
  let ?fn = "walkDir_fn info req (abs_path es) depth"
  have "?fn (abs_path es) False [] = (Continue, [])" by (simp add: walkDir_fn_def)
  moreover have "walk_list ?fn (abs_path (es @ [])) cs [] =
      (Continue, [] @ List.map_filter (listed_entry info req es) (below_list depth [] cs))"
    using walk_below(2) [OF assms(1,2), of es "[]" depth depth req "[]"] assms(3) by simp
  ultimately show ?thesis by (simp add: walkDir_def walk_tree.simps)
qed

definition example_entry :: "string \<Rightarrow> rpc_EntryInfo" where
  "example_entry name = \<lparr>re_Name = name, re_Type = FILE_TYPE_FILE, re_Path = name, re_Size = 0, re_Mode = 0,
     re_Permissions = [], re_Owner = [], re_Group = [], re_ModifiedTime = None, re_SymlinkTarget = None\<rparr>"

theorem walkDir_lists_depth_witness:
  "\<exists>entries. walkDir (\<lambda>p. Ok (example_entry p)) (Some (DirT [(''a'', DirT [(''b'', FileT)]), (''c'', FileT)]))
      ''/r'' ''/d'' 1 = Ok entries \<and> map re_Name entries = [''/d/a'', ''/d/c'']"
proof -
  have d: "abs_path [''d''] = ''/d''" by (simp add: abs_path_def)
  have "found_or_gone (\<lambda>p. Ok (example_entry p))" by (simp add: found_or_gone_def)
  from walkDir_lists_depth [OF this, of "[(''a'', DirT [(''b'', FileT)]), (''c'', FileT)]" "[''d'']" "''/r''" 1]
  show ?thesis
    by (simp add: d valid_elem_def List.map_filter_def listed_entry_def example_entry_def abs_path_def)
qed

end
