(* ===== verification/Filesystem_Service.thy ===== *)
theory Filesystem_Service
  imports Filesystem_Entries
begin

text \<open>
  The file system service (\<open>internal/services/filesystem\<close>): listing, creating, moving,
  removing and examining paths, and the watchers of a directory, streaming and polled.  The
  notification library is third-party code: creating a watcher, adding a path to it and closing it
  are the fields of \<open>notify_ops\<close>, and the test \<open>has\<close> of an operation in an event is a parameter.
\<close>

section \<open>Requests on paths\<close>

definition evalLinks :: "'w fs_ops \<Rightarrow> 'w \<Rightarrow> string \<Rightarrow> string option" where
  "evalLinks os w p = (case os_EvalSymlinks os p w of Ok r \<Rightarrow> Some r | _ \<Rightarrow> None)"

definition authUser :: "'w fs_ops \<Rightarrow> Defaults \<Rightarrow> (rpc_error, User, 'w) io" where
  "authUser os defaults = io_read (\<lambda>w. map_err UserError (GetAuthUser (os_Lookup os) (df_User defaults)))"

definition expandPath :: "'w fs_ops \<Rightarrow> Defaults \<Rightarrow> string \<Rightarrow> User \<Rightarrow> (rpc_error, string, 'w) io" where
  "expandPath os defaults path u = io_read (\<lambda>w. ExpandAndResolve (evalLinks os w) path u (df_Workdir defaults))"

definition userIds :: "User \<Rightarrow> (rpc_error, int \<times> int, 'w) io" where
  "userIds u = io_read (\<lambda>w. map_err (\<lambda>_. Rpc CodeInternal) (GetUserIdInts u))"

definition svc_followSymlink :: "'w fs_ops \<Rightarrow> 'w \<Rightarrow> string \<Rightarrow> (rpc_error, string) outcome" where
  "svc_followSymlink os w path =
     map_err (\<lambda>err. if oe_notExist err then Rpc CodeNotFound
                    else if Contains (oe_text err) ''too many links'' then Rpc CodeFailedPrecondition
                    else Rpc CodeInternal)
       (os_EvalSymlinks os path w)"

definition checkIfDirectory :: "'w fs_ops \<Rightarrow> 'w \<Rightarrow> string \<Rightarrow> (rpc_error, unit) outcome" where
  "checkIfDirectory os w path =
     (case os_Stat os path w of
        Err err \<Rightarrow> if oe_notExist err then Err (Rpc CodeNotFound) else Err (Rpc CodeInternal)
      | Panic \<Rightarrow> Panic
      | Ok stat \<Rightarrow> if \<not> IsDir (fi_Mode stat) then Err (Rpc CodeInvalidArgument) else Ok ())"

text \<open>\<open>treeAt\<close> is the tree that a walk of the file system finds below a path.\<close>

definition ListDir ::
  "'w fs_ops \<Rightarrow> ('w \<Rightarrow> string \<Rightarrow> ftree option) \<Rightarrow> Defaults \<Rightarrow> string \<Rightarrow> u32
     \<Rightarrow> (rpc_error, rpc_EntryInfo list, 'w) io" where
  "ListDir os treeAt defaults path depth0 =
     (let depth = (if depth0 = 0 then 1 else depth0)
      in io_then (authUser os defaults) (\<lambda>u.
         io_then (expandPath os defaults path u) (\<lambda>requestedPath.
         io_then (io_read (\<lambda>w. svc_followSymlink os w requestedPath)) (\<lambda>resolvedPath.
         io_then (io_read (\<lambda>w. checkIfDirectory os w resolvedPath)) (\<lambda>_.
         io_read (\<lambda>w. walkDir (entryInfo os w) (treeAt w resolvedPath) requestedPath resolvedPath (unat depth)))))))"

definition MakeDir :: "'w fs_ops \<Rightarrow> Defaults \<Rightarrow> string \<Rightarrow> (rpc_error, rpc_EntryInfo, 'w) io" where
  "MakeDir os defaults path =
     io_then (authUser os defaults) (\<lambda>u.
     io_then (expandPath os defaults path u) (\<lambda>dirPath.
     io_then (io_read (\<lambda>w.
       case os_Stat os dirPath w of
         Err err \<Rightarrow> if \<not> oe_notExist err then Err (Rpc CodeInternal) else Ok ()
       | Panic \<Rightarrow> Panic
       | Ok stat \<Rightarrow> if IsDir (fi_Mode stat) then Err (Rpc CodeAlreadyExists) else Err (Rpc CodeInvalidArgument))) (\<lambda>_.
     io_then (userIds u) (\<lambda>(uid, gid).
     io_then (io_map_err (\<lambda>_. Rpc CodeInternal)
       (EnsureDirs (os_MkdirAll os) (os_Chown os) dirPath uid gid)) (\<lambda>_.
     io_read (\<lambda>w. entryInfo os w dirPath))))))"

definition Move :: "'w fs_ops \<Rightarrow> Defaults \<Rightarrow> string \<Rightarrow> string \<Rightarrow> (rpc_error, rpc_EntryInfo, 'w) io" where
  "Move os defaults src dst =
     io_then (authUser os defaults) (\<lambda>u.
     io_then (expandPath os defaults src u) (\<lambda>source.
     io_then (expandPath os defaults dst u) (\<lambda>destination.
     io_then (userIds u) (\<lambda>(uid, gid).
     io_then (io_map_err (\<lambda>_. Rpc CodeInternal)
       (EnsureDirs (os_MkdirAll os) (os_Chown os) (Dir destination) uid gid)) (\<lambda>_.
     io_then (io_map_err (\<lambda>err. if oe_notExist err then Rpc CodeNotFound else Rpc CodeInternal)
       (os_Rename os source destination)) (\<lambda>_.
     io_read (\<lambda>w. entryInfo os w destination)))))))"

definition svc_Remove :: "'w fs_ops \<Rightarrow> Defaults \<Rightarrow> string \<Rightarrow> (rpc_error, unit, 'w) io" where
  "svc_Remove os defaults path0 =
     io_then (authUser os defaults) (\<lambda>u.
     io_then (expandPath os defaults path0 u) (\<lambda>path.
     io_map_err (\<lambda>_. Rpc CodeInternal) (os_RemoveAll os path)))"

definition svc_Stat :: "'w fs_ops \<Rightarrow> Defaults \<Rightarrow> string \<Rightarrow> (rpc_error, rpc_EntryInfo, 'w) io" where
  "svc_Stat os defaults path0 =
     io_then (authUser os defaults) (\<lambda>u.
     io_then (expandPath os defaults path0 u) (\<lambda>path.
     io_read (\<lambda>w. entryInfo os w path)))"

section \<open>Watchers\<close>

datatype fsop = CreateOp | RenameOp | ChmodOp | WriteOp | RemoveOp

datatype EventType =
    EVENT_TYPE_CREATE | EVENT_TYPE_RENAME | EVENT_TYPE_CHMOD | EVENT_TYPE_WRITE | EVENT_TYPE_REMOVE

record FilesystemEvent =
  fev_Name :: string
  fev_Type :: EventType

text \<open>What the watching loop can receive: the select statement of the code takes one of these.\<close>

datatype 'op signal =
    KeepaliveTick | ContextDone | ErrorsClosed | WatchError | EventsClosed | FsEvent string 'op

definition event_ops :: "(fsop \<Rightarrow> 'op \<Rightarrow> bool) \<Rightarrow> 'op \<Rightarrow> EventType list" where
  "event_ops has op =
     (if has CreateOp op then [EVENT_TYPE_CREATE] else [])
     @ (if has RenameOp op then [EVENT_TYPE_RENAME] else [])
     @ (if has ChmodOp op then [EVENT_TYPE_CHMOD] else [])
     @ (if has WriteOp op then [EVENT_TYPE_WRITE] else [])
     @ (if has RemoveOp op then [EVENT_TYPE_REMOVE] else [])"

text \<open>A watcher of the library is a handle.\<close>

record 'w notify_ops =
  nw_New :: "(unit, nat, 'w) io"
  nw_Add :: "nat \<Rightarrow> string \<Rightarrow> (unit, unit, 'w) io"
  nw_Close :: "nat \<Rightarrow> (unit, unit, 'w) io"

record FileWatcher =
  fw_watcher :: nat
  fw_watchPath :: string
  fw_Events :: "FilesystemEvent list"
  fw_Error :: "rpc_error option"
  fw_running :: bool

definition NewFileWatcher :: "nat \<Rightarrow> string \<Rightarrow> FileWatcher" where
  "NewFileWatcher h watchPath =
     \<lparr>fw_watcher = h, fw_watchPath = watchPath, fw_Events = [], fw_Error = None, fw_running = True\<rparr>"

text \<open>When the path cannot be added, the new watcher is closed again and its error ignored.\<close>

definition CreateFileWatcher :: "'w notify_ops \<Rightarrow> string \<Rightarrow> bool \<Rightarrow> (rpc_error, FileWatcher, 'w) io" where
  "CreateFileWatcher nw watchPath recursive =
     io_then (io_map_err (\<lambda>_. Rpc CodeInternal) (nw_New nw)) (\<lambda>h w.
       case nw_Add nw h (FsnotifyPath watchPath recursive) w of
         (Err _, w') \<Rightarrow> (Err (Rpc CodeInternal), snd (nw_Close nw h w'))
       | (Panic, w') \<Rightarrow> (Panic, w')
       | (Ok _, w') \<Rightarrow> (Ok (NewFileWatcher h watchPath), w'))"

text \<open>One turn of the goroutine that a polled watcher runs.\<close>

fun record_ops :: "FileWatcher \<Rightarrow> string \<Rightarrow> EventType list \<Rightarrow> FileWatcher" where
  "record_ops fw name [] = fw"
| "record_ops fw name (op # ops) =
     (case Rel (fw_watchPath fw) name of
        None \<Rightarrow> fw\<lparr>fw_Error := Some (Rpc CodeInternal), fw_running := False\<rparr>
      | Some rel \<Rightarrow> record_ops (fw\<lparr>fw_Events := fw_Events fw @ [\<lparr>fev_Name = rel, fev_Type = op\<rparr>]\<rparr>) name ops)"

fun watcher_turn :: "(fsop \<Rightarrow> 'op \<Rightarrow> bool) \<Rightarrow> FileWatcher \<Rightarrow> 'op signal \<Rightarrow> FileWatcher" where
  "watcher_turn has fw ContextDone = fw\<lparr>fw_running := False\<rparr>"
| "watcher_turn has fw ErrorsClosed = fw\<lparr>fw_Error := Some (Rpc CodeInternal), fw_running := False\<rparr>"
| "watcher_turn has fw WatchError = fw\<lparr>fw_Error := Some (Rpc CodeInternal), fw_running := False\<rparr>"
| "watcher_turn has fw EventsClosed = fw\<lparr>fw_Error := Some (Rpc CodeInternal), fw_running := False\<rparr>"
| "watcher_turn has fw (FsEvent name op) = record_ops fw name (event_ops has op)"
| "watcher_turn has fw KeepaliveTick = fw"

definition FileWatcher_Close :: "'w notify_ops \<Rightarrow> FileWatcher \<Rightarrow> 'w \<Rightarrow> FileWatcher \<times> 'w" where
  "FileWatcher_Close nw fw w = (fw\<lparr>fw_running := False\<rparr>, snd (nw_Close nw (fw_watcher fw) w))"

record Service =
  sv_watchers :: "(string, FileWatcher) Map"
  sv_defaults :: Defaults

definition checkWatchPath :: "'w fs_ops \<Rightarrow> string \<Rightarrow> (rpc_error, unit, 'w) io" where
  "checkWatchPath os watchPath =
     io_read (\<lambda>w.
       and_then (checkIfDirectory os w watchPath) (\<lambda>_.
       and_then (map_err (\<lambda>_. Rpc CodeInternal) (IsPathOnNetworkMount os w watchPath)) (\<lambda>isNetworkMount.
       if isNetworkMount then Err (Rpc CodeInvalidArgument) else Ok ())))"

definition CreateWatcher ::
  "'w fs_ops \<Rightarrow> 'w notify_ops \<Rightarrow> ('w \<Rightarrow> string \<times> 'w) \<Rightarrow> Service \<Rightarrow> string \<Rightarrow> bool \<Rightarrow> (rpc_error, string \<times> Service, 'w) io" where
  "CreateWatcher os nw generate s path recursive =
     io_then (authUser os (sv_defaults s)) (\<lambda>u.
     io_then (expandPath os (sv_defaults s) path u) (\<lambda>watchPath.
     io_then (checkWatchPath os watchPath) (\<lambda>_.
     io_then (\<lambda>w. case generate w of (i, w') \<Rightarrow> (Ok i, w')) (\<lambda>i.
     let watcherId = CHR ''w'' # i
     in io_then (CreateFileWatcher nw watchPath recursive) (\<lambda>fw.
        io_return (watcherId, s\<lparr>sv_watchers := Map_Store (sv_watchers s) watcherId fw\<rparr>))))))"

definition GetWatcherEvents :: "Service \<Rightarrow> string \<Rightarrow> (rpc_error, FilesystemEvent list) outcome \<times> Service" where
  "GetWatcherEvents s watcherId =
     (case Map_Load (sv_watchers s) watcherId of
        None \<Rightarrow> (Err (Rpc CodeNotFound), s)
      | Some fw \<Rightarrow>
          (case fw_Error fw of
             Some e \<Rightarrow> (Err e, s)
           | None \<Rightarrow>
               (Ok (fw_Events fw),
                s\<lparr>sv_watchers := Map_Store (sv_watchers s) watcherId (fw\<lparr>fw_Events := []\<rparr>)\<rparr>)))"

definition RemoveWatcher :: "'w notify_ops \<Rightarrow> Service \<Rightarrow> string \<Rightarrow> 'w \<Rightarrow> (rpc_error, unit) outcome \<times> Service \<times> 'w" where
  "RemoveWatcher nw s watcherId w =
     (case Map_Load (sv_watchers s) watcherId of
        None \<Rightarrow> (Err (Rpc CodeNotFound), s, w)
      | Some fw \<Rightarrow>
          (Ok (), s\<lparr>sv_watchers := Map_Delete (sv_watchers s) watcherId\<rparr>, snd (FileWatcher_Close nw fw w)))"

text \<open>The goroutine of the watcher with an id takes a signal; it stops when it is not running.\<close>

definition service_turn :: "(fsop \<Rightarrow> 'op \<Rightarrow> bool) \<Rightarrow> Service \<Rightarrow> string \<Rightarrow> 'op signal \<Rightarrow> Service" where
  "service_turn has s watcherId sig =
     (case Map_Load (sv_watchers s) watcherId of
        None \<Rightarrow> s
      | Some fw \<Rightarrow>
          if fw_running fw
          then s\<lparr>sv_watchers := Map_Store (sv_watchers s) watcherId (watcher_turn has fw sig)\<rparr> else s)"

section \<open>The streaming watcher\<close>

datatype watch_response = WatchStart | WatchKeepalive | WatchFilesystem FilesystemEvent

fun send_ops ::
  "(watch_response \<Rightarrow> (unit, unit, 'w) io) \<Rightarrow> string \<Rightarrow> string \<Rightarrow> EventType list \<Rightarrow> (rpc_error, unit, 'w) io" where
  "send_ops send watchPath name [] = io_return ()"
| "send_ops send watchPath name (op # ops) =
     (case Rel watchPath name of
        None \<Rightarrow> io_fail (Rpc CodeInternal)
      | Some rel \<Rightarrow>
          io_then (io_map_err (\<lambda>_. Rpc CodeUnknown) (send (WatchFilesystem \<lparr>fev_Name = rel, fev_Type = op\<rparr>)))
            (\<lambda>_. send_ops send watchPath name ops))"

text \<open>The loop over the signals received; it returns only with an error.\<close>

fun watch_loop ::
  "(fsop \<Rightarrow> 'op \<Rightarrow> bool) \<Rightarrow> (watch_response \<Rightarrow> (unit, unit, 'w) io) \<Rightarrow> string \<Rightarrow> 'op signal list
     \<Rightarrow> (rpc_error, unit, 'w) io" where
  "watch_loop has send watchPath [] = io_return ()"
| "watch_loop has send watchPath (KeepaliveTick # sigs) =
     io_then (io_map_err (\<lambda>_. Rpc CodeUnknown) (send WatchKeepalive)) (\<lambda>_. watch_loop has send watchPath sigs)"
| "watch_loop has send watchPath (ContextDone # sigs) = io_fail CtxDone"
| "watch_loop has send watchPath (ErrorsClosed # sigs) = io_fail (Rpc CodeInternal)"
| "watch_loop has send watchPath (WatchError # sigs) = io_fail (Rpc CodeInternal)"
| "watch_loop has send watchPath (EventsClosed # sigs) = io_fail (Rpc CodeInternal)"
| "watch_loop has send watchPath (FsEvent name op # sigs) =
     io_then (send_ops send watchPath name (event_ops has op)) (\<lambda>_. watch_loop has send watchPath sigs)"

definition watchHandler ::
  "'w fs_ops \<Rightarrow> (fsop \<Rightarrow> 'op \<Rightarrow> bool) \<Rightarrow> 'w notify_ops \<Rightarrow> (watch_response \<Rightarrow> (unit, unit, 'w) io) \<Rightarrow> Defaults \<Rightarrow> string \<Rightarrow> bool \<Rightarrow> 'op signal list
     \<Rightarrow> (rpc_error, unit, 'w) io" where
  "watchHandler os has nw send defaults path recursive sigs =
     io_then (authUser os defaults) (\<lambda>u.
     io_then (expandPath os defaults path u) (\<lambda>watchPath.
     io_then (checkWatchPath os watchPath) (\<lambda>_.
     io_then (io_map_err (\<lambda>_. Rpc CodeInternal) (nw_New nw)) (\<lambda>h.
     io_defer
       (io_then (io_map_err (\<lambda>_. Rpc CodeInternal) (nw_Add nw h (FsnotifyPath watchPath recursive))) (\<lambda>_.
        io_then (io_map_err (\<lambda>_. Rpc CodeUnknown) (send WatchStart)) (\<lambda>_.
        watch_loop has send watchPath sigs)))
       (\<lambda>w. snd (nw_Close nw h w))))))"

section \<open>Directories that are not created\<close>

text \<open>
  What the handlers rely on: \<open>MkdirAll\<close> of a directory creates no entry below it, \<open>Chown\<close> creates nothing, and \<open>Rename\<close> into a directory that does not exist fails
  with an error of which \<open>os.IsNotExist\<close> holds.
\<close>

definition missing :: "'w fs_ops \<Rightarrow> string \<Rightarrow> 'w \<Rightarrow> bool" where
  "missing os path w \<longleftrightarrow> (\<exists>e. os_Lstat os path w = Err e \<and> oe_notExist e)"

definition directory_laws :: "'w fs_ops \<Rightarrow> bool" where
  "directory_laws os \<longleftrightarrow>
     (\<forall>es n w. (\<forall>e \<in> set (es @ [n]). valid_elem e) \<longrightarrow> missing os (abs_path (es @ [n])) w \<longrightarrow>
        missing os (abs_path (es @ [n])) (snd (os_MkdirAll os (abs_path es) w)))
   \<and> (\<forall>p uid gid q w. missing os q w \<longrightarrow> missing os q (snd (os_Chown os p uid gid w)))
   \<and> (\<forall>src dst w. missing os (Dir dst) w \<longrightarrow>
        (\<exists>e. os_Rename os src dst w = (Err e, w) \<and> oe_notExist e))"

lemma abs_path_shorter: "\<forall>e \<in> set (es @ [n]). valid_elem e \<Longrightarrow> \<not> HasPrefix (abs_path es) (abs_path (es @ [n]))"
  by (cases "es = []") (auto simp: HasPrefix_iff abs_path_def join_with_snoc valid_elem_def)

lemma EnsureDirs_leaves_missing:
  assumes "directory_laws os" and "\<forall>e \<in> set (es @ [n]). valid_elem e" and "missing os (abs_path (es @ [n])) w"
    and "EnsureDirs (os_MkdirAll os) (os_Chown os) (abs_path (es @ [n])) uid gid w = (r, w')"
  shows "missing os (abs_path (es @ [n])) w'"
proof -
  let ?p = "abs_path (es @ [n])"
  have d: "Dir ?p = abs_path es" using Dir_abs_path assms(2) by simp
  obtain r1 w1 where m: "os_MkdirAll os (abs_path es) w = (r1, w1)" by fastforce
  have m1: "missing os ?p w1"
    using assms(1-3) m unfolding directory_laws_def by (metis snd_conv)
  obtain r2 w2 where c: "os_Chown os (abs_path es) uid gid w1 = (r2, w2)" by fastforce
  have "missing os ?p w2" using assms(1) m1 c unfolding directory_laws_def by (metis snd_conv)
  then show ?thesis
    using assms(4) m1 m c by (cases r1) (auto simp: EnsureDirs_def d Let_def io_then_def)
qed

section \<open>Properties\<close>

text \<open>
  \<open>MakeDir\<close> never makes the directory: it asks \<open>EnsureDirs\<close> for the requested path, which
  creates only the parent of what it is given.  If the path does not exist before, it does not
  exist afterwards and the call fails.
\<close>

lemma MakeDir_never_creates:
  assumes "directory_laws os" and "os_Lookup os (df_User defaults) = Some u"
    and "ExpandAndResolve (evalLinks os w) path u (df_Workdir defaults) = (Ok (abs_path (es @ [n])) :: (rpc_error, string) outcome)"
    and "\<forall>e \<in> set (es @ [n]). valid_elem e" and "missing os (abs_path (es @ [n])) w"
    and "MakeDir os defaults path w = (r, w')"
  shows "missing os (abs_path (es @ [n])) w' \<and> \<not> is_ok r"
proof (rule ccontr)
  let ?p = "abs_path (es @ [n])"
  assume bad: "\<not> (missing os ?p w' \<and> \<not> is_ok r)"
  obtain r1 w1 where e: "\<And>uid gid. GetUserIdInts u = Ok (uid, gid) \<Longrightarrow>
      EnsureDirs (os_MkdirAll os) (os_Chown os) ?p uid gid w = (r1, w1)"
    by (cases "GetUserIdInts u"; cases "EnsureDirs (os_MkdirAll os) (os_Chown os) ?p
      (case GetUserIdInts u of Ok x \<Rightarrow> fst x) (case GetUserIdInts u of Ok x \<Rightarrow> snd x) w") auto
  have entry: "missing os ?p v \<Longrightarrow> entryInfo os v ?p = Err (Rpc CodeNotFound)" for v
    by (auto simp: missing_def entryInfo_def GetEntryFromPath_def)
  have step: "missing os ?p w1" if "GetUserIdInts u = Ok (uid, gid)" for uid gid
    by (rule EnsureDirs_leaves_missing [OF assms(1,4,5) e [OF that]])
  show False
    using assms(6) bad assms(5) e step entry
    by (cases "os_Stat os ?p w"; cases "GetUserIdInts u"; cases r1)
      (auto simp: MakeDir_def authUser_def expandPath_def userIds_def GetAuthUser_def GetUser_def assms(2,3)
        io_then_def io_map_err_def split: if_splits)
qed

text \<open>A file system whose world is the list of the directories that exist.\<close>

definition no_file :: os_error where
  "no_file = \<lparr>oe_notExist = True, oe_text = ''no such file or directory''\<rparr>"

definition example_stat :: "string \<Rightarrow> string list \<Rightarrow> (os_error, FileInfo) outcome" where
  "example_stat p w =
     (if p \<in> set w
      then Ok \<lparr>fi_Name = Base p, fi_Size = 0, fi_Mode = ModeDir, fi_ModTime = zeroTime, fi_Sys = None\<rparr>
      else Err no_file)"

definition example_fs_ops :: "string list fs_ops" where
  "example_fs_ops = \<lparr>os_Stat = example_stat, os_Lstat = example_stat,
     os_EvalSymlinks = (\<lambda>p w. if p \<in> set w then Ok p else Err no_file),
     os_Statfs = (\<lambda>_ _. Ok 0),
     os_MkdirAll = (\<lambda>d w. (Ok (), d # w)), os_Chown = (\<lambda>_ _ _ w. (Ok (), w)),
     os_Rename = (\<lambda>src dst w. if Dir dst \<in> set w then (Ok (), dst # w) else (Err no_file, w)),
     os_RemoveAll = (\<lambda>p w. (Ok (), filter (\<lambda>q. q \<noteq> p) w)),
     os_Lookup = (\<lambda>n. Some \<lparr>u_Uid = ''0'', u_Gid = ''0'', u_Username = n, u_HomeDir = ''/root''\<rparr>),
     os_LookupId = (\<lambda>_. None), os_LookupGroupId = (\<lambda>_. None)\<rparr>"

definition example_defaults :: Defaults where
  "example_defaults = \<lparr>df_EnvVars = NewMap, df_User = ''root'', df_Workdir = None, df_UseOverlay = False\<rparr>"

lemma example_missing: "missing example_fs_ops p w \<longleftrightarrow> p \<notin> set w"
  by (simp add: missing_def example_fs_ops_def example_stat_def no_file_def)

lemma example_fs_laws: "directory_laws example_fs_ops"
  unfolding directory_laws_def example_missing
  using abs_path_shorter by (fastforce simp: example_fs_ops_def no_file_def HasPrefix_def)

lemma example_expand:
  "ExpandAndResolve (evalLinks example_fs_ops []) path u None = Ok (Clean path)" if "path \<noteq> [] \<longrightarrow> hd path \<noteq> CHR ''~''"
  using that by (simp add: ExpandAndResolve_def evalLinks_def example_fs_ops_def in_workdir_def expand_home_def; blast)

text \<open>
  \<open>Move\<close> creates only the grandparent of the destination: if the directory that should
  hold the destination does not exist, the move fails with \<open>CodeNotFound\<close> (or with
  \<open>CodeInternal\<close> if the grandparent cannot be made), whatever the source is.
\<close>

lemma Move_needs_parent:
  assumes "directory_laws os" and "os_Lookup os (df_User defaults) = Some u"
    and "GetUserIdInts u = Ok (uid, gid)"
    and "ExpandAndResolve (evalLinks os w) dst u (df_Workdir defaults) = (Ok (abs_path (es @ [p, n])) :: (rpc_error, string) outcome)"
    and "\<forall>e \<in> set (es @ [p, n]). valid_elem e" and "missing os (abs_path (es @ [p])) w"
    and "EnsureDirs (os_MkdirAll os) (os_Chown os) (abs_path (es @ [p])) uid gid w = (Ok (), w')"
  shows "\<exists>w''. Move os defaults src dst w = (Err (Rpc CodeNotFound), w'') \<and> missing os (abs_path (es @ [p])) w''"
proof -
  have d: "Dir (abs_path (es @ [p, n])) = abs_path (es @ [p])"
    using Dir_abs_path [of "es @ [p]" n] assms(5) by simp
  have m: "missing os (abs_path (es @ [p])) w'"
    using EnsureDirs_leaves_missing [OF assms(1) _ assms(6,7)] assms(5) by simp
  obtain source where s: "ExpandAndResolve (evalLinks os w) src u (df_Workdir defaults) = (Ok source :: (rpc_error, string) outcome)"
    by (cases "evalLinks os w (in_workdir (expand_home src u) (df_Workdir defaults))") (auto simp: ExpandAndResolve_def)
  obtain e where "os_Rename os source (abs_path (es @ [p, n])) w' = (Err e, w')" "oe_notExist e"
    using assms(1) m d unfolding directory_laws_def by metis
  then show ?thesis
    using m d s assms(2-4,7)
    by (simp add: Move_def authUser_def expandPath_def userIds_def GetAuthUser_def GetUser_def io_then_def io_map_err_def)
qed

text \<open>
  The life of one polled watcher inside the service.  \<open>produced\<close> are all events its goroutine
  recorded and \<open>delivered\<close> those that polls returned; other watchers come, go, are polled and
  run in between.
\<close>

fun produced_by :: "(fsop \<Rightarrow> 'op \<Rightarrow> bool) \<Rightarrow> string \<Rightarrow> 'op signal \<Rightarrow> FilesystemEvent list" where
  "produced_by has watchPath (FsEvent name op) =
     (case Rel watchPath name of
        None \<Rightarrow> [] | Some rel \<Rightarrow> map (\<lambda>t. \<lparr>fev_Name = rel, fev_Type = t\<rparr>) (event_ops has op))"
| "produced_by has watchPath _ = []"

inductive watcher_life ::
  "'w notify_ops \<Rightarrow> (fsop \<Rightarrow> 'op \<Rightarrow> bool) \<Rightarrow> string \<Rightarrow> string \<Rightarrow> Service \<Rightarrow> FilesystemEvent list \<Rightarrow> FilesystemEvent list \<Rightarrow> bool"
  for nw has watcherId watchPath where
  created: "watcher_life nw has watcherId watchPath
     (s\<lparr>sv_watchers := Map_Store (sv_watchers s) watcherId (NewFileWatcher h watchPath)\<rparr>) [] []"
| turn: "watcher_life nw has watcherId watchPath s delivered produced \<Longrightarrow>
     Map_Load (sv_watchers s) watcherId = Some fw \<Longrightarrow> fw_running fw \<Longrightarrow>
     watcher_life nw has watcherId watchPath (service_turn has s watcherId sig) delivered
       (produced @ produced_by has watchPath sig)"
| poll: "watcher_life nw has watcherId watchPath s delivered produced \<Longrightarrow>
     GetWatcherEvents s watcherId = (Ok events, s') \<Longrightarrow>
     watcher_life nw has watcherId watchPath s' (delivered @ events) produced"
| other_created: "watcher_life nw has watcherId watchPath s delivered produced \<Longrightarrow> i \<noteq> watcherId \<Longrightarrow>
     watcher_life nw has watcherId watchPath (s\<lparr>sv_watchers := Map_Store (sv_watchers s) i fw\<rparr>) delivered produced"
| other_removed: "watcher_life nw has watcherId watchPath s delivered produced \<Longrightarrow> i \<noteq> watcherId \<Longrightarrow>
     watcher_life nw has watcherId watchPath (fst (snd (RemoveWatcher nw s i w))) delivered produced"
| other_polled: "watcher_life nw has watcherId watchPath s delivered produced \<Longrightarrow> i \<noteq> watcherId \<Longrightarrow>
     watcher_life nw has watcherId watchPath (snd (GetWatcherEvents s i)) delivered produced"
| other_turn: "watcher_life nw has watcherId watchPath s delivered produced \<Longrightarrow> i \<noteq> watcherId \<Longrightarrow>
     watcher_life nw has watcherId watchPath (service_turn has s i sig) delivered produced"

lemma record_ops_events:
  "fw_Events (record_ops fw name ops) = fw_Events fw @
     (case Rel (fw_watchPath fw) name of None \<Rightarrow> [] | Some rel \<Rightarrow> map (\<lambda>t. \<lparr>fev_Name = rel, fev_Type = t\<rparr>) ops)"
  by (induction ops arbitrary: fw) (auto split: option.splits)

lemma record_ops_path [simp]: "fw_watchPath (record_ops fw name ops) = fw_watchPath fw"
  by (induction ops arbitrary: fw) (auto split: option.splits)

lemma watcher_turn_events:
  "fw_Events (watcher_turn has fw sig) = fw_Events fw @ produced_by has (fw_watchPath fw) sig"
  "fw_watchPath (watcher_turn has fw sig) = fw_watchPath fw"
  by (cases sig; simp add: record_ops_events)+

lemmas watcher_ops = GetWatcherEvents_def RemoveWatcher_def service_turn_def
  sync_map.load_store sync_map.load_delete

lemma watcher_life_events:
  "watcher_life nw has watcherId watchPath s delivered produced \<Longrightarrow>
     \<exists>fw. Map_Load (sv_watchers s) watcherId = Some fw \<and> fw_watchPath fw = watchPath
       \<and> delivered @ fw_Events fw = produced"
proof (induction rule: watcher_life.induct)
  case (turn s delivered produced fw sig)
  then show ?case by (auto simp: watcher_ops watcher_turn_events)
next
  case (poll s delivered produced events s')
  then show ?case by (auto simp: watcher_ops split: option.splits)
qed (auto simp: watcher_ops NewFileWatcher_def split: option.splits)

text \<open>
  C22.  A polled watcher delivers every event exactly once and in order: whatever else happens in
  the service, what the polls have returned followed by what is pending is what the watcher
  recorded; a further poll of a watcher without an error returns all of the rest.
\<close>

theorem watcher_delivers_once:
  assumes "watcher_life nw has watcherId watchPath s delivered produced"
  shows "\<exists>fw. Map_Load (sv_watchers s) watcherId = Some fw \<and> delivered @ fw_Events fw = produced
    \<and> (fw_Error fw = None \<longrightarrow>
        (\<exists>events s'. GetWatcherEvents s watcherId = (Ok events, s') \<and> delivered @ events = produced
           \<and> fst (GetWatcherEvents s' watcherId) = Ok []))
    \<and> fst (GetWatcherEvents (fst (snd (RemoveWatcher nw s watcherId w))) watcherId) = Err (Rpc CodeNotFound)"
proof -
  obtain fw where "Map_Load (sv_watchers s) watcherId = Some fw" "delivered @ fw_Events fw = produced"
    using watcher_life_events [OF assms] by blast
  then show ?thesis by (auto simp: watcher_ops)
qed

theorem watcher_delivers_once_witness:
  "\<exists>events s'. GetWatcherEvents (service_turn (\<lambda>o' op. o' = op)
      \<lparr>sv_watchers = Map_Store NewMap ''w1'' (NewFileWatcher 3 ''/d''), sv_defaults = example_defaults\<rparr> ''w1'' (FsEvent ''/d/f'' WriteOp)) ''w1''
    = (Ok events, s') \<and> events = produced_by (\<lambda>o' op. o' = op) ''/d'' (FsEvent ''/d/f'' WriteOp)"
proof -
  let ?has = "\<lambda>o' op :: fsop. o' = op"
  let ?nw = "\<lparr>nw_New = io_return 3, nw_Add = (\<lambda>_ _. io_return ()), nw_Close = (\<lambda>_. io_return ())\<rparr> :: unit notify_ops"
  let ?s = "\<lparr>sv_watchers = NewMap, sv_defaults = example_defaults\<rparr>"
  have "watcher_life ?nw ?has ''w1'' ''/d'' (?s\<lparr>sv_watchers := Map_Store (sv_watchers ?s) ''w1'' (NewFileWatcher 3 ''/d'')\<rparr>) [] []"
    by (rule watcher_life.created)
  from watcher_life.turn [OF this, of "NewFileWatcher 3 ''/d''" "FsEvent ''/d/f'' WriteOp"]
  have l: "watcher_life ?nw ?has ''w1'' ''/d'' (service_turn ?has
      \<lparr>sv_watchers = Map_Store NewMap ''w1'' (NewFileWatcher 3 ''/d''), sv_defaults = example_defaults\<rparr> ''w1'' (FsEvent ''/d/f'' WriteOp))
      [] (produced_by ?has ''/d'' (FsEvent ''/d/f'' WriteOp))"
    by (simp add: sync_map.load_store NewFileWatcher_def)
  have "Rel ''/d'' ''/d/f'' = Some ''f''"
    using Rel_abs_path [of "[''d'']" "[''f'']"] by (simp add: abs_path_def valid_elem_def)
  then show ?thesis
    using watcher_delivers_once [OF l]
    by (auto simp: watcher_ops NewFileWatcher_def event_ops_def)
qed

text \<open>
  What the service relies on of the notification library: \<open>opened w\<close> are the handles of the open
  watchers.  A new watcher has a fresh handle, adding a path opens and closes nothing, and closing
  releases the handle.
\<close>

definition notify_laws :: "'w notify_ops \<Rightarrow> ('w \<Rightarrow> nat set) \<Rightarrow> bool" where
  "notify_laws nw opened \<longleftrightarrow>
     (\<forall>w r w'. nw_New nw w = (r, w') \<longrightarrow>
        (case r of Ok h \<Rightarrow> h \<notin> opened w \<and> opened w' = insert h (opened w) | _ \<Rightarrow> opened w' = opened w))
   \<and> (\<forall>h p w. fst (nw_Add nw h p w) \<noteq> Panic \<and> opened (snd (nw_Add nw h p w)) = opened w)
   \<and> (\<forall>h w. opened (snd (nw_Close nw h w)) = opened w - {h})"

lemma notify_new:
  "notify_laws nw opened \<Longrightarrow> nw_New nw w = (r, w') \<Longrightarrow>
     (case r of Ok h \<Rightarrow> h \<notin> opened w \<and> opened w' = insert h (opened w) | _ \<Rightarrow> opened w' = opened w)"
  unfolding notify_laws_def by blast

lemma notify_close: "notify_laws nw opened \<Longrightarrow> opened (snd (nw_Close nw h w)) = opened w - {h}"
  unfolding notify_laws_def by blast

lemma send_ops_keeps: "(\<And>r. io_keeps v (send r)) \<Longrightarrow> io_keeps v (send_ops send watchPath name ops)"
  by (induction ops) (auto intro!: io_keeps_intros split: option.splits)

lemma watch_loop_keeps: "(\<And>r. io_keeps v (send r)) \<Longrightarrow> io_keeps v (watch_loop has send watchPath sigs)"
proof (induction sigs)
  case (Cons sig sigs)
  then show ?case by (cases sig) (auto intro!: io_keeps_intros send_ops_keeps)
qed (auto intro!: io_keeps_intros)

lemma CreateFileWatcher_opens:
  assumes "notify_laws nw opened" and "CreateFileWatcher nw watchPath recursive w = (r, w')"
  shows "case r of Ok fw \<Rightarrow> fw_watcher fw \<notin> opened w \<and> opened w' = insert (fw_watcher fw) (opened w)
    | _ \<Rightarrow> opened w' = opened w"
proof -
  obtain r1 w1 where n: "nw_New nw w = (r1, w1)" by fastforce
  show ?thesis
  proof (cases r1)
    case (Ok h)
    obtain r2 w2 where a: "nw_Add nw h (FsnotifyPath watchPath recursive) w1 = (r2, w2)" by fastforce
    have o1: "h \<notin> opened w" "opened w1 = insert h (opened w)"
      using notify_new [OF assms(1) n] Ok by simp_all
    have "r2 \<noteq> Panic" "opened w2 = opened w1" using assms(1) a unfolding notify_laws_def by (metis fst_conv snd_conv)+
    then show ?thesis
      using assms(2) n Ok a o1 notify_close [OF assms(1), of h w2]
      by (cases r2) (auto simp: CreateFileWatcher_def io_then_def io_map_err_def NewFileWatcher_def)
  next
    case (Err e)
    then show ?thesis using assms(2) n notify_new [OF assms(1) n] by (auto simp: CreateFileWatcher_def io_then_def io_map_err_def)
  next
    case Panic
    then show ?thesis using assms(2) n notify_new [OF assms(1) n] by (auto simp: CreateFileWatcher_def io_then_def io_map_err_def)
  qed
qed

lemma watchHandler_balanced:
  assumes "notify_laws nw opened" and "\<And>r. io_keeps opened (send r)"
  shows "io_keeps opened (watchHandler os has nw send defaults path recursive sigs)"
proof -
  have "io_keeps opened (io_then (io_map_err (\<lambda>_. Rpc CodeInternal) (nw_New nw)) (\<lambda>h.
     io_defer
       (io_then (io_map_err (\<lambda>_. Rpc CodeInternal) (nw_Add nw h (FsnotifyPath p recursive))) (\<lambda>_.
        io_then (io_map_err (\<lambda>_. Rpc CodeUnknown) (send WatchStart)) (\<lambda>_.
        watch_loop has send p sigs)))
       (\<lambda>w. snd (nw_Close nw h w))))" (is "io_keeps opened (io_then ?new ?body)") for p
    unfolding io_keeps_def
  proof
    fix w
    obtain r w1 where n: "nw_New nw w = (r, w1)" by fastforce
    show "opened (snd (io_then ?new ?body w)) = opened w"
    proof (cases r)
      case (Ok h)
      have "io_keeps opened (nw_Add nw h q)" for q using assms(1) by (simp add: notify_laws_def io_keeps_def)
      then have "io_keeps opened (io_then (io_map_err (\<lambda>_. Rpc CodeInternal) (nw_Add nw h (FsnotifyPath p recursive))) (\<lambda>_.
        io_then (io_map_err (\<lambda>_. Rpc CodeUnknown) (send WatchStart)) (\<lambda>_. watch_loop has send p sigs)))" (is "io_keeps _ ?c")
        by (intro io_keeps_intros watch_loop_keeps assms(2))
      then have "opened (snd (?c w1)) = opened w1" by (simp add: io_keeps_def)
      moreover have "h \<notin> opened w" "opened w1 = insert h (opened w)"
        using notify_new [OF assms(1) n] Ok by simp_all
      ultimately show ?thesis using n Ok notify_close [OF assms(1)] by (simp add: io_then_def io_map_err_def io_defer_def split_beta)
    qed (use n notify_new [OF assms(1) n] in \<open>auto simp: io_then_def io_map_err_def\<close>)
  qed
  then show ?thesis
    unfolding watchHandler_def authUser_def expandPath_def checkWatchPath_def
    by (intro io_keeps_then [OF io_keeps_basic(3)])
qed

lemma CreateWatcher_opens:
  assumes "notify_laws nw opened" and "\<And>w. opened (snd (generate w)) = opened w"
    and "CreateWatcher os nw generate s path recursive w = (r, w')"
  shows "case r of Ok (i, s') \<Rightarrow> (\<exists>fw. Map_Load (sv_watchers s') i = Some fw \<and> fw_watcher fw \<notin> opened w
        \<and> opened w' = insert (fw_watcher fw) (opened w))
    | _ \<Rightarrow> opened w' = opened w"
proof -
  obtain i w1 where g: "generate w = (i, w1)" by fastforce
  then have o1: "opened w1 = opened w" using assms(2) by (metis snd_conv)
  let ?p = "ExpandAndResolve (evalLinks os w) path"
  obtain q where q: "\<And>u. (?p u (df_Workdir (sv_defaults s)) :: (rpc_error, string) outcome) = Ok (q u)"
    by (rule that [of "\<lambda>u. case ?p u (df_Workdir (sv_defaults s)) :: (rpc_error, string) outcome of Ok x \<Rightarrow> x"])
      (auto simp: ExpandAndResolve_def Let_def split: option.splits)
  obtain r2 w2 where c: "\<And>u. os_Lookup os (df_User (sv_defaults s)) = Some u \<Longrightarrow>
      CreateFileWatcher nw (q u) recursive w1 = (r2, w2)"
    by (cases "os_Lookup os (df_User (sv_defaults s))";
        cases "CreateFileWatcher nw (q (the (os_Lookup os (df_User (sv_defaults s))))) recursive w1") auto
  have o2: "os_Lookup os (df_User (sv_defaults s)) = Some u \<Longrightarrow>
      (case r2 of Ok fw \<Rightarrow> fw_watcher fw \<notin> opened w1 \<and> opened w2 = insert (fw_watcher fw) (opened w1)
       | _ \<Rightarrow> opened w2 = opened w1)" for u
    using CreateFileWatcher_opens [OF assms(1) c] .
  show ?thesis
    using assms(3) g q c o1 o2
    by (cases r2; cases "os_Lookup os (df_User (sv_defaults s))";
        cases "fst (checkWatchPath os (q (the (os_Lookup os (df_User (sv_defaults s))))) w)")
      (auto simp: CreateWatcher_def authUser_def expandPath_def checkWatchPath_def GetAuthUser_def GetUser_def io_then_def
        Let_def sync_map.load_store split: outcome.splits)
qed

text \<open>
  No watcher of the notification library leaks: the streaming handler closes the one it opens
  on every path, creating a polled watcher leaves open exactly the one it stores in the service (none
  when it fails), and removing a watcher closes it.
\<close>

lemma watchers_balanced:
  assumes "notify_laws nw opened" and "\<And>r. io_keeps opened (send r)" and "\<And>w. opened (snd (generate w)) = opened w"
  shows "opened (snd (watchHandler os has nw send defaults path recursive sigs w)) = opened w
    \<and> (case CreateWatcher os nw generate s path recursive w of
         (Ok (i, s'), w') \<Rightarrow> \<exists>fw. Map_Load (sv_watchers s') i = Some fw \<and> fw_watcher fw \<notin> opened w
            \<and> opened w' = insert (fw_watcher fw) (opened w)
            \<and> (\<forall>v. opened (snd (snd (RemoveWatcher nw s' i v))) = opened v - {fw_watcher fw})
       | (_, w') \<Rightarrow> opened w' = opened w)"
proof -
  obtain r w' where c: "CreateWatcher os nw generate s path recursive w = (r, w')" by fastforce
  note created = CreateWatcher_opens [OF assms(1,3) c]
  have "case r of Ok (i, s') \<Rightarrow> \<exists>fw. Map_Load (sv_watchers s') i = Some fw \<and> fw_watcher fw \<notin> opened w
      \<and> opened w' = insert (fw_watcher fw) (opened w)
      \<and> (\<forall>v. opened (snd (snd (RemoveWatcher nw s' i v))) = opened v - {fw_watcher fw})
    | _ \<Rightarrow> opened w' = opened w"
  proof (cases r)
    case (Ok x)
    then obtain i s' where x: "r = Ok (i, s')" by (cases x) auto
    with created obtain fw where fw: "Map_Load (sv_watchers s') i = Some fw" "fw_watcher fw \<notin> opened w"
      "opened w' = insert (fw_watcher fw) (opened w)" by auto
    have "opened (snd (snd (RemoveWatcher nw s' i v))) = opened v - {fw_watcher fw}" for v
      by (simp add: RemoveWatcher_def fw(1) FileWatcher_Close_def notify_close [OF assms(1)])
    with fw x show ?thesis by auto
  qed (use created in simp_all)
  moreover have "opened (snd (watchHandler os has nw send defaults path recursive sigs w)) = opened w"
    using watchHandler_balanced [of nw opened send os has, OF assms(1,2)] by (simp add: io_keeps_def)
  ultimately show ?thesis unfolding c by (auto split: outcome.splits)
qed

definition example_notify :: "nat notify_ops" where
  "example_notify = \<lparr>nw_New = (\<lambda>w. if w = 0 then (Ok 1, 1) else (Err (), w)), nw_Add = (\<lambda>_ _. io_return ()),
     nw_Close = (\<lambda>h w. (Ok (), if h = 1 then 0 else w))\<rparr>"

lemma example_notify_laws: "notify_laws example_notify (\<lambda>w. if w = 0 then {} else {1})"
  by (auto simp: notify_laws_def example_notify_def split: outcome.splits if_splits)

end
