(* ===== verification/Agent_Cgroups.thy ===== *)
theory Agent_Cgroups
  imports Go_Text
begin

text \<open>
  The cgroup managers (\<open>internal/services/cgroups\<close>).  The system calls are the fields of
  \<open>cgroup_os\<close>; \<open>descriptor_laws\<close> states what the manager relies on: opening gives a descriptor
  that was not open, closing an open one releases it, and nothing else touches the table of
  open descriptors.  A Go map is a list of its entries in the order of iteration, any order.
\<close>

section \<open>Data\<close>

type_synonym ProcessType = string

definition ProcessTypePTY :: ProcessType where "ProcessTypePTY = ''pty''"
definition ProcessTypeUser :: ProcessType where "ProcessTypeUser = ''user''"
definition ProcessTypeSocat :: ProcessType where "ProcessTypeSocat = ''socat''"

record Cgroup2Config =
  c2_Path :: string
  c2_Properties :: "(string \<times> string) list"

record cgroup2Config =
  cc_rootPath :: string
  cc_processTypes :: "(ProcessType \<times> Cgroup2Config) list"

type_synonym Cgroup2Manager = "(ProcessType \<times> int) list"

record 'w cgroup_os =
  os_MkdirAll :: "string \<Rightarrow> 'w \<Rightarrow> string option \<times> 'w"
  os_WriteFile :: "string \<Rightarrow> string \<Rightarrow> 'w \<Rightarrow> string option \<times> 'w"
  os_Open :: "string \<Rightarrow> 'w \<Rightarrow> (string + int) \<times> 'w"
  os_Close :: "int \<Rightarrow> 'w \<Rightarrow> string option \<times> 'w"

section \<open>Options\<close>

definition WithCgroup2RootSysFSPath :: "string \<Rightarrow> cgroup2Config \<Rightarrow> cgroup2Config" where
  "WithCgroup2RootSysFSPath path config = config\<lparr>cc_rootPath := path\<rparr>"

definition WithCgroup2ProcessType ::
  "ProcessType \<Rightarrow> string \<Rightarrow> (string \<times> string) list \<Rightarrow> cgroup2Config \<Rightarrow> cgroup2Config" where
  "WithCgroup2ProcessType processType path properties config =
     config\<lparr>cc_processTypes := (processType, \<lparr>c2_Path = path, c2_Properties = properties\<rparr>)
       # filter (\<lambda>e. fst e \<noteq> processType) (cc_processTypes config)\<rparr>"

section \<open>Creation\<close>

fun writeProperties ::
  "'w cgroup_os \<Rightarrow> string \<Rightarrow> (string \<times> string) list \<Rightarrow> 'w \<Rightarrow> string list \<times> 'w" where
  "writeProperties os fullPath [] w = ([], w)"
| "writeProperties os fullPath ((name, v) # ps) w =
     (case os_WriteFile os (Join [fullPath, name]) v w of
        (None, w') \<Rightarrow> writeProperties os fullPath ps w'
      | (Some e, w') \<Rightarrow> (case writeProperties os fullPath ps w' of (errs, w'') \<Rightarrow> (e # errs, w'')))"

definition createCgroup ::
  "'w cgroup_os \<Rightarrow> string \<Rightarrow> (string \<times> string) list \<Rightarrow> 'w \<Rightarrow> (string list + int) \<times> 'w" where
  "createCgroup os fullPath properties w =
     (case os_MkdirAll os fullPath w of
        (Some e, w') \<Rightarrow> (Inl [e], w')
      | (None, w') \<Rightarrow>
          (case writeProperties os fullPath properties w' of
             (errs, w'') \<Rightarrow>
               if errs \<noteq> [] then (Inl errs, w'')
               else (case os_Open os fullPath w'' of
                       (Inl e, v) \<Rightarrow> (Inl [e], v) | (Inr fd, v) \<Rightarrow> (Inr fd, v))))"

fun createEach ::
  "'w cgroup_os \<Rightarrow> string \<Rightarrow> (ProcessType \<times> Cgroup2Config) list \<Rightarrow> 'w
     \<Rightarrow> (ProcessType \<times> int) list \<times> string list \<times> 'w" where
  "createEach os rootPath [] w = ([], [], w)"
| "createEach os rootPath ((procType, config) # cs) w =
     (case createCgroup os (Join [rootPath, c2_Path config]) (c2_Properties config) w of
        (Inr fd, w') \<Rightarrow>
          (case createEach os rootPath cs w' of (results, errs, w'') \<Rightarrow> ((procType, fd) # results, errs, w''))
      | (Inl e, w') \<Rightarrow>
          (case createEach os rootPath cs w' of (results, errs, w'') \<Rightarrow> (results, e @ errs, w'')))"

fun closeEach :: "'w cgroup_os \<Rightarrow> (ProcessType \<times> int) list \<Rightarrow> 'w \<Rightarrow> string list \<times> 'w" where
  "closeEach os [] w = ([], w)"
| "closeEach os ((procType, fd) # fds) w =
     (case os_Close os fd w of
        (Some e, w') \<Rightarrow> (case closeEach os fds w' of (errs, w'') \<Rightarrow> (e # errs, w''))
      | (None, w') \<Rightarrow> closeEach os fds w')"

definition createCgroups ::
  "'w cgroup_os \<Rightarrow> cgroup2Config \<Rightarrow> 'w \<Rightarrow> (string list + Cgroup2Manager) \<times> 'w" where
  "createCgroups os configs w =
     (case createEach os (cc_rootPath configs) (cc_processTypes configs) w of
        (results, errs, w') \<Rightarrow>
          if errs \<noteq> [] then (case closeEach os results w' of (errs', w'') \<Rightarrow> (Inl (errs @ errs'), w''))
          else (Inr results, w'))"

definition NewCgroup2Manager ::
  "'w cgroup_os \<Rightarrow> (cgroup2Config \<Rightarrow> cgroup2Config) list \<Rightarrow> 'w
     \<Rightarrow> (string list + Cgroup2Manager) \<times> 'w" where
  "NewCgroup2Manager os opts =
     createCgroups os (fold (\<lambda>opt config. opt config) opts
       \<lparr>cc_rootPath = ''/sys/fs/cgroup'', cc_processTypes = []\<rparr>)"

section \<open>The managers\<close>

definition Cgroup2_GetFileDescriptor :: "Cgroup2Manager \<Rightarrow> ProcessType \<Rightarrow> int \<times> bool" where
  "Cgroup2_GetFileDescriptor c procType =
     (case map_of c procType of None \<Rightarrow> (0, False) | Some fd \<Rightarrow> (fd, True))"

text \<open>\<open>Close\<close> also deletes every entry, whether or not the system call succeeded.\<close>

definition Cgroup2_Close :: "'w cgroup_os \<Rightarrow> Cgroup2Manager \<Rightarrow> 'w \<Rightarrow> string list \<times> Cgroup2Manager \<times> 'w" where
  "Cgroup2_Close os c w = (case closeEach os c w of (errs, w') \<Rightarrow> (errs, [], w'))"

definition Noop_GetFileDescriptor :: "unit \<Rightarrow> ProcessType \<Rightarrow> int \<times> bool" where
  "Noop_GetFileDescriptor n procType = (0, False)"

definition Noop_Close :: "'w cgroup_os \<Rightarrow> unit \<Rightarrow> 'w \<Rightarrow> string list \<times> unit \<times> 'w" where
  "Noop_Close os n w = ([], (), w)"

text \<open>
  The interface \<open>Manager\<close>: a missing descriptor reads as zero, and a closed manager has no
  descriptor for any type, so a client never sees a closed one.
\<close>

locale cgroup_manager =
  fixes getFD :: "'m \<Rightarrow> ProcessType \<Rightarrow> int \<times> bool"
    and closeM :: "'m \<Rightarrow> 'w \<Rightarrow> string list \<times> 'm \<times> 'w"
  assumes missing_zero: "\<not> snd (getFD m t) \<Longrightarrow> fst (getFD m t) = 0"
    and closed_missing: "closeM m w = (errs, m', w') \<Longrightarrow> \<not> snd (getFD m' t)"
begin

lemma closed_zero: "closeM m w = (errs, m', w') \<Longrightarrow> getFD m' t = (0, False)"
  using missing_zero closed_missing by (metis prod.collapse)

lemma close_twice: "closeM m w = (errs, m', w') \<Longrightarrow> closeM m' w' = (errs', m'', w'') \<Longrightarrow> getFD m'' t = getFD m' t"
  using closed_zero by metis

end

interpretation cgroup2: cgroup_manager Cgroup2_GetFileDescriptor "Cgroup2_Close os"
  by unfold_locales (auto simp: Cgroup2_GetFileDescriptor_def Cgroup2_Close_def split: option.splits prod.splits)

interpretation noop: cgroup_manager Noop_GetFileDescriptor "Noop_Close os"
  by unfold_locales (auto simp: Noop_GetFileDescriptor_def Noop_Close_def)

section \<open>Descriptors\<close>

definition descriptor_laws :: "'w cgroup_os \<Rightarrow> ('w \<Rightarrow> int set) \<Rightarrow> bool" where
  "descriptor_laws os fds \<longleftrightarrow>
     (\<forall>p w. fds (snd (os_MkdirAll os p w)) = fds w)
   \<and> (\<forall>p v w. fds (snd (os_WriteFile os p v w)) = fds w)
   \<and> (\<forall>p w. case os_Open os p w of (Inl _, w') \<Rightarrow> fds w' = fds w | (Inr fd, w') \<Rightarrow> fd \<notin> fds w \<and> fds w' = insert fd (fds w))
   \<and> (\<forall>fd w. fd \<in> fds w \<longrightarrow> fst (os_Close os fd w) = None \<and> fds (snd (os_Close os fd w)) = fds w - {fd})"

lemma writeProperties_fds:
  "descriptor_laws os fds \<Longrightarrow> fds (snd (writeProperties os path ps w)) = fds w"
proof (induction os path ps w rule: writeProperties.induct)
  case (2 os path name v ps w)
  obtain e w' where e: "os_WriteFile os (Join [path, name]) v w = (e, w')" by fastforce
  have "fds w' = fds w" using "2.prems" e unfolding descriptor_laws_def by (metis snd_conv)
  then show ?case using 2 e by (cases e) (auto split: prod.splits)
qed simp

lemma createCgroup_fds:
  assumes "descriptor_laws os fds" and "createCgroup os path ps w = (r, w')"
  shows "case r of Inl _ \<Rightarrow> fds w' = fds w | Inr fd \<Rightarrow> fd \<notin> fds w \<and> fds w' = insert fd (fds w)"
proof -
  obtain e1 w1 where m: "os_MkdirAll os path w = (e1, w1)" by fastforce
  have f1: "fds w1 = fds w" using assms(1) m unfolding descriptor_laws_def by (metis snd_conv)
  obtain errs w2 where p: "writeProperties os path ps w1 = (errs, w2)" by fastforce
  have f2: "fds w2 = fds w" using writeProperties_fds [OF assms(1), of path ps w1] p f1 by simp
  obtain e3 w3 where o3: "os_Open os path w2 = (e3, w3)" by fastforce
  have "case e3 of Inl _ \<Rightarrow> fds w3 = fds w2 | Inr fd \<Rightarrow> fd \<notin> fds w2 \<and> fds w3 = insert fd (fds w2)"
  proof -
    have "case os_Open os path w2 of (Inl _, w') \<Rightarrow> fds w' = fds w2 | (Inr fd, w') \<Rightarrow> fd \<notin> fds w2 \<and> fds w' = insert fd (fds w2)"
      using assms(1) by (simp add: descriptor_laws_def)
    with o3 show ?thesis by (cases e3) simp_all
  qed
  with f1 f2 assms(2) m p o3 show ?thesis
    by (cases e1; cases e3) (auto simp: createCgroup_def split: if_splits)
qed

text \<open>The descriptors of a result are fresh, distinct and exactly what was opened.\<close>

lemma createEach_fds:
  assumes "descriptor_laws os fds"
  shows "createEach os root cs w = (results, errs, w') \<Longrightarrow>
    distinct (map snd results) \<and> snd ` set results \<inter> fds w = {} \<and> fds w' = fds w \<union> snd ` set results
    \<and> (errs = [] \<longrightarrow> map fst results = map fst cs)"
proof (induction cs arbitrary: w results errs)
  case (Cons c cs)
  obtain procType config where c: "c = (procType, config)" by fastforce
  obtain r w1 where r: "createCgroup os (Join [root, c2_Path config]) (c2_Properties config) w = (r, w1)" by fastforce
  obtain results1 errs1 where rec: "createEach os root cs w1 = (results1, errs1, w')"
    and eq: "results = (case r of Inl _ \<Rightarrow> results1 | Inr fd \<Rightarrow> (procType, fd) # results1)"
      "errs = (case r of Inl e \<Rightarrow> e @ errs1 | Inr _ \<Rightarrow> errs1)"
    using Cons.prems c r by (cases r) (auto split: prod.splits)
  note f = createCgroup_fds [OF assms r]
  have ne: "r = Inl e \<Longrightarrow> e \<noteq> []" for e
    using r by (auto simp: createCgroup_def split: prod.splits option.splits if_splits sum.splits)
  show ?case using Cons.IH [OF rec] f ne eq c by (cases r) auto
qed simp

lemma closeEach_fds:
  assumes "descriptor_laws os fds"
  shows "distinct (map snd cs) \<Longrightarrow> snd ` set cs \<subseteq> fds w \<Longrightarrow>
    closeEach os cs w = (errs, w') \<Longrightarrow> errs = [] \<and> fds w' = fds w - snd ` set cs"
proof (induction cs arbitrary: w errs)
  case (Cons c cs)
  obtain procType fd where c: "c = (procType, fd)" by fastforce
  have fd: "fd \<in> fds w" using Cons.prems(2) c by simp
  obtain w1 where w1: "os_Close os fd w = (None, w1)" "fds w1 = fds w - {fd}"
    using assms fd unfolding descriptor_laws_def by (metis prod.collapse)
  show ?case using Cons.IH [of w1 errs] Cons.prems c w1 by (auto split: prod.splits)
qed simp

section \<open>Properties\<close>

text \<open>
  Descriptors do not leak: if the manager cannot be created, every descriptor opened on
  the way is closed again; if it can, it has a descriptor for exactly the configured process
  types, they were not open before, and closing the manager reports no error, leaves the
  process with the descriptors it had before, and no type has a descriptor any more.
\<close>

lemma cgroup_descriptors_balanced:
  assumes "descriptor_laws os fds" and "NewCgroup2Manager os opts w = (r, w')"
    and "cfg = fold (\<lambda>opt c. opt c) opts \<lparr>cc_rootPath = ''/sys/fs/cgroup'', cc_processTypes = []\<rparr>"
  shows "case r of
      Inl errs \<Rightarrow> errs \<noteq> [] \<and> fds w' = fds w
    | Inr m \<Rightarrow>
        (\<forall>t. snd (Cgroup2_GetFileDescriptor m t) \<longleftrightarrow> t \<in> fst ` set (cc_processTypes cfg))
        \<and> fds w' = fds w \<union> snd ` set m \<and> snd ` set m \<inter> fds w = {}
        \<and> (\<exists>w''. Cgroup2_Close os m w' = ([], [], w'') \<and> fds w'' = fds w)
        \<and> (\<forall>errs m' w''. Cgroup2_Close os m w' = (errs, m', w'') \<longrightarrow> (\<forall>t. Cgroup2_GetFileDescriptor m' t = (0, False)))"
proof -
  obtain results errs w1 where c: "createEach os (cc_rootPath cfg) (cc_processTypes cfg) w = (results, errs, w1)"
    by (metis prod_cases3)
  note f = createEach_fds [OF assms(1) c]
  obtain errs' w2 where cl: "closeEach os results w1 = (errs', w2)" by fastforce
  have k: "errs' = []" "fds w2 = fds w" using closeEach_fds [OF assms(1) _ _ cl] f by auto
  have new: "(r, w') = (if errs \<noteq> [] then (Inl (errs @ errs'), w2) else (Inr results, w1))"
    using assms(2,3) c cl by (cases "errs = []") (auto simp: NewCgroup2Manager_def createCgroups_def)
  have types: "snd (Cgroup2_GetFileDescriptor results t) \<longleftrightarrow> t \<in> fst ` set (cc_processTypes cfg)" if "errs = []" for t
  proof -
    have "set (map fst results) = set (map fst (cc_processTypes cfg))" using f that by metis
    then show ?thesis
      using map_of_eq_None_iff [of results t] by (auto simp: Cgroup2_GetFileDescriptor_def split: option.splits)
  qed
  show ?thesis
    using new f k cl types cgroup2.closed_zero [of os results w1]
    by (cases "errs = []") (auto simp: Cgroup2_Close_def)
qed

text \<open>A system whose world is the list of open descriptors and in which every call succeeds.\<close>

definition example_os :: "int list cgroup_os" where
  "example_os = \<lparr>os_MkdirAll = (\<lambda>_ w. (None, w)), os_WriteFile = (\<lambda>_ _ w. (None, w)),
     os_Open = (\<lambda>_ w. let fd = foldr max w 0 + 1 in (Inr fd, fd # w)),
     os_Close = (\<lambda>fd w. if fd \<in> set w then (None, filter (\<lambda>d. d \<noteq> fd) w) else (Some ''EBADF'', w))\<rparr>"

lemma foldr_max_ge: "(x :: int) \<in> set w \<Longrightarrow> x \<le> foldr max w 0"
  by (induction w) auto

lemma example_os_laws: "descriptor_laws example_os set"
  using foldr_max_ge by (fastforce simp: descriptor_laws_def example_os_def Let_def)

end
