(* ===== verification/Process_Multiplex.thy ===== *)
theory Process_Multiplex
  imports Aether_Prelude
begin

text \<open>
  The multiplexed channel of the process handler
  (\<open>internal/services/process/handler/multiplex.go\<close>) as a step relation.  One goroutine takes
  values from the source and hands each to every registered consumer, one rendezvous after the
  other, while it holds the read lock; \<open>Fork\<close> and \<open>remove\<close> need the write lock.  A consumer is
  the number of its channel.  A caller of \<open>Fork\<close> that has seen \<open>exited\<close> unset but has not yet
  taken the lock is counted by \<open>mx_forking\<close>.  A consumer that no longer receives is
  \<open>abandoned\<close>.  The history \<open>mx_taken\<close> of the values taken and the position \<open>mx_from\<close> at which
  a consumer was registered are auxiliary.
\<close>

section \<open>State\<close>

datatype 'v phase = Running | Sending 'v "nat list" | Exiting | Closing "nat list" | Finished

record 'v MultiplexedChannel =
  mx_source :: "'v list"
  mx_source_closed :: bool
  mx_channels :: "nat list"
  mx_exited :: bool
  mx_phase :: "'v phase"
  mx_forking :: nat
  mx_next :: nat
  mx_received :: "nat \<Rightarrow> 'v list"
  mx_closed :: "nat set"
  mx_abandoned :: "nat set"
  mx_taken :: "'v list"
  mx_from :: "nat \<Rightarrow> nat"

definition NewMultiplexedChannel :: "'v MultiplexedChannel" where
  "NewMultiplexedChannel =
     \<lparr>mx_source = [], mx_source_closed = False, mx_channels = [], mx_exited = False, mx_phase = Running,
      mx_forking = 0, mx_next = 0, mx_received = (\<lambda>_. []), mx_closed = {}, mx_abandoned = {},
      mx_taken = [], mx_from = (\<lambda>_. 0)\<rparr>"

definition lock_free :: "'v MultiplexedChannel \<Rightarrow> bool" where
  "lock_free m \<longleftrightarrow> (case mx_phase m of Sending v cs \<Rightarrow> False | _ \<Rightarrow> True)"

definition register :: "'v MultiplexedChannel \<Rightarrow> 'v MultiplexedChannel" where
  "register m =
     m\<lparr>mx_channels := mx_channels m @ [mx_next m], mx_next := mx_next m + 1,
       mx_forking := mx_forking m - 1,
       mx_from := (mx_from m)(mx_next m := length (mx_taken m))\<rparr>"

text \<open>\<open>remove\<close> deletes the first occurrence of the consumer.\<close>

definition remove_consumer :: "'v MultiplexedChannel \<Rightarrow> nat \<Rightarrow> 'v MultiplexedChannel" where
  "remove_consumer m c = m\<lparr>mx_channels := remove1 c (mx_channels m)\<rparr>"

definition take_value :: "'v MultiplexedChannel \<Rightarrow> 'v MultiplexedChannel" where
  "take_value m =
     m\<lparr>mx_source := tl (mx_source m), mx_taken := mx_taken m @ [hd (mx_source m)],
       mx_phase := Sending (hd (mx_source m)) (mx_channels m)\<rparr>"

definition deliver :: "'v MultiplexedChannel \<Rightarrow> 'v \<Rightarrow> nat \<Rightarrow> nat list \<Rightarrow> 'v MultiplexedChannel" where
  "deliver m v c cs =
     m\<lparr>mx_received := (mx_received m)(c := mx_received m c @ [v]), mx_phase := Sending v cs\<rparr>"

section \<open>Steps\<close>

inductive mx_step :: "'v MultiplexedChannel \<Rightarrow> 'v MultiplexedChannel \<Rightarrow> bool" where
  produce: "\<not> mx_source_closed m \<Longrightarrow> mx_step m (m\<lparr>mx_source := mx_source m @ [v]\<rparr>)"
| close_source: "\<not> mx_source_closed m \<Longrightarrow> mx_step m (m\<lparr>mx_source_closed := True\<rparr>)"
| take: "mx_phase m = Running \<Longrightarrow> mx_source m \<noteq> [] \<Longrightarrow> mx_step m (take_value m)"
| send: "mx_phase m = Sending v (c # cs) \<Longrightarrow> c \<notin> mx_abandoned m \<Longrightarrow> mx_step m (deliver m v c cs)"
| sent: "mx_phase m = Sending v [] \<Longrightarrow> mx_step m (m\<lparr>mx_phase := Running\<rparr>)"
| exit: "mx_phase m = Running \<Longrightarrow> mx_source m = [] \<Longrightarrow> mx_source_closed m \<Longrightarrow>
     mx_step m (m\<lparr>mx_exited := True, mx_phase := Exiting\<rparr>)"
| snapshot: "mx_phase m = Exiting \<Longrightarrow> mx_step m (m\<lparr>mx_phase := Closing (mx_channels m)\<rparr>)"
| close_one: "mx_phase m = Closing (c # cs) \<Longrightarrow>
     mx_step m (m\<lparr>mx_closed := insert c (mx_closed m), mx_phase := Closing cs\<rparr>)"
| finish: "mx_phase m = Closing [] \<Longrightarrow> mx_step m (m\<lparr>mx_phase := Finished\<rparr>)"
| fork_check: "\<not> mx_exited m \<Longrightarrow> mx_step m (m\<lparr>mx_forking := mx_forking m + 1\<rparr>)"
| fork: "0 < mx_forking m \<Longrightarrow> lock_free m \<Longrightarrow> mx_step m (register m)"
| remove: "lock_free m \<Longrightarrow> mx_step m (remove_consumer m c)"
| abandon: "mx_step m (m\<lparr>mx_abandoned := insert c (mx_abandoned m)\<rparr>)"

inductive_cases mx_step_cases: "mx_step m m'"

inductive mx_reachable :: "'v MultiplexedChannel \<Rightarrow> bool" where
  new: "mx_reachable NewMultiplexedChannel"
| step: "mx_reachable m \<Longrightarrow> mx_step m m' \<Longrightarrow> mx_reachable m'"

section \<open>Delivery in order\<close>

text \<open>What a registered consumer must have received: everything taken since it was registered,
  except the value in flight if it is still due to the consumer.\<close>

definition due :: "'v MultiplexedChannel \<Rightarrow> nat \<Rightarrow> 'v list" where
  "due m c =
     (case mx_phase m of
        Sending v cs \<Rightarrow> if c \<in> set cs then drop (mx_from m c) (butlast (mx_taken m)) else drop (mx_from m c) (mx_taken m)
      | _ \<Rightarrow> drop (mx_from m c) (mx_taken m))"

definition mx_inv :: "'v MultiplexedChannel \<Rightarrow> bool" where
  "mx_inv m \<longleftrightarrow>
     distinct (mx_channels m) \<and> (\<forall>c \<in> set (mx_channels m). c < mx_next m)
   \<and> (\<forall>c \<ge> mx_next m. mx_received m c = [])
   \<and> (\<forall>c \<in> set (mx_channels m). mx_from m c \<le> length (mx_taken m) \<and> mx_received m c = due m c)
   \<and> (\<forall>v cs. mx_phase m = Sending v cs \<longrightarrow>
        mx_taken m \<noteq> [] \<and> last (mx_taken m) = v \<and> distinct cs \<and> set cs \<subseteq> set (mx_channels m)
        \<and> (\<forall>c \<in> set cs. mx_from m c < length (mx_taken m)))"

lemma drop_snoc: "n \<le> length xs \<Longrightarrow> drop n (xs @ [x]) = drop n xs @ [x]"
  by simp

lemma mx_inv_take:
  assumes "mx_inv m" and "mx_phase m = Running"
  shows "mx_inv (take_value m)"
  using assms by (auto simp: mx_inv_def take_value_def due_def less_Suc_eq_le)

lemma mx_inv_send:
  assumes "mx_inv m" and "mx_phase m = Sending v (c # cs)"
  shows "mx_inv (deliver m v c cs)"
proof -
  have t: "mx_taken m \<noteq> []" "last (mx_taken m) = v" "distinct (c # cs)" "set (c # cs) \<subseteq> set (mx_channels m)"
    "mx_from m c < length (mx_taken m)" "\<forall>d \<in> set cs. mx_from m d < length (mx_taken m)"
    using assms unfolding mx_inv_def by auto
  obtain xs where xs: "mx_taken m = xs @ [v]" using t(1,2) by (metis append_butlast_last_id)
  have rc: "mx_received m c = drop (mx_from m c) xs" using assms t(4) xs unfolding mx_inv_def due_def by auto
  have rd: "mx_received m d = due m d" if "d \<in> set (mx_channels m)" for d
    using assms(1) that unfolding mx_inv_def by blast
  have recv: "mx_received (deliver m v c cs) d = due (deliver m v c cs) d" if "d \<in> set (mx_channels m)" for d
  proof (cases "d = c")
    case True
    then show ?thesis using t(3,5) rc xs by (simp add: deliver_def due_def less_Suc_eq_le)
  next
    case False
    then show ?thesis using rd [OF that] assms(2) by (simp add: deliver_def due_def)
  qed
  have f: "mx_channels (deliver m v c cs) = mx_channels m" "mx_next (deliver m v c cs) = mx_next m"
    "mx_taken (deliver m v c cs) = mx_taken m" "mx_from (deliver m v c cs) = mx_from m"
    "mx_phase (deliver m v c cs) = Sending v cs" by (simp_all add: deliver_def)
  have unused: "mx_received (deliver m v c cs) d = []" if "mx_next m \<le> d" for d
    using assms(1) t(4) that unfolding mx_inv_def by (auto simp: deliver_def)
  show ?thesis
    unfolding mx_inv_def f using recv unused t assms(1) [unfolded mx_inv_def] by auto
qed

lemma mx_inv_register:
  assumes "mx_inv m" and "lock_free m"
  shows "mx_inv (register m)"
  using assms by (auto simp: mx_inv_def register_def due_def lock_free_def split: phase.splits)

lemma mx_inv_remove:
  assumes "mx_inv m" and "lock_free m"
  shows "mx_inv (remove_consumer m c)"
  using assms set_remove1_subset [of c "mx_channels m"]
  by (auto simp: mx_inv_def remove_consumer_def due_def lock_free_def distinct_remove1 split: phase.splits)

lemma mx_inv_step: "mx_step m m' \<Longrightarrow> mx_inv m \<Longrightarrow> mx_inv m'"
proof (induction rule: mx_step.induct)
  case (take m)
  then show ?case by (simp add: mx_inv_take)
next
  case (send m v c cs)
  then show ?case by (simp add: mx_inv_send)
next
  case (fork m)
  then show ?case by (simp add: mx_inv_register)
next
  case (remove m c)
  then show ?case by (simp add: mx_inv_remove)
qed (auto simp: mx_inv_def due_def split: phase.splits)

lemma mx_reachable_inv: "mx_reachable m \<Longrightarrow> mx_inv m"
proof (induction rule: mx_reachable.induct)
  case new
  show ?case by (simp add: mx_inv_def NewMultiplexedChannel_def)
qed (rule mx_inv_step)

section \<open>Properties\<close>

text \<open>
  C23.  Delivery in order and without loss: when the multiplexer is between two values, every
  consumer that is registered has received exactly the values taken from the source since it was
  registered, in that order; during a round the only value it may still lack is the one in flight.
\<close>

theorem multiplex_in_order:
  assumes "mx_reachable m" and "c \<in> set (mx_channels m)"
  shows "(lock_free m \<longrightarrow> mx_received m c = drop (mx_from m c) (mx_taken m))
    \<and> (mx_received m c = drop (mx_from m c) (mx_taken m)
       \<or> mx_received m c = drop (mx_from m c) (butlast (mx_taken m)))"
proof -
  have "mx_received m c = due m c" using mx_reachable_inv [OF assms(1)] assms(2) unfolding mx_inv_def by blast
  then show ?thesis by (auto simp: due_def lock_free_def split: phase.splits if_splits)
qed

lemma mx_steps:
  assumes "mx_reachable m"
  shows "\<not> mx_exited m \<Longrightarrow> mx_reachable (m\<lparr>mx_forking := mx_forking m + 1\<rparr>)"
    and "0 < mx_forking m \<Longrightarrow> lock_free m \<Longrightarrow> mx_reachable (register m)"
    and "\<not> mx_source_closed m \<Longrightarrow> mx_reachable (m\<lparr>mx_source := mx_source m @ [v]\<rparr>)"
  by (rule mx_reachable.step [OF assms mx_step.fork_check] mx_reachable.step [OF assms mx_step.fork]
      mx_reachable.step [OF assms mx_step.produce], assumption+)+

lemma one_consumer: "\<exists>m :: 'v MultiplexedChannel. mx_reachable m \<and> mx_channels m = [0] \<and> mx_phase m = Running
    \<and> \<not> mx_source_closed m \<and> mx_source m = [] \<and> mx_taken m = [] \<and> mx_from m 0 = 0
    \<and> mx_abandoned m = {} \<and> mx_forking m = 0 \<and> mx_next m = 1 \<and> \<not> mx_exited m \<and> mx_closed m = {}"
proof -
  let ?m = "register (NewMultiplexedChannel\<lparr>mx_forking := 1\<rparr> :: 'v MultiplexedChannel)"
  have "mx_reachable (NewMultiplexedChannel\<lparr>mx_forking := 1\<rparr> :: 'v MultiplexedChannel)"
    using mx_steps(1) [OF mx_reachable.new] by (simp add: NewMultiplexedChannel_def)
  from mx_steps(2) [OF this] have "mx_reachable ?m" by (simp add: lock_free_def NewMultiplexedChannel_def)
  then show ?thesis by (intro exI [of _ ?m]) (simp add: register_def NewMultiplexedChannel_def)
qed

theorem multiplex_in_order_witness:
  "\<exists>m :: nat MultiplexedChannel. mx_reachable m \<and> mx_channels m = [0] \<and> mx_received m 0 = [7]"
proof -
  obtain m :: "nat MultiplexedChannel" where m: "mx_reachable m" "mx_channels m = [0]" "mx_phase m = Running"
    "\<not> mx_source_closed m" "mx_source m = []" "mx_taken m = []" "mx_from m 0 = 0" "mx_abandoned m = {}"
    using one_consumer by blast
  let ?m1 = "m\<lparr>mx_source := [7]\<rparr>"
  have "mx_reachable ?m1" using mx_steps(3) [OF m(1,4), of 7] m(5) by simp
  from mx_reachable.step [OF this mx_step.take] m(3) have "mx_reachable (take_value ?m1)" by simp
  from mx_reachable.step [OF this mx_step.send [of _ 7 0 "[]"]] m(2,8)
  have "mx_reachable (deliver (take_value ?m1) 7 0 [])" by (simp add: take_value_def)
  from mx_reachable.step [OF this mx_step.sent [of _ 7]]
  have r: "mx_reachable ((deliver (take_value ?m1) 7 0 [])\<lparr>mx_phase := Running\<rparr>)" by (simp add: deliver_def)
  have "mx_received ((deliver (take_value ?m1) 7 0 [])\<lparr>mx_phase := Running\<rparr>) 0 = [7]"
    using multiplex_in_order [OF r, of 0] m(2,6,7) by (simp add: lock_free_def deliver_def take_value_def)
  with r m(2) show ?thesis
    by (intro exI [of _ "(deliver (take_value ?m1) 7 0 [])\<lparr>mx_phase := Running\<rparr>"]) (simp add: deliver_def take_value_def)
qed

definition blocked :: "'v MultiplexedChannel \<Rightarrow> bool" where
  "blocked m \<longleftrightarrow> (\<exists>v c cs. mx_phase m = Sending v (c # cs) \<and> c \<in> mx_abandoned m)"

lemma blocked_step:
  "mx_step m m' \<Longrightarrow> blocked m \<Longrightarrow>
     blocked m' \<and> mx_channels m' = mx_channels m \<and> mx_received m' = mx_received m \<and> mx_phase m' = mx_phase m"
  by (induction rule: mx_step.induct) (auto simp: blocked_def lock_free_def)

text \<open>
  An abandoned consumer blocks the multiplexer for good: the goroutine waits for the
  rendezvous while it holds the read lock, the cancel function of the consumer (\<open>remove\<close>) waits
  for the write lock, and no step of anyone ends this.  No further value reaches any consumer,
  and no consumer is ever registered or removed.
\<close>

lemma multiplex_blocked_forever:
  assumes "mx_step\<^sup>*\<^sup>* m m'" and "blocked m"
  shows "blocked m' \<and> mx_channels m' = mx_channels m \<and> mx_received m' = mx_received m
    \<and> \<not> (\<exists>m''. mx_step m' m'' \<and> mx_channels m'' \<noteq> mx_channels m')"
  using assms
proof (induction rule: rtranclp_induct)
  case base
  then show ?case using blocked_step by metis
next
  case (step y z)
  then show ?case using blocked_step by metis
qed

text \<open>A finished channel serves nobody any more.\<close>

lemma finished_step:
  "mx_step m m' \<Longrightarrow> mx_phase m = Finished \<Longrightarrow>
     mx_phase m' = Finished \<and> mx_closed m' = mx_closed m \<and> mx_received m' = mx_received m"
  by (induction rule: mx_step.induct) (auto simp: register_def remove_consumer_def)

lemma finished_forever:
  "mx_step\<^sup>*\<^sup>* m m' \<Longrightarrow> mx_phase m = Finished \<Longrightarrow>
     mx_phase m' = Finished \<and> mx_closed m' = mx_closed m \<and> mx_received m' = mx_received m"
proof (induction rule: rtranclp_induct)
  case (step y z)
  then show ?case using finished_step [OF step.hyps(2)] by simp
qed simp

text \<open>
  \<open>Fork\<close> races with the end of the source: a caller that tested \<open>exited\<close> just before it was
  set registers its consumer after the goroutine has closed the channels it saw.  Such a consumer
  is registered, never closed and never served: a receive from it waits forever.
\<close>

lemma multiplex_fork_race:
  "\<exists>m :: nat MultiplexedChannel. \<exists>c. mx_reachable m \<and> mx_phase m = Finished \<and> c \<in> set (mx_channels m)
    \<and> {m'. mx_step\<^sup>*\<^sup>* m m'} \<subseteq> {m'. mx_phase m' = Finished \<and> c \<notin> mx_closed m' \<and> mx_received m' c = []}"
proof -
  let ?m0 = "NewMultiplexedChannel\<lparr>mx_forking := 1\<rparr> :: nat MultiplexedChannel"
  let ?m1 = "?m0\<lparr>mx_source_closed := True\<rparr>"
  let ?m2 = "?m1\<lparr>mx_exited := True, mx_phase := Closing []\<rparr>"
  let ?e = "?m1\<lparr>mx_exited := True, mx_phase := Exiting\<rparr>"
  let ?m3 = "?m2\<lparr>mx_phase := Finished\<rparr>"
  note d = NewMultiplexedChannel_def
  have "mx_reachable ?m0" using mx_steps(1) [OF mx_reachable.new] by (simp add: d)
  from mx_reachable.step [OF this mx_step.close_source] have "mx_reachable ?m1" by (simp add: d)
  from mx_reachable.step [OF this mx_step.exit] have "mx_reachable ?e" by (simp add: d)
  from mx_reachable.step [OF this mx_step.snapshot] have "mx_reachable ?m2" by (simp add: d)
  from mx_reachable.step [OF this mx_step.finish] have "mx_reachable ?m3" by (simp add: d)
  from mx_reachable.step [OF this mx_step.fork] have r: "mx_reachable (register ?m3)" by (simp add: d lock_free_def)
  show ?thesis
    using r finished_forever [of "register ?m3"]
    by (intro exI [of _ "register ?m3"] exI [of _ 0]) (auto simp: register_def d)
qed

end
