(* ===== verification/Process_Handler.thy ===== *)
theory Process_Handler
  imports Filesystem_Entries Agent_Cgroups Process_Multiplex
begin

text \<open>
  The handler of one process (\<open>internal/services/process/handler/handler.go\<close>): how the command
  is built from a request, and the operations on a running process.  The operating system and
  the pseudo-terminal library are the fields of \<open>proc_os\<close>; the cgroup manager is an interface
  value, \<open>None\<close> if it is nil.
\<close>

section \<open>Data\<close>

record ProcessConfig =
  pc_Cmd :: string
  pc_Args :: "string list"
  pc_Envs :: "(string \<times> string) list"
  pc_Cwd :: string

text \<open>The size of a terminal: columns and rows.\<close>

record StartRequest =
  sr_Process :: ProcessConfig
  sr_Tag :: "string option"
  sr_Pty :: "(u32 \<times> u32) option"
  sr_Stdin :: "bool option"

record SysProcAttr =
  sp_UseCgroupFD :: bool
  sp_CgroupFD :: int
  sp_Uid :: u32
  sp_Gid :: u32
  sp_Groups :: "u32 list"
  sp_Chroot :: string

record Cmd =
  c_Path :: string
  c_Args :: "string list"
  c_SysProcAttr :: SysProcAttr
  c_Dir :: string
  c_Env :: "string list"
  c_Process :: "int option"

record EndEvent =
  ee_Error :: "string option"
  ee_ExitCode :: "32 word"
  ee_Exited :: bool
  ee_Status :: string

text \<open>\<open>h_tty\<close> and \<open>h_stdin\<close> say whether the pointers are set, \<open>h_outDone\<close> and \<open>h_cancelled\<close> whether
  the output context and the context of the process are cancelled; \<open>h_EndEvent\<close> are the events sent
  to the source of the multiplexed end channel.\<close>

record Handler =
  h_Config :: ProcessConfig
  h_Tag :: "string option"
  h_cmd :: Cmd
  h_tty :: bool
  h_stdin :: bool
  h_outDone :: bool
  h_EndEvent :: "EndEvent list"
  h_cancelled :: bool

text \<open>What waiting for the process gives: the error of \<open>cmd.Wait\<close> and the process state.\<close>

record WaitStatus =
  ws_err :: "string option"
  ws_ExitCode :: int
  ws_Exited :: bool
  ws_String :: string

datatype handler_error =
    NotStarted | TtyNotAssigned | TtyAssigned | StdinClosed | WriteFailed | CloseFailed | SignalFailed
  | ResizeFailed | StartFailed

record 'w proc_os =
  ps_Getpriority :: "int option"
  ps_GroupIds :: "User \<Rightarrow> string list option"
  ps_Getenv :: "string \<Rightarrow> string"
  ps_EvalSymlinks :: "'w \<Rightarrow> string \<Rightarrow> string option"
  ps_StatMissing :: "'w \<Rightarrow> string \<Rightarrow> bool"
  ps_StartPty :: "Cmd \<Rightarrow> u16 \<Rightarrow> u16 \<Rightarrow> (unit, int, 'w) io"
  ps_StdoutPipe :: "Cmd \<Rightarrow> (unit, unit, 'w) io"
  ps_StderrPipe :: "Cmd \<Rightarrow> (unit, unit, 'w) io"
  ps_StdinPipe :: "Cmd \<Rightarrow> (unit, unit, 'w) io"
  ps_StartCmd :: "Cmd \<Rightarrow> (unit, int, 'w) io"
  ps_Signal :: "int \<Rightarrow> int \<Rightarrow> (unit, unit, 'w) io"
  ps_WriteStdin :: "int option \<Rightarrow> byte list \<Rightarrow> (unit, unit, 'w) io"
  ps_CloseStdin :: "int option \<Rightarrow> (unit, unit, 'w) io"
  ps_WriteTty :: "int option \<Rightarrow> byte list \<Rightarrow> (unit, unit, 'w) io"
  ps_Setsize :: "int option \<Rightarrow> u16 \<Rightarrow> u16 \<Rightarrow> (unit, unit, 'w) io"
  ps_Wait :: "int option \<Rightarrow> 'w \<Rightarrow> WaitStatus \<times> 'w"
  ps_CloseTty :: "int option \<Rightarrow> (unit, unit, 'w) io"

section \<open>Building the command\<close>

definition defaultNice :: int where "defaultNice = 0"
definition defaultOomScore :: int where "defaultOomScore = 100"
definition stdChunkSize :: nat where "stdChunkSize = push_bit 14 2"
definition ptyChunkSize :: nat where "ptyChunkSize = push_bit 13 2"

definition currentNice :: "'w proc_os \<Rightarrow> int" where
  "currentNice os = (case ps_Getpriority os of None \<Rightarrow> 0 | Some prio \<Rightarrow> 20 - prio)"

definition userCommand :: "ProcessConfig \<Rightarrow> string" where
  "userCommand config = join_with '' '' (pc_Cmd config # pc_Args config)"

definition oomWrapperScript :: "int \<Rightarrow> string" where
  "oomWrapperScript niceDelta =
     ''echo '' @ Itoa defaultOomScore @ '' > /proc/$$/oom_score_adj && exec /usr/bin/nice -n '' @ Itoa niceDelta
     @ '' '' @ [CHR 0x22] @ ''${@}'' @ [CHR 0x22]"

definition getProcType :: "StartRequest \<Rightarrow> ProcessType" where
  "getProcType req = (if sr_Pty req \<noteq> None then ProcessTypePTY else ProcessTypeUser)"

definition ParseUint32 :: "string \<Rightarrow> int option" where
  "ParseUint32 s = (case decimal s of None \<Rightarrow> None | Some v \<Rightarrow> if v < 2 ^ 32 then Some v else None)"

definition supplementary :: "'w proc_os \<Rightarrow> User \<Rightarrow> u32 \<Rightarrow> u32 list" where
  "supplementary os user gid =
     gid # (case ps_GroupIds os user of
              None \<Rightarrow> []
            | Some gids \<Rightarrow> List.map_filter (\<lambda>g. map_option word_of_int (ParseUint32 g)) gids)"

text \<open>The defaults' variables are visited in the order \<open>envOrder\<close>, the request's in list order.\<close>

definition env_entry :: "string \<times> string \<Rightarrow> string" where
  "env_entry kv = fst kv @ ''='' @ snd kv"

definition formattedVars :: "'w proc_os \<Rightarrow> User \<Rightarrow> Defaults \<Rightarrow> string list \<Rightarrow> StartRequest \<Rightarrow> string list" where
  "formattedVars os user defaults envOrder req =
     map env_entry [(''PATH'', ps_Getenv os ''PATH''), (''HOME'', u_HomeDir user),
                    (''USER'', u_Username user), (''LOGNAME'', u_Username user)]
     @ Map_Range (df_EnvVars defaults) envOrder (\<lambda>k v vars. (True, vars @ [env_entry (k, v)])) []
     @ map env_entry (pc_Envs (sr_Process req))"

definition buildCmd ::
  "'w proc_os \<Rightarrow> (ProcessType \<Rightarrow> int \<times> bool) option \<Rightarrow> Defaults \<Rightarrow> string list \<Rightarrow> User \<Rightarrow> StartRequest
     \<Rightarrow> 'w \<Rightarrow> (rpc_error, Cmd) outcome" where
  "buildCmd os cgroupManager defaults envOrder user req w =
     and_then (map_err (\<lambda>_. Rpc CodeInternal) (GetUserIdUints user)) (\<lambda>(uid, gid).
       case cgroupManager of
         None \<Rightarrow> Panic
       | Some getFileDescriptor \<Rightarrow>
           let (cgroupFD, ok) = getFileDescriptor (getProcType req)
           in and_then (ExpandAndResolve (ps_EvalSymlinks os w) (pc_Cwd (sr_Process req)) user (df_Workdir defaults))
                (\<lambda>resolvedPath.
                  if ps_StatMissing os w resolvedPath then Err (Rpc CodeInvalidArgument)
                  else Ok \<lparr>c_Path = ''/bin/sh'',
                           c_Args = [''-c'', oomWrapperScript (defaultNice - currentNice os), ''--'',
                                     pc_Cmd (sr_Process req)] @ pc_Args (sr_Process req),
                           c_SysProcAttr = \<lparr>sp_UseCgroupFD = ok, sp_CgroupFD = cgroupFD, sp_Uid = uid, sp_Gid = gid,
                                            sp_Groups = supplementary os user gid,
                                            sp_Chroot = (if df_UseOverlay defaults then ''/aether'' else [])\<rparr>,
                           c_Dir = resolvedPath,
                           c_Env = formattedVars os user defaults envOrder req,
                           c_Process = None\<rparr>))"

definition newHandler :: "StartRequest \<Rightarrow> Cmd \<Rightarrow> Handler" where
  "newHandler req cmd =
     \<lparr>h_Config = sr_Process req, h_Tag = sr_Tag req, h_cmd = cmd, h_tty = False, h_stdin = False, h_outDone = False,
      h_EndEvent = [], h_cancelled = False\<rparr>"

definition Handler_New ::
  "'w proc_os \<Rightarrow> (ProcessType \<Rightarrow> int \<times> bool) option \<Rightarrow> Defaults \<Rightarrow> string list \<Rightarrow> User \<Rightarrow> StartRequest
     \<Rightarrow> (rpc_error, Handler, 'w) io" where
  "Handler_New os cgroupManager defaults envOrder user req =
     io_then (io_read (buildCmd os cgroupManager defaults envOrder user req)) (\<lambda>cmd.
       let h = newHandler req cmd
       in case sr_Pty req of
            Some (cols, rows) \<Rightarrow>
              io_then (io_map_err (\<lambda>_. Rpc CodeInvalidArgument) (ps_StartPty os cmd (ucast cols) (ucast rows))) (\<lambda>pid.
                io_return (h\<lparr>h_tty := True, h_cmd := cmd\<lparr>c_Process := Some pid\<rparr>\<rparr>))
          | None \<Rightarrow>
              io_then (io_map_err (\<lambda>_. Rpc CodeInternal) (ps_StdoutPipe os cmd)) (\<lambda>_.
              io_then (io_map_err (\<lambda>_. Rpc CodeInternal) (ps_StderrPipe os cmd)) (\<lambda>_.
              if sr_Stdin req = None \<or> sr_Stdin req = Some True
              then io_then (io_map_err (\<lambda>_. Rpc CodeInternal) (ps_StdinPipe os cmd)) (\<lambda>_. io_return (h\<lparr>h_stdin := True\<rparr>))
              else io_return h)))"

section \<open>Output\<close>

text \<open>
  The reading loops of the terminal and of the two pipes: each read gives some bytes and possibly
  an error or the end of the file, which ends the loop; every non-empty read is one data event.
\<close>

fun pump :: "(byte list \<times> bool) list \<Rightarrow> byte list list" where
  "pump [] = []"
| "pump ((buf, ended) # reads) = (if buf \<noteq> [] then [buf] else []) @ (if ended then [] else pump reads)"

section \<open>Operations\<close>

type_synonym ('w) handler_op = "Handler \<Rightarrow> 'w \<Rightarrow> (handler_error, unit) outcome \<times> Handler \<times> 'w"

definition run_os :: "handler_error \<Rightarrow> (unit, unit, 'w) io \<Rightarrow> Handler \<Rightarrow> 'w \<Rightarrow> (handler_error, unit) outcome \<times> Handler \<times> 'w" where
  "run_os e c p w = (case c w of (r, w') \<Rightarrow> (map_err (\<lambda>_. e) r, p, w'))"

definition SIGKILL :: int where "SIGKILL = 9"
definition SIGTERM :: int where "SIGTERM = 15"

definition Handler_SendSignal :: "'w proc_os \<Rightarrow> int \<Rightarrow> 'w handler_op" where
  "Handler_SendSignal os signal p w =
     (case c_Process (h_cmd p) of
        None \<Rightarrow> (Err NotStarted, p, w)
      | Some pid \<Rightarrow>
          run_os SignalFailed (ps_Signal os pid signal)
            (if signal = SIGKILL \<or> signal = SIGTERM then p\<lparr>h_outDone := True\<rparr> else p) w)"

definition ResizeTty :: "'w proc_os \<Rightarrow> u16 \<Rightarrow> u16 \<Rightarrow> 'w handler_op" where
  "ResizeTty os cols rows p w =
     (if \<not> h_tty p then (Err TtyNotAssigned, p, w)
      else run_os ResizeFailed (ps_Setsize os (c_Process (h_cmd p)) cols rows) p w)"

definition WriteStdin :: "'w proc_os \<Rightarrow> byte list \<Rightarrow> 'w handler_op" where
  "WriteStdin os data p w =
     (if h_tty p then (Err TtyAssigned, p, w)
      else if \<not> h_stdin p then (Err StdinClosed, p, w)
      else run_os WriteFailed (ps_WriteStdin os (c_Process (h_cmd p)) data) p w)"

definition Handler_CloseStdin :: "'w proc_os \<Rightarrow> 'w handler_op" where
  "Handler_CloseStdin os p w =
     (if h_tty p then (Err TtyAssigned, p, w)
      else if \<not> h_stdin p then (Ok (), p, w)
      else run_os CloseFailed (ps_CloseStdin os (c_Process (h_cmd p))) (p\<lparr>h_stdin := False\<rparr>) w)"

definition WriteTty :: "'w proc_os \<Rightarrow> byte list \<Rightarrow> 'w handler_op" where
  "WriteTty os data p w =
     (if \<not> h_tty p then (Err TtyNotAssigned, p, w)
      else run_os WriteFailed (ps_WriteTty os (c_Process (h_cmd p)) data) p w)"

text \<open>\<open>Start\<close>: with a terminal the process runs already; the pid is converted to \<open>uint32\<close>.\<close>

definition Handler_Start :: "'w proc_os \<Rightarrow> Handler \<Rightarrow> (handler_error, u32 \<times> Handler, 'w) io" where
  "Handler_Start os p =
     (if \<not> h_tty p
      then io_then (io_map_err (\<lambda>_. StartFailed) (ps_StartCmd os (h_cmd p))) (\<lambda>pid.
             io_return (word_of_int pid, p\<lparr>h_cmd := (h_cmd p)\<lparr>c_Process := Some pid\<rparr>\<rparr>))
      else case c_Process (h_cmd p) of
             None \<Rightarrow> (\<lambda>w. (Panic, w))
           | Some pid \<Rightarrow> io_return (word_of_int pid, p))"

text \<open>
  \<open>Wait\<close> blocks until the output is done (\<open>None\<close>: still blocked); then it waits for the process,
  closes the terminal (on a nil file \<open>Close\<close> only returns an error), publishes the end event and
  cancels the context of the process.
\<close>

definition Handler_Wait :: "'w proc_os \<Rightarrow> Handler \<Rightarrow> 'w \<Rightarrow> (Handler \<times> 'w) option" where
  "Handler_Wait os p w =
     (if \<not> h_outDone p then None
      else let (st, w1) = ps_Wait os (c_Process (h_cmd p)) w;
               w2 = (if h_tty p then snd (ps_CloseTty os (c_Process (h_cmd p)) w1) else w1);
               endEvent = \<lparr>ee_Error = ws_err st, ee_ExitCode = word_of_int (ws_ExitCode st),
                           ee_Exited = ws_Exited st, ee_Status = ws_String st\<rparr>
           in Some (p\<lparr>h_EndEvent := h_EndEvent p @ [endEvent], h_cancelled := True\<rparr>, w2))"

text \<open>\<open>Pid\<close> of a process that has not been started dereferences nil.\<close>

definition Pid :: "Handler \<Rightarrow> ('e, u32) outcome" where
  "Pid p = (case c_Process (h_cmd p) of None \<Rightarrow> Panic | Some pid \<Rightarrow> Ok (word_of_int pid))"

section \<open>The environment of a process\<close>

text \<open>The value the process sees: the last entry for a key wins.\<close>

definition env_lookup :: "string list \<Rightarrow> string \<Rightarrow> string option" where
  "env_lookup env k = map_option (drop (length k + 1)) (find (\<lambda>s. HasPrefix s (k @ ''='')) (rev env))"

abbreviation plain_key :: "string \<Rightarrow> bool" where "plain_key k \<equiv> CHR ''='' \<notin> set k"

lemma env_entry_prefix:
  "plain_key k \<Longrightarrow> plain_key j \<Longrightarrow> HasPrefix (env_entry (j, v)) (k @ ''='') \<longleftrightarrow> j = k"
proof (induction k arbitrary: j)
  case Nil
  then show ?case by (cases j) (auto simp: env_entry_def HasPrefix_def)
next
  case (Cons c k)
  then show ?case by (cases j) (auto simp: env_entry_def HasPrefix_def)
qed

lemma find_append: "find P (xs @ ys) = (case find P xs of None \<Rightarrow> find P ys | r \<Rightarrow> r)"
  by (induction xs) auto

lemma env_lookup_append:
  "env_lookup (a @ b) k = (case env_lookup b k of None \<Rightarrow> env_lookup a k | r \<Rightarrow> r)"
  by (simp add: env_lookup_def find_append split: option.splits)

lemma env_lookup_entries:
  "plain_key k \<Longrightarrow> \<forall>kv \<in> set kvs. plain_key (fst kv) \<Longrightarrow> env_lookup (map env_entry kvs) k = map_of (rev kvs) k"
proof (induction kvs rule: rev_induct)
  case (snoc kv kvs)
  obtain j v where kv: "kv = (j, v)" by fastforce
  have "env_lookup (map env_entry [kv]) k = map_of [kv] k"
    using env_entry_prefix [of k j v] snoc.prems kv by (simp add: env_lookup_def) (simp add: env_entry_def)
  then show ?case using snoc kv by (auto simp: env_lookup_append)
qed (simp add: env_lookup_def)

lemma Map_Range_entries:
  "Map_Range m order (\<lambda>k v vars. (True, vars @ [env_entry (k, v)])) acc =
     acc @ map env_entry (List.map_filter (\<lambda>k. map_option (Pair k) (m k)) order)"
  by (induction order arbitrary: acc) (auto simp: List.map_filter_def split: option.splits)

lemma map_of_visited:
  assumes "distinct order" and "set order = dom m"
  shows "map_of (rev (List.map_filter (\<lambda>k. map_option (Pair k) (m k)) order)) j = m j"
proof -
  let ?kvs = "List.map_filter (\<lambda>k. map_option (Pair k) (m k)) order"
  have e: "map_of ?kvs j = (if j \<in> set order then m j else None)" for j
    by (induction order) (auto simp: List.map_filter_def split: option.splits)
  have f: "map fst ?kvs = filter (\<lambda>k. m k \<noteq> None) order"
    by (induction order) (auto simp: List.map_filter_def)
  have "distinct (map fst ?kvs)" unfolding f using assms(1) by simp
  then have "map_of (rev ?kvs) = map_of ?kvs" 
    using map_of_inject_set [of "rev ?kvs" ?kvs] by (simp add: rev_map [symmetric])
  with e assms(2) show ?thesis by (cases "m j") auto
qed

section \<open>Properties\<close>

text \<open>
  The command of a request: the shell wrapper followed by the user's command and arguments
  unchanged, the credentials of the user with its primary group first, the overlay as root exactly
  if it is mounted, and an environment in which the request's variables override the defaults of
  the agent, and those override \<open>PATH\<close>, \<open>HOME\<close>, \<open>USER\<close> and \<open>LOGNAME\<close>.
\<close>

lemma command_of_request:
  assumes "buildCmd os (Some getFD) defaults envOrder user req w = Ok cmd"
    and "distinct envOrder" and "set envOrder = dom (df_EnvVars defaults)"
    and "\<forall>k \<in> dom (df_EnvVars defaults). plain_key k" and "\<forall>kv \<in> set (pc_Envs (sr_Process req)). plain_key (fst kv)"
    and "plain_key k"
  shows "drop 3 (c_Args cmd) = pc_Cmd (sr_Process req) # pc_Args (sr_Process req)
    \<and> (\<exists>uid gid. GetUserIdUints user = Ok (uid, gid) \<and> sp_Uid (c_SysProcAttr cmd) = uid
         \<and> sp_Gid (c_SysProcAttr cmd) = gid \<and> hd (sp_Groups (c_SysProcAttr cmd)) = gid)
    \<and> (sp_Chroot (c_SysProcAttr cmd) = ''/aether'' \<longleftrightarrow> df_UseOverlay defaults)
    \<and> (sp_CgroupFD (c_SysProcAttr cmd), sp_UseCgroupFD (c_SysProcAttr cmd)) = getFD (getProcType req)
    \<and> env_lookup (c_Env cmd) k =
        (case map_of (rev (pc_Envs (sr_Process req))) k of
           Some v \<Rightarrow> Some v
         | None \<Rightarrow>
             (case df_EnvVars defaults k of
                Some v \<Rightarrow> Some v
              | None \<Rightarrow> map_of [(''PATH'', ps_Getenv os ''PATH''), (''HOME'', u_HomeDir user),
                                (''USER'', u_Username user), (''LOGNAME'', u_Username user)] k))"
proof -
  let ?base = "[(''PATH'', ps_Getenv os ''PATH''), (''HOME'', u_HomeDir user),
      (''USER'', u_Username user), (''LOGNAME'', u_Username user)]"
  let ?visited = "List.map_filter (\<lambda>k. map_option (Pair k) (df_EnvVars defaults k)) envOrder"
  obtain uid gid fd ok dir where b: "GetUserIdUints user = Ok (uid, gid)" "getFD (getProcType req) = (fd, ok)"
    "cmd = \<lparr>c_Path = ''/bin/sh'',
        c_Args = [''-c'', oomWrapperScript (defaultNice - currentNice os), ''--'', pc_Cmd (sr_Process req)] @ pc_Args (sr_Process req),
        c_SysProcAttr = \<lparr>sp_UseCgroupFD = ok, sp_CgroupFD = fd, sp_Uid = uid, sp_Gid = gid,
          sp_Groups = supplementary os user gid, sp_Chroot = (if df_UseOverlay defaults then ''/aether'' else [])\<rparr>,
        c_Dir = dir, c_Env = formattedVars os user defaults envOrder req, c_Process = None\<rparr>"
    using assms(1) by (cases "GetUserIdUints user"; cases "getFD (getProcType req)")
      (auto simp: buildCmd_def and_then_Ok_iff split: if_splits)
  have v: "\<forall>kv \<in> set ?visited. plain_key (fst kv)"
    using assms(3,4) by (auto simp: List.map_filter_def)
  have base: "map_of (rev ?base) k = map_of ?base k" by auto
  define B where "B = map_of ?base k"
  have e1: "env_lookup (map env_entry ?base) k = B"
    using env_lookup_entries [OF assms(6), of ?base] base by (simp add: B_def)
  have e2: "env_lookup (map env_entry ?visited) k = df_EnvVars defaults k"
    using env_lookup_entries [OF assms(6) v] map_of_visited [OF assms(2,3)] by simp
  have "env_lookup (formattedVars os user defaults envOrder req) k =
      (case map_of (rev (pc_Envs (sr_Process req))) k of Some v \<Rightarrow> Some v
       | None \<Rightarrow> (case df_EnvVars defaults k of Some v \<Rightarrow> Some v | None \<Rightarrow> B))"
    unfolding formattedVars_def Map_Range_entries append_Nil env_lookup_append e1 e2 env_lookup_entries [OF assms(6,5)]
    by (simp split: option.splits)
  then show ?thesis using b unfolding B_def [symmetric] by (simp add: supplementary_def)
qed

text \<open>
  A nil cgroup manager: building the command of any request of a user with numeric ids calls
  a method of the manager, so it panics; and \<open>main\<close> passes a nil manager.
\<close>

lemma nil_manager_panics:
  assumes "GetUserIdUints user = Ok ids"
  shows "fst (Handler_New os None defaults envOrder user req w) = Panic"
  using assms by (cases ids) (simp add: Handler_New_def io_then_def buildCmd_def)

definition example_user :: User where
  "example_user = \<lparr>u_Uid = ''0'', u_Gid = ''0'', u_Username = ''root'', u_HomeDir = ''/root''\<rparr>"

definition example_req :: StartRequest where
  "example_req = \<lparr>sr_Process = \<lparr>pc_Cmd = ''ls'', pc_Args = [''-l''], pc_Envs = [(''HOME'', ''/h'')], pc_Cwd = ''/''\<rparr>,
     sr_Tag = None, sr_Pty = None, sr_Stdin = None\<rparr>"

definition example_proc_os :: "unit proc_os" where
  "example_proc_os = \<lparr>ps_Getpriority = Some 20, ps_GroupIds = (\<lambda>_. Some [''0'', ''x'']), ps_Getenv = (\<lambda>_. ''/bin''),
     ps_EvalSymlinks = (\<lambda>_ p. Some p), ps_StatMissing = (\<lambda>_ _. False),
     ps_StartPty = (\<lambda>_ _ _. io_return 7), ps_StdoutPipe = (\<lambda>_. io_return ()), ps_StderrPipe = (\<lambda>_. io_return ()),
     ps_StdinPipe = (\<lambda>_. io_return ()), ps_StartCmd = (\<lambda>_. io_return 7), ps_Signal = (\<lambda>_ _. io_return ()),
     ps_WriteStdin = (\<lambda>_ _. io_return ()), ps_CloseStdin = (\<lambda>_. io_return ()), ps_WriteTty = (\<lambda>_ _. io_return ()),
     ps_Setsize = (\<lambda>_ _ _. io_return ()),
     ps_Wait = (\<lambda>_ w. (\<lparr>ws_err = None, ws_ExitCode = 0, ws_Exited = True, ws_String = ''exit status 0''\<rparr>, w)),
     ps_CloseTty = (\<lambda>_. io_return ())\<rparr>"

lemma example_proc_os_calls [simp]:
  "ps_StdoutPipe example_proc_os cmd = io_return ()" "ps_StderrPipe example_proc_os cmd = io_return ()"
  "ps_StdinPipe example_proc_os cmd = io_return ()" "ps_StartCmd example_proc_os cmd = io_return 7"
  by (simp_all add: example_proc_os_def)

definition example_defs :: Defaults where
  "example_defs = \<lparr>df_EnvVars = NewMap, df_User = ''root'', df_Workdir = None, df_UseOverlay = True\<rparr>"

lemma example_user_ids: "GetUserIdUints example_user = Ok (0, 0)"
  by (simp add: GetUserIdUints_def GetUserIdInts_def example_user_def Atoi_def decimal_def)

lemma example_command:
  "\<exists>cmd. buildCmd example_proc_os (Some (Noop_GetFileDescriptor ())) example_defs [] example_user example_req () = Ok cmd"
  by (simp add: buildCmd_def example_user_ids Noop_GetFileDescriptor_def ExpandAndResolve_def example_proc_os_def example_req_def)

text \<open>Sequences of operations on a handler; \<open>handler_ops\<close> are the operations the service has.\<close>

definition handler_ops :: "'w proc_os \<Rightarrow> 'w handler_op set" where
  "handler_ops os = range (Handler_SendSignal os) \<union> range (\<lambda>(c, r). ResizeTty os c r) \<union> range (WriteStdin os)
     \<union> {Handler_CloseStdin os} \<union> range (WriteTty os)"

fun run_ops :: "'w handler_op list \<Rightarrow> Handler \<Rightarrow> 'w \<Rightarrow> Handler \<times> 'w" where
  "run_ops [] p w = (p, w)"
| "run_ops (f # fs) p w = (case f p w of (_, p', w') \<Rightarrow> run_ops fs p' w')"

lemma handler_op_keeps:
  assumes "f \<in> handler_ops os" and "f p w = (r, p', w')"
  shows "h_tty p' = h_tty p \<and> (\<not> h_stdin p \<longrightarrow> \<not> h_stdin p') \<and> (h_outDone p \<longrightarrow> h_outDone p')
    \<and> c_Process (h_cmd p') = c_Process (h_cmd p)"
  using assms unfolding handler_ops_def
  by (auto simp: Handler_SendSignal_def ResizeTty_def WriteStdin_def Handler_CloseStdin_def WriteTty_def run_os_def
      split: if_splits option.splits prod.splits)

lemma run_ops_keeps:
  "set fs \<subseteq> handler_ops os \<Longrightarrow> run_ops fs p w = (p', w') \<Longrightarrow>
     h_tty p' = h_tty p \<and> (\<not> h_stdin p \<longrightarrow> \<not> h_stdin p') \<and> (h_outDone p \<longrightarrow> h_outDone p')"
proof (induction fs arbitrary: p w)
  case (Cons f fs)
  obtain r p1 w1 where f: "f p w = (r, p1, w1)" by (metis prod_cases3)
  then show ?case using Cons handler_op_keeps [of f os p w r p1 w1] by auto
qed simp

text \<open>
  Closing the standard input is final: after \<open>CloseStdin\<close> on a process without a terminal,
  even one that returned an error, whatever operations follow, a write is refused and never
  reaches the operating system, and closing again succeeds without a system call.
\<close>

lemma stdin_closed_for_good:
  assumes "\<not> h_tty p" and "Handler_CloseStdin os p w = (r, p1, w1)" and "set fs \<subseteq> handler_ops os"
    and "run_ops fs p1 w1 = (p2, w2)"
  shows "WriteStdin os data p2 w2 = (Err StdinClosed, p2, w2) \<and> Handler_CloseStdin os p2 w2 = (Ok (), p2, w2)"
proof -
  have "\<not> h_tty p1" "\<not> h_stdin p1"
    using assms(1,2) by (auto simp: Handler_CloseStdin_def run_os_def split: if_splits prod.splits)
  with run_ops_keeps [OF assms(3,4)] show ?thesis by (simp add: WriteStdin_def Handler_CloseStdin_def)
qed

end
