(* ===== verification/Process_Service.thy ===== *)
theory Process_Service
  imports Process_Handler "HOL-Library.Sublist"
begin

text \<open>
  The process service (\<open>internal/services/process\<close>): the table of running processes, the
  requests that act on one of them, and the streams that follow a process.  The table maps a
  pid to a pointer to its handler; the handlers live in a heap, since a stream keeps its pointer
  after the process has left the table.  The world of a request is the table, the heap and the
  operating system.  A request context carries the operation id if the wrapper of the RPC set it
  (\<open>internal/logs/logs.go\<close>: streams do, unary requests do not).
\<close>

section \<open>The table of processes\<close>

type_synonym handler_ref = nat

record 'w proc_world =
  pw_processes :: "(u32, handler_ref) Map"
  pw_heap :: "handler_ref \<rightharpoonup> Handler"
  pw_next :: handler_ref
  pw_os :: 'w

datatype ProcessSelector = SelectPid u32 | SelectTag string | SelectNothing

definition newService :: "'w \<Rightarrow> 'w proc_world" where
  "newService w = \<lparr>pw_processes = NewMap, pw_heap = Map.empty, pw_next = 0, pw_os = w\<rparr>"

text \<open>The callback of the tag search; it returns whether the iteration goes on.\<close>

definition tag_visit ::
  "(handler_ref \<rightharpoonup> Handler) \<Rightarrow> string \<Rightarrow> u32 \<Rightarrow> handler_ref \<Rightarrow> handler_ref option \<Rightarrow> bool \<times> handler_ref option" where
  "tag_visit heap tag pid value proc =
     (case Option.bind (heap value) h_Tag of
        None \<Rightarrow> (True, proc)
      | Some t \<Rightarrow> if t = tag then (True, Some value) else (False, proc))"

text \<open>\<open>order\<close> is the order in which the iteration visits the keys of the table.\<close>

definition getProcess :: "u32 list \<Rightarrow> ProcessSelector \<Rightarrow> 'w proc_world \<Rightarrow> (rpc_error, handler_ref) outcome" where
  "getProcess order selector w =
     (case selector of
        SelectPid pid \<Rightarrow>
          (case Map_Load (pw_processes w) pid of None \<Rightarrow> Err (Rpc CodeNotFound) | Some p \<Rightarrow> Ok p)
      | SelectTag tag \<Rightarrow>
          (case Map_Range (pw_processes w) order (tag_visit (pw_heap w) tag) None of
             None \<Rightarrow> Err (Rpc CodeNotFound) | Some p \<Rightarrow> Ok p)
      | SelectNothing \<Rightarrow> Err (Rpc CodeUnimplemented))"

record ProcessInfo =
  pi_Pid :: u32
  pi_Tag :: "string option"
  pi_Config :: ProcessConfig

definition List_processes :: "u32 list \<Rightarrow> 'w proc_world \<Rightarrow> ProcessInfo list" where
  "List_processes order w =
     Map_Range (pw_processes w) order
       (\<lambda>pid value infos.
          (True, infos @ (case pw_heap w value of
             None \<Rightarrow> []
           | Some h \<Rightarrow> [\<lparr>pi_Pid = pid, pi_Tag = h_Tag h, pi_Config = h_Config h\<rparr>]))) []"

section \<open>Requests on a process\<close>

text \<open>Runs an operation on a handler; the error of the operation becomes an RPC error.\<close>

definition on_process ::
  "code \<Rightarrow> 'w handler_op \<Rightarrow> handler_ref \<Rightarrow> (rpc_error, unit, 'w proc_world) io" where
  "on_process errCode f a w =
     (case pw_heap w a of
        None \<Rightarrow> (Panic, w)
      | Some p \<Rightarrow>
          (case f p (pw_os w) of
             (r, p', os') \<Rightarrow>
               (map_err (\<lambda>_. Rpc errCode) r, w\<lparr>pw_heap := (pw_heap w)(a \<mapsto> p'), pw_os := os'\<rparr>)))"

definition select :: "u32 list \<Rightarrow> ProcessSelector \<Rightarrow> (rpc_error, handler_ref, 'w proc_world) io" where
  "select order selector = io_read (getProcess order selector)"

datatype Signal = SIGNAL_UNSPECIFIED | SIGNAL_SIGTERM | SIGNAL_SIGKILL

definition SendSignal ::
  "'w proc_os \<Rightarrow> u32 list \<Rightarrow> ProcessSelector \<Rightarrow> Signal \<Rightarrow> (rpc_error, unit, 'w proc_world) io" where
  "SendSignal os order selector sig =
     io_then (select order selector) (\<lambda>a.
       case sig of
         SIGNAL_SIGKILL \<Rightarrow> on_process CodeInternal (Handler_SendSignal os SIGKILL) a
       | SIGNAL_SIGTERM \<Rightarrow> on_process CodeInternal (Handler_SendSignal os SIGTERM) a
       | _ \<Rightarrow> io_fail (Rpc CodeUnimplemented))"

definition Update_process ::
  "'w proc_os \<Rightarrow> u32 list \<Rightarrow> ProcessSelector \<Rightarrow> (u32 \<times> u32) option \<Rightarrow> (rpc_error, unit, 'w proc_world) io" where
  "Update_process os order selector sz =
     io_then (select order selector) (\<lambda>a.
       case sz of
         Some (cols, rows) \<Rightarrow> on_process CodeInternal (ResizeTty os (ucast cols) (ucast rows)) a
       | None \<Rightarrow> io_return ())"

datatype ProcessInput = InputPty "byte list" | InputStdin "byte list" | InputNothing

text \<open>A panic of the run-time system.\<close>

definition io_panic :: "('e, 'a, 'w) io" where
  "io_panic w = (Panic, w)"

text \<open>
  The process of an input stream may be unset: using it is a nil dereference.  After a write to
  the standard input the operation id of the context is asserted to be a string, which panics if
  the context has none.
\<close>

definition handleInput ::
  "'w proc_os \<Rightarrow> string option \<Rightarrow> handler_ref option \<Rightarrow> ProcessInput \<Rightarrow> (rpc_error, unit, 'w proc_world) io" where
  "handleInput os operationID process inp =
     (case inp of
        InputPty data \<Rightarrow>
          (case process of None \<Rightarrow> io_panic | Some a \<Rightarrow> on_process CodeInternal (WriteTty os data) a)
      | InputStdin data \<Rightarrow>
          (case process of
             None \<Rightarrow> io_panic
           | Some a \<Rightarrow>
               io_then (on_process CodeInternal (WriteStdin os data) a) (\<lambda>_.
                 case operationID of None \<Rightarrow> io_panic | Some i \<Rightarrow> io_return ()))
      | InputNothing \<Rightarrow> io_fail (Rpc CodeUnimplemented))"

text \<open>\<open>SendInput\<close> is a unary request; its context has the operation id its caller gave it.\<close>

definition SendInput ::
  "'w proc_os \<Rightarrow> string option \<Rightarrow> u32 list \<Rightarrow> ProcessSelector \<Rightarrow> ProcessInput \<Rightarrow> (rpc_error, unit, 'w proc_world) io" where
  "SendInput os operationID order selector inp =
     io_then (select order selector) (\<lambda>a. handleInput os operationID (Some a) inp)"

datatype StreamInputRequest =
    StreamStart ProcessSelector | StreamData ProcessInput | StreamKeepalive | StreamUnknown

text \<open>\<open>streamErr\<close> is whether the stream ends with an error.\<close>

fun streamInputHandler ::
  "'w proc_os \<Rightarrow> string option \<Rightarrow> u32 list \<Rightarrow> bool \<Rightarrow> handler_ref option \<Rightarrow> StreamInputRequest list
     \<Rightarrow> (rpc_error, unit, 'w proc_world) io" where
  "streamInputHandler os operationID order streamErr proc [] =
     (if streamErr then io_fail (Rpc CodeUnknown) else io_return ())"
| "streamInputHandler os operationID order streamErr proc (req # reqs) =
     (case req of
        StreamStart selector \<Rightarrow>
          io_then (select order selector) (\<lambda>a. streamInputHandler os operationID order streamErr (Some a) reqs)
      | StreamData inp \<Rightarrow>
          io_then (handleInput os operationID proc inp) (\<lambda>_. streamInputHandler os operationID order streamErr proc reqs)
      | StreamKeepalive \<Rightarrow> streamInputHandler os operationID order streamErr proc reqs
      | StreamUnknown \<Rightarrow> io_fail (Rpc CodeUnimplemented))"

definition CloseStdin ::
  "'w proc_os \<Rightarrow> u32 list \<Rightarrow> ProcessSelector \<Rightarrow> (rpc_error, unit, 'w proc_world) io" where
  "CloseStdin os order selector =
     io_then (select order selector) (\<lambda>a. on_process CodeUnknown (Handler_CloseStdin os) a)"

text \<open>
  The wrappers of \<open>logs.go\<close>: a stream handler runs in a context with a fresh operation id, a unary
  handler in the context it is given, which has none.
\<close>

definition LogStream :: "string \<Rightarrow> (string option \<Rightarrow> 'h) \<Rightarrow> 'h" where
  "LogStream requestID handler = handler (Some requestID)"

definition LogUnary :: "(string option \<Rightarrow> 'h) \<Rightarrow> 'h" where
  "LogUnary next = next None"

definition StreamInput ::
  "'w proc_os \<Rightarrow> string \<Rightarrow> u32 list \<Rightarrow> bool \<Rightarrow> StreamInputRequest list \<Rightarrow> (rpc_error, unit, 'w proc_world) io" where
  "StreamInput os requestID order streamErr reqs =
     LogStream requestID (\<lambda>i. streamInputHandler os i order streamErr None reqs)"

section \<open>Starting a process\<close>

definition lift_os :: "('e, 'a, 'w) io \<Rightarrow> ('e, 'a, 'w proc_world) io" where
  "lift_os c w = (case c (pw_os w) of (r, os') \<Rightarrow> (r, w\<lparr>pw_os := os'\<rparr>))"

text \<open>The handler of a new process is allocated and stored in the table under its pid.\<close>

definition store_process :: "u32 \<times> Handler \<Rightarrow> (rpc_error, u32 \<times> handler_ref, 'w proc_world) io" where
  "store_process ph w =
     (Ok (fst ph, pw_next w),
      w\<lparr>pw_processes := Map_Store (pw_processes w) (fst ph) (pw_next w),
        pw_heap := (pw_heap w)(pw_next w \<mapsto> snd ph), pw_next := pw_next w + 1\<rparr>)"

datatype start_error = NewError rpc_error | StartError handler_error

definition InitializeStartProcess ::
  "'w proc_os \<Rightarrow> (ProcessType \<Rightarrow> int \<times> bool) option \<Rightarrow> Defaults \<Rightarrow> string list \<Rightarrow> User \<Rightarrow> StartRequest
     \<Rightarrow> (start_error, u32 \<times> handler_ref, 'w proc_world) io" where
  "InitializeStartProcess os cgroupManager defaults envOrder user req =
     io_then (io_map_err NewError (lift_os (Handler_New os cgroupManager defaults envOrder user req))) (\<lambda>proc.
     io_then (io_map_err StartError (lift_os (Handler_Start os proc))) (\<lambda>ph.
     io_map_err NewError (store_process ph)))"

text \<open>
  The goroutine of a process: it waits on its handler, and when that returns it deletes its pid
  from the table.  Other requests may run between the two.
\<close>

definition process_waited :: "'w proc_os \<Rightarrow> handler_ref \<Rightarrow> 'w proc_world \<Rightarrow> 'w proc_world option" where
  "process_waited os a w =
     (case pw_heap w a of
        None \<Rightarrow> None
      | Some p \<Rightarrow>
          (case Handler_Wait os p (pw_os w) of
             None \<Rightarrow> None
           | Some (p', os') \<Rightarrow> Some (w\<lparr>pw_heap := (pw_heap w)(a \<mapsto> p'), pw_os := os'\<rparr>)))"

definition process_ended :: "u32 \<Rightarrow> 'w proc_world \<Rightarrow> 'w proc_world" where
  "process_ended pid w = w\<lparr>pw_processes := Map_Delete (pw_processes w) pid\<rparr>"

text \<open>The timeout header in milliseconds, as a duration in nanoseconds on 64 bits.\<close>

definition determineTimeoutFromHeader :: "string \<Rightarrow> (unit, i64) outcome" where
  "determineTimeoutFromHeader timeoutHeader =
     (if timeoutHeader = [] then Ok 0
      else case Atoi timeoutHeader of
        None \<Rightarrow> Err ()
      | Some timeout \<Rightarrow> Ok (word_of_int timeout * 1000000))"

text \<open>\<open>handleStart\<close> up to the point where the start event is handed to the stream.\<close>

definition handleStart ::
  "'w proc_os \<Rightarrow> (ProcessType \<Rightarrow> int \<times> bool) option \<Rightarrow> Defaults \<Rightarrow> (string \<Rightarrow> User option) \<Rightarrow> string list
     \<Rightarrow> string option \<Rightarrow> string \<Rightarrow> StartRequest \<Rightarrow> (rpc_error, u32 \<times> handler_ref, 'w proc_world) io" where
  "handleStart os cgroupManager defaults lookup envOrder operationID timeoutHeader req =
     (case operationID of
        None \<Rightarrow> io_panic
      | Some i \<Rightarrow>
          io_then (io_read (\<lambda>_. map_err UserError (GetAuthUser lookup (df_User defaults)))) (\<lambda>u.
          io_then (io_read (\<lambda>_. map_err (\<lambda>_. Rpc CodeInvalidArgument) (determineTimeoutFromHeader timeoutHeader))) (\<lambda>_.
          io_then (lift_os (Handler_New os cgroupManager defaults envOrder u req)) (\<lambda>proc.
          io_then (io_map_err (\<lambda>_. Rpc CodeInvalidArgument) (lift_os (Handler_Start os proc))) (\<lambda>ph.
          store_process ph)))))"

section \<open>The stream of a process\<close>

text \<open>
  The goroutine of \<open>handleStart\<close> that feeds the response stream: it waits for the start event,
  then forwards data until the data channel closes, then waits for the end event.  \<open>ok\<close> says
  which sends succeed, given what was sent before.  A signal that the current \<open>select\<close> does not
  listen to is left where it is.  \<open>ss_sent\<close> is what the client got, \<open>ss_sends\<close> the calls of \<open>stream.Send\<close>
  with whether each succeeded.
\<close>

datatype 'd stream_signal =
    SigStart u32 | SigStartClosed | SigContextDone | SigKeepalive | SigData 'd | SigDataClosed
  | SigEnd EndEvent | SigEndClosed

datatype 'd stream_response = RespStart u32 | RespKeepalive | RespData 'd | RespEnd EndEvent

datatype stream_phase = AwaitStart | DataLoop | AwaitEnd | StreamDone | StreamCancelled rpc_error

record 'd stream_state =
  ss_phase :: stream_phase
  ss_sent :: "'d stream_response list"
  ss_sends :: "('d stream_response \<times> bool) list"

definition stream_send ::
  "('d stream_response list \<Rightarrow> 'd stream_response \<Rightarrow> bool) \<Rightarrow> stream_phase \<Rightarrow> 'd stream_response
     \<Rightarrow> 'd stream_state \<Rightarrow> 'd stream_state" where
  "stream_send ok next r st =
     (if ok (ss_sent st) r then st\<lparr>ss_sent := ss_sent st @ [r], ss_sends := ss_sends st @ [(r, True)], ss_phase := next\<rparr>
      else st\<lparr>ss_sends := ss_sends st @ [(r, False)], ss_phase := StreamCancelled (Rpc CodeUnknown)\<rparr>)"

definition stream_turn ::
  "('d stream_response list \<Rightarrow> 'd stream_response \<Rightarrow> bool) \<Rightarrow> 'd stream_state \<Rightarrow> 'd stream_signal \<Rightarrow> 'd stream_state" where
  "stream_turn ok st sig =
     (case ss_phase st of
        AwaitStart \<Rightarrow>
          (case sig of
             SigContextDone \<Rightarrow> st\<lparr>ss_phase := StreamCancelled CtxDone\<rparr>
           | SigStartClosed \<Rightarrow> st\<lparr>ss_phase := StreamCancelled (Rpc CodeUnknown)\<rparr>
           | SigStart pid \<Rightarrow> stream_send ok DataLoop (RespStart pid) st
           | _ \<Rightarrow> st)
      | DataLoop \<Rightarrow>
          (case sig of
             SigKeepalive \<Rightarrow> stream_send ok DataLoop RespKeepalive st
           | SigContextDone \<Rightarrow> st\<lparr>ss_phase := StreamCancelled CtxDone\<rparr>
           | SigDataClosed \<Rightarrow> st\<lparr>ss_phase := AwaitEnd\<rparr>
           | SigData d \<Rightarrow> stream_send ok DataLoop (RespData d) st
           | _ \<Rightarrow> st)
      | AwaitEnd \<Rightarrow>
          (case sig of
             SigContextDone \<Rightarrow> st\<lparr>ss_phase := StreamCancelled CtxDone\<rparr>
           | SigEndClosed \<Rightarrow> st\<lparr>ss_phase := StreamCancelled (Rpc CodeUnknown)\<rparr>
           | SigEnd e \<Rightarrow> stream_send ok StreamDone (RespEnd e) st
           | _ \<Rightarrow> st)
      | _ \<Rightarrow> st)"

definition new_stream :: "'d stream_state" where
  "new_stream = \<lparr>ss_phase = AwaitStart, ss_sent = [], ss_sends = []\<rparr>"

text \<open>
  What the handler can return once its goroutine is in a given phase.  When the goroutine cancels
  the context with a cause it also ends, so both cases of the final \<open>select\<close> are ready and either
  one is taken: the cancelled context gives its plain error, never the cause, the closed exit
  channel gives success.
\<close>

fun stream_results :: "stream_phase \<Rightarrow> (rpc_error, unit) outcome set" where
  "stream_results StreamDone = {Ok ()}"
| "stream_results (StreamCancelled cause) = {Ok (), Err CtxDone}"
| "stream_results _ = {}"

text \<open>
  \<open>handleConnect\<close> attaches to a running process: it sends the start event itself and then runs
  the same loop.
\<close>

definition handleConnect ::
  "u32 list \<Rightarrow> ProcessSelector \<Rightarrow> ('d stream_response list \<Rightarrow> 'd stream_response \<Rightarrow> bool)
     \<Rightarrow> (rpc_error, 'd stream_state, 'w proc_world) io" where
  "handleConnect order selector ok =
     io_then (select order selector) (\<lambda>a w.
       case pw_heap w a of
         None \<Rightarrow> (Panic, w)
       | Some p \<Rightarrow>
           (and_then (Pid p) (\<lambda>pid.
              if ok [] (RespStart pid) then Ok \<lparr>ss_phase = DataLoop, ss_sent = [RespStart pid], ss_sends = [(RespStart pid, True)]\<rparr>
              else Err (Rpc CodeUnknown)), w))"

section \<open>The search by tag\<close>

abbreviation tag_of :: "'w proc_world \<Rightarrow> u32 \<Rightarrow> string option" where
  "tag_of w pid \<equiv> Option.bind (Option.bind (pw_processes w pid) (pw_heap w)) h_Tag"

lemma tag_range_sound:
  "Map_Range m order (tag_visit heap tag) acc = Some a \<Longrightarrow>
     acc = Some a \<or> (\<exists>pid \<in> set order. m pid = Some a \<and> Option.bind (heap a) h_Tag = Some tag)"
  by (induction order arbitrary: acc) (auto simp: tag_visit_def split: option.splits if_splits)

lemma tag_range_stops:
  assumes "m k = Some v" and "Option.bind (heap v) h_Tag = Some t" and "t \<noteq> tag"
  shows "\<forall>j \<in> set a. \<forall>p. m j = Some p \<longrightarrow> Option.bind (heap p) h_Tag = None \<Longrightarrow>
    Map_Range m (a @ k # b) (tag_visit heap tag) acc = acc"
  using assms by (induction a) (auto simp: tag_visit_def split: option.splits)

section \<open>Invariant of the table\<close>

text \<open>Every pointer of the table is allocated, and the next address is fresh.\<close>

definition proc_ok :: "'w proc_world \<Rightarrow> bool" where
  "proc_ok w \<longleftrightarrow> ran (pw_processes w) \<subseteq> dom (pw_heap w) \<and> dom (pw_heap w) \<subseteq> {..<pw_next w}"

lemma proc_ok_new [simp]: "proc_ok (newService w)"
  by (simp add: proc_ok_def newService_def NewMap_def)

lemma on_process_ok:
  assumes "proc_ok w" and "on_process c f a w = (r, w')"
  shows "proc_ok w'"
proof (cases "pw_heap w a")
  case None
  then show ?thesis using assms by (simp add: on_process_def)
next
  case (Some p)
  obtain q p' os' where "f p (pw_os w) = (q, p', os')" by (metis prod_cases3)
  then have "w' = w\<lparr>pw_heap := (pw_heap w)(a \<mapsto> p'), pw_os := os'\<rparr>"
    using assms(2) Some by (simp add: on_process_def)
  moreover from Some have "insert a (dom (pw_heap w)) = dom (pw_heap w)" by auto
  ultimately show ?thesis using assms(1) by (simp add: proc_ok_def)
qed

lemma store_process_ok:
  assumes "proc_ok w" and "store_process ph w = (r, w')"
  shows "proc_ok w'"
proof -
  have "ran ((pw_processes w)(fst ph \<mapsto> pw_next w)) \<subseteq> insert (pw_next w) (ran (pw_processes w))"
    by (auto simp: ran_def)
  with assms show ?thesis by (fastforce simp: proc_ok_def store_process_def Map_Store_def)
qed

lemma process_ended_ok: "proc_ok w \<Longrightarrow> proc_ok (process_ended pid w)"
  by (auto simp: proc_ok_def process_ended_def Map_Delete_def ran_def split: if_splits)

lemma getProcess_ok:
  assumes "proc_ok w" and "getProcess order selector w = Ok a"
  shows "a \<in> dom (pw_heap w)"
proof -
  have "\<exists>pid. pw_processes w pid = Some a"
    using assms(2) tag_range_sound [of "pw_processes w" order "pw_heap w" _ None a]
    by (auto simp: getProcess_def Map_Load_def split: ProcessSelector.splits option.splits)
  with assms(1) show ?thesis by (auto simp: proc_ok_def ran_def)
qed

text \<open>The timeout is exact while it fits into 63 bits; beyond, it wraps.\<close>

lemma timeout_exact:
  assumes "Atoi header = Some t" and "0 \<le> t" and "t * 1000000 < 9223372036854775808" and "header \<noteq> []"
  shows "\<exists>d. determineTimeoutFromHeader header = Ok d \<and> sint d = t * 1000000"
proof -
  have e: "word_of_int t * 1000000 = (word_of_int (t * 1000000) :: i64)" by simp
  from assms(2,3) have "sint (word_of_int (t * 1000000) :: i64) = t * 1000000"
    by (intro sint_word_of_int_small) simp_all
  then show ?thesis using assms(1,4) by (simp only: determineTimeoutFromHeader_def e) simp
qed

section \<open>Properties\<close>

text \<open>
  The search for a process by tag: a process it returns has that tag; but it gives up at the
  first process with another tag, so if one such process is visited before any process with
  the tag, the search answers not found even when the process exists.
\<close>

lemma getProcess_by_tag:
  "(\<forall>a. getProcess order (SelectTag tag) w = Ok a \<longrightarrow>
      (\<exists>pid. pw_processes w pid = Some a \<and> tag_of w pid = Some tag))
    \<and> (\<forall>before pid after t. order = before @ pid # after \<longrightarrow> tag_of w pid = Some t \<longrightarrow> t \<noteq> tag \<longrightarrow>
        (\<forall>j \<in> set before. tag_of w j = None) \<longrightarrow>
        getProcess order (SelectTag tag) w = Err (Rpc CodeNotFound))"
proof (intro conjI allI impI)
  fix a assume "getProcess order (SelectTag tag) w = Ok a"
  then show "\<exists>pid. pw_processes w pid = Some a \<and> tag_of w pid = Some tag"
    using tag_range_sound [of "pw_processes w" order "pw_heap w" tag None a]
    by (auto simp: getProcess_def split: option.splits)
next
  fix before pid after t
  assume o: "order = before @ pid # after" and t: "tag_of w pid = Some t" "t \<noteq> tag"
    and b: "\<forall>j \<in> set before. tag_of w j = None"
  obtain v where v: "pw_processes w pid = Some v" using t(1) by (cases "pw_processes w pid") auto
  have "\<forall>j \<in> set before. \<forall>p. pw_processes w j = Some p \<longrightarrow> Option.bind (pw_heap w p) h_Tag = None"
    using b by force
  then have "Map_Range (pw_processes w) order (tag_visit (pw_heap w) tag) None = None"
    unfolding o using tag_range_stops [of "pw_processes w" pid v "pw_heap w" t tag before after None] t v by simp
  then show "getProcess order (SelectTag tag) w = Err (Rpc CodeNotFound)" by (simp add: getProcess_def)
qed

definition example_handler :: "string \<Rightarrow> Handler" where
  "example_handler tag = (newHandler (example_req\<lparr>sr_Tag := Some tag\<rparr>)
     \<lparr>c_Path = [], c_Args = [], c_SysProcAttr = \<lparr>sp_UseCgroupFD = False, sp_CgroupFD = 0, sp_Uid = 0, sp_Gid = 0,
        sp_Groups = [], sp_Chroot = []\<rparr>, c_Dir = [], c_Env = [], c_Process = Some 7\<rparr>)\<lparr>h_stdin := True\<rparr>"

definition example_procs :: "unit proc_world" where
  "example_procs = \<lparr>pw_processes = [1 \<mapsto> 0, 2 \<mapsto> 1], pw_heap = [0 \<mapsto> example_handler ''a'', 1 \<mapsto> example_handler ''b''],
     pw_next = 2, pw_os = ()\<rparr>"

lemma example_tag [simp]: "h_Tag (example_handler t) = Some t"
  by (simp add: example_handler_def newHandler_def)

text \<open>
  A started process can be selected by its pid, with its handler, and the table stays well
  formed.  But the table is keyed by pid alone: when the goroutine of an earlier process that had
  the same pid runs its deletion after that, it removes the new process, which stays allocated and
  running but cannot be selected any more.
\<close>

lemma stale_goroutine_drops_process:
  assumes "InitializeStartProcess os cg defaults envOrder user req w = (Ok (pid, a), w')" and "proc_ok w"
  shows "proc_ok w' \<and> getProcess order (SelectPid pid) w' = Ok a \<and> a \<in> dom (pw_heap w') \<and> a \<notin> dom (pw_heap w)
    \<and> getProcess order (SelectPid pid) (process_ended pid w') = Err (Rpc CodeNotFound)
    \<and> pw_heap (process_ended pid w') = pw_heap w'"
proof -
  obtain proc u where u: "io_map_err NewError (lift_os (Handler_New os cg defaults envOrder user req)) w = (Ok proc, u)"
    "io_then (io_map_err StartError (lift_os (Handler_Start os proc)))
      (\<lambda>ph. io_map_err NewError (store_process ph)) u = (Ok (pid, a), w')"
    by (rule io_then_OkE [OF assms(1) [unfolded InitializeStartProcess_def]])
  from u(2) obtain ph v where v: "io_map_err StartError (lift_os (Handler_Start os proc)) u = (Ok ph, v)"
    "io_map_err NewError (store_process ph) v = (Ok (pid, a), w')"
    by (rule io_then_OkE)
  have frame: "pw_processes v = pw_processes w \<and> pw_heap v = pw_heap w \<and> pw_next v = pw_next w"
    using u(1) v(1) by (auto simp: lift_os_def split: prod.splits)
  then have "proc_ok v" using assms(2) by (simp add: proc_ok_def)
  moreover from v(2) have "store_process ph v = (Ok (pid, a), w')" by simp
  ultimately have "proc_ok w'" "pid = fst ph" "a = pw_next v"
    "pw_processes w' = Map_Store (pw_processes v) pid a" "pw_heap w' = (pw_heap v)(a \<mapsto> snd ph)"
    by (auto simp: store_process_def intro: store_process_ok)
  moreover have "pw_next w \<notin> dom (pw_heap w)" using assms(2) by (auto simp: proc_ok_def)
  ultimately show ?thesis
    using frame by (simp add: getProcess_def process_ended_def sync_map.load_store sync_map.load_delete)
qed

text \<open>The shape of a response stream: the start event, data and keepalives, at most one end event.\<close>

definition is_filler :: "'d stream_response \<Rightarrow> bool" where
  "is_filler r \<longleftrightarrow> (case r of RespKeepalive \<Rightarrow> True | RespData d \<Rightarrow> True | _ \<Rightarrow> False)"

fun stream_ordered :: "stream_phase \<Rightarrow> 'd stream_response list \<Rightarrow> bool" where
  "stream_ordered AwaitStart sent = (sent = [])"
| "stream_ordered DataLoop sent = (\<exists>pid mid. sent = RespStart pid # mid \<and> list_all is_filler mid)"
| "stream_ordered AwaitEnd sent = (\<exists>pid mid. sent = RespStart pid # mid \<and> list_all is_filler mid)"
| "stream_ordered StreamDone sent =
     (\<exists>pid mid e. sent = RespStart pid # mid @ [RespEnd e] \<and> list_all is_filler mid)"
| "stream_ordered (StreamCancelled err) sent =
     (sent = [] \<or> (\<exists>pid mid. sent = RespStart pid # mid \<and> list_all is_filler mid))"

definition sent_data :: "'d stream_response list \<Rightarrow> 'd list" where
  "sent_data sent = List.map_filter (\<lambda>r. case r of RespData d \<Rightarrow> Some d | _ \<Rightarrow> None) sent"

text \<open>
  The data that a sequence of signals offers to the stream: what comes after the start event (at once
  for a connection), up to the closing of the data channel or the end of the context.
\<close>

fun signal_data :: "'d stream_signal \<Rightarrow> 'd option" where
  "signal_data (SigData d) = Some d"
| "signal_data _ = None"

fun ends_start :: "'d stream_signal \<Rightarrow> bool" where
  "ends_start (SigStart pid) = True"
| "ends_start SigStartClosed = True"
| "ends_start SigContextDone = True"
| "ends_start _ = False"

definition loop_data :: "'d stream_signal list \<Rightarrow> 'd list" where
  "loop_data sigs = List.map_filter signal_data (takeWhile (\<lambda>sig. sig \<noteq> SigDataClosed \<and> sig \<noteq> SigContextDone) sigs)"

fun offered_data :: "stream_phase \<Rightarrow> 'd stream_signal list \<Rightarrow> 'd list" where
  "offered_data AwaitStart sigs =
     (case dropWhile (\<lambda>sig. \<not> ends_start sig) sigs of SigStart pid # rest \<Rightarrow> loop_data rest | _ \<Rightarrow> [])"
| "offered_data DataLoop sigs = loop_data sigs"
| "offered_data _ sigs = []"

abbreviation run_stream ::
  "('d stream_response list \<Rightarrow> 'd stream_response \<Rightarrow> bool) \<Rightarrow> 'd stream_signal list \<Rightarrow> 'd stream_state \<Rightarrow> 'd stream_state" where
  "run_stream ok sigs st \<equiv> fold (\<lambda>sig st. stream_turn ok st sig) sigs st"

text \<open>A send failed only as the last one, and then the goroutine has left its loop.\<close>

definition sends_ok :: "'d stream_state \<Rightarrow> bool" where
  "sends_ok st \<longleftrightarrow> ss_sent st = map fst (filter snd (ss_sends st))
     \<and> (\<forall>x \<in> set (butlast (ss_sends st)). snd x)
     \<and> ((\<exists>x \<in> set (ss_sends st). \<not> snd x) \<longrightarrow> (\<exists>err. ss_phase st = StreamCancelled err))"

lemma stream_turn_ordered:
  "stream_ordered (ss_phase st) (ss_sent st) \<Longrightarrow>
     stream_ordered (ss_phase (stream_turn ok st sig)) (ss_sent (stream_turn ok st sig))"
  by (cases "ss_phase st"; cases sig) (auto simp: stream_turn_def stream_send_def is_filler_def)

lemma run_stream_ordered:
  "stream_ordered (ss_phase st) (ss_sent st) \<Longrightarrow>
     stream_ordered (ss_phase (run_stream ok sigs st)) (ss_sent (run_stream ok sigs st))"
  by (induction sigs arbitrary: st) (simp_all add: stream_turn_ordered)

lemma stream_send_ok: "sends_ok st \<Longrightarrow> (\<nexists>err. ss_phase st = StreamCancelled err) \<Longrightarrow> sends_ok (stream_send ok next r st)"
  by (auto simp: sends_ok_def stream_send_def)

lemma stream_turn_sends: "sends_ok st \<Longrightarrow> sends_ok (stream_turn ok st sig)"
  by (cases "ss_phase st"; cases sig) (simp_all add: stream_turn_def stream_send_ok, auto simp: sends_ok_def)

lemma run_stream_sends: "sends_ok st \<Longrightarrow> sends_ok (run_stream ok sigs st)"
  by (induction sigs arbitrary: st) (simp_all add: stream_turn_sends)

lemma sent_data_simps [simp]:
  "sent_data [] = []" "sent_data (rs @ [r]) = sent_data rs @ (case r of RespData d \<Rightarrow> [d] | _ \<Rightarrow> [])"
  by (auto simp: sent_data_def List.map_filter_def split: stream_response.splits)

lemma loop_data_simps [simp]:
  "loop_data [] = []"
  "loop_data (sig # sigs) = (case sig of SigDataClosed \<Rightarrow> [] | SigContextDone \<Rightarrow> [] | SigData d \<Rightarrow> d # loop_data sigs | _ \<Rightarrow> loop_data sigs)"
  by (auto simp: loop_data_def List.map_filter_def split: stream_signal.splits)

lemma cancelled_stays:
  "ss_phase st = StreamCancelled err \<or> ss_phase st = StreamDone \<Longrightarrow> run_stream ok sigs st = st"
  by (induction sigs) (auto simp: stream_turn_def)

lemma run_stream_data:
  "\<exists>ds. sent_data (map fst (ss_sends (run_stream ok sigs st))) = sent_data (map fst (ss_sends st)) @ ds
     \<and> prefix ds (offered_data (ss_phase st) sigs)
     \<and> (ds = offered_data (ss_phase st) sigs \<or> (\<exists>x \<in> set (ss_sends (run_stream ok sigs st)). \<not> snd x))"
proof (induction sigs arbitrary: st)
  case Nil
  show ?case by (cases "ss_phase st") auto
next
  case (Cons sig sigs)
  note IH = Cons.IH [of "stream_turn ok st sig"]
  show ?case
  proof (cases "ss_phase st = StreamDone \<or> (\<exists>err. ss_phase st = StreamCancelled err)")
    case True
    then show ?thesis using cancelled_stays [of st _ ok "sig # sigs"] by auto
  next
    case False
    note stay = cancelled_stays [of "stream_turn ok st sig" "Rpc CodeUnknown" ok sigs]
      cancelled_stays [of "stream_turn ok st sig" CtxDone ok sigs]
    from False show ?thesis
      using IH stay
      by (cases "ss_phase st"; cases sig)
        (auto simp: stream_turn_def stream_send_def split: if_splits)
  qed
qed

text \<open>The states in which the loop of a stream starts.\<close>

definition stream_begins ::
  "('d stream_response list \<Rightarrow> 'd stream_response \<Rightarrow> bool) \<Rightarrow> u32 list \<Rightarrow> ProcessSelector \<Rightarrow> 'w proc_world
     \<Rightarrow> 'd stream_state \<Rightarrow> bool" where
  "stream_begins ok order selector w st \<longleftrightarrow> st = new_stream \<or> fst (handleConnect order selector ok w) = Ok st"

lemma stream_begins_empty:
  assumes "stream_begins ok order selector w st"
  shows "stream_ordered (ss_phase st) (ss_sent st) \<and> sends_ok st \<and> sent_data (map fst (ss_sends st)) = []"
  using assms
  by (auto simp: stream_begins_def new_stream_def handleConnect_def io_then_def select_def sent_data_def sends_ok_def
      List.map_filter_def and_then_Ok_iff split: outcome.splits option.splits if_splits)

text \<open>
  C24.  The response stream of a started process and of a connection to a running one, for any
  sequence of signals and any failing sends.  What the client gets has the start event first, then only
  data and keepalives, and the end event last, exactly when the stream completes.  Nothing is sent after
  a send that failed.  The data passed to \<open>Send\<close> is a prefix, in order and without gaps, of the data
  that arrived between the start and the closing of the data channel (or the end of the context), and
  all of it if no send failed.
\<close>

theorem process_stream_order:
  assumes "stream_begins ok order selector w st0" and "st = run_stream ok sigs st0"
  shows "stream_ordered (ss_phase st) (ss_sent st)
    \<and> ss_sent st = map fst (filter snd (ss_sends st))
    \<and> (\<forall>before r after. ss_sends st = before @ (r, False) # after \<longrightarrow> after = [])
    \<and> prefix (sent_data (map fst (ss_sends st))) (offered_data (ss_phase st0) sigs)
    \<and> ((\<forall>r. (r, False) \<notin> set (ss_sends st)) \<longrightarrow> sent_data (ss_sent st) = offered_data (ss_phase st0) sigs)"
proof -
  note b = stream_begins_empty [OF assms(1)]
  have s: "sends_ok st" using b run_stream_sends assms(2) by blast
  have "after = []" if "ss_sends st = before @ (r, False) # after" for before r after
    using s that by (cases after rule: rev_cases) (auto simp: sends_ok_def butlast_append)
  moreover have "ss_sends st = filter snd (ss_sends st)" if "\<forall>r. (r, False) \<notin> set (ss_sends st)"
    using that by (intro filter_True [symmetric]) (metis (full_types) prod.collapse)
  ultimately show ?thesis
    using b s run_stream_ordered [of st0 ok sigs] run_stream_data [of ok sigs st0] assms(2)
    by (auto simp: sends_ok_def)
qed

theorem process_stream_order_witness:
  "ss_sends (run_stream (\<lambda>sent r. length sent < 2) [SigData (1 :: nat), SigData 2, SigData 3, SigDataClosed]
       \<lparr>ss_phase = DataLoop, ss_sent = [RespStart 7], ss_sends = [(RespStart 7, True)]\<rparr>)
     = [(RespStart 7, True), (RespData 1, True), (RespData 2, False)]
   \<and> prefix [1, 2] (offered_data DataLoop [SigData (1 :: nat), SigData 2, SigData 3, SigDataClosed])
   \<and> ss_sent (run_stream (\<lambda>sent r. length sent < 2) [SigData (1 :: nat), SigData 2, SigData 3, SigDataClosed]
       \<lparr>ss_phase = DataLoop, ss_sent = [RespStart 7], ss_sends = [(RespStart 7, True)]\<rparr>) = [RespStart 7, RespData 1]"
proof -
  let ?sigs = "[SigData (1 :: nat), SigData 2, SigData 3, SigDataClosed]" and ?ok = "\<lambda>sent (r :: nat stream_response). length sent < 2"
  let ?st0 = "\<lparr>ss_phase = DataLoop, ss_sent = [RespStart 7], ss_sends = [(RespStart 7, True)]\<rparr> :: nat stream_state"
  have "stream_begins ?ok [] (SelectPid 2) example_procs ?st0"
    by (simp add: stream_begins_def handleConnect_def io_then_def select_def getProcess_def Map_Load_def
        example_procs_def Pid_def example_handler_def newHandler_def)
  note order = process_stream_order [OF this refl, of ?sigs]
  have sends: "ss_sends (run_stream ?ok ?sigs ?st0) = [(RespStart 7, True), (RespData 1, True), (RespData 2, False)]"
    by (simp add: stream_turn_def stream_send_def)
  with order show ?thesis by (simp add: sent_data_def List.map_filter_def)
qed

text \<open>A stream that ended early can be reported as a success, and its cause is never reported.\<close>

lemma cancelled_stream_reports_success:
  "Ok () \<in> stream_results (ss_phase (run_stream (\<lambda>_ _. False) [SigStart 7] new_stream))
   \<and> Err (Rpc CodeUnknown) \<notin> stream_results (ss_phase (run_stream (\<lambda>_ _. False) [SigStart 7] new_stream))"
  by (simp add: new_stream_def stream_turn_def stream_send_def)

text \<open>
  Sending standard input by the unary request: the context of a unary request has no
  operation id, so after the bytes have been written the handler panics; the same request run in
  the context of a stream succeeds with the same effect.  In a stream, a data message before the
  start message reaches a nil handler and panics.
\<close>

lemma SendInput_stdin_panics:
  assumes "getProcess order selector w = Ok a" and "pw_heap w a = Some p"
    and "WriteStdin os data p (pw_os w) = (Ok (), p', os')"
  shows "LogUnary (\<lambda>i. SendInput os i order selector (InputStdin data)) w
      = (Panic, w\<lparr>pw_heap := (pw_heap w)(a \<mapsto> p'), pw_os := os'\<rparr>)
    \<and> LogStream requestID (\<lambda>i. SendInput os i order selector (InputStdin data)) w
      = (Ok (), w\<lparr>pw_heap := (pw_heap w)(a \<mapsto> p'), pw_os := os'\<rparr>)
    \<and> StreamInput os requestID order streamErr (StreamData (InputStdin data) # reqs) w = (Panic, w)"
  using assms
  by (simp add: LogUnary_def LogStream_def SendInput_def StreamInput_def handleInput_def io_then_def select_def
      on_process_def io_panic_def)

end
