(* ===== verification/Manifest_Store.thy ===== *)
theory Manifest_Store
  imports Go_Text
begin

text \<open>
  The manifest store (\<open>internal/manifest/manifest.go\<close>): the current policy, the indexes
  compiled from it, the callbacks fired on an update, and the matching of paths against
  globs.  The mutex of the store makes each operation atomic, so an operation is a function
  from store to store.  A callback acts on the world outside the store, the type parameter
  \<open>'w\<close>; \<open>Update\<close> runs the callbacks after it has released the lock.
\<close>

section \<open>Data\<close>

record NetworkEntry =
  ne_AbilityID :: string
  ne_Pattern :: string
  ne_Protocol :: string
  ne_Direction :: string
  ne_CredentialKey :: string
  ne_Inspect :: bool

record FilesystemEntry =
  fe_AbilityID :: string
  fe_Path :: string
  fe_Direction :: string
  fe_Mode :: string
  fe_Source :: string
  fe_Persist :: bool

record Manifest =
  m_Version :: int
  m_WorkspaceID :: string
  m_Network :: "NetworkEntry list"
  m_Filesystem :: "FilesystemEntry list"
  m_Credentials :: "string \<rightharpoonup> string"

record compiledGlob =
  cg_pattern :: string
  cg_entry :: FilesystemEntry

text \<open>A pointer to a manifest is an option; \<open>None\<close> is \<open>nil\<close>.\<close>

record 'w Store =
  s_current :: "Manifest option"
  s_callbacks :: "(Manifest option \<Rightarrow> 'w \<Rightarrow> 'w) list"
  s_netIndex :: "string \<rightharpoonup> bool"
  s_fsGlobs :: "compiledGlob list"

section \<open>Operations\<close>

definition NewStore :: "'w Store" where
  "NewStore = \<lparr>s_current = None, s_callbacks = [], s_netIndex = Map.empty, s_fsGlobs = []\<rparr>"

definition rebuildIndexLocked :: "'w Store \<Rightarrow> 'w Store" where
  "rebuildIndexLocked s =
     (case s_current s of
        None \<Rightarrow> s
      | Some m \<Rightarrow>
          s\<lparr>s_netIndex := fold (\<lambda>e idx. idx(ne_Pattern e \<mapsto> True)) (m_Network m) Map.empty,
            s_fsGlobs := map (\<lambda>e. \<lparr>cg_pattern = fe_Path e, cg_entry = e\<rparr>) (m_Filesystem m)\<rparr>)"

definition Update :: "'w Store \<Rightarrow> Manifest option \<Rightarrow> 'w \<Rightarrow> 'w Store \<times> 'w" where
  "Update s m w =
     (let s' = rebuildIndexLocked (s\<lparr>s_current := m\<rparr>);
          cbs = s_callbacks s'
      in (s', fold (\<lambda>fn. fn m) cbs w))"

definition Current :: "'w Store \<Rightarrow> Manifest option" where
  "Current s = s_current s"

definition HasManifest :: "'w Store \<Rightarrow> bool" where
  "HasManifest s \<longleftrightarrow> s_current s \<noteq> None"

definition OnUpdate :: "'w Store \<Rightarrow> (Manifest option \<Rightarrow> 'w \<Rightarrow> 'w) \<Rightarrow> 'w Store" where
  "OnUpdate s fn = s\<lparr>s_callbacks := s_callbacks s @ [fn]\<rparr>"

definition IsNetworkAllowed :: "'w Store \<Rightarrow> string \<Rightarrow> int \<Rightarrow> bool" where
  "IsNetworkAllowed s host port =
     (if s_current s = None then False
      else case s_netIndex s (host @ '':'' @ Itoa port) of None \<Rightarrow> False | Some b \<Rightarrow> b)"

definition matchGlob :: "string \<Rightarrow> string \<Rightarrow> bool" where
  "matchGlob pattern path =
     (if pattern = path then True
      else if HasSuffix pattern ''/**'' then
        (let prefix = TrimSuffix pattern ''/**''
         in if path = prefix \<or> HasPrefix path (prefix @ ''/'') then True else False)
      else if HasSuffix pattern ''/*'' then
        (let prefix = TrimSuffix pattern ''/*''
         in if \<not> HasPrefix path (prefix @ ''/'') then False
            else (let rest = drop (length prefix + 1) path in \<not> Contains rest ''/''))
      else case Match pattern path of Ok matched \<Rightarrow> matched | _ \<Rightarrow> False)"

fun first_glob :: "compiledGlob list \<Rightarrow> string \<Rightarrow> bool \<times> FilesystemEntry option" where
  "first_glob [] path = (False, None)"
| "first_glob (g # gs) path =
     (if matchGlob (cg_pattern g) path then (True, Some (cg_entry g)) else first_glob gs path)"

definition IsPathAllowed :: "'w Store \<Rightarrow> string \<Rightarrow> bool \<times> FilesystemEntry option" where
  "IsPathAllowed s path =
     (if s_current s = None then (True, None) else first_glob (s_fsGlobs s) path)"

section \<open>The indexes follow the manifest\<close>

text \<open>
  The invariant of the store: the compiled indexes are those of the current manifest.  It
  holds of every store the operations produce.
\<close>

definition store_ok :: "'w Store \<Rightarrow> bool" where
  "store_ok s \<longleftrightarrow> (\<forall>m. s_current s = Some m \<longrightarrow>
     (\<forall>key. s_netIndex s key = (if \<exists>e \<in> set (m_Network m). ne_Pattern e = key then Some True else None))
     \<and> s_fsGlobs s = map (\<lambda>e. \<lparr>cg_pattern = fe_Path e, cg_entry = e\<rparr>) (m_Filesystem m))"

inductive store_reachable :: "'w Store \<Rightarrow> bool" where
  new: "store_reachable NewStore"
| update: "store_reachable s \<Longrightarrow> store_reachable (fst (Update s m w))"
| on_update: "store_reachable s \<Longrightarrow> store_reachable (OnUpdate s fn)"

inductive_cases store_reachable_cases: "store_reachable s"

lemma fold_index:
  "fold (\<lambda>e idx. idx(ne_Pattern e \<mapsto> True)) es idx0 key =
     (if \<exists>e \<in> set es. ne_Pattern e = key then Some True else idx0 key)"
  by (induction es arbitrary: idx0) auto

lemma Update_fields [simp]:
  "s_current (fst (Update s m w)) = m"
  "s_callbacks (fst (Update s m w)) = s_callbacks s"
  "snd (Update s m w) = fold (\<lambda>fn. fn m) (s_callbacks s) w"
  by (auto simp: Update_def rebuildIndexLocked_def Let_def split: option.splits)

lemma Update_ok: "store_ok (fst (Update s m w))"
  by (cases m) (auto simp: Update_def store_ok_def rebuildIndexLocked_def Let_def fold_index)

lemma OnUpdate_ok: "store_ok s \<Longrightarrow> store_ok (OnUpdate s fn)"
  by (simp add: store_ok_def OnUpdate_def)

lemma store_reachable_ok: "store_reachable s \<Longrightarrow> store_ok s"
proof (induction rule: store_reachable.induct)
  case new
  show ?case by (simp add: store_ok_def NewStore_def)
qed (simp_all add: Update_ok OnUpdate_ok)

lemma first_glob_iff:
  "first_glob (map (\<lambda>e. \<lparr>cg_pattern = fe_Path e, cg_entry = e\<rparr>) es) path =
     (case find (\<lambda>e. matchGlob (fe_Path e) path) es of None \<Rightarrow> (False, None) | Some e \<Rightarrow> (True, Some e))"
  by (induction es) auto

lemma IsPathAllowed_ok:
  assumes "store_ok s" and "s_current s = Some m"
  shows "fst (IsPathAllowed s path) \<longleftrightarrow> (\<exists>e \<in> set (m_Filesystem m). matchGlob (fe_Path e) path)"
  using assms unfolding store_ok_def IsPathAllowed_def
  by (auto simp: first_glob_iff find_None_iff find_Some_iff split: option.splits)

section \<open>Globs\<close>

lemma matchGlob_exact: "matchGlob path path"
  by (simp add: matchGlob_def)

lemma suffix_slashes_distinct: "\<not> HasSuffix (prefix @ ''/*'') ''/**''"
  by (auto simp: HasSuffix_def)

lemma matchGlob_deep:
  "matchGlob (prefix @ ''/**'') path \<longleftrightarrow>
     path = prefix @ ''/**'' \<or> path = prefix \<or> (\<exists>rest. path = prefix @ ''/'' @ rest)"
  by (auto simp: matchGlob_def HasSuffix_iff HasPrefix_iff)

lemma matchGlob_one_level:
  "matchGlob (prefix @ ''/*'') path \<longleftrightarrow> (\<exists>rest. path = prefix @ ''/'' @ rest \<and> slash \<notin> set rest)"
proof -
  have "HasSuffix (prefix @ ''/*'') ''/*''" by (auto simp: HasSuffix_iff)
  moreover have "drop (length prefix + 1) (prefix @ ''/'' @ rest) = rest" for rest by simp
  ultimately show ?thesis
    using suffix_slashes_distinct [of prefix]
    by (auto simp: matchGlob_def HasPrefix_iff Contains_single)
qed

text \<open>
  Without the suffix \<open>/**\<close>, and with no character class and no escape, a glob only reaches
  paths with as many slashes as it has itself.
\<close>

lemma matchGlob_depth:
  assumes "matchGlob pattern path" and "\<not> HasSuffix pattern ''/**''" and "plain pattern"
  shows "slashes path = slashes pattern"
proof (cases "HasSuffix pattern ''/*''")
  case True
  then obtain prefix where p: "pattern = prefix @ ''/*''" by (auto simp: HasSuffix_iff)
  then obtain rest where "path = prefix @ ''/'' @ rest" "slash \<notin> set rest"
    using assms(1) by (auto simp: matchGlob_one_level)
  with p show ?thesis by (simp add: count_list_0_iff)
next
  case False
  then have "pattern = path \<or> Match pattern path = Ok True"
    using assms(1,2) by (auto simp: matchGlob_def split: if_splits outcome.splits)
  then show ?thesis using Match_depth [OF assms(3)] by auto
qed

section \<open>The policy interface\<close>

text \<open>
  What a client of the store relies on: while there is no manifest every path is allowed, and
  under a manifest the allowed paths are those that an entry matches.  A path is traversable
  if it is allowed or an entry's pattern lies below it.
\<close>

definition literal_glob :: "string \<Rightarrow> bool" where
  "literal_glob g \<longleftrightarrow> no_meta (if HasSuffix g ''/**'' then TrimSuffix g ''/**''
     else if HasSuffix g ''/*'' then TrimSuffix g ''/*'' else g)"

definition traversable :: "('s \<Rightarrow> Manifest option) \<Rightarrow> ('s \<Rightarrow> string \<Rightarrow> bool) \<Rightarrow> 's \<Rightarrow> string \<Rightarrow> bool" where
  "traversable current allowed s path \<longleftrightarrow>
     allowed s path \<or> (case current s of None \<Rightarrow> True
       | Some m \<Rightarrow> \<exists>e \<in> set (m_Filesystem m). HasPrefix (fe_Path e) (path @ ''/''))"

lemma literal_glob_cases:
  assumes "literal_glob g"
  obtains (exact) "no_meta g" | (deep) base where "g = base @ ''/**''" | (level) base where "g = base @ ''/*''"
proof (cases "HasSuffix g ''/**'' \<or> HasSuffix g ''/*''")
  case True
  then show ?thesis using deep level unfolding HasSuffix_iff by blast
next
  case False
  then show ?thesis using exact assms by (simp add: literal_glob_def)
qed

text \<open>Two ways to cut a path at a slash: the same cut, or one inside the other's head.\<close>

lemma cut_at_slash:
  assumes "a @ slash # r = b @ slash # t"
  shows "a = b \<and> r = t \<or> (\<exists>c. b = a @ slash # c \<and> r = c @ slash # t) \<or> (\<exists>c. a = b @ slash # c)"
proof -
  from assms consider us where "a = b @ us" "us @ slash # r = slash # t"
    | us where "b = a @ us" "slash # r = us @ slash # t"
    by (auto simp: append_eq_append_conv2)
  then show ?thesis
  proof cases
    case (1 us)
    then show ?thesis by (cases us) auto
  next
    case (2 us)
    then show ?thesis by (cases us) auto
  qed
qed

text \<open>A literal glob that matches a path below \<open>path\<close> matches \<open>path\<close> or lies below it.\<close>

lemma matchGlob_ancestor:
  assumes "literal_glob g" and "matchGlob g (path @ slash # rest)"
  shows "matchGlob g path \<or> HasPrefix g (path @ ''/'')"
  using assms(1)
proof (cases rule: literal_glob_cases)
  case exact
  then have "CHR ''*'' \<notin> set g" by (auto simp: no_meta_def)
  then have "\<not> HasSuffix g ''/**''" "\<not> HasSuffix g ''/*''" by (auto simp: HasSuffix_iff)
  then have "g = path @ slash # rest"
    using assms(2) by (simp add: matchGlob_def Match_no_meta [OF exact] split: if_splits)
  then show ?thesis by (auto simp: HasPrefix_iff)
next
  case (deep base)
  consider "path @ slash # rest = g" | "path @ slash # rest = base"
    | r where "base @ slash # r = path @ slash # rest"
    using assms(2) deep by (auto simp: matchGlob_deep)
  then show ?thesis
  proof cases
    case 1
    then show ?thesis unfolding HasPrefix_iff by (metis append_Cons append_Nil append_assoc)
  next
    case 3
    from cut_at_slash [OF 3] show ?thesis
      unfolding deep matchGlob_deep by (auto simp: HasPrefix_iff)
  qed (use deep in \<open>auto simp: HasPrefix_iff\<close>)
next
  case (level base)
  then obtain r where r: "base @ slash # r = path @ slash # rest" "slash \<notin> set r"
    using assms(2) by (auto simp: matchGlob_one_level)
  from cut_at_slash [OF r(1)] r(2) level show ?thesis by (auto simp: HasPrefix_iff)
qed

locale path_policy =
  fixes inv :: "'s \<Rightarrow> bool"
    and current :: "'s \<Rightarrow> Manifest option"
    and allowed :: "'s \<Rightarrow> string \<Rightarrow> bool"
  assumes grace: "inv s \<Longrightarrow> current s = None \<Longrightarrow> allowed s path"
    and governed: "inv s \<Longrightarrow> current s = Some m \<Longrightarrow>
      allowed s path \<longleftrightarrow> (\<exists>e \<in> set (m_Filesystem m). matchGlob (fe_Path e) path)"
begin

lemma denied_iff:
  "inv s \<Longrightarrow> \<not> traversable current allowed s path \<longleftrightarrow>
     (\<exists>m. current s = Some m \<and> (\<forall>e \<in> set (m_Filesystem m).
        \<not> matchGlob (fe_Path e) path \<and> \<not> HasPrefix (fe_Path e) (path @ ''/'')))"
  by (cases "current s") (auto simp: traversable_def governed)

lemma ancestors_traversable:
  assumes "inv s" and "\<forall>m. current s = Some m \<longrightarrow> (\<forall>e \<in> set (m_Filesystem m). literal_glob (fe_Path e))"
    and "traversable current allowed s (path @ slash # rest)"
  shows "traversable current allowed s path"
proof (cases "current s")
  case (Some m)
  then obtain e where e: "e \<in> set (m_Filesystem m)"
    "matchGlob (fe_Path e) (path @ slash # rest) \<or> HasPrefix (fe_Path e) (path @ slash # rest @ ''/'')"
    using assms(1,3) by (auto simp: traversable_def governed)
  have "matchGlob (fe_Path e) path \<or> HasPrefix (fe_Path e) (path @ ''/'')"
    using e assms(2) Some matchGlob_ancestor [of "fe_Path e" path rest] by (auto simp: HasPrefix_iff)
  then show ?thesis using e(1) Some assms(1) by (auto simp: traversable_def governed)
qed (simp add: traversable_def)

end

interpretation store: path_policy store_ok Current "\<lambda>s path. fst (IsPathAllowed s path)"
proof
  fix s :: "'a Store" and path
  show "Current s = None \<Longrightarrow> fst (IsPathAllowed s path)"
    by (simp add: Current_def IsPathAllowed_def)
qed (simp add: Current_def IsPathAllowed_ok)

section \<open>Properties\<close>

text \<open>
  C15.  On every store the agent can reach, \<open>IsPathAllowed\<close> answers with the first
  filesystem entry whose glob matches (and allows everything while there is no manifest), and
  \<open>IsNetworkAllowed\<close> allows exactly the listed \<open>host:port\<close> patterns (and nothing while there
  is no manifest).  So the compiled indexes never lag behind the current manifest.
\<close>

theorem store_enforces_manifest:
  assumes "store_reachable s"
  shows "IsPathAllowed s path =
      (case Current s of
         None \<Rightarrow> (True, None)
       | Some m \<Rightarrow>
           (case find (\<lambda>e. matchGlob (fe_Path e) path) (m_Filesystem m) of
              None \<Rightarrow> (False, None) | Some e \<Rightarrow> (True, Some e)))
    \<and> IsNetworkAllowed s host port =
      (case Current s of
         None \<Rightarrow> False
       | Some m \<Rightarrow> \<exists>e \<in> set (m_Network m). ne_Pattern e = host @ '':'' @ Itoa port)"
  using store_reachable_ok [OF assms]
  by (auto simp: store_ok_def Current_def IsPathAllowed_def IsNetworkAllowed_def first_glob_iff
      split: option.splits)

definition example_fs :: "string \<Rightarrow> FilesystemEntry" where
  "example_fs path = \<lparr>fe_AbilityID = ''a'', fe_Path = path, fe_Direction = ''bidirectional'',
     fe_Mode = ''read_only'', fe_Source = ''passthrough'', fe_Persist = False\<rparr>"

definition example_net :: "string \<Rightarrow> NetworkEntry" where
  "example_net pattern = \<lparr>ne_AbilityID = ''a'', ne_Pattern = pattern, ne_Protocol = ''https'',
     ne_Direction = ''outbound'', ne_CredentialKey = [], ne_Inspect = False\<rparr>"

definition example_manifest :: Manifest where
  "example_manifest = \<lparr>m_Version = 1, m_WorkspaceID = ''w'', m_Network = [example_net ''h:9''],
     m_Filesystem = [example_fs ''/usr/**'', example_fs ''/tmp/*''], m_Credentials = Map.empty\<rparr>"

theorem store_enforces_manifest_witness:
  "IsPathAllowed (fst (Update NewStore (Some example_manifest) ())) ''/tmp/a''
      = (True, Some (example_fs ''/tmp/*''))
    \<and> IsNetworkAllowed (fst (Update NewStore (Some example_manifest) ())) ''h'' 9
    \<and> \<not> IsNetworkAllowed (fst (Update NewStore (Some example_manifest) ())) ''h'' 8"
proof -
  have r: "store_reachable (fst (Update NewStore (Some example_manifest) ()))"
    by (intro store_reachable.update store_reachable.new)
  have i: "Itoa 9 = ''9''" "Itoa 8 = ''8''"
    by (simp_all add: Itoa_def nat_digits.simps [of 9] nat_digits.simps [of 8] digit_char_def char_of_def bit_0)
  have "\<not> matchGlob ''/usr/**'' ''/tmp/a''" "matchGlob ''/tmp/*'' ''/tmp/a''"
    using matchGlob_deep [of "''/usr''" "''/tmp/a''"] matchGlob_one_level [of "''/tmp''" "''/tmp/a''"] by simp_all
  then show ?thesis
    using store_enforces_manifest [OF r, of "''/tmp/a''" "''h''" 9]
      store_enforces_manifest [OF r, of "''/tmp/a''" "''h''" 8]
    by (simp add: Current_def example_manifest_def example_fs_def example_net_def i)
qed

text \<open>
  The reach of a glob: \<open>dir/**\<close> matches \<open>dir\<close> and everything below it, \<open>dir/*\<close> matches
  the direct children of \<open>dir\<close>, and a pattern without \<open>/**\<close> at its end, without character
  classes and escapes never matches a path of another depth: its stars do not cross a slash.
\<close>

lemma matchGlob_reach:
  "(matchGlob (dir @ ''/**'') path \<longleftrightarrow>
      path = dir @ ''/**'' \<or> path = dir \<or> (\<exists>rest. path = dir @ ''/'' @ rest))
    \<and> (matchGlob (dir @ ''/*'') path \<longleftrightarrow> (\<exists>rest. path = dir @ ''/'' @ rest \<and> slash \<notin> set rest))
    \<and> (\<not> HasSuffix pattern ''/**'' \<longrightarrow> plain pattern \<longrightarrow> matchGlob pattern path \<longrightarrow>
         slashes path = slashes pattern)"
  using matchGlob_depth [of pattern path] by (simp add: matchGlob_deep matchGlob_one_level)

end
