(* ===== verification/Fuse_Overlay.thy ===== *)
theory Fuse_Overlay
  imports Manifest_Store
begin

text \<open>
  The FUSE overlay (\<open>internal/fuse/fuse.go\<close>): virtual files kept above the real file
  system, and the manifest policy enforced on every lookup and listing.  Virtual files are
  shared by pointer between the overlay and the nodes handed to the kernel, so they live in a
  heap of their own, indexed by address; manifest stores are addressed the same way.  The
  operations of the third-party loopback node, \<open>Lookup\<close> and \<open>Readdir\<close> of the directory with
  a given path, are parameters; both also see the root data of the embedded loopback node, which
  \<open>NewOverlay\<close> sets and the directory nodes below the root leave nil.
\<close>

section \<open>Data\<close>

type_synonym errno = nat
type_synonym addr = nat

definition ENOENT :: errno where "ENOENT = 2"
definition EIO :: errno where "EIO = 5"

definition S_IFDIR :: u32 where "S_IFDIR = 0x4000"
definition S_IFREG :: u32 where "S_IFREG = 0x8000"

record VirtualFile =
  vf_Content :: "byte list option"
  vf_Size :: u64
  vf_Mode :: u32

record LoopbackRoot =
  lr_Path :: string
  lr_Dev :: u64

record Overlay =
  o_RootData :: "LoopbackRoot option"
  o_virtuals :: "string \<rightharpoonup> addr"
  o_store :: "addr option"

record overlayDir =
  d_RootData :: "LoopbackRoot option"
  d_path :: string
  d_store :: "addr option"

datatype 'i node = VirtualNode addr | DirNode overlayDir | LoopbackInode 'i

record Attr =
  a_Mode :: u32
  a_Size :: u64

record DirEntry =
  de_Name :: string
  de_Mode :: u32

type_synonym vheap = "addr \<rightharpoonup> VirtualFile"

section \<open>Virtual files\<close>

text \<open>\<open>Stat\<close> gives the device of a path.\<close>

definition NewOverlay :: "(string \<Rightarrow> ('e, u64) outcome) \<Rightarrow> string \<Rightarrow> ('e, Overlay) outcome" where
  "NewOverlay Stat basePath =
     and_then (Stat basePath) (\<lambda>dev.
       Ok \<lparr>o_RootData = Some \<lparr>lr_Path = basePath, lr_Dev = dev\<rparr>, o_virtuals = Map.empty, o_store = None\<rparr>)"

text \<open>Mounting is a call of the third-party file system library, the parameter \<open>fs_Mount\<close>.\<close>

definition MountAt ::
  "(string \<Rightarrow> ('e, u64) outcome) \<Rightarrow> (string \<Rightarrow> Overlay \<Rightarrow> ('e, 'srv) outcome) \<Rightarrow> string \<Rightarrow> string
     \<Rightarrow> ('e, 'srv \<times> Overlay) outcome" where
  "MountAt Stat fs_Mount basePath mountPoint =
     and_then (NewOverlay Stat basePath) (\<lambda>overlay.
       and_then (fs_Mount mountPoint overlay) (\<lambda>server. Ok (server, overlay)))"

definition SetStore :: "Overlay \<Rightarrow> addr option \<Rightarrow> Overlay" where
  "SetStore o' s = o'\<lparr>o_store := s\<rparr>"

definition getStore :: "Overlay \<Rightarrow> addr option" where
  "getStore o' = o_store o'"

definition content_len :: "byte list option \<Rightarrow> nat" where
  "content_len content = (case content of None \<Rightarrow> 0 | Some bs \<Rightarrow> length bs)"

text \<open>\<open>Put\<close> and \<open>PutLazy\<close> allocate a fresh virtual file at the address \<open>a\<close>.\<close>

definition Put ::
  "Overlay \<Rightarrow> vheap \<Rightarrow> addr \<Rightarrow> string \<Rightarrow> byte list option \<Rightarrow> u32 \<Rightarrow> Overlay \<times> vheap" where
  "Put o' H a name content mode =
     (o'\<lparr>o_virtuals := (o_virtuals o')(name \<mapsto> a)\<rparr>,
      H(a \<mapsto> \<lparr>vf_Content = content, vf_Size = word_of_nat (content_len content), vf_Mode = mode\<rparr>))"

definition PutLazy ::
  "Overlay \<Rightarrow> vheap \<Rightarrow> addr \<Rightarrow> string \<Rightarrow> u64 \<Rightarrow> u32 \<Rightarrow> Overlay \<times> vheap" where
  "PutLazy o' H a name sz mode =
     (o'\<lparr>o_virtuals := (o_virtuals o')(name \<mapsto> a)\<rparr>,
      H(a \<mapsto> \<lparr>vf_Content = None, vf_Size = sz, vf_Mode = mode\<rparr>))"

definition Fill :: "Overlay \<Rightarrow> vheap \<Rightarrow> string \<Rightarrow> byte list option \<Rightarrow> vheap" where
  "Fill o' H name content =
     (case o_virtuals o' name of
        None \<Rightarrow> H
      | Some a \<Rightarrow>
          (case H a of
             None \<Rightarrow> H
           | Some vf \<Rightarrow> H(a \<mapsto> vf\<lparr>vf_Content := content, vf_Size := word_of_nat (content_len content)\<rparr>)))"

definition Remove :: "Overlay \<Rightarrow> string \<Rightarrow> Overlay" where
  "Remove o' name = o'\<lparr>o_virtuals := (o_virtuals o')(name := None)\<rparr>"

text \<open>Serving the bytes of a virtual file.  Indexing a nil or short slice is a panic.\<close>

definition Getattr :: "VirtualFile \<Rightarrow> Attr" where
  "Getattr vf = \<lparr>a_Mode = vf_Mode vf OR S_IFREG, a_Size = vf_Size vf\<rparr>"

definition read_at :: "byte list \<Rightarrow> nat \<Rightarrow> i64 \<Rightarrow> (errno, byte list) outcome" where
  "read_at data dest off =
     (let end0 = off + word_of_nat dest;
          end1 = (if int (length data) < sint end0 then int (length data) else sint end0)
      in if int (length data) \<le> sint off then Ok []
         else if sint off < 0 \<or> end1 < sint off then Panic
         else Ok (take (nat end1 - nat (sint off)) (drop (nat (sint off)) data)))"

definition virtualNode_Open :: "VirtualFile \<Rightarrow> (errno, byte list) outcome" where
  "virtualNode_Open vf = (case vf_Content vf of None \<Rightarrow> Err EIO | Some data \<Rightarrow> Ok data)"

definition virtualNode_Read :: "VirtualFile \<Rightarrow> nat \<Rightarrow> i64 \<Rightarrow> (errno, byte list) outcome" where
  "virtualNode_Read vf dest off =
     (case vf_Content vf of None \<Rightarrow> Err EIO | Some data \<Rightarrow> read_at data dest off)"

definition virtualFileHandle_Read :: "byte list \<Rightarrow> nat \<Rightarrow> i64 \<Rightarrow> (errno, byte list) outcome" where
  "virtualFileHandle_Read data dest off = read_at data dest off"

section \<open>Policy\<close>

text \<open>The second test of each entry is subsumed by the first; it is kept as the code has it.\<close>

definition isPathOrPrefixAllowed :: "'w Store \<Rightarrow> string \<Rightarrow> bool" where
  "isPathOrPrefixAllowed store path =
     (if fst (IsPathAllowed store path) then True
      else case Current store of
        None \<Rightarrow> True
      | Some m \<Rightarrow> list_ex (\<lambda>e. HasPrefix (fe_Path e) (path @ ''/'') \<or> HasPrefix (fe_Path e) (path @ ''/**''))
          (m_Filesystem m))"

definition policy_denies :: "(addr \<Rightarrow> 'w Store) \<Rightarrow> addr option \<Rightarrow> string \<Rightarrow> bool" where
  "policy_denies stores store path \<longleftrightarrow>
     (case store of
        None \<Rightarrow> False
      | Some a \<Rightarrow> HasManifest (stores a) \<and> \<not> isPathOrPrefixAllowed (stores a) path)"

section \<open>Lookup and listing\<close>

type_synonym 'i lookup_op = "LoopbackRoot option \<Rightarrow> string \<Rightarrow> string \<Rightarrow> (errno, 'i \<times> Attr) outcome"

definition wrap_dir :: "string \<Rightarrow> addr option \<Rightarrow> 'i \<times> Attr \<Rightarrow> 'i node \<times> Attr" where
  "wrap_dir childPath store r =
     (if a_Mode (snd r) AND S_IFDIR \<noteq> 0
      then (DirNode \<lparr>d_RootData = None, d_path = childPath, d_store = store\<rparr>, snd r)
      else (LoopbackInode (fst r), snd r))"

definition overlayDir_Lookup ::
  "(addr \<Rightarrow> 'w Store) \<Rightarrow> 'i lookup_op \<Rightarrow> overlayDir \<Rightarrow> string \<Rightarrow> (errno, 'i node \<times> Attr) outcome" where
  "overlayDir_Lookup stores loopback d name =
     (let childPath = d_path d @ ''/'' @ name
      in if policy_denies stores (d_store d) childPath then Err ENOENT
         else and_then (loopback (d_RootData d) (d_path d) name) (\<lambda>r. Ok (wrap_dir childPath (d_store d) r)))"

definition Overlay_Lookup ::
  "(addr \<Rightarrow> 'w Store) \<Rightarrow> 'i lookup_op \<Rightarrow> vheap \<Rightarrow> Overlay \<Rightarrow> string \<Rightarrow> (errno, 'i node \<times> Attr) outcome" where
  "Overlay_Lookup stores loopback H o' name =
     (case o_virtuals o' name of
        Some a \<Rightarrow>
          (case H a of
             None \<Rightarrow> Panic
           | Some vf \<Rightarrow> Ok (VirtualNode a, \<lparr>a_Mode = vf_Mode vf OR S_IFREG, a_Size = vf_Size vf\<rparr>))
      | None \<Rightarrow>
          let childPath = ''/'' @ name; store = getStore o'
          in if policy_denies stores store childPath then Err ENOENT
             else and_then (loopback (o_RootData o') [] name) (\<lambda>r. Ok (wrap_dir childPath store r)))"

text \<open>A stream is the sequence of results of its \<open>Next\<close> calls; reading stops at an error.\<close>

fun drain_stream :: "(errno, DirEntry) outcome list \<Rightarrow> DirEntry list" where
  "drain_stream (Ok e # stream) = e # drain_stream stream"
| "drain_stream _ = []"

type_synonym readdir_op = "LoopbackRoot option \<Rightarrow> string \<Rightarrow> (errno, (errno, DirEntry) outcome list) outcome"

definition policy_filter :: "(addr \<Rightarrow> 'w Store) \<Rightarrow> addr option \<Rightarrow> string \<Rightarrow> DirEntry list \<Rightarrow> DirEntry list" where
  "policy_filter stores store path entries =
     (case store of
        None \<Rightarrow> entries
      | Some a \<Rightarrow>
          if HasManifest (stores a)
          then filter (\<lambda>e. isPathOrPrefixAllowed (stores a) (path @ ''/'' @ de_Name e)) entries
          else entries)"

definition overlayDir_Readdir ::
  "(addr \<Rightarrow> 'w Store) \<Rightarrow> readdir_op \<Rightarrow> overlayDir \<Rightarrow> (errno, DirEntry list) outcome" where
  "overlayDir_Readdir stores readdir d =
     and_then (readdir (d_RootData d) (d_path d)) (\<lambda>stream.
       Ok (policy_filter stores (d_store d) (d_path d) (drain_stream stream)))"

text \<open>
  The iteration over the map of virtual files visits its names in an unspecified order, the
  argument \<open>order\<close>.
\<close>

definition Overlay_Readdir ::
  "(addr \<Rightarrow> 'w Store) \<Rightarrow> readdir_op \<Rightarrow> string list \<Rightarrow> Overlay \<Rightarrow> (errno, DirEntry list) outcome" where
  "Overlay_Readdir stores readdir order o' =
     and_then (readdir (o_RootData o') []) (\<lambda>stream.
       let entries = policy_filter stores (getStore o') [] (drain_stream stream);
           realNames = de_Name ` set entries
       in Ok (entries @ map (\<lambda>name. \<lparr>de_Name = name, de_Mode = S_IFREG\<rparr>)
                (filter (\<lambda>name. name \<notin> realNames) order)))"

record sliceDirStream =
  sd_entries :: "DirEntry list"
  sd_pos :: nat

definition HasNext :: "sliceDirStream \<Rightarrow> bool" where
  "HasNext s \<longleftrightarrow> sd_pos s < length (sd_entries s)"

definition Next :: "sliceDirStream \<Rightarrow> (errno, DirEntry) outcome \<times> sliceDirStream" where
  "Next s =
     (if length (sd_entries s) \<le> sd_pos s then (Err EIO, s)
      else (Ok (sd_entries s ! sd_pos s), s\<lparr>sd_pos := sd_pos s + 1\<rparr>))"

section \<open>Resolving a path\<close>

text \<open>
  The kernel resolves a path name by name: the first lookup goes to the overlay, the next ones
  to the directory node the one before returned.  \<open>full_path\<close> is the path of a list of names.
\<close>

definition ENOTDIR :: errno where "ENOTDIR = 20"

fun walk_node ::
  "(addr \<Rightarrow> 'w Store) \<Rightarrow> 'i lookup_op \<Rightarrow> 'i node \<Rightarrow> string list \<Rightarrow> (errno, 'i node) outcome" where
  "walk_node stores loopback n [] = Ok n"
| "walk_node stores loopback (DirNode d) (name # names) =
     and_then (overlayDir_Lookup stores loopback d name) (\<lambda>r. walk_node stores loopback (fst r) names)"
| "walk_node stores loopback n (name # names) = Err ENOTDIR"

definition walk ::
  "(addr \<Rightarrow> 'w Store) \<Rightarrow> 'i lookup_op \<Rightarrow> vheap \<Rightarrow> Overlay \<Rightarrow> string \<Rightarrow> string list \<Rightarrow> (errno, 'i node) outcome" where
  "walk stores loopback H o' name names =
     and_then (Overlay_Lookup stores loopback H o' name) (\<lambda>r. walk_node stores loopback (fst r) names)"

definition full_path :: "string list \<Rightarrow> string" where
  "full_path names = concat (map (\<lambda>n. slash # n) names)"

lemma full_path_simps [simp]:
  "full_path [] = []" "full_path (n # ns) = slash # n @ full_path ns"
  "full_path (ns @ ms) = full_path ns @ full_path ms"
  by (simp_all add: full_path_def)

lemma isPathOrPrefixAllowed_traversable:
  "isPathOrPrefixAllowed s path \<longleftrightarrow> traversable Current (\<lambda>s path. fst (IsPathAllowed s path)) s path"
  by (cases "Current s") (auto simp: isPathOrPrefixAllowed_def traversable_def list_ex_iff HasPrefix_iff)

lemma not_denied_iff:
  assumes "store_ok (stores a)" and "Current (stores a) = Some m"
  shows "\<not> policy_denies stores (Some a) path \<longleftrightarrow>
    (\<exists>e \<in> set (m_Filesystem m). matchGlob (fe_Path e) path \<or> HasPrefix (fe_Path e) (path @ ''/''))"
proof -
  have "HasManifest (stores a)" using assms(2) by (simp add: HasManifest_def Current_def)
  then show ?thesis
    using store.denied_iff [OF assms(1), of path] assms(2)
    by (auto simp: policy_denies_def isPathOrPrefixAllowed_traversable)
qed

lemma wrap_dir_node:
  "fst (wrap_dir path store r) = DirNode d \<Longrightarrow> d = \<lparr>d_RootData = None, d_path = path, d_store = store\<rparr>"
  by (auto simp: wrap_dir_def split: if_splits)

text \<open>Below a directory node every node that a walk returns passed the policy of that node.\<close>

lemma walk_node_checked:
  "walk_node stores loopback (DirNode d) names = Ok n \<Longrightarrow> ms \<noteq> [] \<Longrightarrow> names = ms @ ks \<Longrightarrow>
     \<not> policy_denies stores (d_store d) (d_path d @ full_path ms)"
proof (induction names arbitrary: d ms)
  case (Cons name names)
  from Cons.prems(2,3) obtain ms' where ms: "ms = name # ms'" "names = ms' @ ks" by (cases ms) auto
  obtain r where r: "overlayDir_Lookup stores loopback d name = Ok r" "walk_node stores loopback (fst r) names = Ok n"
    using Cons.prems(1) by (auto simp: and_then_Ok_iff)
  from r(1) have nd: "\<not> policy_denies stores (d_store d) (d_path d @ slash # name)"
    and w: "\<exists>x. r = wrap_dir (d_path d @ slash # name) (d_store d) x"
    by (auto simp: overlayDir_Lookup_def Let_def and_then_Ok_iff split: if_splits)
  show ?case
  proof (cases "ms' = []")
    case False
    then obtain d' where d': "fst r = DirNode d'" using r(2) ms(2) by (cases "fst r"; cases ms') auto
    from w d' have "d' = \<lparr>d_RootData = None, d_path = d_path d @ slash # name, d_store = d_store d\<rparr>"
      by (auto dest: wrap_dir_node)
    with Cons.IH [of d' ms'] r(2) d' False ms show ?thesis by simp
  qed (use nd ms in simp)
qed simp

lemma walk_checked:
  assumes "walk stores loopback H o' name names = Ok n" and "o_virtuals o' name = None"
    and "names = ms @ ks"
  shows "\<not> policy_denies stores (o_store o') (full_path (name # ms))"
proof -
  obtain r where r: "Overlay_Lookup stores loopback H o' name = Ok r" "walk_node stores loopback (fst r) names = Ok n"
    using assms(1) by (auto simp: walk_def and_then_Ok_iff)
  from r(1) assms(2) have nd: "\<not> policy_denies stores (o_store o') (slash # name)"
    and w: "\<exists>x. r = wrap_dir (slash # name) (o_store o') x"
    by (auto simp: Overlay_Lookup_def Let_def getStore_def and_then_Ok_iff split: if_splits)
  show ?thesis
  proof (cases "ms = []")
    case False
    then obtain d where d: "fst r = DirNode d" using r(2) assms(3) by (cases "fst r"; cases ms) auto
    from w d have "d = \<lparr>d_RootData = None, d_path = slash # name, d_store = o_store o'\<rparr>" by (auto dest: wrap_dir_node)
    with walk_node_checked [of stores loopback d names n ms ks] r(2) d False assms(3) show ?thesis by simp
  qed (use nd in simp)
qed

text \<open>A walk through the name of a virtual file ends there.\<close>

lemma walk_virtual:
  assumes "walk stores loopback H o' name names = Ok n" and "o_virtuals o' name = Some b"
  shows "names = [] \<and> n = VirtualNode b"
  using assms by (cases names) (auto simp: walk_def Overlay_Lookup_def split: option.splits)

text \<open>With literal globs, no directory above an allowed path is denied, nor is the path itself.\<close>

lemma allowed_not_denied:
  assumes "store_reachable (stores a)" and "Current (stores a) = Some m"
    and "\<forall>e \<in> set (m_Filesystem m). literal_glob (fe_Path e)"
    and "\<exists>e \<in> set (m_Filesystem m). matchGlob (fe_Path e) (full_path (name # ms @ ks))"
  shows "\<not> policy_denies stores (Some a) (full_path (name # ms))"
proof -
  note ok = store_reachable_ok [OF assms(1)]
  let ?t = "traversable Current (\<lambda>s path. fst (IsPathAllowed s path)) (stores a)"
  have t: "?t (full_path (name # ms @ ks))"
    using assms(2,4) IsPathAllowed_ok [OF ok] by (auto simp: traversable_def Current_def)
  have "?t (full_path (name # ms))"
  proof (cases ks)
    case (Cons k ks')
    with t show ?thesis
      using store.ancestors_traversable [OF ok, of "full_path (name # ms)" "k @ full_path ks'"] assms(2,3) by simp
  qed (use t in simp)
  then show ?thesis by (simp add: policy_denies_def isPathOrPrefixAllowed_traversable)
qed

section \<open>Reading\<close>

lemma read_at_slice:
  assumes "length data < 2 ^ 63" and "dest < 2 ^ 63"
  shows "read_at data dest off =
    (if int (length data) \<le> sint off then Ok []
     else if sint off < 0 \<or> 2 ^ 63 \<le> sint off + int dest then Panic
     else Ok (take dest (drop (nat (sint off)) data)))"
proof (cases "int (length data) \<le> sint off \<or> sint off < 0")
  case False
  define k where "k = unat off"
  have big: "unat off < 9223372036854775808"
    using False sint_large [of off] unat_u64_bound [of off] by linarith
  have k: "sint off = int k" using sint_small [OF big] by (simp only: k_def)
  have d: "unat (word_of_nat dest :: i64) = dest"
    using assms(2) by (simp add: unat_of_nat take_bit_eq_mod)
  have e: "unat (off + word_of_nat dest) = k + dest"
    using big assms(2) unat_add_exact [of off "word_of_nat dest"] d by (simp add: k_def)
  show ?thesis
  proof (cases "k + dest < 9223372036854775808")
    case True
    then have "sint (off + word_of_nat dest) = int (k + dest)" using sint_small e by metis
    with True False k assms(1) show ?thesis by (auto simp: read_at_def Let_def nat_add_distrib)
  next
    case wrap: False
    then have "sint (off + word_of_nat dest) = int (k + dest) - 18446744073709551616"
      using sint_large [of "off + word_of_nat dest"] e by linarith
    moreover have "k + dest < 18446744073709551616" using big assms(2) by (simp add: k_def)
    ultimately show ?thesis using wrap False k by (auto simp: read_at_def Let_def)
  qed
qed (auto simp: read_at_def Let_def)

section \<open>Properties\<close>

text \<open>
  C16.  Default deny: with a store attached that has a manifest, whatever a walk from the root
  returns is a virtual file put directly under the root, or every path on the way of it (the target
  included) is matched by an entry of the manifest or lies above one.
\<close>

theorem overlay_default_deny:
  assumes "o_store o' = Some a" and "store_reachable (stores a)" and "Current (stores a) = Some m"
    and "walk stores loopback H o' name names = Ok n" and "names = ms @ ks"
  shows "(\<exists>b. o_virtuals o' name = Some b \<and> names = [] \<and> n = VirtualNode b)
    \<or> (\<exists>e \<in> set (m_Filesystem m).
        matchGlob (fe_Path e) (full_path (name # ms)) \<or> HasPrefix (fe_Path e) (full_path (name # ms) @ ''/''))"
proof (cases "o_virtuals o' name")
  case None
  from walk_checked [OF assms(4) this assms(5)] assms(1)
    not_denied_iff [of stores a m, OF store_reachable_ok [OF assms(2)] assms(3)] show ?thesis by simp
next
  case (Some b)
  with walk_virtual [OF assms(4)] show ?thesis by blast
qed

definition example_stores :: "addr \<Rightarrow> unit Store" where
  "example_stores a = fst (Update NewStore (Some example_manifest) ())"

definition example_overlay :: Overlay where
  "example_overlay = \<lparr>o_RootData = Some \<lparr>lr_Path = ''/'', lr_Dev = 1\<rparr>, o_virtuals = [''v'' \<mapsto> 7], o_store = Some 0\<rparr>"

definition all_dirs :: "string lookup_op" where
  "all_dirs rd path name = Ok (path @ slash # name, \<lparr>a_Mode = S_IFDIR, a_Size = 0\<rparr>)"

lemma example_store_facts:
  "store_reachable (example_stores a)" "Current (example_stores a) = Some example_manifest"
  by (auto simp: example_stores_def Current_def intro: store_reachable.intros)

lemma example_overlay_fields [simp]:
  "o_store example_overlay = Some 0" "o_virtuals example_overlay name = (if name = ''v'' then Some 7 else None)"
  by (simp_all add: example_overlay_def)

lemma example_literal: "\<forall>e \<in> set (m_Filesystem example_manifest). literal_glob (fe_Path e)"
  by (simp add: example_manifest_def example_fs_def literal_glob_def HasSuffix_def TrimSuffix_def no_meta_def)

lemma example_usr: "\<exists>e \<in> set (m_Filesystem example_manifest). matchGlob (fe_Path e) ''/usr/lib''"
  using matchGlob_deep [of "''/usr''" "''/usr/lib''"]
  by (simp add: example_manifest_def example_fs_def)

theorem overlay_default_deny_witness:
  "\<not> (\<exists>n. walk example_stores all_dirs Map.empty example_overlay ''etc'' [] = Ok n)"
proof
  assume "\<exists>n. walk example_stores all_dirs Map.empty example_overlay ''etc'' [] = Ok n"
  then obtain n where "walk example_stores all_dirs Map.empty example_overlay ''etc'' [] = Ok n" ..
  from overlay_default_deny [OF _ example_store_facts this, where ms = "[]" and ks = "[]"]
  show False
    using matchGlob_deep [of "''/usr''" "''/etc''"] matchGlob_one_level [of "''/tmp''" "''/etc''"]
    by (simp add: example_manifest_def example_fs_def HasPrefix_def)
qed

text \<open>
  C17.  The policy never stands in the way of an allowed path.  If the globs of the manifest are literal
  up to a final \<open>/**\<close> or \<open>/*\<close>, a path is matched by one of them, and its first name is not a virtual
  file, then at the root and at the directory node of every directory on the way, the lookup of the next
  name answers exactly what the loopback library answers there, a directory wrapped with its full path.
\<close>

theorem overlay_passes_allowed:
  assumes "o_store o' = Some a" and "store_reachable (stores a)" and "Current (stores a) = Some m"
    and "\<forall>e \<in> set (m_Filesystem m). literal_glob (fe_Path e)"
    and "\<exists>e \<in> set (m_Filesystem m). matchGlob (fe_Path e) (full_path (name # names))" and "o_virtuals o' name = None"
  shows "Overlay_Lookup stores loopback H o' name =
      and_then (loopback (o_RootData o') [] name) (\<lambda>r. Ok (wrap_dir (full_path [name]) (Some a) r))
    \<and> (\<forall>ms k ks rd. names = ms @ k # ks \<longrightarrow>
        overlayDir_Lookup stores loopback \<lparr>d_RootData = rd, d_path = full_path (name # ms), d_store = Some a\<rparr> k =
          and_then (loopback rd (full_path (name # ms)) k) (\<lambda>r. Ok (wrap_dir (full_path (name # ms @ [k])) (Some a) r)))"
proof -
  note nd = allowed_not_denied [of stores a m name, OF assms(2-4)]
  have "\<not> policy_denies stores (Some a) (full_path (name # ms @ [k]))" if "names = ms @ k # ks" for ms k ks
    using nd [of "ms @ [k]" ks] assms(5) that by simp
  then show ?thesis
    using nd [of "[]" names] assms(1,5,6)
    by (auto simp: Overlay_Lookup_def overlayDir_Lookup_def Let_def getStore_def)
qed

text \<open>The loopback library serves a node with root data, and panics on one without.\<close>

definition rooted_dirs :: "string lookup_op" where
  "rooted_dirs rd path name = (case rd of None \<Rightarrow> Panic | Some _ \<Rightarrow> all_dirs rd path name)"

theorem overlay_passes_allowed_witness:
  "Overlay_Lookup example_stores rooted_dirs Map.empty example_overlay ''usr'' =
     Ok (DirNode \<lparr>d_RootData = None, d_path = ''/usr'', d_store = Some 0\<rparr>, \<lparr>a_Mode = S_IFDIR, a_Size = 0\<rparr>)
   \<and> overlayDir_Lookup example_stores rooted_dirs \<lparr>d_RootData = None, d_path = ''/usr'', d_store = Some 0\<rparr> ''lib'' = Panic"
proof -
  have "o_store example_overlay = Some 0" "o_virtuals example_overlay ''usr'' = None" by simp_all
  moreover have "\<exists>e \<in> set (m_Filesystem example_manifest). matchGlob (fe_Path e) (full_path [''usr'', ''lib''])"
    using example_usr by simp
  ultimately have "Overlay_Lookup example_stores rooted_dirs Map.empty example_overlay ''usr'' =
      and_then (rooted_dirs (o_RootData example_overlay) [] ''usr'') (\<lambda>r. Ok (wrap_dir (full_path [''usr'']) (Some 0) r))"
    and "overlayDir_Lookup example_stores rooted_dirs \<lparr>d_RootData = None, d_path = full_path (''usr'' # []), d_store = Some 0\<rparr> ''lib'' =
      and_then (rooted_dirs None (full_path (''usr'' # [])) ''lib'') (\<lambda>r. Ok (wrap_dir (full_path (''usr'' # [] @ [''lib''])) (Some 0) r))"
    using overlay_passes_allowed [where stores = example_stores and o' = example_overlay and a = 0 and name = "''usr''"
        and names = "[''lib'']" and loopback = rooted_dirs and H = Map.empty, OF _ example_store_facts example_literal]
    by blast+
  then show ?thesis by (simp add: example_overlay_def rooted_dirs_def all_dirs_def wrap_dir_def S_IFDIR_def)
qed

text \<open>
  A glob in a directory position breaks this: the pattern \<open>/u?/x\<close> allows the path
  \<open>/us/x\<close>, but its directory is neither matched nor a textual prefix of the pattern, so the
  lookup of \<open>us\<close> answers \<open>ENOENT\<close> whatever the real file system holds.
\<close>

lemma glob_directory_hidden:
  "fst (IsPathAllowed (fst (Update NewStore (Some (example_manifest\<lparr>m_Filesystem := [example_fs ''/u?/x'']\<rparr>)) ())) ''/us/x'')
    \<and> Overlay_Lookup (\<lambda>_. fst (Update NewStore (Some (example_manifest\<lparr>m_Filesystem := [example_fs ''/u?/x'']\<rparr>)) ()))
        loopback H \<lparr>o_RootData = rd, o_virtuals = Map.empty, o_store = Some 0\<rparr> ''us'' = Err ENOENT"
proof -
  let ?s = "fst (Update NewStore (Some (example_manifest\<lparr>m_Filesystem := [example_fs ''/u?/x'']\<rparr>)) ())"
  have ok: "store_ok ?s" by (rule Update_ok)
  have yes: "matchGlob ''/u?/x'' ''/us/x''"
    by (simp add: matchGlob_def HasSuffix_def Match.simps [of "''/u?/x''"] Match.simps [of "[]"] scanChunk_def
        scan_body.simps matchChunk_def matchChunk_loop.simps)
  have "\<not> matchGlob ''/u?/x'' ''/us''"
    using matchGlob_depth [of "''/u?/x''" "''/us''"] by (auto simp: HasSuffix_def plain_def)
  then have "policy_denies (\<lambda>_. ?s) (Some 0) ''/us''"
    using not_denied_iff [of "\<lambda>_. ?s" 0 _ "''/us''", OF ok]
    by (auto simp: Current_def example_fs_def HasPrefix_def)
  then show ?thesis
    using IsPathAllowed_ok [OF ok, of _ "''/us/x''"] yes
    by (simp add: Overlay_Lookup_def getStore_def example_fs_def)
qed

lemma policy_filter_names:
  "de_Name ` set (policy_filter stores store path entries) =
     {name \<in> de_Name ` set entries. \<not> policy_denies stores store (path @ slash # name)}"
  by (auto simp: policy_filter_def policy_denies_def split: option.splits)

lemma policy_filter_distinct:
  "distinct (map de_Name entries) \<Longrightarrow> distinct (map de_Name (policy_filter stores store path entries))"
  by (auto simp: policy_filter_def distinct_map_filter split: option.splits)

text \<open>
  C20.  The root listing and the root lookup agree: a name is listed exactly if it is a virtual
  file or a real entry that the policy lets through, no name is listed twice, and every listed
  name that the real file system (or the heap of virtual files) knows can be looked up.
\<close>

theorem listing_agrees_with_lookup:
  assumes "Overlay_Readdir stores readdir order o' = Ok entries"
    and "readdir (o_RootData o') [] = Ok stream" and "distinct (map de_Name (drain_stream stream))"
    and "distinct order" and "set order = dom (o_virtuals o')" and "ran (o_virtuals o') \<subseteq> dom H"
    and "\<And>name. name \<in> de_Name ` set (drain_stream stream) \<Longrightarrow> is_ok (loopback (o_RootData o') [] name)"
  shows "distinct (map de_Name entries)
    \<and> de_Name ` set entries = dom (o_virtuals o') \<union>
        {name \<in> de_Name ` set (drain_stream stream). \<not> policy_denies stores (o_store o') (slash # name)}
    \<and> (\<forall>name \<in> de_Name ` set entries. is_ok (Overlay_Lookup stores loopback H o' name))"
proof -
  let ?real = "policy_filter stores (o_store o') [] (drain_stream stream)"
  have e: "entries = ?real @ map (\<lambda>name. \<lparr>de_Name = name, de_Mode = S_IFREG\<rparr>)
      (filter (\<lambda>name. name \<notin> de_Name ` set ?real) order)"
    using assms(1,2) by (simp add: Overlay_Readdir_def Let_def getStore_def)
  have names: "de_Name ` set entries = de_Name ` set ?real \<union> dom (o_virtuals o')"
    unfolding e using assms(5) by (auto simp: image_Un image_image)
  have d: "distinct (map de_Name entries)"
    unfolding e using policy_filter_distinct [OF assms(3)] assms(4) by (auto simp: comp_def)
  have "is_ok (Overlay_Lookup stores loopback H o' name)" if "name \<in> de_Name ` set entries" for name
  proof (cases "o_virtuals o' name")
    case None
    then have "name \<in> de_Name ` set (drain_stream stream)" "\<not> policy_denies stores (o_store o') (slash # name)"
      using that names policy_filter_names [of stores "o_store o'" "[]" "drain_stream stream"] by auto
    then show ?thesis
      using None assms(7) [of name] by (auto simp: Overlay_Lookup_def getStore_def is_ok_iff Let_def)
  next
    case (Some a)
    then have "a \<in> dom H" using assms(6) by (auto intro: ranI)
    with Some show ?thesis by (auto simp: Overlay_Lookup_def)
  qed
  with d names policy_filter_names [of stores "o_store o'" "[]" "drain_stream stream"] show ?thesis by auto
qed

theorem listing_agrees_with_lookup_witness:
  "\<exists>entries. Overlay_Readdir example_stores (\<lambda>_ _. Ok [Ok \<lparr>de_Name = ''usr'', de_Mode = S_IFDIR\<rparr>]) [''v''] example_overlay
      = Ok entries \<and> de_Name ` set entries = {''v'', ''usr''}"
proof -
  let ?rd = "\<lambda>_ _. Ok [Ok \<lparr>de_Name = ''usr'', de_Mode = S_IFDIR\<rparr>]"
  obtain entries where e: "Overlay_Readdir example_stores ?rd [''v''] example_overlay = Ok entries"
    by (simp add: Overlay_Readdir_def Let_def)
  have "\<not> policy_denies example_stores (Some 0) ''/usr''"
    using not_denied_iff [of example_stores 0 example_manifest "''/usr''"] example_store_facts store_reachable_ok
    by (auto simp: example_manifest_def example_fs_def HasPrefix_def)
  moreover have "dom (o_virtuals example_overlay) = {''v''}" by (auto simp: dom_def)
  ultimately have "de_Name ` set entries = {''v'', ''usr''}"
    using listing_agrees_with_lookup [OF e, where loopback = all_dirs and H = "\<lambda>_. Some \<lparr>vf_Content = None, vf_Size = 0, vf_Mode = 0\<rparr>"]
    by (auto simp: all_dirs_def)
  with e show ?thesis by blast
qed

text \<open>
  A lazy file: its node is found at once with the declared size, opening and reading it
  fail with \<open>EIO\<close> until \<open>Fill\<close>, afterwards the node that was looked up before serves the
  filled bytes, and a later \<open>Put\<close> of the same name changes what the name resolves to but not
  what that node serves.
\<close>

lemma lazy_file_lifecycle:
  assumes "PutLazy o' H a name sz mode = (o1, H1)" and "Fill o1 H1 name (Some data) = H2"
    and "b \<noteq> a" and "Put o1 H2 b name (Some data') mode' = (o3, H3)"
  shows "Overlay_Lookup stores loopback H1 o1 name = Ok (VirtualNode a, \<lparr>a_Mode = mode OR S_IFREG, a_Size = sz\<rparr>)
    \<and> (\<forall>vf. H1 a = Some vf \<longrightarrow> virtualNode_Open vf = Err EIO \<and> virtualNode_Read vf dest off = Err EIO)
    \<and> (\<exists>vf. H2 a = Some vf \<and> H3 a = Some vf \<and> virtualNode_Open vf = Ok data
         \<and> a_Size (Getattr vf) = word_of_nat (length data)
         \<and> virtualNode_Read vf dest off = virtualFileHandle_Read data dest off)
    \<and> fst ` set_option (case Overlay_Lookup stores loopback H3 o3 name of Ok r \<Rightarrow> Some r | _ \<Rightarrow> None) = {VirtualNode b}"
  using assms
  by (auto simp: PutLazy_def Put_def Fill_def Overlay_Lookup_def virtualNode_Open_def virtualNode_Read_def
      virtualFileHandle_Read_def Getattr_def content_len_def)

text \<open>
  The bounds of a read of a virtual file: at or past the end it is empty, inside it is the
  requested slice cut at the end, and a negative offset or one whose end leaves the \<open>int\<close>
  range makes the slice expression panic.
\<close>

lemma virtual_read_bounds:
  assumes "vf_Content vf = Some data" and "length data < 2 ^ 63" and "dest < 2 ^ 63"
  shows "virtualNode_Read vf dest off =
    (if int (length data) \<le> sint off then Ok []
     else if sint off < 0 \<or> 2 ^ 63 \<le> sint off + int dest then Panic
     else Ok (take dest (drop (nat (sint off)) data)))"
  using assms(1) read_at_slice [OF assms(2,3)] by (simp add: virtualNode_Read_def)

text \<open>
  The test for a directory masks the mode with \<open>S_IFDIR\<close> instead of comparing its type
  bits, and the type bits of sockets (\<open>0xC000\<close>) and block devices (\<open>0x6000\<close>) contain that bit:
  the lookup of a socket or a block device that the policy allows returns a directory node.
\<close>

lemma socket_becomes_directory:
  assumes "\<not> policy_denies stores (d_store d) (d_path d @ ''/'' @ name)"
    and "loopback (d_RootData d) (d_path d) name = Ok (i, \<lparr>a_Mode = perm OR t, a_Size = sz\<rparr>)" and "t \<in> {0xC000, 0x6000}"
  shows "\<exists>d' attr. overlayDir_Lookup stores loopback d name = Ok (DirNode d', attr)"
proof -
  have "bit ((perm OR t) AND S_IFDIR) 14"
    using assms(3) by (auto simp: S_IFDIR_def bit_simps)
  then have "(perm OR t) AND S_IFDIR \<noteq> 0" by auto
  then show ?thesis using assms(1,2) by (simp add: overlayDir_Lookup_def Let_def wrap_dir_def)
qed

text \<open>
  The directory nodes below the root embed a loopback node without root data: wherever the
  loopback library cannot serve such a node (it panics), a walk through the overlay of any allowed
  path whose first name is a real directory panics at the second name.
\<close>

lemma nested_lookup_panics:
  assumes "\<And>path name. loopback None path name = Panic"
    and "o_virtuals o' name = None" and "loopback (o_RootData o') [] name = Ok (i, attr)"
    and "a_Mode attr AND S_IFDIR \<noteq> 0"
    and "\<not> policy_denies stores (o_store o') (full_path [name])"
    and "\<not> policy_denies stores (o_store o') (full_path [name, child])"
  shows "walk stores loopback H o' name (child # names) = Panic"
  using assms by (simp add: walk_def Overlay_Lookup_def getStore_def wrap_dir_def overlayDir_Lookup_def)

end
