(* ===== verification/Egress_Firewall.thy ===== *)
theory Egress_Firewall
  imports Manifest_Store
begin

text \<open>
  The egress firewall (\<open>internal/network/firewall.go\<close>).  The program drives the external
  command \<open>iptables\<close>: running it with a list of arguments is the parameter \<open>run\<close>, which
  returns \<open>None\<close> on success or the output and the exit error, and changes the world \<open>'w\<close>.
  The documented behaviour of the command that the firewall relies on is \<open>iptables_laws\<close>.
  Name resolution (\<open>net.LookupHost\<close>) is the parameter \<open>lookupHost\<close>.
\<close>

section \<open>Addresses\<close>

text \<open>\<open>net.SplitHostPort\<close>; \<open>None\<close> is its error.\<close>

definition index_of :: "char \<Rightarrow> string \<Rightarrow> nat option" where
  "index_of c s = (if c \<in> set s then Some (length (takeWhile (\<lambda>d. d \<noteq> c) s)) else None)"

definition last_index_of :: "char \<Rightarrow> string \<Rightarrow> nat option" where
  "last_index_of c s = map_option (\<lambda>i. length s - 1 - i) (index_of c (rev s))"

definition SplitHostPort :: "string \<Rightarrow> (string \<times> string) option" where
  "SplitHostPort hostport =
     (case last_index_of (CHR '':'') hostport of
        None \<Rightarrow> None
      | Some i \<Rightarrow>
          if hd hostport = CHR ''['' then
            (case index_of (CHR '']'') hostport of
               None \<Rightarrow> None
             | Some e \<Rightarrow>
                 if e + 1 = i \<and> CHR ''['' \<notin> set (drop 1 hostport) \<and> CHR '']'' \<notin> set (drop (e + 1) hostport)
                 then Some (drop 1 (take e hostport), drop (i + 1) hostport)
                 else None)
          else if CHR '':'' \<in> set (take i hostport) \<or> CHR ''['' \<in> set hostport \<or> CHR '']'' \<in> set hostport
            then None
          else Some (take i hostport, drop (i + 1) hostport))"

text \<open>Whether \<open>net.ParseIP\<close> accepts a string: a dotted IPv4 or an IPv6 address, no zone.\<close>

definition is_digit :: "char \<Rightarrow> bool" where
  "is_digit c \<longleftrightarrow> c \<in> set ''0123456789''"

definition is_hex :: "char \<Rightarrow> bool" where
  "is_hex c \<longleftrightarrow> is_digit c \<or> c \<in> set ''abcdefABCDEF''"

definition digits_value :: "string \<Rightarrow> nat" where
  "digits_value s = foldl (\<lambda>v c. 10 * v + (of_char c - 48)) 0 s"

definition ipv4_field :: "string \<Rightarrow> bool" where
  "ipv4_field s \<longleftrightarrow> s \<noteq> [] \<and> list_all is_digit s \<and> (length s > 1 \<longrightarrow> hd s \<noteq> CHR ''0'') \<and> digits_value s \<le> 255"

definition is_ipv4 :: "string \<Rightarrow> bool" where
  "is_ipv4 s \<longleftrightarrow> length (split_on (CHR ''.'') s) = 4 \<and> list_all ipv4_field (split_on (CHR ''.'') s)"

definition hextet :: "string \<Rightarrow> bool" where
  "hextet s \<longleftrightarrow> s \<noteq> [] \<and> length s \<le> 4 \<and> list_all is_hex s"

text \<open>The number of 16-bit groups of a colon-separated part; the last one may be an IPv4 address.\<close>

definition ipv6_groups :: "bool \<Rightarrow> string \<Rightarrow> nat option" where
  "ipv6_groups final s =
     (if s = [] then Some 0
      else let gs = split_on (CHR '':'') s
           in if list_all hextet gs then Some (length gs)
              else if final \<and> list_all hextet (butlast gs) \<and> is_ipv4 (last gs) then Some (length gs + 1)
              else None)"

fun cut_double_colon :: "string \<Rightarrow> (string \<times> string) option" where
  "cut_double_colon (a # b # s) =
     (if a = CHR '':'' \<and> b = CHR '':'' then Some ([], s)
      else map_option (\<lambda>(l, r). (a # l, r)) (cut_double_colon (b # s)))"
| "cut_double_colon _ = None"

definition is_ipv6 :: "string \<Rightarrow> bool" where
  "is_ipv6 s \<longleftrightarrow>
     (case cut_double_colon s of
        None \<Rightarrow> s \<noteq> [] \<and> ipv6_groups True s = Some 8
      | Some (l, r) \<Rightarrow>
          (case (ipv6_groups False l, ipv6_groups True r) of
             (Some m, Some n) \<Rightarrow> m + n \<le> 7 | _ \<Rightarrow> False))"

definition ParseIP :: "string \<Rightarrow> bool" where
  "ParseIP s =
     (case filter (\<lambda>c. c \<in> set ''.:%'') s of
        [] \<Rightarrow> False
      | c # _ \<Rightarrow> if c = CHR ''.'' then is_ipv4 s else if c = CHR '':'' then is_ipv6 s else False)"

section \<open>Running iptables\<close>

type_synonym 'w ipt_run = "string list \<Rightarrow> 'w \<Rightarrow> (string \<times> string) option \<times> 'w"

definition is_space :: "char \<Rightarrow> bool" where
  "is_space c \<longleftrightarrow> c \<in> {CHR '' '', CHR 0x09, CHR 0x0A, CHR 0x0B, CHR 0x0C, CHR 0x0D}"

definition TrimSpace :: "string \<Rightarrow> string" where
  "TrimSpace s = rev (dropWhile is_space (rev (dropWhile is_space s)))"

definition iptables :: "'w ipt_run \<Rightarrow> string list \<Rightarrow> (string, unit, 'w) io" where
  "iptables run args w =
     (case run args w of
        (None, w') \<Rightarrow> (Ok (), w')
      | (Some (out, err), w') \<Rightarrow>
          (Err (''iptables '' @ join_with '' '' args @ '': '' @ TrimSpace out @ '' ('' @ err @ '')''), w'))"

section \<open>The firewall\<close>

definition chainName :: string where "chainName = ''AETHER_EGRESS''"

record Firewall =
  tunnelHost :: string
  tunnelPort :: int

datatype fw_error =
    CreateChain string | FlushExisting string | OutputJump string | DropRule string
  | FlushChain string | LoopbackRule string | DnsUdpRule string | DnsTcpRule string
  | InvalidPattern string | EntryRule string

definition splitHostPort :: "string \<Rightarrow> string \<times> string" where
  "splitHostPort pattern =
     (case SplitHostPort pattern of None \<Rightarrow> (pattern, []) | Some (host, port) \<Rightarrow> (host, port))"

definition resolveHost :: "(string \<Rightarrow> string list option) \<Rightarrow> string \<Rightarrow> string list" where
  "resolveHost lookupHost host =
     (if ParseIP host then [host] else case lookupHost host of None \<Rightarrow> [] | Some addrs \<Rightarrow> addrs)"

definition tunnel_rule :: "Firewall \<Rightarrow> string \<Rightarrow> string list" where
  "tunnel_rule fw ip =
     [''-d'', ip @ ''/32'', ''-p'', ''tcp'', ''--dport'', Itoa (tunnelPort fw), ''-j'', ''ACCEPT'']"

fun addTunnelRules :: "'w ipt_run \<Rightarrow> Firewall \<Rightarrow> string list \<Rightarrow> (fw_error, unit, 'w) io" where
  "addTunnelRules run fw [] = io_return ()"
| "addTunnelRules run fw (ip # ips) =
     io_try (iptables run ([''-A'', chainName] @ tunnel_rule fw ip)) (addTunnelRules run fw ips)"

definition addBaseRules ::
  "'w ipt_run \<Rightarrow> (string \<Rightarrow> string list option) \<Rightarrow> Firewall \<Rightarrow> (fw_error, unit, 'w) io" where
  "addBaseRules run lookupHost fw =
     io_then (io_map_err LoopbackRule (iptables run [''-A'', chainName, ''-o'', ''lo'', ''-j'', ''ACCEPT''])) (\<lambda>_.
     io_then (if tunnelHost fw \<noteq> [] then addTunnelRules run fw (resolveHost lookupHost (tunnelHost fw))
              else io_return ()) (\<lambda>_.
     io_then (io_map_err DnsUdpRule
       (iptables run [''-A'', chainName, ''-p'', ''udp'', ''--dport'', ''53'', ''-j'', ''ACCEPT''])) (\<lambda>_.
     io_map_err DnsTcpRule
       (iptables run [''-A'', chainName, ''-p'', ''tcp'', ''--dport'', ''53'', ''-j'', ''ACCEPT'']))))"

definition entry_rule :: "string \<Rightarrow> string \<Rightarrow> string list" where
  "entry_rule dest portStr =
     [''-d'', dest, ''-p'', ''tcp''] @ (if portStr \<noteq> [] then [''--dport'', portStr] else []) @ [''-j'', ''ACCEPT'']"

fun addIPs :: "'w ipt_run \<Rightarrow> string \<Rightarrow> string list \<Rightarrow> (fw_error, unit, 'w) io" where
  "addIPs run portStr [] = io_return ()"
| "addIPs run portStr (ip # ips) =
     io_then (io_map_err EntryRule (iptables run ([''-A'', chainName] @ entry_rule (ip @ ''/32'') portStr)))
       (\<lambda>_. addIPs run portStr ips)"

definition addEntryRules ::
  "'w ipt_run \<Rightarrow> (string \<Rightarrow> string list option) \<Rightarrow> NetworkEntry \<Rightarrow> (fw_error, unit, 'w) io" where
  "addEntryRules run lookupHost entry =
     (let (host, portStr) = splitHostPort (ne_Pattern entry)
      in if host = [] then io_fail (InvalidPattern (ne_Pattern entry))
         else let ips = resolveHost lookupHost host
              in if ips = []
                 then io_map_err EntryRule (iptables run ([''-A'', chainName] @ entry_rule host portStr))
                 else addIPs run portStr ips)"

fun addEntries ::
  "'w ipt_run \<Rightarrow> (string \<Rightarrow> string list option) \<Rightarrow> NetworkEntry list \<Rightarrow> (fw_error, unit, 'w) io" where
  "addEntries run lookupHost [] = io_return ()"
| "addEntries run lookupHost (e # es) =
     io_try (addEntryRules run lookupHost e) (addEntries run lookupHost es)"

definition addDrop :: "'w ipt_run \<Rightarrow> (fw_error, unit, 'w) io" where
  "addDrop run = io_map_err DropRule (iptables run [''-A'', chainName, ''-j'', ''DROP''])"

definition Apply ::
  "'w ipt_run \<Rightarrow> (string \<Rightarrow> string list option) \<Rightarrow> Firewall \<Rightarrow> NetworkEntry list \<Rightarrow> (fw_error, unit, 'w) io" where
  "Apply run lookupHost fw entries =
     io_then (io_map_err FlushChain (iptables run [''-F'', chainName])) (\<lambda>_.
     io_then (addBaseRules run lookupHost fw) (\<lambda>_.
     io_then (addEntries run lookupHost entries) (\<lambda>_. addDrop run)))"

definition createChain :: "'w ipt_run \<Rightarrow> (fw_error, unit, 'w) io" where
  "createChain run w =
     (case iptables run [''-N'', chainName] w of
        (Err msg, w') \<Rightarrow>
          if \<not> Contains msg ''already exists'' then (Err (CreateChain msg), w')
          else io_map_err FlushExisting (iptables run [''-F'', chainName]) w'
      | (r, w') \<Rightarrow> (map_err CreateChain r, w'))"

definition addOutputJump :: "'w ipt_run \<Rightarrow> (fw_error, unit, 'w) io" where
  "addOutputJump run w =
     (case iptables run [''-C'', ''OUTPUT'', ''-j'', chainName] w of
        (Err _, w') \<Rightarrow> io_map_err OutputJump (iptables run [''-A'', ''OUTPUT'', ''-j'', chainName]) w'
      | (r, w') \<Rightarrow> (map_err OutputJump r, w'))"

definition Firewall_init ::
  "'w ipt_run \<Rightarrow> (string \<Rightarrow> string list option) \<Rightarrow> Firewall \<Rightarrow> (fw_error, unit, 'w) io" where
  "Firewall_init run lookupHost fw =
     io_then (createChain run) (\<lambda>_.
     io_then (addOutputJump run) (\<lambda>_.
     io_then (addBaseRules run lookupHost fw) (\<lambda>_. addDrop run)))"

definition Firewall_Setup ::
  "'w ipt_run \<Rightarrow> (string \<Rightarrow> string list option) \<Rightarrow> string \<Rightarrow> int \<Rightarrow> (fw_error, Firewall, 'w) io" where
  "Firewall_Setup run lookupHost host port =
     (let fw = \<lparr>tunnelHost = host, tunnelPort = port\<rparr>
      in io_then (Firewall_init run lookupHost fw) (\<lambda>_. io_return fw))"

definition Teardown :: "'w ipt_run \<Rightarrow> (fw_error, unit, 'w) io" where
  "Teardown run =
     io_try (iptables run [''-D'', ''OUTPUT'', ''-j'', chainName])
     (io_try (iptables run [''-F'', chainName])
     (io_try (iptables run [''-X'', chainName]) (io_return ())))"

section \<open>What the firewall relies on\<close>

text \<open>
  The view of the world through \<open>iptables\<close>: \<open>chain w\<close> are the rules of the agent's chain
  (\<open>None\<close> if it does not exist) and \<open>jump w\<close> says whether \<open>OUTPUT\<close> jumps to it.  Appending
  adds one rule at the end, flushing empties the chain, \<open>-N\<close> creates it empty, \<open>-C\<close> tests for
  the jump, and a command that fails changes nothing.
\<close>

definition iptables_laws ::
  "'w ipt_run \<Rightarrow> ('w \<Rightarrow> string list list option) \<Rightarrow> ('w \<Rightarrow> bool) \<Rightarrow> bool" where
  "iptables_laws run chain jump \<longleftrightarrow>
     (\<forall>r w e w'. run (''-A'' # chainName # r) w = (e, w') \<longrightarrow> jump w' = jump w
        \<and> (if e = None then \<exists>rs. chain w = Some rs \<and> chain w' = Some (rs @ [r]) else chain w' = chain w))
   \<and> (\<forall>w e w'. run [''-F'', chainName] w = (e, w') \<longrightarrow> jump w' = jump w
        \<and> (if e = None then chain w' = Some [] else chain w' = chain w))
   \<and> (\<forall>w e w'. run [''-N'', chainName] w = (e, w') \<longrightarrow> jump w' = jump w
        \<and> (if e = None then chain w' = Some [] else chain w' = chain w))
   \<and> (\<forall>w e w'. run [''-C'', ''OUTPUT'', ''-j'', chainName] w = (e, w') \<longrightarrow>
        chain w' = chain w \<and> jump w' = jump w \<and> (e = None \<longleftrightarrow> jump w))
   \<and> (\<forall>w e w'. run [''-A'', ''OUTPUT'', ''-j'', chainName] w = (e, w') \<longrightarrow>
        chain w' = chain w \<and> jump w' = (e = None \<or> jump w))"

text \<open>The verdict of a chain on a packet: the target of the first rule whose conditions match.\<close>

definition rule_conditions :: "string list \<Rightarrow> string list" where
  "rule_conditions r = take (length r - 2) r"

fun verdict :: "(string list \<Rightarrow> 'p \<Rightarrow> bool) \<Rightarrow> string list list \<Rightarrow> 'p \<Rightarrow> string option" where
  "verdict matches [] p = None"
| "verdict matches (r # rs) p = (if matches (rule_conditions r) p then Some (last r) else verdict matches rs p)"

text \<open>The rules that the code means to install, in the order it installs them.\<close>

definition base_rules :: "(string \<Rightarrow> string list option) \<Rightarrow> Firewall \<Rightarrow> string list list" where
  "base_rules lookupHost fw =
     [''-o'', ''lo'', ''-j'', ''ACCEPT'']
     # (if tunnelHost fw \<noteq> [] then map (tunnel_rule fw) (resolveHost lookupHost (tunnelHost fw)) else [])
     @ [[''-p'', ''udp'', ''--dport'', ''53'', ''-j'', ''ACCEPT''],
        [''-p'', ''tcp'', ''--dport'', ''53'', ''-j'', ''ACCEPT'']]"

definition entry_rules :: "(string \<Rightarrow> string list option) \<Rightarrow> NetworkEntry \<Rightarrow> string list list" where
  "entry_rules lookupHost entry =
     (let (host, portStr) = splitHostPort (ne_Pattern entry)
      in if host = [] then []
         else let ips = resolveHost lookupHost host
              in if ips = [] then [entry_rule host portStr]
                 else map (\<lambda>ip. entry_rule (ip @ ''/32'') portStr) ips)"

definition drop_rule :: "string list" where "drop_rule = [''-j'', ''DROP'']"

lemma iptables_append:
  assumes "iptables_laws run chain jump" and "run (''-A'' # chainName # r) w = (e, w')"
  shows "jump w' = jump w"
    and "if e = None then \<exists>rs. chain w = Some rs \<and> chain w' = Some (rs @ [r]) else chain w' = chain w"
  using assms unfolding iptables_laws_def by blast+

lemma iptables_flush:
  assumes "iptables_laws run chain jump" and "run [''-F'', chainName] w = (e, w')"
  shows "jump w' = jump w" and "if e = None then chain w' = Some [] else chain w' = chain w"
  using assms unfolding iptables_laws_def by blast+

lemma iptables_new:
  assumes "iptables_laws run chain jump" and "run [''-N'', chainName] w = (e, w')"
  shows "if e = None then chain w' = Some [] else chain w' = chain w"
  using assms unfolding iptables_laws_def by blast

lemma iptables_check:
  assumes "iptables_laws run chain jump" and "run [''-C'', ''OUTPUT'', ''-j'', chainName] w = (e, w')"
  shows "chain w' = chain w \<and> jump w' = jump w \<and> (e = None \<longleftrightarrow> jump w)"
  using assms unfolding iptables_laws_def by blast

lemma iptables_jump:
  assumes "iptables_laws run chain jump" and "run [''-A'', ''OUTPUT'', ''-j'', chainName] w = (e, w')"
  shows "chain w' = chain w \<and> jump w' = (e = None \<or> jump w)"
  using assms unfolding iptables_laws_def by blast

section \<open>Programs that only append\<close>

definition appends :: "('w \<Rightarrow> string list list option) \<Rightarrow> ('w \<Rightarrow> bool) \<Rightarrow> string list set \<Rightarrow> ('e, 'a, 'w) io \<Rightarrow> bool" where
  "appends chain jump R c \<longleftrightarrow> (\<forall>w r w'. c w = (r, w') \<longrightarrow> r \<noteq> Panic \<and> jump w' = jump w
     \<and> (\<forall>rs. chain w = Some rs \<longrightarrow> (\<exists>new. chain w' = Some (rs @ new) \<and> set new \<subseteq> R)))"

named_theorems appends_intros \<open>rules that follow the structure of a program that appends rules\<close>

lemma appends_return [appends_intros]: "appends chain jump R (io_return x)"
  by (simp add: appends_def)

lemma appends_fail [appends_intros]: "appends chain jump R (io_fail e)"
  by (simp add: appends_def)

lemma appends_map_err [appends_intros]: "appends chain jump R c \<Longrightarrow> appends chain jump R (io_map_err g c)"
  unfolding appends_def io_map_err_def by (fastforce split: prod.splits elim: map_err.elims)

lemma appends_step:
  assumes "appends chain jump R c" and "c w = (r, w')" and "appends chain jump R d" and "d w' = (r', w'')"
  shows "r' \<noteq> Panic \<and> jump w'' = jump w
    \<and> (\<forall>rs. chain w = Some rs \<longrightarrow> (\<exists>new. chain w'' = Some (rs @ new) \<and> set new \<subseteq> R))"
proof -
  have 1: "jump w' = jump w" "\<And>rs. chain w = Some rs \<Longrightarrow> \<exists>new. chain w' = Some (rs @ new) \<and> set new \<subseteq> R"
    using assms(1,2) unfolding appends_def by blast+
  have 2: "r' \<noteq> Panic" "jump w'' = jump w'" "\<And>rs. chain w' = Some rs \<Longrightarrow> \<exists>new. chain w'' = Some (rs @ new) \<and> set new \<subseteq> R"
    using assms(3,4) unfolding appends_def by blast+
  have "\<exists>new. chain w'' = Some (rs @ new) \<and> set new \<subseteq> R" if rs: "chain w = Some rs" for rs
  proof -
    obtain n1 where "chain w' = Some (rs @ n1)" "set n1 \<subseteq> R" using 1(2) [OF rs] by blast
    moreover from this(1) obtain n2 where "chain w'' = Some ((rs @ n1) @ n2)" "set n2 \<subseteq> R" using 2(3) by blast
    ultimately show ?thesis by (intro exI [of _ "n1 @ n2"]) simp
  qed
  with 1 2 show ?thesis by simp
qed

lemma appends_then [appends_intros]:
  assumes "appends chain jump R c" and "\<And>x. appends chain jump R (f x)"
  shows "appends chain jump R (io_then c f)"
  unfolding appends_def
proof (intro allI impI)
  fix w r w'' assume eq: "io_then c f w = (r, w'')"
  obtain s w' where c: "c w = (s, w')" by fastforce
  show "r \<noteq> Panic \<and> jump w'' = jump w
    \<and> (\<forall>rs. chain w = Some rs \<longrightarrow> (\<exists>new. chain w'' = Some (rs @ new) \<and> set new \<subseteq> R))"
  proof (cases s)
    case (Ok x)
    then have "f x w' = (r, w'')" using eq c by (simp add: io_then_def)
    then show ?thesis by (rule appends_step [OF assms(1) c assms(2)])
  next
    case (Err e)
    then have "r = Err e" "w'' = w'" using eq c by (auto simp: io_then_def)
    then show ?thesis using assms(1) c unfolding appends_def by blast
  next
    case Panic
    then show ?thesis using assms(1) c unfolding appends_def by blast
  qed
qed

lemma appends_try [appends_intros]:
  assumes "appends chain jump R c" and "appends chain jump R d"
  shows "appends chain jump R (io_try c d)"
  unfolding appends_def
proof (intro allI impI)
  fix w r w'' assume eq: "io_try c d w = (r, w'')"
  obtain s w' where c: "c w = (s, w')" by fastforce
  have "s \<noteq> Panic" using assms(1) c unfolding appends_def by blast
  then have "d w' = (r, w'')" using eq c by (cases s) (auto simp: io_try_def)
  then show "r \<noteq> Panic \<and> jump w'' = jump w
    \<and> (\<forall>rs. chain w = Some rs \<longrightarrow> (\<exists>new. chain w'' = Some (rs @ new) \<and> set new \<subseteq> R))"
    by (rule appends_step [OF assms(1) c assms(2)])
qed

lemma appends_iptables:
  assumes "iptables_laws run chain jump" and "r \<in> R"
  shows "appends chain jump R (iptables run (''-A'' # chainName # r))"
  unfolding appends_def
proof (intro allI impI)
  fix w s w' assume eq: "iptables run (''-A'' # chainName # r) w = (s, w')"
  obtain e where e: "run (''-A'' # chainName # r) w = (e, w')" "s \<noteq> Panic"
    using eq by (auto simp: iptables_def split: prod.splits option.splits)
  show "s \<noteq> Panic \<and> jump w' = jump w
      \<and> (\<forall>rs. chain w = Some rs \<longrightarrow> (\<exists>new. chain w' = Some (rs @ new) \<and> set new \<subseteq> R))"
    using iptables_append [OF assms(1) e(1)] e(2) assms(2) by (auto split: if_splits)
qed

lemma appends_tunnel:
  assumes "iptables_laws run chain jump"
  shows "tunnel_rule fw ` set ips \<subseteq> R \<Longrightarrow> appends chain jump R (addTunnelRules run fw ips)"
  by (induction ips) (auto intro!: appends_intros appends_iptables [OF assms])

lemma appends_base:
  assumes "iptables_laws run chain jump" and "set (base_rules lookupHost fw) \<subseteq> R"
  shows "appends chain jump R (addBaseRules run lookupHost fw)"
  unfolding addBaseRules_def
  using assms(2) by (auto simp: base_rules_def split: if_splits
      intro!: appends_intros appends_iptables [OF assms(1)] appends_tunnel [OF assms(1)])

lemma appends_IPs:
  assumes "iptables_laws run chain jump"
  shows "(\<lambda>ip. entry_rule (ip @ ''/32'') portStr) ` set ips \<subseteq> R \<Longrightarrow> appends chain jump R (addIPs run portStr ips)"
  by (induction ips) (auto intro!: appends_intros appends_iptables [OF assms])

lemma appends_entry:
  assumes "iptables_laws run chain jump" and "set (entry_rules lookupHost entry) \<subseteq> R"
  shows "appends chain jump R (addEntryRules run lookupHost entry)"
proof -
  obtain host portStr where "splitHostPort (ne_Pattern entry) = (host, portStr)" by fastforce
  then show ?thesis
    using assms(2) by (auto simp: addEntryRules_def entry_rules_def Let_def
        intro!: appends_intros appends_iptables [OF assms(1)] appends_IPs [OF assms(1)])
qed

lemma appends_entries:
  assumes "iptables_laws run chain jump"
  shows "(\<Union>e \<in> set es. set (entry_rules lookupHost e)) \<subseteq> R \<Longrightarrow> appends chain jump R (addEntries run lookupHost es)"
  by (induction es) (auto intro!: appends_intros appends_entry [OF assms])

section \<open>Installed chains\<close>

lemma accept_targets:
  "r \<in> set (base_rules lookupHost fw) \<union> (\<Union>e \<in> set entries. set (entry_rules lookupHost e)) \<Longrightarrow> last r = ''ACCEPT''"
  by (auto simp: base_rules_def entry_rules_def entry_rule_def tunnel_rule_def Let_def split: if_splits prod.splits)

lemma verdict_default_deny:
  assumes "\<forall>r \<in> set acc. last r = ''ACCEPT''" and "matches [] p"
  shows "verdict matches (acc @ [drop_rule]) p =
    Some (if \<exists>r \<in> set acc. matches (rule_conditions r) p then ''ACCEPT'' else ''DROP'')"
  using assms(1)
proof (induction acc)
  case Nil
  show ?case using assms(2) by (simp add: drop_rule_def rule_conditions_def)
qed auto

lemma addDrop_Ok:
  assumes "iptables_laws run chain jump" and "addDrop run w = (Ok (), w')"
  shows "\<exists>rs. chain w = Some rs \<and> chain w' = Some (rs @ [drop_rule]) \<and> jump w' = jump w"
proof -
  have "run (''-A'' # chainName # drop_rule) w = (None, w')"
    using assms(2) by (auto simp: addDrop_def iptables_def drop_rule_def split: prod.splits option.splits)
  from iptables_append [OF assms(1) this] show ?thesis by auto
qed

text \<open>After the chain is empty, a program that appends and ends with the final rule.\<close>

lemma appends_then_drop:
  assumes "iptables_laws run chain jump" and "appends chain jump R c"
    and "io_then c (\<lambda>_. addDrop run) w = (Ok (), w')" and "chain w = Some []"
  shows "\<exists>acc. chain w' = Some (acc @ [drop_rule]) \<and> set acc \<subseteq> R \<and> jump w' = jump w"
proof -
  obtain x v where c: "c w = (Ok x, v)" "addDrop run v = (Ok (), w')"
    using assms(3) by (auto simp: io_then_Ok_iff)
  obtain acc where "chain v = Some ([] @ acc)" "set acc \<subseteq> R" "jump v = jump w"
    using assms(2,4) c(1) unfolding appends_def by blast
  with addDrop_Ok [OF assms(1) c(2)] show ?thesis by auto
qed

lemma iptables_Ok: "iptables run args w = (Ok x, w') \<longleftrightarrow> run args w = (None, w')"
  by (auto simp: iptables_def split: prod.splits option.splits)

lemma io_then_assoc: "io_then (io_then c f) g = io_then c (\<lambda>x. io_then (f x) g)"
  by (rule ext) (simp add: io_then_def split: prod.splits outcome.splits)

section \<open>Properties\<close>

text \<open>
  C18.  Default deny after a manifest is applied: if \<open>Apply\<close> succeeds, the chain ends with
  \<open>DROP\<close>, every rule before it is a base exemption or comes from an entry of the manifest,
  and a packet is accepted exactly if it matches one of them; any other packet is dropped.
\<close>

theorem Apply_default_deny:
  assumes "iptables_laws run chain jump" and "Apply run lookupHost fw entries w = (Ok (), w')"
  shows "\<exists>acc. chain w' = Some (acc @ [drop_rule]) \<and> jump w' = jump w
    \<and> set acc \<subseteq> set (base_rules lookupHost fw) \<union> (\<Union>e \<in> set entries. set (entry_rules lookupHost e))
    \<and> (\<forall>matches p. matches [] p \<longrightarrow> verdict matches (acc @ [drop_rule]) (p :: 'p) =
          Some (if \<exists>r \<in> set acc. matches (rule_conditions r) p then ''ACCEPT'' else ''DROP''))"
proof -
  let ?R = "set (base_rules lookupHost fw) \<union> (\<Union>e \<in> set entries. set (entry_rules lookupHost e))"
  obtain v where v: "run [''-F'', chainName] w = (None, v)"
    "io_then (io_then (addBaseRules run lookupHost fw) (\<lambda>_. addEntries run lookupHost entries)) (\<lambda>_. addDrop run) v = (Ok (), w')"
    using assms(2) unfolding Apply_def io_then_assoc by (auto simp: io_then_Ok_iff iptables_Ok)
  have "appends chain jump ?R (io_then (addBaseRules run lookupHost fw) (\<lambda>_. addEntries run lookupHost entries))"
    by (intro appends_then appends_base appends_entries assms(1)) auto
  moreover have "chain v = Some []" "jump v = jump w"
    using iptables_flush [OF assms(1) v(1)] by simp_all
  ultimately obtain acc where acc: "chain w' = Some (acc @ [drop_rule])" "set acc \<subseteq> ?R" "jump w' = jump w"
    using appends_then_drop [OF assms(1) _ v(2)] by metis
  have "last r = ''ACCEPT''" if "r \<in> set acc" for r
    by (rule accept_targets [OF subsetD [OF acc(2) that]])
  then have "\<forall>r \<in> set acc. last r = ''ACCEPT''" by simp
  then show ?thesis by (intro exI [of _ acc] conjI allI impI acc verdict_default_deny)
qed

text \<open>A simulation of the command for concrete runs: \<open>bad\<close> are the rules it rejects.\<close>

definition sim_run :: "string list set \<Rightarrow> (string list list option \<times> bool) ipt_run" where
  "sim_run bad args w =
     (case args of
        [] \<Rightarrow> (Some ([], ''exit status 2''), w)
      | cmd # rest \<Rightarrow>
          if cmd = ''-A'' \<and> rest = [''OUTPUT'', ''-j'', chainName] then (None, fst w, True)
          else if cmd = ''-A'' \<and> rest \<noteq> [] \<and> hd rest = chainName \<and> fst w \<noteq> None \<and> tl rest \<notin> bad
            then (None, Some (the (fst w) @ [tl rest]), snd w)
          else if cmd = ''-F'' \<and> rest = [chainName] \<and> fst w \<noteq> None then (None, Some [], snd w)
          else if cmd = ''-N'' \<and> rest = [chainName] \<and> fst w = None then (None, Some [], snd w)
          else if cmd = ''-C'' \<and> snd w then (None, w)
          else (Some (''already exists'', ''exit status 1''), w))"

lemma sim_run_laws: "iptables_laws (sim_run bad) fst snd"
  unfolding iptables_laws_def sim_run_def
  by (auto simp: chainName_def split: if_splits)

definition example_fw :: Firewall where
  "example_fw = \<lparr>tunnelHost = [], tunnelPort = 0\<rparr>"

text \<open>Running the programs of the firewall on concrete inputs.\<close>

lemmas run_firewall = Apply_def addBaseRules_def addDrop_def io_then_def io_map_err_def iptables_def sim_run_def
  example_fw_def chainName_def createChain_def addOutputJump_def Firewall_init_def Firewall_Setup_def

theorem Apply_default_deny_witness:
  "\<exists>w'. Apply (sim_run {}) (\<lambda>_. None) example_fw [] (Some [], True) = (Ok (), w') \<and> snd w'
    \<and> verdict (\<lambda>cs p. cs = [] \<or> cs = p) (the (fst w')) [''-d'', ''1.2.3.4''] = Some ''DROP''"
proof -
  obtain w' where e: "Apply (sim_run {}) (\<lambda>_. None) example_fw [] (Some [], True) = (Ok (), w')"
    by (simp add: run_firewall)
  from Apply_default_deny [OF sim_run_laws e] obtain acc where
    a: "fst w' = Some (acc @ [drop_rule])" "snd w' = True" "set acc \<subseteq> set (base_rules (\<lambda>_. None) example_fw)"
    and v: "\<And>matches (p :: string list). matches [] p \<Longrightarrow> verdict matches (acc @ [drop_rule]) p =
          Some (if \<exists>r \<in> set acc. matches (rule_conditions r) p then ''ACCEPT'' else ''DROP'')"
    by auto
  have "\<not> (rule_conditions r = [] \<or> rule_conditions r = [''-d'', ''1.2.3.4''])" if "r \<in> set acc" for r
    using a(3) that by (auto simp: base_rules_def example_fw_def rule_conditions_def)
  then show ?thesis using e a v [of "\<lambda>cs p. cs = [] \<or> cs = p" "[''-d'', ''1.2.3.4'']"] by auto
qed

text \<open>
  Default deny on boot: if \<open>Setup\<close> succeeds, whether or not the chain was there before,
  \<open>OUTPUT\<close> jumps to the chain, the chain ends with \<open>DROP\<close>, and only the base exemptions come
  before it.
\<close>

lemma Setup_default_deny:
  assumes "iptables_laws run chain jump" and "Firewall_Setup run lookupHost host port w = (Ok fw, w')"
  shows "fw = \<lparr>tunnelHost = host, tunnelPort = port\<rparr> \<and> jump w'
    \<and> (\<exists>acc. chain w' = Some (acc @ [drop_rule]) \<and> set acc \<subseteq> set (base_rules lookupHost fw))"
proof -
  have fw: "fw = \<lparr>tunnelHost = host, tunnelPort = port\<rparr>"
    using assms(2) by (auto simp: Firewall_Setup_def Let_def io_then_Ok_iff)
  obtain v1 v2 where v: "createChain run w = (Ok (), v1)" "addOutputJump run v1 = (Ok (), v2)"
    "io_then (addBaseRules run lookupHost fw) (\<lambda>_. addDrop run) v2 = (Ok (), w')"
    using assms(2) by (auto simp: Firewall_Setup_def Let_def Firewall_init_def io_then_Ok_iff fw)
  have "chain v1 = Some []"
    using v(1) by (auto simp: createChain_def iptables_def io_map_err_def split: prod.splits option.splits if_splits
        dest!: iptables_new [OF assms(1)] iptables_flush(2) [OF assms(1)])
  moreover have "chain v2 = chain v1 \<and> jump v2"
    using v(2) by (auto simp: addOutputJump_def iptables_def io_map_err_def split: prod.splits option.splits
        dest!: iptables_check [OF assms(1)] iptables_jump [OF assms(1)])
  moreover have "appends chain jump (set (base_rules lookupHost fw)) (addBaseRules run lookupHost fw)"
    by (intro appends_base assms(1)) simp
  ultimately show ?thesis using appends_then_drop [OF assms(1) _ v(3)] fw by metis
qed

text \<open>
  The appends of one run: \<open>run_rules\<close> issues one \<open>-A\<close> per rule, in order, and stops with \<open>None\<close>
  at the first that is rejected.  \<open>push_accepted\<close> says of one push, from the world it starts in,
  that the flush and each of its appends is accepted in the world in which it is issued; it says
  nothing of other rules, other orders or other worlds.
\<close>

fun run_rules :: "'w ipt_run \<Rightarrow> string list list \<Rightarrow> 'w \<Rightarrow> 'w option" where
  "run_rules run [] w = Some w"
| "run_rules run (r # rs) w =
     (case run (''-A'' # chainName # r) w of (None, w') \<Rightarrow> run_rules run rs w' | (Some _, _) \<Rightarrow> None)"

definition push_accepted :: "'w ipt_run \<Rightarrow> string list list \<Rightarrow> 'w \<Rightarrow> bool" where
  "push_accepted run rules w \<longleftrightarrow>
     (case run [''-F'', chainName] w of (None, v) \<Rightarrow> run_rules run rules v \<noteq> None | (Some _, _) \<Rightarrow> False)"

definition push_rules :: "(string \<Rightarrow> string list option) \<Rightarrow> Firewall \<Rightarrow> NetworkEntry list \<Rightarrow> string list list" where
  "push_rules lookupHost fw entries =
     base_rules lookupHost fw @ concat (map (entry_rules lookupHost) entries) @ [drop_rule]"

lemma run_rules_append:
  "run_rules run (L @ M) w = (case run_rules run L w of None \<Rightarrow> None | Some w' \<Rightarrow> run_rules run M w')"
  by (induction L arbitrary: w) (simp_all split: prod.splits option.splits)

lemma run_rules_chain:
  assumes "iptables_laws run chain jump"
  shows "run_rules run L w = Some w' \<Longrightarrow> chain w = Some rs \<Longrightarrow> chain w' = Some (rs @ L) \<and> jump w' = jump w"
proof (induction L arbitrary: w rs)
  case (Cons r L)
  obtain v where v: "run (''-A'' # chainName # r) w = (None, v)" "run_rules run L v = Some w'"
    using Cons.prems(1) by (auto split: prod.splits option.splits)
  with iptables_append [OF assms v(1)] Cons.prems(2) Cons.IH [OF v(2)] show ?case by simp
qed simp

text \<open>
  Programs that issue exactly the appends of a list of rules, as long as none of them is
  rejected; with \<open>ok\<close> such a program also returns no error.
\<close>

definition adds :: "'w ipt_run \<Rightarrow> string list list \<Rightarrow> bool \<Rightarrow> ('e, unit, 'w) io \<Rightarrow> bool" where
  "adds run L ok c \<longleftrightarrow> (\<forall>w w'. run_rules run L w = Some w' \<longrightarrow>
     (\<exists>r. c w = (r, w') \<and> r \<noteq> Panic \<and> (ok \<longrightarrow> r = Ok ())))"

lemma adds_return: "adds run [] True (io_return ())"
  by (simp add: adds_def)

lemma adds_fail: "adds run [] False (io_fail e)"
  by (simp add: adds_def)

lemma adds_weaken: "adds run L True c \<Longrightarrow> adds run L ok c"
  unfolding adds_def by blast

lemma adds_map_err: "adds run L True c \<Longrightarrow> adds run L True (io_map_err g c)"
  unfolding adds_def by (fastforce simp: io_map_err_def)

lemma adds_then:
  assumes "adds run L True c" and "adds run M True d"
  shows "adds run (L @ M) True (io_then c (\<lambda>_. d))"
  using assms unfolding adds_def io_then_def by (fastforce simp: run_rules_append split: option.splits)

lemma adds_try:
  assumes "adds run L ok c" and "adds run M True d"
  shows "adds run (L @ M) True (io_try c d)"
  unfolding adds_def
proof (intro allI impI)
  fix w w'' assume "run_rules run (L @ M) w = Some w''"
  then obtain w' where w': "run_rules run L w = Some w'" "run_rules run M w' = Some w''"
    by (auto simp: run_rules_append split: option.splits)
  then obtain r where c: "c w = (r, w')" "r \<noteq> Panic" using assms(1) unfolding adds_def by blast
  then have "io_try c d w = d w'" by (cases r) (simp_all add: io_try_def)
  with assms(2) w'(2) show "\<exists>r. io_try c d w = (r, w'') \<and> r \<noteq> Panic \<and> (True \<longrightarrow> r = Ok ())"
    unfolding adds_def by simp
qed

lemma adds_iptables: "adds run [r] True (iptables run (''-A'' # chainName # r))"
  by (auto simp: adds_def iptables_def split: prod.splits option.splits)

lemma adds_rules:
  shows "adds run (map (tunnel_rule fw) ips) True (addTunnelRules run fw ips)"
    and "adds run (map (\<lambda>ip. entry_rule (ip @ ''/32'') portStr) ips) True (addIPs run portStr ips)"
proof -
  show "adds run (map (tunnel_rule fw) ips) True (addTunnelRules run fw ips)"
  proof (induction ips)
    case (Cons ip ips)
    show ?case using adds_try [OF adds_iptables [of run "tunnel_rule fw ip"] Cons.IH] by simp
  qed (simp only: list.map addTunnelRules.simps addIPs.simps adds_return)
  show "adds run (map (\<lambda>ip. entry_rule (ip @ ''/32'') portStr) ips) True (addIPs run portStr ips)"
  proof (induction ips)
    case (Cons ip ips)
    show ?case
      using adds_then [OF adds_map_err [OF adds_iptables [of run "entry_rule (ip @ ''/32'') portStr"]] Cons.IH, of EntryRule]
      by simp
  qed (simp only: list.map addTunnelRules.simps addIPs.simps adds_return)
qed

lemma adds_entry: "adds run (entry_rules lookupHost entry) False (addEntryRules run lookupHost entry)"
proof -
  obtain host portStr where "splitHostPort (ne_Pattern entry) = (host, portStr)" by fastforce
  then show ?thesis
    using adds_map_err [OF adds_iptables [of run "entry_rule host portStr"], of EntryRule]
      adds_rules(2) [of run portStr "resolveHost lookupHost host"]
    by (auto simp: addEntryRules_def entry_rules_def Let_def adds_fail intro: adds_weaken)
qed

lemma adds_entries: "adds run (concat (map (entry_rules lookupHost) es)) True (addEntries run lookupHost es)"
proof (induction es)
  case (Cons e es)
  show ?case using adds_try [OF adds_entry Cons.IH] by simp
qed (simp only: list.map concat.simps addEntries.simps adds_return)

lemma adds_base: "adds run (base_rules lookupHost fw) True (addBaseRules run lookupHost fw)"
proof -
  note app = adds_map_err [OF adds_iptables]
  have t: "adds run (if tunnelHost fw \<noteq> [] then map (tunnel_rule fw) (resolveHost lookupHost (tunnelHost fw)) else [])
      True (if tunnelHost fw \<noteq> [] then addTunnelRules run fw (resolveHost lookupHost (tunnelHost fw)) else io_return ())"
    by (simp add: adds_rules(1) adds_return)
  show ?thesis
    using adds_then [OF app [of run "[''-o'', ''lo'', ''-j'', ''ACCEPT'']" LoopbackRule]
        adds_then [OF t adds_then [OF app [of run "[''-p'', ''udp'', ''--dport'', ''53'', ''-j'', ''ACCEPT'']" DnsUdpRule]
          app [of run "[''-p'', ''tcp'', ''--dport'', ''53'', ''-j'', ''ACCEPT'']" DnsTcpRule]]]]
    by (simp add: addBaseRules_def base_rules_def)
qed

lemma adds_push:
  "adds run (push_rules lookupHost fw entries) True
     (io_then (addBaseRules run lookupHost fw) (\<lambda>_. io_then (addEntries run lookupHost entries) (\<lambda>_. addDrop run)))"
proof -
  have "adds run [drop_rule] True (addDrop run)"
    using adds_map_err [OF adds_iptables [of run drop_rule]] by (simp add: addDrop_def drop_rule_def)
  from adds_then [OF adds_base adds_then [OF adds_entries this]] show ?thesis by (simp add: push_rules_def)
qed

lemma Apply_installs:
  assumes "iptables_laws run chain jump" and "push_accepted run (push_rules lookupHost fw entries) w"
  shows "\<exists>w'. Apply run lookupHost fw entries w = (Ok (), w')
    \<and> chain w' = Some (push_rules lookupHost fw entries) \<and> jump w' = jump w"
proof -
  obtain v w' where v: "run [''-F'', chainName] w = (None, v)"
    and w': "run_rules run (push_rules lookupHost fw entries) v = Some w'"
    using assms(2) unfolding push_accepted_def by (auto split: prod.splits option.splits)
  have "chain v = Some [] \<and> jump v = jump w" using iptables_flush [OF assms(1) v] by simp
  with run_rules_chain [OF assms(1) w'] have "chain w' = Some (push_rules lookupHost fw entries) \<and> jump w' = jump w" by simp
  moreover have "Apply run lookupHost fw entries w = (Ok (), w')"
    using adds_push [of run lookupHost fw entries] w' unfolding adds_def
    by (fastforce simp: Apply_def io_then_def [of "io_map_err _ _"] io_map_err_def iptables_def v)
  ultimately show ?thesis by blast
qed

text \<open>
  C19.  If \<open>iptables\<close> accepts the flush and each rule of this push, in the world in which the rule
  is appended, then \<open>Apply\<close> succeeds and the chain holds exactly the base exemptions, then the
  rules of the entries in their order, then \<open>DROP\<close>; whatever the chain held before is gone and
  the jump from \<open>OUTPUT\<close> is as it was.
\<close>

theorem Apply_installs_manifest:
  assumes "iptables_laws run chain jump" and "push_accepted run (push_rules lookupHost fw entries) w"
  shows "\<exists>w'. Apply run lookupHost fw entries w = (Ok (), w') \<and> jump w' = jump w
    \<and> chain w' = Some (base_rules lookupHost fw @ concat (map (entry_rules lookupHost) entries) @ [drop_rule])"
  using Apply_installs [OF assms] by (auto simp: push_rules_def)

text \<open>The simulated command that rejects one malformed rule accepts a push without it.\<close>

lemma example_rules:
  "push_rules (\<lambda>_. None) example_fw [example_net ''db:5432''] =
     [[''-o'', ''lo'', ''-j'', ''ACCEPT''], [''-p'', ''udp'', ''--dport'', ''53'', ''-j'', ''ACCEPT''],
      [''-p'', ''tcp'', ''--dport'', ''53'', ''-j'', ''ACCEPT''], entry_rule ''db'' ''5432'', drop_rule]"
  by (simp add: push_rules_def base_rules_def example_fw_def entry_rules_def example_net_def splitHostPort_def
      SplitHostPort_def last_index_of_def index_of_def resolveHost_def ParseIP_def)

lemma sim_run_append:
  "fst w \<noteq> None \<Longrightarrow> r \<notin> bad \<Longrightarrow> sim_run bad (''-A'' # chainName # r) w = (None, Some (the (fst w) @ [r]), snd w)"
  by (simp add: sim_run_def chainName_def)

lemma sim_run_flush: "fst w \<noteq> None \<Longrightarrow> sim_run bad [''-F'', chainName] w = (None, Some [], snd w)"
  by (simp add: sim_run_def chainName_def)

lemma sim_run_accepts:
  assumes "set rules \<inter> bad = {}" and "fst w \<noteq> None"
  shows "push_accepted (sim_run bad) rules w"
proof -
  have "run_rules (sim_run bad) rules v \<noteq> None" if "fst v \<noteq> None" for v
    using assms(1) that by (induction rules arbitrary: v) (simp_all add: sim_run_append)
  then show ?thesis by (simp add: push_accepted_def sim_run_flush [OF assms(2)])
qed

theorem Apply_installs_manifest_witness:
  "\<exists>w'. Apply (sim_run {[''bad'']}) (\<lambda>_. None) example_fw [example_net ''db:5432''] (Some [[''stale'']], True) = (Ok (), w')
    \<and> entry_rule ''db'' ''5432'' \<in> set (the (fst w')) \<and> [''stale''] \<notin> set (the (fst w')) \<and> snd w'"
proof -
  have "push_accepted (sim_run {[''bad'']}) (push_rules (\<lambda>_. None) example_fw [example_net ''db:5432'']) (Some [[''stale'']], True)"
    by (rule sim_run_accepts) (simp_all add: example_rules entry_rule_def drop_rule_def)
  from Apply_installs_manifest [OF sim_run_laws this] obtain w' where
    w': "Apply (sim_run {[''bad'']}) (\<lambda>_. None) example_fw [example_net ''db:5432''] (Some [[''stale'']], True) = (Ok (), w')"
    and s: "snd w'" and f: "fst w' = Some (push_rules (\<lambda>_. None) example_fw [example_net ''db:5432''])"
    unfolding push_rules_def by auto
  have "entry_rule ''db'' ''5432'' \<in> set (the (fst w'))" "[''stale''] \<notin> set (the (fst w'))"
    unfolding f option.sel example_rules by (simp_all add: entry_rule_def drop_rule_def)
  with w' s show ?thesis by blast
qed

text \<open>
  \<open>Apply\<close> fails open: the chain is flushed first, so if appending the first rule is
  rejected the call returns an error and leaves the chain empty, without the final \<open>DROP\<close>; no
  packet gets a verdict from it any more.
\<close>

lemma Apply_fails_open:
  assumes "iptables_laws run chain jump" and "run [''-F'', chainName] w = (None, v)"
    and "run [''-A'', chainName, ''-o'', ''lo'', ''-j'', ''ACCEPT''] v = (Some (out, err), w')"
  shows "\<exists>msg. Apply run lookupHost fw entries w = (Err (LoopbackRule msg), w')
    \<and> chain w' = Some [] \<and> jump w' = jump w \<and> verdict matches (the (chain w')) p = None"
  using iptables_flush [OF assms(1,2)] iptables_append [OF assms(1,3)]
  by (simp add: Apply_def addBaseRules_def io_then_def io_map_err_def iptables_def assms(2,3))

text \<open>
  An address that \<open>iptables\<close> rejects (an IPv6 address of the host, say) ends the
  processing of its entry: the addresses after it get no rule, although they may be valid.
\<close>

lemma rejected_address_skips_rest:
  assumes "iptables_laws run chain jump" and "splitHostPort (ne_Pattern entry) = (host, portStr)" and "host \<noteq> []"
    and "resolveHost lookupHost host = ip # ips"
    and "run (''-A'' # chainName # entry_rule (ip @ ''/32'') portStr) w = (Some (out, err), w')"
  shows "\<exists>msg. addEntryRules run lookupHost entry w = (Err (EntryRule msg), w') \<and> chain w' = chain w"
  using iptables_append(2) [OF assms(1,5)] assms(2-4)
  by (simp add: addEntryRules_def Let_def io_then_def io_map_err_def iptables_def assms(5))

end
