(* ===== verification/Go_Json.thy ===== *)
theory Go_Json
  imports Agent_Runtime
begin

text \<open>
  What the agent uses of Go's \<open>encoding/json\<close>: the values of JSON and decoding them into structs,
  slices and maps.  A decoder takes the value and what the destination holds, and gives the new
  content or \<open>None\<close> for an error (the callers discard the destination then).  Decoding \<open>null\<close>
  leaves the destination alone; struct fields match the keys of an object up to ASCII case, keys
  without a field are skipped, and a later key overrides an earlier one.
\<close>

datatype json =
    JNull | JBool bool | JNumber string | JString string | JArray "json list" | JObject "(string \<times> json) list"

type_synonym 'a decoder = "json \<Rightarrow> 'a \<Rightarrow> 'a option"

definition upper_char :: "char \<Rightarrow> char" where
  "upper_char c = (if (97 :: nat) \<le> of_char c \<and> of_char c \<le> (122 :: nat) then char_of (of_char c - 32 :: nat) else c)"

definition fold_key :: "string \<Rightarrow> string" where
  "fold_key s = map upper_char s"

fun dec_string :: "string decoder" where
  "dec_string JNull s = Some s"
| "dec_string (JString t) s = Some t"
| "dec_string _ s = None"

fun dec_bool :: "bool decoder" where
  "dec_bool JNull b = Some b"
| "dec_bool (JBool c) b = Some c"
| "dec_bool _ b = None"

text \<open>A number literal fits an \<open>int\<close> if it is written as an integer in the range of 64 bits.\<close>

fun dec_int :: "int decoder" where
  "dec_int JNull i = Some i"
| "dec_int (JNumber t) i = Atoi t"
| "dec_int _ i = None"

type_synonym 'r struct_fields = "(string \<times> 'r decoder) list"

fun dec_members :: "'r struct_fields \<Rightarrow> (string \<times> json) list \<Rightarrow> 'r \<Rightarrow> 'r option" where
  "dec_members fs [] r = Some r"
| "dec_members fs ((k, j) # kvs) r =
     (case find (\<lambda>f. fold_key (fst f) = fold_key k) fs of
        None \<Rightarrow> dec_members fs kvs r
      | Some f \<Rightarrow> Option.bind (snd f j r) (dec_members fs kvs))"

fun dec_struct :: "'r struct_fields \<Rightarrow> 'r decoder" where
  "dec_struct fs JNull r = Some r"
| "dec_struct fs (JObject kvs) r = dec_members fs kvs r"
| "dec_struct fs _ r = None"

text \<open>\<open>field\<close> makes a decoder of a component act on the whole struct.\<close>

definition field :: "('r \<Rightarrow> 'a) \<Rightarrow> (('a \<Rightarrow> 'a) \<Rightarrow> 'r \<Rightarrow> 'r) \<Rightarrow> 'a decoder \<Rightarrow> 'r decoder" where
  "field get upd dec j r = map_option (\<lambda>v. upd (\<lambda>_. v) r) (dec j (get r))"

fun dec_elems :: "'a \<Rightarrow> 'a decoder \<Rightarrow> json list \<Rightarrow> 'a list option" where
  "dec_elems zero dec [] = Some []"
| "dec_elems zero dec (j # js) = Option.bind (dec j zero) (\<lambda>x. map_option ((#) x) (dec_elems zero dec js))"

fun dec_list :: "'a \<Rightarrow> 'a decoder \<Rightarrow> 'a list decoder" where
  "dec_list zero dec JNull xs = Some []"
| "dec_list zero dec (JArray js) xs = dec_elems zero dec js"
| "dec_list zero dec _ xs = None"

fun dec_entries :: "'a \<Rightarrow> 'a decoder \<Rightarrow> (string \<times> json) list \<Rightarrow> (string \<rightharpoonup> 'a) \<Rightarrow> (string \<rightharpoonup> 'a) option" where
  "dec_entries zero dec [] m = Some m"
| "dec_entries zero dec ((k, j) # kvs) m = Option.bind (dec j zero) (\<lambda>x. dec_entries zero dec kvs (m(k \<mapsto> x)))"

fun dec_map :: "'a \<Rightarrow> 'a decoder \<Rightarrow> (string \<rightharpoonup> 'a) decoder" where
  "dec_map zero dec JNull m = Some Map.empty"
| "dec_map zero dec (JObject kvs) m = dec_entries zero dec kvs m"
| "dec_map zero dec _ m = None"

lemma dec_elems_map: "(\<And>x. x \<in> set xs \<Longrightarrow> dec (enc x) zero = Some x) \<Longrightarrow> dec_elems zero dec (map enc xs) = Some xs"
  by (induction xs) simp_all

lemma dec_entries_map:
  "(\<And>kv. kv \<in> set kvs \<Longrightarrow> dec (enc (snd kv)) zero = Some (snd kv)) \<Longrightarrow>
     dec_entries zero dec (map (\<lambda>kv. (fst kv, enc (snd kv))) kvs) m = Some (m ++ map_of (rev kvs))"
proof (induction kvs arbitrary: m)
  case (Cons kv kvs)
  from Cons.prems [of kv] have "dec (enc (snd kv)) zero = Some (snd kv)" by simp
  with Cons show ?case by (cases kv) (simp add: map_add_upd_left)
qed simp

end
