(* ===== verification/Reverse_Tunnel.thy ===== *)
theory Reverse_Tunnel
  imports Go_Json "HOL-Library.Multiset"
begin

text \<open>
  The reverse tunnel (\<open>internal/tunnel/tunnel.go\<close>): the agent dials out to the backend, joins a
  channel and proxies the requests it receives to its own HTTP server.  The websocket library and
  the HTTP client are parameters.  The main loop spawns one goroutine per request; responses and
  heartbeats are written under a mutex, so each is one step of the step relation below.
\<close>

section \<open>The topic of the channel\<close>

text \<open>The loops over a string look for ASCII characters, so they are loops over its bytes.\<close>

fun query_start :: "string \<Rightarrow> nat \<Rightarrow> nat" where
  "query_start [] i = 0"
| "query_start (c # cs) i = (if c = CHR ''?'' then i + 1 else query_start cs (i + 1))"

fun query_parts :: "string \<Rightarrow> nat \<Rightarrow> nat \<Rightarrow> string \<Rightarrow> string list" where
  "query_parts query start i [] = [drop start query]"
| "query_parts query start i (c # cs) =
     (if c = CHR ''&'' then take (i - start) (drop start query) # query_parts query (i + 1) (i + 1) cs
      else query_parts query start (i + 1) cs)"

definition splitQuery :: "string \<Rightarrow> string list" where
  "splitQuery url =
     (let idx = query_start url 0
      in if idx = 0 then []
         else let query = drop idx url in query_parts query 0 0 query)"

definition topicFromURL :: "string \<Rightarrow> string" where
  "topicFromURL url =
     (case find (\<lambda>part. 13 < length part \<and> take 13 part = ''workspace_id='') (splitQuery url) of
        Some part \<Rightarrow> ''aether:'' @ drop 13 part
      | None \<Rightarrow> ''aether:unknown'')"

section \<open>Requests\<close>

text \<open>
  A channel message.  \<open>json.RawMessage\<close> keeps the value undecoded; \<open>None\<close> is a missing payload,
  whose later decoding fails.
\<close>

record chan_msg =
  cm_Event :: string
  cm_Payload :: "json option"
  cm_Topic :: string

fun dec_raw :: "json option decoder" where
  "dec_raw j p = Some (Some j)"

definition chan_msg_fields :: "chan_msg struct_fields" where
  "chan_msg_fields =
     [(''event'', field cm_Event cm_Event_update dec_string),
      (''payload'', field cm_Payload cm_Payload_update dec_raw),
      (''topic'', field cm_Topic cm_Topic_update dec_string)]"

record tunnel_request =
  tr_Ref :: string
  tr_Method :: string
  tr_Path :: string
  tr_Body :: string

definition tunnel_request_fields :: "tunnel_request struct_fields" where
  "tunnel_request_fields =
     [(''ref'', field tr_Ref tr_Ref_update dec_string),
      (''method'', field tr_Method tr_Method_update dec_string),
      (''path'', field tr_Path tr_Path_update dec_string),
      (''body'', field tr_Body tr_Body_update dec_string)]"

definition decode_msg :: "json option \<Rightarrow> chan_msg option" where
  "decode_msg raw =
     Option.bind raw (\<lambda>j. dec_struct chan_msg_fields j \<lparr>cm_Event = [], cm_Payload = None, cm_Topic = []\<rparr>)"

definition decode_request :: "json option \<Rightarrow> tunnel_request option" where
  "decode_request payload =
     Option.bind payload (\<lambda>j. dec_struct tunnel_request_fields j \<lparr>tr_Ref = [], tr_Method = [], tr_Path = [], tr_Body = []\<rparr>)"

datatype out_payload = EmptyPayload | ResponsePayload string int string

record out_msg =
  om_topic :: string
  om_event :: string
  om_payload :: out_payload
  om_ref :: string

definition sendResponse :: "string \<Rightarrow> string \<Rightarrow> int \<Rightarrow> string \<Rightarrow> out_msg" where
  "sendResponse topic ref status body =
     \<lparr>om_topic = topic, om_event = ''response'', om_payload = ResponsePayload ref status body, om_ref = ref\<rparr>"

text \<open>The text of an error is pasted between the quotes as it is.\<close>

definition error_body :: "string \<Rightarrow> string" where
  "error_body err = ''{'' @ [CHR 0x22] @ ''error'' @ [CHR 0x22] @ '':'' @ [CHR 0x22] @ err @ [CHR 0x22] @ ''}''"

text \<open>
  The HTTP client: making a request from a method, a URL and a body may fail, and so may sending it,
  which otherwise gives a status and the bytes read of the body.
\<close>

record ('r, 'w) http_client =
  hc_NewRequest :: "string \<Rightarrow> string \<Rightarrow> string \<Rightarrow> string + 'r"
  hc_SetContentType :: "'r \<Rightarrow> string \<Rightarrow> 'r"
  hc_Do :: "'r \<Rightarrow> 'w \<Rightarrow> (string + int \<times> string) \<times> 'w"

definition handleRequest ::
  "('r, 'w) http_client \<Rightarrow> string \<Rightarrow> string \<Rightarrow> json option \<Rightarrow> 'w \<Rightarrow> out_msg option \<times> 'w" where
  "handleRequest hc localBase topic payload w =
     (case decode_request payload of
        None \<Rightarrow> (None, w)
      | Some req \<Rightarrow>
          (case hc_NewRequest hc (tr_Method req) (localBase @ tr_Path req) (tr_Body req) of
             Inl err \<Rightarrow> (Some (sendResponse topic (tr_Ref req) 500 (error_body err)), w)
           | Inr httpReq \<Rightarrow>
               (case hc_Do hc (hc_SetContentType hc httpReq ''application/json'') w of
                  (Inl err, w') \<Rightarrow> (Some (sendResponse topic (tr_Ref req) 502 (error_body err)), w')
                | (Inr (status, body), w') \<Rightarrow> (Some (sendResponse topic (tr_Ref req) status body), w'))))"

definition heartbeat_msg :: "int \<Rightarrow> out_msg" where
  "heartbeat_msg now =
     \<lparr>om_topic = ''phoenix'', om_event = ''heartbeat'', om_payload = EmptyPayload, om_ref = ''hb-'' @ Itoa now\<rparr>"

section \<open>The connection\<close>

datatype tunnel_error = DialError | JoinError | JoinReplyError | ReadError

definition joinMsg :: "string \<Rightarrow> out_msg" where
  "joinMsg url = \<lparr>om_topic = topicFromURL url, om_event = ''phx_join'', om_payload = EmptyPayload, om_ref = ''1''\<rparr>"

definition readyMsg :: "string \<Rightarrow> out_msg" where
  "readyMsg url = \<lparr>om_topic = topicFromURL url, om_event = ''ready'', om_payload = EmptyPayload, om_ref = ''2''\<rparr>"

text \<open>
  The frames still to be received (\<open>None\<close> is one that is not JSON), the goroutines of requests that
  have not finished, the messages written, and the responses whose write failed.
\<close>

record tunnel_state =
  ts_frames :: "json option list"
  ts_pending :: "(string \<times> json option) list"
  ts_sent :: "out_msg list"
  ts_lost :: "out_msg list"

text \<open>
  \<open>run\<close> up to its loop: dial, join, read the reply, announce readiness (the error of that write is
  ignored).  \<open>writeOk\<close> says which writes succeed; the reply must be an object or null.
\<close>

fun is_reply :: "json option \<Rightarrow> bool" where
  "is_reply (Some (JObject kvs)) = True"
| "is_reply (Some JNull) = True"
| "is_reply _ = False"

definition run_setup ::
  "bool \<Rightarrow> (out_msg \<Rightarrow> bool) \<Rightarrow> string \<Rightarrow> json option list \<Rightarrow> (tunnel_error, tunnel_state) outcome" where
  "run_setup dialOk writeOk url frames =
     (if \<not> dialOk then Err DialError
      else if \<not> writeOk (joinMsg url) then Err JoinError
      else case frames of
        [] \<Rightarrow> Err JoinReplyError
      | reply # rest \<Rightarrow>
          if \<not> is_reply reply then Err JoinReplyError
          else Ok \<lparr>ts_frames = rest, ts_pending = [],
                   ts_sent = joinMsg url # (if writeOk (readyMsg url) then [readyMsg url] else []),
                   ts_lost = []\<rparr>)"

definition receive :: "tunnel_state \<Rightarrow> tunnel_state" where
  "receive s =
     (case ts_frames s of
        [] \<Rightarrow> s
      | raw # rest \<Rightarrow>
          (case decode_msg raw of
             Some msg \<Rightarrow>
               if cm_Event msg = ''request''
               then s\<lparr>ts_frames := rest, ts_pending := ts_pending s @ [(cm_Topic msg, cm_Payload msg)]\<rparr>
               else s\<lparr>ts_frames := rest\<rparr>
           | None \<Rightarrow> s\<lparr>ts_frames := rest\<rparr>))"

text \<open>
  The steps of a connection: the loop receives, any goroutine of a request finishes (its write
  succeeds or is lost, the error is ignored), a heartbeat is written, and the world moves on.
\<close>

inductive tunnel_step ::
  "('r, 'w) http_client \<Rightarrow> string \<Rightarrow> tunnel_state \<times> 'w \<Rightarrow> tunnel_state \<times> 'w \<Rightarrow> bool"
  for hc localBase where
  receive: "tunnel_step hc localBase (s, w) (receive s, w)"
| respond: "ts_pending s = before @ (topic, payload) # after \<Longrightarrow>
     handleRequest hc localBase topic payload w = (Some m, w') \<Longrightarrow>
     tunnel_step hc localBase (s, w) (s\<lparr>ts_pending := before @ after, ts_sent := ts_sent s @ [m]\<rparr>, w')"
| respond_lost: "ts_pending s = before @ (topic, payload) # after \<Longrightarrow>
     handleRequest hc localBase topic payload w = (Some m, w') \<Longrightarrow>
     tunnel_step hc localBase (s, w) (s\<lparr>ts_pending := before @ after, ts_lost := ts_lost s @ [m]\<rparr>, w')"
| bad_request: "ts_pending s = before @ (topic, payload) # after \<Longrightarrow>
     handleRequest hc localBase topic payload w = (None, w') \<Longrightarrow>
     tunnel_step hc localBase (s, w) (s\<lparr>ts_pending := before @ after\<rparr>, w')"
| heartbeat: "tunnel_step hc localBase (s, w) (s\<lparr>ts_sent := ts_sent s @ [heartbeat_msg now]\<rparr>, w)"
| world: "tunnel_step hc localBase (s, w) (s, w')"

inductive_cases tunnel_step_cases: "tunnel_step hc localBase (s, w) (s', w')"

definition localBase :: "int \<Rightarrow> string" where
  "localBase port = ''http://127.0.0.1:'' @ Itoa port"

section \<open>Answers\<close>

definition is_response :: "out_msg \<Rightarrow> bool" where
  "is_response m \<longleftrightarrow> om_event m = ''response''"

definition answer_key :: "out_msg \<Rightarrow> string \<times> string" where
  "answer_key m = (om_topic m, om_ref m)"

definition request_key :: "string \<times> json option \<Rightarrow> (string \<times> string) option" where
  "request_key tp = map_option (\<lambda>req. (fst tp, tr_Ref req)) (decode_request (snd tp))"

abbreviation answers :: "out_msg list \<Rightarrow> (string \<times> string) multiset" where
  "answers ms \<equiv> mset (map answer_key (filter is_response ms))"

abbreviation asked :: "(string \<times> json option) list \<Rightarrow> (string \<times> string) multiset" where
  "asked tps \<equiv> mset (List.map_filter request_key tps)"

text \<open>
  The requests in a sequence of frames: those that are JSON objects whose event is \<open>request\<close> and whose
  payload decodes, each with its topic and reference.
\<close>

definition frame_key :: "json option \<Rightarrow> (string \<times> string) option" where
  "frame_key raw = Option.bind (decode_msg raw)
     (\<lambda>msg. if cm_Event msg = ''request'' then request_key (cm_Topic msg, cm_Payload msg) else None)"

abbreviation requests :: "json option list \<Rightarrow> (string \<times> string) multiset" where
  "requests frames \<equiv> mset (List.map_filter frame_key frames)"

definition accounted :: "tunnel_state \<Rightarrow> (string \<times> string) multiset" where
  "accounted s = answers (ts_sent s) + answers (ts_lost s) + asked (ts_pending s) + requests (ts_frames s)"

lemma setup_messages [simp]: "\<not> is_response (joinMsg url)" "\<not> is_response (readyMsg url)" "\<not> is_response (heartbeat_msg now)"
  by (simp_all add: is_response_def joinMsg_def readyMsg_def heartbeat_msg_def)

lemma map_filter_Cons: "List.map_filter f (x # xs) = (case f x of None \<Rightarrow> [] | Some y \<Rightarrow> [y]) @ List.map_filter f xs"
  by (simp add: List.map_filter_def split: option.splits)

lemma handleRequest_answer:
  "handleRequest hc lb topic payload w = (Some m, w') \<Longrightarrow> is_response m \<and> request_key (topic, payload) = Some (answer_key m)"
  "handleRequest hc lb topic payload w = (None, w') \<Longrightarrow> request_key (topic, payload) = None"
  by (auto simp: handleRequest_def request_key_def answer_key_def is_response_def sendResponse_def
      split: option.splits sum.splits prod.splits)

lemma run_setup_accounted: "run_setup dialOk writeOk url frames = Ok s \<Longrightarrow> accounted s = requests (tl frames)"
  by (auto simp: run_setup_def accounted_def List.map_filter_def split: if_splits list.splits)

lemma tunnel_step_accounted: "tunnel_step hc lb sw sw' \<Longrightarrow> accounted (fst sw') = accounted (fst sw)"
proof (induction rule: tunnel_step.induct)
  case (receive s w)
  then show ?case
    by (auto simp: accounted_def receive_def map_filter_Cons frame_key_def List.map_filter_simps
        split: list.splits option.splits)
next
  case (respond s before topic payload after w m w')
  with handleRequest_answer(1) [OF respond.hyps(2)] show ?case by (simp add: accounted_def map_filter_Cons)
next
  case (respond_lost s before topic payload after w m w')
  with handleRequest_answer(1) [OF respond_lost.hyps(2)] show ?case by (simp add: accounted_def map_filter_Cons)
next
  case (bad_request s before topic payload after w w')
  with handleRequest_answer(2) [OF bad_request.hyps(2)] show ?case by (simp add: accounted_def map_filter_Cons)
qed (simp_all add: accounted_def)

lemma tunnel_steps_accounted: "(tunnel_step hc lb)\<^sup>*\<^sup>* sw sw' \<Longrightarrow> accounted (fst sw') = accounted (fst sw)"
  by (induction rule: rtranclp_induct) (simp_all add: tunnel_step_accounted)

section \<open>The query of the callback URL\<close>

lemma query_start_found: "CHR ''?'' \<notin> set base \<Longrightarrow> query_start (base @ CHR ''?'' # q) i = i + length base + 1"
  by (induction base arbitrary: i) auto

lemma query_parts_split:
  "start \<le> i \<Longrightarrow> drop i query = cs \<Longrightarrow> CHR ''&'' \<notin> set (take (i - start) (drop start query)) \<Longrightarrow>
     query_parts query start i cs = split_on (CHR ''&'') (drop start query)"
proof (induction cs arbitrary: start i)
  case Nil
  then show ?case by (simp add: split_on_single)
next
  case (Cons c cs)
  let ?pre = "take (i - start) (drop start query)"
  have d: "drop start query = ?pre @ c # cs"
    using Cons.prems(1,2) by (metis append_take_drop_id drop_drop le_add_diff_inverse2)
  have n: "drop (Suc i) query = cs" using Cons.prems(2) by (metis drop_Suc list.sel(3) tl_drop)
  have il: "i < length query" using Cons.prems(2) by (metis drop_eq_Nil linorder_not_le list.distinct(1))
  have l: "length ?pre = i - start" using il by simp
  show ?case
  proof (cases "c = CHR ''&''")
    case True
    then show ?thesis
      using Cons.IH [of "Suc i" "Suc i"] n Cons.prems(3) split_on_append [of "CHR ''&''" ?pre cs] d by simp
  next
    case False
    have "take (Suc i - start) (drop start query) = ?pre @ [c]"
      using Cons.prems(1) il l by (subst d) (simp add: Suc_diff_le)
    then show ?thesis using Cons.IH [of start "Suc i"] n Cons.prems(1,3) False by simp
  qed
qed

lemma splitQuery_eq:
  assumes "CHR ''?'' \<notin> set base"
  shows "splitQuery (base @ CHR ''?'' # q) = split_on (CHR ''&'') q"
  using query_start_found [OF assms, of q 0] query_parts_split [of 0 0 q q] by (simp add: splitQuery_def)

section \<open>Where a request goes\<close>

text \<open>
  The host of an \<open>http\<close> URL (RFC 3986): the authority ends at the first slash, question mark or
  hash, and the user information before the last at-sign is not part of the host.
\<close>

definition url_host :: "string \<Rightarrow> string" where
  "url_host url =
     (let authority = takeWhile (\<lambda>c. c \<notin> {CHR ''/'', CHR ''?'', CHR ''#''}) (drop 7 url)
      in rev (takeWhile (\<lambda>c. c \<noteq> CHR ''@'') (rev authority)))"

text \<open>A client that answers every request with the host it was sent to.\<close>

definition echo_host :: "(string, 'w) http_client" where
  "echo_host = \<lparr>hc_NewRequest = (\<lambda>method url body. Inr url), hc_SetContentType = (\<lambda>r t. r),
     hc_Do = (\<lambda>r w. (Inr (200, url_host r), w))\<rparr>"

definition host_char :: "char \<Rightarrow> bool" where
  "host_char c \<longleftrightarrow> c \<notin> {CHR ''/'', CHR ''?'', CHR ''#'', CHR ''@''}"

lemma url_host_plain:
  assumes "list_all host_char h" and "rest = [] \<or> hd rest \<in> {CHR ''/'', CHR ''?'', CHR ''#''}"
  shows "url_host (''http://'' @ h @ rest) = h"
proof -
  have "takeWhile (\<lambda>c. c \<notin> {CHR ''/'', CHR ''?'', CHR ''#''}) (h @ rest) = h"
    using assms by (cases rest) (auto simp: list_all_iff host_char_def takeWhile_append)
  moreover have "takeWhile (\<lambda>c. c \<noteq> CHR ''@'') (rev h) = rev h"
    using assms(1) by (intro iffD2 [OF takeWhile_eq_all_conv]) (auto simp: list_all_iff host_char_def)
  then have "rev (takeWhile (\<lambda>c. c \<noteq> CHR ''@'') (rev h)) = h" by (simp only: rev_rev_ident)
  ultimately show ?thesis by (simp add: url_host_def)
qed

lemma url_host_userinfo:
  assumes "list_all host_char u" and "list_all host_char h" and "rest = [] \<or> hd rest \<in> {CHR ''/'', CHR ''?'', CHR ''#''}"
  shows "url_host (''http://'' @ u @ CHR ''@'' # h @ rest) = h"
proof -
  have "takeWhile (\<lambda>c. c \<notin> {CHR ''/'', CHR ''?'', CHR ''#''}) (u @ CHR ''@'' # h @ rest) = u @ CHR ''@'' # h"
    using assms by (cases rest) (auto simp: list_all_iff host_char_def takeWhile_append)
  moreover have "takeWhile (\<lambda>c. c \<noteq> CHR ''@'') (rev h @ CHR ''@'' # rev u) = rev h"
    using assms(2) by (auto simp: list_all_iff host_char_def takeWhile_append)
  ultimately show ?thesis by (simp add: url_host_def)
qed

lemma nat_digits_host: "list_all host_char (nat_digits n)"
proof (induction n rule: nat_digits.induct)
  case (1 n)
  have d: "host_char (digit_char k)" if "k < 10" for k
  proof -
    from that have "k \<in> set [0, 1, 2, 3, 4, 5, 6, 7, 8, 9]" by simp arith
    then show ?thesis by (auto simp: digit_char_def host_char_def char_of_def)
  qed
  then show ?case using 1 by (subst nat_digits.simps) simp
qed

lemma Itoa_host: "list_all host_char (Itoa i)"
  using nat_digits_host by (simp add: Itoa_def host_char_def)

section \<open>Properties\<close>

text \<open>
  The topic the agent joins: for a callback URL with the given query parameters it is the
  value of the first non-empty \<open>workspace_id\<close> parameter, and \<open>aether:unknown\<close> if there is none.
\<close>

lemma topic_is_workspace:
  assumes "CHR ''?'' \<notin> set base" and "params \<noteq> []" and "\<forall>p \<in> set params. CHR ''&'' \<notin> set p"
  shows "topicFromURL (base @ CHR ''?'' # join_with ''&'' params) =
    (case find (\<lambda>p. \<exists>v. v \<noteq> [] \<and> p = ''workspace_id='' @ v) params of
       Some p \<Rightarrow> ''aether:'' @ drop 13 p
     | None \<Rightarrow> ''aether:unknown'')"
proof -
  have "(13 < length p \<and> take 13 p = ''workspace_id='') \<longleftrightarrow> (\<exists>v. v \<noteq> [] \<and> p = ''workspace_id='' @ v)" for p
  proof
    assume "13 < length p \<and> take 13 p = ''workspace_id=''"
    then show "\<exists>v. v \<noteq> [] \<and> p = ''workspace_id='' @ v"
      by (intro exI [of _ "drop 13 p"]) (metis append_take_drop_id drop_eq_Nil linorder_not_le)
  qed auto
  then show ?thesis
    using splitQuery_eq [OF assms(1)] split_on_join [OF assms(3,2)] by (simp add: topicFromURL_def)
qed

text \<open>
  C25.  Every request is answered at most once, to the channel and with the reference it came with.
  After the reply to the join, in every state of a connection, the answers written, the answers whose
  write failed, the requests still being served and the requests in the frames not yet read are
  together exactly the requests in the frames of the connection: the JSON messages with the event
  \<open>request\<close> and a payload that decodes.  Once all frames are read, nothing is being served and no write
  failed, each of these requests has been answered exactly once and nothing else was answered.
\<close>

theorem tunnel_answers_once:
  assumes "run_setup dialOk writeOk url (reply # frames) = Ok s0" and "(tunnel_step hc lb)\<^sup>*\<^sup>* (s0, w0) (s, w)"
  shows "answers (ts_sent s) + answers (ts_lost s) + asked (ts_pending s) + requests (ts_frames s) = requests frames
    \<and> (ts_frames s = [] \<longrightarrow> ts_pending s = [] \<longrightarrow> ts_lost s = [] \<longrightarrow> answers (ts_sent s) = requests frames)"
  using tunnel_steps_accounted [OF assms(2)] run_setup_accounted [OF assms(1)]
  by (auto simp: accounted_def List.map_filter_simps)

definition example_frame :: "json option" where
  "example_frame = Some (JObject [(''topic'', JString ''aether:w''), (''event'', JString ''request''),
     (''payload'', JObject [(''ref'', JString ''r1''), (''path'', JString ''/x'')])])"

lemma example_request:
  "decode_msg example_frame = Some \<lparr>cm_Event = ''request'',
     cm_Payload = Some (JObject [(''ref'', JString ''r1''), (''path'', JString ''/x'')]), cm_Topic = ''aether:w''\<rparr>"
  "decode_request (Some (JObject [(''ref'', JString ''r1''), (''path'', JString ''/x'')])) =
     Some \<lparr>tr_Ref = ''r1'', tr_Method = [], tr_Path = ''/x'', tr_Body = []\<rparr>"
  by (simp_all add: decode_msg_def example_frame_def chan_msg_fields_def decode_request_def tunnel_request_fields_def
      field_def fold_key_def upper_char_def)

text \<open>A message of the channel that is no request.\<close>

definition example_notice :: "json option" where
  "example_notice = Some (JObject [(''topic'', JString ''aether:w''), (''event'', JString ''presence''),
     (''payload'', JObject [(''ref'', JString ''r0'')])])"

lemma example_notice_decodes:
  "\<exists>p. decode_msg example_notice = Some \<lparr>cm_Event = ''presence'', cm_Payload = p, cm_Topic = ''aether:w''\<rparr>"
  by (simp add: decode_msg_def example_notice_def chan_msg_fields_def field_def fold_key_def upper_char_def)

theorem tunnel_answers_once_witness:
  "\<exists>s. (tunnel_step echo_host (localBase 80))\<^sup>*\<^sup>*
      (\<lparr>ts_frames = [example_notice, example_frame], ts_pending = [], ts_sent = [joinMsg [], readyMsg []], ts_lost = []\<rparr>, ()) (s, ())
    \<and> answers (ts_sent s) = {#(''aether:w'', ''r1'')#}"
proof -
  let ?p = "Some (JObject [(''ref'', JString ''r1''), (''path'', JString ''/x'')])"
  let ?s0 = "\<lparr>ts_frames = [example_notice, example_frame], ts_pending = [], ts_sent = [joinMsg [], readyMsg []], ts_lost = []\<rparr>"
  let ?s1 = "receive (receive ?s0)"
  have s1: "?s1 = \<lparr>ts_frames = [], ts_pending = [(''aether:w'', ?p)], ts_sent = [joinMsg [], readyMsg []], ts_lost = []\<rparr>"
    using example_notice_decodes by (auto simp: receive_def example_request)
  obtain m where m: "handleRequest echo_host (localBase 80) ''aether:w'' ?p () = (Some m, ())"
    by (simp add: handleRequest_def example_request echo_host_def)
  let ?s2 = "?s1\<lparr>ts_pending := [] @ [], ts_sent := ts_sent ?s1 @ [m]\<rparr>"
  have "tunnel_step echo_host (localBase 80) (?s0, ()) (receive ?s0, ())"
    "tunnel_step echo_host (localBase 80) (receive ?s0, ()) (?s1, ())" by (rule tunnel_step.receive)+
  moreover have "tunnel_step echo_host (localBase 80) (?s1, ()) (?s2, ())"
    by (rule tunnel_step.respond [OF _ m]) (simp add: s1)
  ultimately have steps: "(tunnel_step echo_host (localBase 80))\<^sup>*\<^sup>* (?s0, ()) (?s2, ())"
    by (intro converse_rtranclp_into_rtranclp [OF _ converse_rtranclp_into_rtranclp [OF _ r_into_rtranclp]])
  have p: "ts_frames ?s2 = []" "ts_pending ?s2 = []" "ts_lost ?s2 = []" by (simp_all add: s1)
  have r: "requests [example_notice, example_frame] = {#(''aether:w'', ''r1'')#}"
    using example_notice_decodes by (auto simp: frame_key_def request_key_def example_request List.map_filter_simps)
  have "run_setup True (\<lambda>_. True) [] [Some JNull, example_notice, example_frame] = Ok ?s0" by (simp add: run_setup_def)
  from conjunct2 [OF tunnel_answers_once [OF this steps], rule_format, OF p] r
  have "answers (ts_sent ?s2) = {#(''aether:w'', ''r1'')#}" by (simp only:)
  with steps show ?thesis by (intro exI [of _ ?s2] conjI)
qed

text \<open>
  Where a proxied request goes.  A path that starts with a slash stays at the agent's own
  server; but the path is appended to the base URL unchecked, so a path that starts with an at-sign
  turns the local address into user information and the request goes to another host.  The client
  here answers with the host it was sent to.
\<close>

lemma proxy_leaves_localhost:
  assumes "decode_request payload = Some req"
  shows "(\<forall>rest. tr_Path req = CHR ''/'' # rest \<longrightarrow>
        handleRequest echo_host (localBase port) topic payload w
          = (Some (sendResponse topic (tr_Ref req) 200 (''127.0.0.1:'' @ Itoa port)), w))
    \<and> (\<forall>host rest. tr_Path req = CHR ''@'' # host @ CHR ''/'' # rest \<longrightarrow> list_all host_char host \<longrightarrow>
        handleRequest echo_host (localBase port) topic payload w = (Some (sendResponse topic (tr_Ref req) 200 host), w))"
proof -
  have l: "list_all host_char (''127.0.0.1:'' @ Itoa port)" using Itoa_host by (simp add: host_char_def)
  have "url_host (localBase port @ CHR ''/'' # rest) = ''127.0.0.1:'' @ Itoa port" for rest
    using url_host_plain [OF l, of "CHR ''/'' # rest"] by (simp add: localBase_def)
  moreover have "url_host (localBase port @ CHR ''@'' # host @ CHR ''/'' # rest) = host" if "list_all host_char host" for host rest
    using url_host_userinfo [OF l that, of "CHR ''/'' # rest"] by (simp add: localBase_def)
  ultimately show ?thesis using assms by (auto simp: handleRequest_def echo_host_def)
qed

end
