(* ===== verification/Agent_Main.thy ===== *)
theory Agent_Main
  imports Fuse_Overlay Egress_Firewall Reverse_Tunnel
begin

text \<open>
  The agent's main program (\<open>main.go\<close>): the boot sequence that mounts the overlay, creates the
  manifest store, installs the firewall and registers the callback that applies a manifest, and the
  two HTTP handlers of the main file, \<open>/exec\<close> and \<open>/shimmer/manifest\<close>.  The calls that leave the
  program are the fields of \<open>host_ops\<close>, over a world \<open>'w\<close>; \<open>net/url\<close>'s parser is one of them.  Of an
  HTTP error response only the status is kept.
\<close>

section \<open>Data\<close>

definition defaultPort :: int where "defaultPort = 49983"
definition defaultUser :: string where "defaultUser = ''root''"

record url_parts =
  url_Scheme :: string
  url_Hostname :: string
  url_Port :: string

record 'w host_ops =
  ho_MkdirAll :: "string \<Rightarrow> (unit, unit, 'w) io"
  ho_Stat :: "string \<Rightarrow> (unit, u64) outcome"
  ho_Mount :: "string \<Rightarrow> Overlay \<Rightarrow> (unit, unit) outcome"
  ho_ParseURL :: "string \<Rightarrow> url_parts option"
  ho_iptables :: "'w ipt_run"
  ho_LookupHost :: "string \<Rightarrow> string list option"
  ho_NetExists :: "string \<Rightarrow> bool"
  ho_NetEntries :: "string list option"
  ho_tc :: "string list \<Rightarrow> (unit, unit, 'w) io"

text \<open>The store of the agent; the overlay refers to it by the address \<open>0\<close>.\<close>

record 'w agent =
  ag_overlay :: "Overlay option"
  ag_store :: "'w Store"
  ag_fw :: "Firewall option"
  ag_defaults :: Defaults

section \<open>Boot\<close>

definition parseTunnelURL :: "(string \<Rightarrow> url_parts option) \<Rightarrow> string \<Rightarrow> string \<times> int" where
  "parseTunnelURL parse rawURL =
     (if rawURL = [] then ([], 0)
      else case parse rawURL of
        None \<Rightarrow> ([], 0)
      | Some u \<Rightarrow>
          if url_Port u = [] then
            (if url_Scheme u = ''wss'' \<or> url_Scheme u = ''https'' then (url_Hostname u, 443) else (url_Hostname u, 80))
          else case Atoi (url_Port u) of None \<Rightarrow> (url_Hostname u, 443) | Some p \<Rightarrow> (url_Hostname u, p))"

definition boot_overlay :: "'w host_ops \<Rightarrow> 'w \<Rightarrow> Overlay option \<times> 'w" where
  "boot_overlay ho w =
     (case ho_MkdirAll ho ''/aether'' w of
        (Ok _, w') \<Rightarrow>
          (case MountAt (ho_Stat ho) (ho_Mount ho) ''/'' ''/aether'' of
             Ok (_, overlay) \<Rightarrow> (Some overlay, w') | _ \<Rightarrow> (None, w'))
      | (_, w') \<Rightarrow> (None, w'))"

text \<open>The callback of the main program; the store calls it with the manifest it was given.\<close>

definition apply_manifest ::
  "'w ipt_run \<Rightarrow> (string \<Rightarrow> string list option) \<Rightarrow> Firewall option \<Rightarrow> Manifest option \<Rightarrow> 'w \<Rightarrow> 'w" where
  "apply_manifest run lookupHost fw m w =
     (case (fw, m) of
        (Some f, Some man) \<Rightarrow> snd (Apply run lookupHost f (m_Network man) w)
      | _ \<Rightarrow> w)"

definition boot :: "'w host_ops \<Rightarrow> string \<Rightarrow> 'w \<Rightarrow> 'w agent \<times> 'w" where
  "boot ho callbackURL w =
     (let (overlay, w1) = boot_overlay ho w;
          (tunnelHost', tunnelPort') = parseTunnelURL (ho_ParseURL ho) callbackURL;
          (r, w2) = Firewall_Setup (ho_iptables ho) (ho_LookupHost ho) tunnelHost' tunnelPort' w1;
          fw = (case r of Ok f \<Rightarrow> Some f | _ \<Rightarrow> None);
          store = OnUpdate NewStore (apply_manifest (ho_iptables ho) (ho_LookupHost ho) fw);
          w3 = snd (Net_Setup (ho_NetExists ho) (ho_NetEntries ho) (ho_MkdirAll ho) (ho_tc ho) w2)
      in (\<lparr>ag_overlay = map_option (\<lambda>o'. SetStore o' (Some 0)) overlay, ag_store = store, ag_fw = fw,
           ag_defaults = \<lparr>df_EnvVars = NewMap, df_User = defaultUser, df_Workdir = None,
                          df_UseOverlay = overlay \<noteq> None\<rparr>\<rparr>, w3))"

section \<open>The manifest endpoint\<close>

definition network_entry_fields :: "NetworkEntry struct_fields" where
  "network_entry_fields =
     [(''ability_id'', field ne_AbilityID ne_AbilityID_update dec_string),
      (''pattern'', field ne_Pattern ne_Pattern_update dec_string),
      (''protocol'', field ne_Protocol ne_Protocol_update dec_string),
      (''direction'', field ne_Direction ne_Direction_update dec_string),
      (''credential_key'', field ne_CredentialKey ne_CredentialKey_update dec_string),
      (''inspect'', field ne_Inspect ne_Inspect_update dec_bool)]"

definition filesystem_entry_fields :: "FilesystemEntry struct_fields" where
  "filesystem_entry_fields =
     [(''ability_id'', field fe_AbilityID fe_AbilityID_update dec_string),
      (''path'', field fe_Path fe_Path_update dec_string),
      (''direction'', field fe_Direction fe_Direction_update dec_string),
      (''mode'', field fe_Mode fe_Mode_update dec_string),
      (''source'', field fe_Source fe_Source_update dec_string),
      (''persist'', field fe_Persist fe_Persist_update dec_bool)]"

definition zero_network :: NetworkEntry where
  "zero_network = \<lparr>ne_AbilityID = [], ne_Pattern = [], ne_Protocol = [], ne_Direction = [], ne_CredentialKey = [], ne_Inspect = False\<rparr>"

definition zero_filesystem :: FilesystemEntry where
  "zero_filesystem = \<lparr>fe_AbilityID = [], fe_Path = [], fe_Direction = [], fe_Mode = [], fe_Source = [], fe_Persist = False\<rparr>"

definition manifest_fields :: "Manifest struct_fields" where
  "manifest_fields =
     [(''version'', field m_Version m_Version_update dec_int),
      (''workspace_id'', field m_WorkspaceID m_WorkspaceID_update dec_string),
      (''network'', field m_Network m_Network_update (dec_list zero_network (dec_struct network_entry_fields))),
      (''filesystem'', field m_Filesystem m_Filesystem_update (dec_list zero_filesystem (dec_struct filesystem_entry_fields))),
      (''credentials'', field m_Credentials m_Credentials_update (dec_map [] dec_string))]"

definition decode_manifest :: "json option \<Rightarrow> Manifest option" where
  "decode_manifest body =
     Option.bind body (\<lambda>j. dec_struct manifest_fields j
       \<lparr>m_Version = 0, m_WorkspaceID = [], m_Network = [], m_Filesystem = [], m_Credentials = Map.empty\<rparr>)"

datatype http_response = HttpError int | HttpJson json

definition handle_manifest :: "'w Store \<Rightarrow> json option \<Rightarrow> 'w \<Rightarrow> http_response \<times> 'w Store \<times> 'w" where
  "handle_manifest store body w =
     (case decode_manifest body of
        None \<Rightarrow> (HttpError 400, store, w)
      | Some man \<Rightarrow>
          (case Update store (Some man) w of
             (store', w') \<Rightarrow>
               (HttpJson (JObject [(''filesystem_rules'', JNumber (Itoa (int (length (m_Filesystem man))))),
                                   (''network_rules'', JNumber (Itoa (int (length (m_Network man))))),
                                   (''ok'', JBool True)]), store', w')))"

section \<open>The exec endpoint\<close>

record exec_request =
  ex_Cmd :: string
  ex_Args :: "string list"
  ex_Envs :: "string \<rightharpoonup> string"
  ex_Cwd :: string

definition exec_fields :: "exec_request struct_fields" where
  "exec_fields =
     [(''cmd'', field ex_Cmd ex_Cmd_update dec_string),
      (''args'', field ex_Args ex_Args_update (dec_list [] dec_string)),
      (''envs'', field ex_Envs ex_Envs_update (dec_map [] dec_string)),
      (''cwd'', field ex_Cwd ex_Cwd_update dec_string)]"

definition decode_exec :: "json option \<Rightarrow> exec_request option" where
  "decode_exec body =
     Option.bind body (\<lambda>j. dec_struct exec_fields j \<lparr>ex_Cmd = [], ex_Args = [], ex_Envs = Map.empty, ex_Cwd = []\<rparr>)"

text \<open>A nil environment (\<open>None\<close>) makes the child inherit the environment of the agent.\<close>

record exec_cmd =
  xc_Name :: string
  xc_Args :: "string list"
  xc_Dir :: string
  xc_Env :: "string list option"
  xc_Chroot :: string

text \<open>\<open>order\<close> is the order in which the request's variables are visited.\<close>

definition exec_command :: "string list \<Rightarrow> string list \<Rightarrow> bool \<Rightarrow> exec_request \<Rightarrow> exec_cmd" where
  "exec_command environ order overlayMounted req =
     (let vars = List.map_filter (\<lambda>k. map_option (\<lambda>v. k @ ''='' @ v) (ex_Envs req k)) order
      in \<lparr>xc_Name = ex_Cmd req, xc_Args = ex_Args req, xc_Dir = ex_Cwd req,
          xc_Env = (if vars = [] then None else Some (environ @ vars)),
          xc_Chroot = (if overlayMounted then ''/aether'' else [])\<rparr>)"

datatype run_result = RunOk | RunExit int | RunErr

definition exec_response :: "string \<Rightarrow> string \<Rightarrow> int \<Rightarrow> http_response" where
  "exec_response out err code =
     HttpJson (JObject [(''exit_code'', JNumber (Itoa code)), (''stderr'', JString err), (''stdout'', JString out)])"

definition handle_exec ::
  "(exec_cmd \<Rightarrow> 'w \<Rightarrow> (run_result \<times> string \<times> string) \<times> 'w) \<Rightarrow> string list \<Rightarrow> string list \<Rightarrow> bool
     \<Rightarrow> json option \<Rightarrow> 'w \<Rightarrow> http_response \<times> 'w" where
  "handle_exec run environ order overlayMounted body w =
     (case decode_exec body of
        None \<Rightarrow> (HttpError 400, w)
      | Some req \<Rightarrow>
          (case run (exec_command environ order overlayMounted req) w of
             ((RunOk, out, err), w') \<Rightarrow> (exec_response out err 0, w')
           | ((RunExit code, out, err), w') \<Rightarrow> (exec_response out err code, w')
           | ((RunErr, out, err), w') \<Rightarrow> (HttpError 500, w')))"

section \<open>The booted agent\<close>

text \<open>The manifest pushes an agent can receive; each goes through the handler.\<close>

inductive agent_run :: "'w agent \<Rightarrow> 'w \<Rightarrow> 'w agent \<Rightarrow> 'w \<Rightarrow> bool" where
  refl: "agent_run ag w ag w"
| push: "agent_run ag w ag1 w1 \<Longrightarrow> handle_manifest (ag_store ag1) body w1 = (resp, store', w2) \<Longrightarrow>
     agent_run ag w (ag1\<lparr>ag_store := store'\<rparr>) w2"
| world: "agent_run ag w ag1 w1 \<Longrightarrow> agent_run ag w ag1 w2"

lemma boot_store:
  assumes "boot ho callbackURL w = (ag, w')"
  shows "ag_store ag = OnUpdate NewStore (apply_manifest (ho_iptables ho) (ho_LookupHost ho) (ag_fw ag))"
  using assms by (auto simp: boot_def Let_def split_beta)

lemma boot_overlay_fresh:
  assumes "boot ho callbackURL w = (ag, w')"
  shows "(ag_overlay ag \<noteq> None \<longleftrightarrow> df_UseOverlay (ag_defaults ag))
    \<and> (\<forall>o'. ag_overlay ag = Some o' \<longrightarrow> o_store o' = Some 0 \<and> o_virtuals o' = Map.empty)"
  using assms
  by (auto simp: boot_def Let_def split_beta SetStore_def boot_overlay_def MountAt_def NewOverlay_def and_then_Ok_iff
      split: prod.splits outcome.splits)

text \<open>What every agent that has booted keeps: its callback, its firewall and its overlay.\<close>

definition agent_ok :: "'w host_ops \<Rightarrow> 'w agent \<Rightarrow> bool" where
  "agent_ok ho ag \<longleftrightarrow> store_reachable (ag_store ag)
     \<and> s_callbacks (ag_store ag) = [apply_manifest (ho_iptables ho) (ho_LookupHost ho) (ag_fw ag)]
     \<and> (\<forall>o'. ag_overlay ag = Some o' \<longrightarrow> o_store o' = Some 0 \<and> o_virtuals o' = Map.empty)"

lemma boot_ok: "boot ho callbackURL w = (ag, w') \<Longrightarrow> agent_ok ho ag"
  using boot_store [of ho callbackURL w ag w'] boot_overlay_fresh [of ho callbackURL w ag w']
  by (auto simp: agent_ok_def OnUpdate_def NewStore_def
      intro: store_reachable.on_update [OF store_reachable.new, unfolded OnUpdate_def NewStore_def, simplified])

lemma Update_callbacks [simp]: "s_callbacks (fst (Update s m w)) = s_callbacks s"
  by (simp add: Update_def Let_def rebuildIndexLocked_def split: option.splits)

lemma Update_current [simp]: "Current (fst (Update s m w)) = m"
  by (simp add: Update_def Let_def rebuildIndexLocked_def Current_def split: option.splits)

lemma handle_manifest_store:
  "handle_manifest store body w = (resp, store', w') \<Longrightarrow>
     store' = store \<or> (\<exists>man. decode_manifest body = Some man \<and> store' = fst (Update store (Some man) w))"
  by (auto simp: handle_manifest_def split: option.splits prod.splits)

lemma agent_run_ok:
  "agent_run ag w ag' w' \<Longrightarrow> agent_ok ho ag \<Longrightarrow>
     agent_ok ho ag' \<and> ag_fw ag' = ag_fw ag \<and> ag_overlay ag' = ag_overlay ag \<and> ag_defaults ag' = ag_defaults ag"
proof (induction rule: agent_run.induct)
  case (push ag w ag1 w1 body resp store' w2)
  have ok: "store_reachable (ag_store ag1)" "s_callbacks store' = s_callbacks (ag_store ag1)" "store_reachable store'"
    using push.IH [OF push.prems] handle_manifest_store [OF push.hyps(2)] store_reachable.update [of "ag_store ag1"]
    by (auto simp: agent_ok_def)
  with push.IH [OF push.prems] show ?case by (simp add: agent_ok_def)
qed simp_all

lemma push_effect:
  assumes "agent_ok ho ag" and "decode_manifest body = Some man"
    and "handle_manifest (ag_store ag) body w = (resp, store', w')"
  shows "Current store' = Some man" and "store_reachable store'"
    and "w' = apply_manifest (ho_iptables ho) (ho_LookupHost ho) (ag_fw ag) (Some man) w"
    and "resp = HttpJson (JObject [(''filesystem_rules'', JNumber (Itoa (int (length (m_Filesystem man))))),
                                   (''network_rules'', JNumber (Itoa (int (length (m_Network man))))),
                                   (''ok'', JBool True)])"
proof -
  obtain s1 v where u: "Update (ag_store ag) (Some man) w = (s1, v)" by fastforce
  then have s: "s1 = fst (Update (ag_store ag) (Some man) w)" and v: "v = snd (Update (ag_store ag) (Some man) w)"
    by simp_all
  have r: "resp = HttpJson (JObject [(''filesystem_rules'', JNumber (Itoa (int (length (m_Filesystem man))))),
                                   (''network_rules'', JNumber (Itoa (int (length (m_Network man))))),
                                   (''ok'', JBool True)])" "store' = s1" "w' = v"
    using assms(2,3) u by (simp_all add: handle_manifest_def)
  show "resp = HttpJson (JObject [(''filesystem_rules'', JNumber (Itoa (int (length (m_Filesystem man))))),
                                   (''network_rules'', JNumber (Itoa (int (length (m_Network man))))),
                                   (''ok'', JBool True)])" by (rule r(1))
  show "Current store' = Some man" "store_reachable store'"
    using assms(1) unfolding r(2) s by (auto simp: agent_ok_def intro: store_reachable.update)
  have "s_callbacks (rebuildIndexLocked (ag_store ag\<lparr>s_current := Some man\<rparr>)) = s_callbacks (ag_store ag)"
    by (simp add: rebuildIndexLocked_def)
  then show "w' = apply_manifest (ho_iptables ho) (ho_LookupHost ho) (ag_fw ag) (Some man) w"
    using assms(1) unfolding r(3) v by (simp add: Update_def Let_def agent_ok_def)
qed

end
