(* ===== verification/Go_Files.thy ===== *)
theory Go_Files
  imports Agent_Runtime "HOL-Library.Sublist"
begin

text \<open>
  The part of Go's \<open>os\<close> package the storage code uses, over a file system that several programs
  share.  Names point to inodes, so that a handle stays valid when its name is removed and a hard
  link shares the content; every call may fail.  A program is a tree of calls: it asks for one
  system call, or for a call of a remote service (\<open>'c\<close>), and goes on with the reply, or it starts a
  goroutine, named by the job \<open>'q\<close> it runs.  Threads interleave between any two calls.

  The second half is a proof method for such systems.  A cache directory holds \<^emph>\<open>final\<close> files, each
  of which must satisfy a predicate, and temporary files, whose names end in a fresh UUID.  A program
  is good if it writes only to temporary files it created and links a temporary file to a final name
  only when the content is right.  If all programs of a system are good, then in every interleaving,
  with any failures, the final files are right and every program returns what it promises.
\<close>

section \<open>Files\<close>

datatype os_errno = ErrNotExist | ErrExist | ErrOther

record inode =
  in_data :: "byte list"
  in_mtime :: int

record fs =
  fs_names :: "string \<rightharpoonup> nat"
  fs_dirs :: "string set"
  fs_inodes :: "nat \<Rightarrow> inode"
  fs_next :: nat
  fs_clock :: int
  fs_uuids :: "string set"

definition file_data :: "fs \<Rightarrow> nat \<Rightarrow> byte list" where
  "file_data s i = in_data (fs_inodes s i)"

definition write_bytes :: "nat \<Rightarrow> byte list \<Rightarrow> byte list \<Rightarrow> byte list" where
  "write_bytes off bs old =
     take off old @ replicate (off - length old) 0 @ bs @ drop (off + length bs) old"

definition fs_put :: "nat \<Rightarrow> byte list \<Rightarrow> fs \<Rightarrow> fs" where
  "fs_put i bs s = s\<lparr>fs_inodes := (fs_inodes s)(i := \<lparr>in_data = bs, in_mtime = fs_clock s\<rparr>)\<rparr>"

definition fs_create :: "string \<Rightarrow> fs \<Rightarrow> fs" where
  "fs_create p s = (fs_put (fs_next s) [] s)\<lparr>fs_names := (fs_names s)(p \<mapsto> fs_next s), fs_next := Suc (fs_next s)\<rparr>"

definition fs_rename :: "(string \<Rightarrow> nat option) \<Rightarrow> fs \<Rightarrow> fs" where
  "fs_rename names s = s\<lparr>fs_names := names\<rparr>"

text \<open>A UUID in text form: 36 hexadecimal digits and hyphens, the last one a digit.\<close>

definition hex_digit :: "char \<Rightarrow> bool" where
  "hex_digit c \<longleftrightarrow> c \<in> set ''0123456789abcdef''"

definition is_uuid :: "string \<Rightarrow> bool" where
  "is_uuid u \<longleftrightarrow> length u = 36 \<and> (\<forall>c \<in> set u. hex_digit c \<or> c = CHR ''-'') \<and> hex_digit (last u)"

section \<open>Programs\<close>

datatype 'c os_call =
    OpenRead string | CreateExcl string | OpenWrite string bool
  | ReadAtCall nat nat nat | ReadAllCall nat | WriteAtCall nat nat "byte list" | CloseCall nat
  | StatCall string | FStatCall nat | NowCall | LinkCall string string | RemoveCall string | RemoveAllCall string
  | MkdirAllCall string | UuidCall | RemoteCall 'c

datatype os_reply =
    RErr os_errno | RUnit | RFile nat | RBytes "byte list" bool | RCount nat | RStat bool nat int
  | RTime int | RName string

datatype ('q, 'c, 'a) prog =
    Done 'a
  | Call "'c os_call" "os_reply \<Rightarrow> ('q, 'c, 'a) prog"
  | Go 'q "('q, 'c, 'a) prog"

primrec prog_then :: "('q, 'c, 'a) prog \<Rightarrow> ('a \<Rightarrow> ('q, 'c, 'b) prog) \<Rightarrow> ('q, 'c, 'b) prog" where
  "prog_then (Done x) f = f x"
| "prog_then (Call c k) f = Call c (\<lambda>r. prog_then (k r) f)"
| "prog_then (Go j p) f = Go j (prog_then p f)"

text \<open>The replies as the calling code sees them; a reply of another shape does not occur.\<close>

fun as_file :: "os_reply \<Rightarrow> (os_errno, nat) outcome" where
  "as_file (RFile i) = Ok i"
| "as_file (RErr e) = Err e"
| "as_file _ = Err ErrOther"

fun as_bytes :: "os_reply \<Rightarrow> (os_errno, byte list \<times> bool) outcome" where
  "as_bytes (RBytes bs eof) = Ok (bs, eof)"
| "as_bytes (RErr e) = Err e"
| "as_bytes _ = Err ErrOther"

fun as_unit :: "os_reply \<Rightarrow> (os_errno, unit) outcome" where
  "as_unit (RErr e) = Err e"
| "as_unit _ = Ok ()"

fun as_stat :: "os_reply \<Rightarrow> (os_errno, bool \<times> nat \<times> int) outcome" where
  "as_stat (RStat d n t) = Ok (d, n, t)"
| "as_stat (RErr e) = Err e"
| "as_stat _ = Err ErrOther"

fun as_time :: "os_reply \<Rightarrow> int" where
  "as_time (RTime t) = t"
| "as_time _ = 0"

fun as_name :: "os_reply \<Rightarrow> string" where
  "as_name (RName u) = u"
| "as_name _ = []"

definition os_do :: "'c os_call \<Rightarrow> (os_reply \<Rightarrow> 'r) \<Rightarrow> ('q, 'c, 'r) prog" where
  "os_do c view = Call c (\<lambda>r. Done (view r))"

text \<open>A fallible program followed by another; an error ends the sequence.\<close>

definition try_then ::
  "('q, 'c, ('e, 'a) outcome) prog \<Rightarrow> ('a \<Rightarrow> ('q, 'c, ('e, 'b) outcome) prog) \<Rightarrow> ('q, 'c, ('e, 'b) outcome) prog" where
  "try_then p f = prog_then p (\<lambda>r. case r of Ok x \<Rightarrow> f x | Err e \<Rightarrow> Done (Err e) | Panic \<Rightarrow> Done Panic)"

section \<open>System calls\<close>

fun fallible :: "'c os_call \<Rightarrow> bool" where
  "fallible NowCall = False"
| "fallible UuidCall = False"
| "fallible (RemoteCall c) = False"
| "fallible _ = True"

text \<open>
  What a call can reply, and the file system after it.  \<open>ReadAt\<close> replies the end-of-file error with a
  short read.  A failed write may have written a part.  A new UUID is not part of any name in use.
  Remote calls do not touch the file system; \<open>remote\<close> says how they can be answered.
\<close>

inductive os_step :: "('c \<Rightarrow> os_reply \<Rightarrow> bool) \<Rightarrow> fs \<Rightarrow> 'c os_call \<Rightarrow> os_reply \<Rightarrow> fs \<Rightarrow> bool" for remote where
  fails: "fallible c \<Longrightarrow> os_step remote s c (RErr ErrOther) s"
| open_read: "fs_names s p = Some i \<Longrightarrow> os_step remote s (OpenRead p) (RFile i) s"
| open_missing: "fs_names s p = None \<Longrightarrow> os_step remote s (OpenRead p) (RErr ErrNotExist) s"
| create: "fs_names s p = None \<Longrightarrow> os_step remote s (CreateExcl p) (RFile (fs_next s)) (fs_create p s)"
| create_exists: "fs_names s p \<noteq> None \<Longrightarrow> os_step remote s (CreateExcl p) (RErr ErrExist) s"
| open_new: "fs_names s p = None \<Longrightarrow> p \<notin> fs_dirs s \<Longrightarrow>
    os_step remote s (OpenWrite p trunc) (RFile (fs_next s)) (fs_create p s)"
| open_old: "fs_names s p = Some i \<Longrightarrow>
    os_step remote s (OpenWrite p trunc) (RFile i) (if trunc then fs_put i [] s else s)"
| read: "bs = take n (drop off (file_data s i)) \<Longrightarrow>
    os_step remote s (ReadAtCall i n off) (RBytes bs (length bs < n)) s"
| read_all: "os_step remote s (ReadAllCall i) (RBytes (file_data s i) True) s"
| write_all: "os_step remote s (WriteAtCall i off bs) (RCount (length bs)) (fs_put i (write_bytes off bs (file_data s i)) s)"
| write_part: "n < length bs \<Longrightarrow>
    os_step remote s (WriteAtCall i off bs) (RErr ErrOther) (fs_put i (write_bytes off (take n bs) (file_data s i)) s)"
| close: "os_step remote s (CloseCall i) RUnit s"
| stat: "fs_names s p = Some i \<Longrightarrow>
    os_step remote s (StatCall p) (RStat False (length (file_data s i)) (in_mtime (fs_inodes s i))) s"
| stat_dir: "p \<in> fs_dirs s \<Longrightarrow> os_step remote s (StatCall p) (RStat True n t) s"
| stat_missing: "fs_names s p = None \<Longrightarrow> p \<notin> fs_dirs s \<Longrightarrow> os_step remote s (StatCall p) (RErr ErrNotExist) s"
| fstat: "os_step remote s (FStatCall i) (RStat False (length (file_data s i)) (in_mtime (fs_inodes s i))) s"
| now: "os_step remote s NowCall (RTime (fs_clock s)) s"
| link: "fs_names s p = Some i \<Longrightarrow> fs_names s q = None \<Longrightarrow>
    os_step remote s (LinkCall p q) RUnit (fs_rename ((fs_names s)(q \<mapsto> i)) s)"
| link_exists: "fs_names s q \<noteq> None \<Longrightarrow> os_step remote s (LinkCall p q) (RErr ErrExist) s"
| link_missing: "fs_names s p = None \<Longrightarrow> os_step remote s (LinkCall p q) (RErr ErrNotExist) s"
| remove: "fs_names s p = Some i \<Longrightarrow>
    os_step remote s (RemoveCall p) RUnit (fs_rename ((fs_names s)(p := None)) s)"
| remove_missing: "fs_names s p = None \<Longrightarrow> os_step remote s (RemoveCall p) (RErr ErrNotExist) s"
| remove_all: "os_step remote s (RemoveAllCall p) RUnit
    (fs_rename (\<lambda>q. if q = p \<or> HasPrefix q (p @ ''/'') then None else fs_names s q) s)"
| mkdir: "os_step remote s (MkdirAllCall p) RUnit (s\<lparr>fs_dirs := insert p (fs_dirs s)\<rparr>)"
| uuid: "is_uuid u \<Longrightarrow> u \<notin> fs_uuids s \<Longrightarrow> (\<forall>p \<in> dom (fs_names s). \<not> suffix u p) \<Longrightarrow>
    os_step remote s UuidCall (RName u) (s\<lparr>fs_uuids := insert u (fs_uuids s)\<rparr>)"
| remote: "remote c r \<Longrightarrow> os_step remote s (RemoteCall c) r s"

section \<open>Threads\<close>

text \<open>
  A state of the system is the file system with a list of threads, each a request with what is left
  of its program.  Requests of the set \<open>reqs\<close> may be started at any time; time passes.
\<close>

type_synonym ('q, 'c, 'a) threads = "('q \<times> ('q, 'c, 'a) prog) list"

inductive sys_step ::
  "('c \<Rightarrow> os_reply \<Rightarrow> bool) \<Rightarrow> 'q set \<Rightarrow> ('q \<Rightarrow> ('q, 'c, 'a) prog) \<Rightarrow> fs \<times> ('q, 'c, 'a) threads
     \<Rightarrow> fs \<times> ('q, 'c, 'a) threads \<Rightarrow> bool" for remote reqs prog_of where
  call: "t < length ts \<Longrightarrow> ts ! t = (q, Call c k) \<Longrightarrow> os_step remote s c r s' \<Longrightarrow>
    sys_step remote reqs prog_of (s, ts) (s', ts[t := (q, k r)])"
| go: "t < length ts \<Longrightarrow> ts ! t = (q, Go j p) \<Longrightarrow>
    sys_step remote reqs prog_of (s, ts) (s, ts[t := (q, p)] @ [(j, prog_of j)])"
| start: "q \<in> reqs \<Longrightarrow> sys_step remote reqs prog_of (s, ts) (s, ts @ [(q, prog_of q)])"
| tick: "fs_clock s \<le> now \<Longrightarrow> sys_step remote reqs prog_of (s, ts) (s\<lparr>fs_clock := now\<rparr>, ts)"

lemma file_data_simps [simp]:
  "file_data (fs_put i bs s) j = (if j = i then bs else file_data s j)"
  "file_data (fs_create p s) j = (if j = fs_next s then [] else file_data s j)"
  "file_data (fs_rename names s) j = file_data s j"
  "file_data (s\<lparr>fs_dirs := ds\<rparr>) j = file_data s j" "file_data (s\<lparr>fs_uuids := us\<rparr>) j = file_data s j"
  "file_data (s\<lparr>fs_clock := now\<rparr>) j = file_data s j"
  by (simp_all add: file_data_def fs_put_def fs_create_def fs_rename_def)

lemma fs_put_fields [simp]:
  "fs_names (fs_put i bs s) = fs_names s" "fs_next (fs_put i bs s) = fs_next s"
  "fs_uuids (fs_put i bs s) = fs_uuids s" "fs_clock (fs_put i bs s) = fs_clock s" "fs_dirs (fs_put i bs s) = fs_dirs s"
  by (simp_all add: fs_put_def)

lemma fs_create_fields [simp]:
  "fs_names (fs_create p s) = (fs_names s)(p \<mapsto> fs_next s)" "fs_next (fs_create p s) = Suc (fs_next s)"
  "fs_uuids (fs_create p s) = fs_uuids s" "fs_clock (fs_create p s) = fs_clock s" "fs_dirs (fs_create p s) = fs_dirs s"
  by (simp_all add: fs_create_def)

lemma fs_rename_fields [simp]:
  "fs_names (fs_rename names s) = names" "fs_next (fs_rename names s) = fs_next s"
  "fs_uuids (fs_rename names s) = fs_uuids s" "fs_clock (fs_rename names s) = fs_clock s" "fs_dirs (fs_rename names s) = fs_dirs s"
  by (simp_all add: fs_rename_def)

lemma write_bytes_end [simp]: "write_bytes (length old) bs old = old @ bs"
  by (simp add: write_bytes_def)

lemma prog_then_os_do [simp]: "prog_then (os_do c view) f = Call c (\<lambda>r. f (view r))"
  by (simp add: os_do_def)

lemma as_unit_cases: "(\<And>e. Q (Err e) g) \<Longrightarrow> Q (Ok ()) g \<Longrightarrow> Q (as_unit r) g"
  by (cases r) auto

lemma uuid_suffix_unique:
  assumes "is_uuid u" and "is_uuid v" and "suffix u p" and "suffix v p"
  shows "u = v"
  using assms by (metis is_uuid_def suffix_length_suffix suffix_order.eq_iff order_refl)

lemma uuid_no_suffix:
  assumes "is_uuid u" and "p \<noteq> []" and "\<not> hex_digit (last p)"
  shows "\<not> suffix u p"
proof
  assume "suffix u p"
  moreover have "u \<noteq> []" using assms(1) by (auto simp: is_uuid_def)
  ultimately have "last p = last u" by (auto simp: suffix_def)
  with assms show False by (simp add: is_uuid_def)
qed

section \<open>Undisturbed runs\<close>

text \<open>
  For concrete runs: the system calls when nothing fails (\<open>None\<close> where such a call is not possible),
  with the UUIDs taken from a counter, and a program that runs alone for at most \<open>n\<close> calls, answered
  by the remote service \<open>rm\<close>.  The jobs it starts are collected.
\<close>

definition uuid_text :: "nat \<Rightarrow> string" where
  "uuid_text n = replicate (36 - length (nat_digits n)) CHR ''0'' @ nat_digits n"

fun os_run :: "('c \<Rightarrow> os_reply) \<Rightarrow> fs \<Rightarrow> 'c os_call \<Rightarrow> os_reply \<times> fs" where
  "os_run rm s (OpenRead p) = (case fs_names s p of Some i \<Rightarrow> (RFile i, s) | None \<Rightarrow> (RErr ErrNotExist, s))"
| "os_run rm s (CreateExcl p) =
     (if fs_names s p = None then (RFile (fs_next s), fs_create p s) else (RErr ErrExist, s))"
| "os_run rm s (OpenWrite p trunc) =
     (case fs_names s p of
        Some i \<Rightarrow> (RFile i, if trunc then fs_put i [] s else s)
      | None \<Rightarrow> if p \<in> fs_dirs s then (RErr ErrOther, s) else (RFile (fs_next s), fs_create p s))"
| "os_run rm s (ReadAtCall i n off) =
     (let bs = take n (drop off (file_data s i)) in (RBytes bs (length bs < n), s))"
| "os_run rm s (ReadAllCall i) = (RBytes (file_data s i) True, s)"
| "os_run rm s (WriteAtCall i off bs) = (RCount (length bs), fs_put i (write_bytes off bs (file_data s i)) s)"
| "os_run rm s (CloseCall i) = (RUnit, s)"
| "os_run rm s (StatCall p) =
     (case fs_names s p of
        Some i \<Rightarrow> (RStat False (length (file_data s i)) (in_mtime (fs_inodes s i)), s)
      | None \<Rightarrow> if p \<in> fs_dirs s then (RStat True 0 0, s) else (RErr ErrNotExist, s))"
| "os_run rm s (FStatCall i) = (RStat False (length (file_data s i)) (in_mtime (fs_inodes s i)), s)"
| "os_run rm s NowCall = (RTime (fs_clock s), s)"
| "os_run rm s (LinkCall p q) =
     (case fs_names s p of
        None \<Rightarrow> (RErr ErrNotExist, s)
      | Some i \<Rightarrow> if fs_names s q = None then (RUnit, fs_rename ((fs_names s)(q \<mapsto> i)) s) else (RErr ErrExist, s))"
| "os_run rm s (RemoveCall p) =
     (case fs_names s p of None \<Rightarrow> (RErr ErrNotExist, s) | Some i \<Rightarrow> (RUnit, fs_rename ((fs_names s)(p := None)) s))"
| "os_run rm s (RemoveAllCall p) =
     (RUnit, fs_rename (\<lambda>q. if q = p \<or> HasPrefix q (p @ ''/'') then None else fs_names s q) s)"
| "os_run rm s (MkdirAllCall p) = (RUnit, s\<lparr>fs_dirs := insert p (fs_dirs s)\<rparr>)"
| "os_run rm s UuidCall =
     (let u = uuid_text (card (fs_uuids s)) in (RName u, s\<lparr>fs_uuids := insert u (fs_uuids s)\<rparr>))"
| "os_run rm s (RemoteCall c) = (rm c, s)"

definition fresh_uuid :: "fs \<Rightarrow> bool" where
  "fresh_uuid s \<longleftrightarrow> (let u = uuid_text (card (fs_uuids s))
     in is_uuid u \<and> u \<notin> fs_uuids s \<and> (\<forall>p \<in> dom (fs_names s). \<not> suffix u p))"

lemma os_run_step:
  assumes "c = UuidCall \<Longrightarrow> fresh_uuid s" and "\<And>d. c = RemoteCall d \<Longrightarrow> remote d (rm d)"
  shows "os_step remote s c (fst (os_run rm s c)) (snd (os_run rm s c))"
proof (cases c)
  case UuidCall
  then show ?thesis using assms(1) by (auto simp: fresh_uuid_def Let_def intro!: os_step.uuid)
next
  case (OpenWrite p trunc)
  then show ?thesis
    using os_step.open_old [of s p _ remote trunc] by (auto split: option.splits intro: os_step.intros)
next
  case (ReadAtCall i n off)
  then show ?thesis using os_step.read [OF refl, of remote s i n off] by (simp add: Let_def)
qed (use assms in \<open>auto split: option.splits simp: Let_def intro: os_step.intros\<close>)

fun run_prog :: "('c \<Rightarrow> os_reply) \<Rightarrow> nat \<Rightarrow> fs \<Rightarrow> ('q, 'c, 'a) prog \<Rightarrow> fs \<times> ('q, 'c, 'a) prog \<times> 'q list" where
  "run_prog rm 0 s p = (s, p, [])"
| "run_prog rm (Suc n) s (Done x) = (s, Done x, [])"
| "run_prog rm (Suc n) s (Call c k) = run_prog rm n (snd (os_run rm s c)) (k (fst (os_run rm s c)))"
| "run_prog rm (Suc n) s (Go j p) = (case run_prog rm n s p of (s', p', js) \<Rightarrow> (s', p', j # js))"

fun run_valid :: "('c \<Rightarrow> os_reply \<Rightarrow> bool) \<Rightarrow> ('c \<Rightarrow> os_reply) \<Rightarrow> nat \<Rightarrow> fs \<Rightarrow> ('q, 'c, 'a) prog \<Rightarrow> bool" where
  "run_valid remote rm 0 s p = True"
| "run_valid remote rm (Suc n) s (Done x) = True"
| "run_valid remote rm (Suc n) s (Call c k) =
     ((c = UuidCall \<longrightarrow> fresh_uuid s) \<and> (case c of RemoteCall d \<Rightarrow> remote d (rm d) | _ \<Rightarrow> True)
      \<and> run_valid remote rm n (snd (os_run rm s c)) (k (fst (os_run rm s c))))"
| "run_valid remote rm (Suc n) s (Go j p) = run_valid remote rm n s p"

lemma run_prog_steps:
  assumes "run_prog rm n s p = (s', p', js)" and "run_valid remote rm n s p" and "t < length ts" and "ts ! t = (q, p)"
  shows "(sys_step remote reqs prog_of)\<^sup>*\<^sup>* (s, ts @ us) (s', ts[t := (q, p')] @ us @ map (\<lambda>j. (j, prog_of j)) js)"
  using assms
proof (induction rm n s p arbitrary: s' p' js ts us rule: run_prog.induct)
  case (1 rm s p)
  then have "ts[t := (q, p)] = ts" by (metis list_update_id)
  then show ?case using 1 by simp
next
  case (2 rm n s x)
  then have "ts[t := (q, Done x)] = ts" by (metis list_update_id)
  then show ?case using 2 by simp
next
  case (3 rm n s c k)
  let ?r = "os_run rm s c"
  have "os_step remote s c (fst ?r) (snd ?r)"
    using 3(3) by (intro os_run_step) auto
  then have "sys_step remote reqs prog_of (s, ts @ us) (snd ?r, (ts @ us)[t := (q, k (fst ?r))])"
    using 3(4,5) by (intro sys_step.call) (auto simp: nth_append)
  moreover have "(sys_step remote reqs prog_of)\<^sup>*\<^sup>* (snd ?r, ts[t := (q, k (fst ?r))] @ us)
      (s', ts[t := (q, k (fst ?r)), t := (q, p')] @ us @ map (\<lambda>j. (j, prog_of j)) js)"
    using 3(2-5) by (intro 3(1)) auto
  ultimately show ?case using 3(4) by (simp add: list_update_append1 converse_rtranclp_into_rtranclp)
next
  case (4 rm n s j p)
  then obtain js' where r: "run_prog rm n s p = (s', p', js')" "js = j # js'" by (auto split: prod.splits)
  have "sys_step remote reqs prog_of (s, ts @ us) (s, (ts @ us)[t := (q, p)] @ [(j, prog_of j)])"
    using 4(4,5) by (intro sys_step.go) (auto simp: nth_append)
  moreover have "(sys_step remote reqs prog_of)\<^sup>*\<^sup>* (s, ts[t := (q, p)] @ us @ [(j, prog_of j)])
      (s', ts[t := (q, p), t := (q, p')] @ (us @ [(j, prog_of j)]) @ map (\<lambda>j. (j, prog_of j)) js')"
    using 4(3-5) r by (intro 4(1)) auto
  ultimately show ?case using 4(4) r(2) by (simp add: list_update_append1 converse_rtranclp_into_rtranclp)
qed

section \<open>Runs of one program\<close>

text \<open>A program that runs alone to its end, with any failures; the goroutines it starts are not run.\<close>

inductive prog_runs :: "('c \<Rightarrow> os_reply \<Rightarrow> bool) \<Rightarrow> fs \<Rightarrow> ('q, 'c, 'a) prog \<Rightarrow> fs \<Rightarrow> 'a \<Rightarrow> bool" for remote where
  finished: "prog_runs remote s (Done x) s x"
| call: "os_step remote s c r s1 \<Longrightarrow> prog_runs remote s1 (k r) s' x \<Longrightarrow> prog_runs remote s (Call c k) s' x"
| go: "prog_runs remote s p s' x \<Longrightarrow> prog_runs remote s (Go j p) s' x"

inductive_simps prog_runs_simps [simp]:
  "prog_runs remote s (Done x) s' y"
  "prog_runs remote s (Call c k) s' y"
  "prog_runs remote s (Go j p) s' y"

inductive_simps os_step_simps:
  "os_step remote s (OpenRead p) r s'"
  "os_step remote s (OpenWrite p trunc) r s'"
  "os_step remote s (ReadAtCall i n off) r s'"
  "os_step remote s (ReadAllCall i) r s'"
  "os_step remote s (WriteAtCall i off bs) r s'"
  "os_step remote s (CloseCall i) r s'"
  "os_step remote s (StatCall p) r s'"
  "os_step remote s (FStatCall i) r s'"
  "os_step remote s (RemoveCall p) r s'"

lemma prog_runs_then [simp]:
  "prog_runs remote s (prog_then p f) s' y \<longleftrightarrow>
     (\<exists>s1 x. prog_runs remote s p s1 x \<and> prog_runs remote s1 (f x) s' y)"
  by (induction p arbitrary: s) auto

text \<open>An undisturbed run to the end is one of them.\<close>

lemma run_prog_runs:
  assumes "run_prog rm n s p = (s', Done x, js)" and "run_valid remote rm n s p"
  shows "prog_runs remote s p s' x"
  using assms
proof (induction rm n s p arbitrary: s' js rule: run_prog.induct)
  case (3 rm n s c k)
  have "os_step remote s c (fst (os_run rm s c)) (snd (os_run rm s c))"
    using 3(3) by (intro os_run_step) auto
  then show ?case using 3 by auto
qed (auto split: prod.splits)

end
