(* ===== verification/Shared_Files.thy ===== *)
theory Shared_Files
  imports Go_Files
begin

text \<open>
  A proof method for programs that share a directory.  Some names are \<^emph>\<open>final\<close>: a file under such a
  name must satisfy a predicate.  The other files a program writes are temporary, with names that end
  in a UUID of its own.  A program is \<^emph>\<open>good\<close> if it writes only to temporary files it created, appends
  at their end, and links one to a final name only when its content is right there.  Then final files
  are never written to, so what a good program reads from one does not change under it, and in every
  interleaving with any failures the final files are right and each program returns what it promises.

  The ghost of a thread is what it may rely on: the UUIDs it has drawn and not used, the temporary
  files it owns with their content, and the content of the inodes of final files it has opened.
\<close>

record ghost =
  gh_uuids :: "string set"
  gh_own :: "string \<rightharpoonup> nat \<times> byte list"
  gh_open :: "nat \<rightharpoonup> byte list"

definition no_ghost :: ghost where
  "no_ghost = \<lparr>gh_uuids = {}, gh_own = Map.empty, gh_open = Map.empty\<rparr>"

definition owns :: "ghost \<Rightarrow> nat \<Rightarrow> bool" where
  "owns g i \<longleftrightarrow> (\<exists>p d. gh_own g p = Some (i, d))"

definition temp_name :: "string \<Rightarrow> bool" where
  "temp_name p \<longleftrightarrow> p \<noteq> [] \<and> hex_digit (last p)"

lemma uuid_suffix_temp: "is_uuid u \<Longrightarrow> suffix u p \<Longrightarrow> temp_name p"
  by (cases "u = []") (auto simp: temp_name_def is_uuid_def suffix_def)

text \<open>The owned file with inode \<open>i\<close> after a write: appended to, or given up.\<close>

definition own_append :: "ghost \<Rightarrow> nat \<Rightarrow> byte list \<Rightarrow> ghost" where
  "own_append g i bs = g\<lparr>gh_own := (\<lambda>p. map_option (\<lambda>(j, d). (j, if j = i then d @ bs else d)) (gh_own g p))\<rparr>"

definition own_drop :: "ghost \<Rightarrow> nat \<Rightarrow> ghost" where
  "own_drop g i = g\<lparr>gh_own := (\<lambda>p. case gh_own g p of Some (j, d) \<Rightarrow> if j = i then None else Some (j, d) | None \<Rightarrow> None)\<rparr>"

lemma own_append_iff:
  "gh_own (own_append g i bs) p = Some (j, d) \<longleftrightarrow>
     (\<exists>d0. gh_own g p = Some (j, d0) \<and> d = (if j = i then d0 @ bs else d0))"
  by (auto simp: own_append_def)

lemma own_drop_iff: "gh_own (own_drop g i) p = Some (j, d) \<longleftrightarrow> gh_own g p = Some (j, d) \<and> j \<noteq> i"
  by (auto simp: own_drop_def split: option.splits)

lemma ghost_fields [simp]:
  "gh_uuids (own_append g i bs) = gh_uuids g" "gh_open (own_append g i bs) = gh_open g"
  "gh_uuids (own_drop g i) = gh_uuids g" "gh_open (own_drop g i) = gh_open g"
  "dom (gh_own (own_append g i bs)) = dom (gh_own g)"
  by (auto simp: own_append_def own_drop_def)

lemma owns_append [simp]: "owns (own_append g i bs) j \<longleftrightarrow> owns g j"
  by (auto simp: owns_def own_append_iff)

lemma owns_drop [simp]: "owns (own_drop g i) j \<longleftrightarrow> owns g j \<and> j \<noteq> i"
  by (auto simp: owns_def own_drop_iff)

lemma own_drop_less: "gh_own (own_drop g i) \<subseteq>\<^sub>m gh_own g"
  by (auto simp: map_le_def own_drop_def split: option.splits if_splits)

section \<open>What a thread may rely on\<close>

definition thread_ok :: "fs \<Rightarrow> ghost \<Rightarrow> bool" where
  "thread_ok s g \<longleftrightarrow>
     (\<forall>p i d. gh_own g p = Some (i, d) \<longrightarrow>
        i < fs_next s \<and> file_data s i = d \<and> temp_name p \<and> (\<exists>u \<in> fs_uuids s. is_uuid u \<and> suffix u p)
        \<and> (\<forall>q. fs_names s q = Some i \<longrightarrow> q = p) \<and> fs_names s p \<in> {None, Some i})
     \<and> (\<forall>i d. gh_open g i = Some d \<longrightarrow> i < fs_next s \<and> file_data s i = d \<and> \<not> owns g i)
     \<and> (\<forall>u \<in> gh_uuids g. is_uuid u \<and> u \<in> fs_uuids s
          \<and> (\<forall>p \<in> dom (fs_names s) \<union> dom (gh_own g). \<not> suffix u p))
     \<and> (\<forall>p q i d e. gh_own g p = Some (i, d) \<longrightarrow> gh_own g q = Some (i, e) \<longrightarrow> p = q)"

lemma thread_ok_own:
  assumes "thread_ok s g" and "gh_own g p = Some (i, d)"
  shows "i < fs_next s" "file_data s i = d" "temp_name p" "\<exists>u \<in> fs_uuids s. is_uuid u \<and> suffix u p"
    "fs_names s q = Some i \<Longrightarrow> q = p" "fs_names s p = None \<or> fs_names s p = Some i"
    "gh_own g q = Some (i, e) \<Longrightarrow> p = q"
  using conjunct1 [OF assms(1) [unfolded thread_ok_def], rule_format, OF assms(2)]
    conjunct2 [OF conjunct2 [OF conjunct2 [OF assms(1) [unfolded thread_ok_def]]], rule_format, OF assms(2)]
  by auto

lemma thread_ok_open:
  assumes "thread_ok s g" and "gh_open g i = Some d"
  shows "i < fs_next s" "file_data s i = d" "\<not> owns g i"
  using conjunct1 [OF conjunct2 [OF assms(1) [unfolded thread_ok_def]], rule_format, OF assms(2)] by auto

lemma thread_ok_uuid:
  assumes "thread_ok s g" and "u \<in> gh_uuids g"
  shows "is_uuid u" "u \<in> fs_uuids s" "p \<in> dom (fs_names s) \<union> dom (gh_own g) \<Longrightarrow> \<not> suffix u p"
  using conjunct1 [OF conjunct2 [OF conjunct2 [OF assms(1) [unfolded thread_ok_def]]], rule_format, OF assms(2)] by auto

lemma thread_okI:
  assumes "\<And>p i d. gh_own g p = Some (i, d) \<Longrightarrow> i < fs_next s \<and> file_data s i = d \<and> temp_name p
        \<and> (\<exists>u \<in> fs_uuids s. is_uuid u \<and> suffix u p) \<and> (\<forall>q. fs_names s q = Some i \<longrightarrow> q = p)
        \<and> (fs_names s p = None \<or> fs_names s p = Some i) \<and> (\<forall>q e. gh_own g q = Some (i, e) \<longrightarrow> p = q)"
    and "\<And>i d. gh_open g i = Some d \<Longrightarrow> i < fs_next s \<and> file_data s i = d \<and> \<not> owns g i"
    and "\<And>u. u \<in> gh_uuids g \<Longrightarrow> is_uuid u \<and> u \<in> fs_uuids s \<and> (\<forall>p \<in> dom (fs_names s) \<union> dom (gh_own g). \<not> suffix u p)"
  shows "thread_ok s g"
  unfolding thread_ok_def
proof (intro conjI allI impI ballI)
  fix p i d assume "gh_own g p = Some (i, d)"
  note * = assms(1) [OF this]
  show "i < fs_next s" "file_data s i = d" "temp_name p" "\<exists>u \<in> fs_uuids s. is_uuid u \<and> suffix u p"
    "fs_names s p \<in> {None, Some i}" using * by simp_all
  show "q = p" if "fs_names s q = Some i" for q using * that by blast
  show "p = q" if "gh_own g q = Some (i, e)" for q e using * that by blast
qed (use assms(2,3) in blast)+

text \<open>A thread may give up what it owns.\<close>

lemma thread_ok_less:
  assumes "thread_ok s g" and "gh_own g' \<subseteq>\<^sub>m gh_own g" and "gh_open g' = gh_open g" and "gh_uuids g' \<subseteq> gh_uuids g"
  shows "thread_ok s g'"
proof (rule thread_okI)
  have own: "gh_own g p = Some x" if "gh_own g' p = Some x" for p x
    using that assms(2) by (auto simp: map_le_def dom_def)
  fix p i d assume p: "gh_own g' p = Some (i, d)"
  note * = thread_ok_own [OF assms(1) own [OF p]]
  have "p = q" if "gh_own g' q = Some (i, e)" for q e using *(7) [OF own [OF that]] .
  with *(1-4,6) show "i < fs_next s \<and> file_data s i = d \<and> temp_name p
        \<and> (\<exists>u \<in> fs_uuids s. is_uuid u \<and> suffix u p) \<and> (\<forall>q. fs_names s q = Some i \<longrightarrow> q = p)
        \<and> (fs_names s p = None \<or> fs_names s p = Some i) \<and> (\<forall>q e. gh_own g' q = Some (i, e) \<longrightarrow> p = q)"
    using *(5) by blast
next
  fix i d assume "gh_open g' i = Some d"
  then have "gh_open g i = Some d" using assms(3) by simp
  note * = thread_ok_open [OF assms(1) this]
  have "\<not> owns g' i" using *(3) assms(2) by (fastforce simp: owns_def map_le_def dom_def)
  with * show "i < fs_next s \<and> file_data s i = d \<and> \<not> owns g' i" by simp
next
  fix u assume "u \<in> gh_uuids g'"
  then have "u \<in> gh_uuids g" using assms(4) by blast
  note * = thread_ok_uuid [OF assms(1) this]
  have "dom (gh_own g') \<subseteq> dom (gh_own g)" using assms(2) by (rule map_le_implies_dom_le)
  with * show "is_uuid u \<and> u \<in> fs_uuids s \<and> (\<forall>p \<in> dom (fs_names s) \<union> dom (gh_own g'). \<not> suffix u p)" by blast
qed

definition apart :: "ghost \<Rightarrow> ghost \<Rightarrow> bool" where
  "apart g h \<longleftrightarrow> (\<forall>i. owns g i \<longrightarrow> \<not> owns h i \<and> gh_open h i = None)
     \<and> (\<forall>i. owns h i \<longrightarrow> gh_open g i = None) \<and> gh_uuids g \<inter> gh_uuids h = {}
     \<and> (\<forall>u \<in> gh_uuids g. \<forall>p \<in> dom (gh_own h). \<not> suffix u p)
     \<and> (\<forall>u \<in> gh_uuids h. \<forall>p \<in> dom (gh_own g). \<not> suffix u p)"

lemma apart_sym: "apart g h \<longleftrightarrow> apart h g"
  unfolding apart_def by blast

lemma apartD:
  assumes "apart g h"
  shows "owns g i \<Longrightarrow> \<not> owns h i" "owns g i \<Longrightarrow> gh_open h i = None" "owns h i \<Longrightarrow> gh_open g i = None"
    "u \<in> gh_uuids g \<Longrightarrow> u \<notin> gh_uuids h" "u \<in> gh_uuids g \<Longrightarrow> p \<in> dom (gh_own h) \<Longrightarrow> \<not> suffix u p"
    "u \<in> gh_uuids h \<Longrightarrow> p \<in> dom (gh_own g) \<Longrightarrow> \<not> suffix u p"
  using assms unfolding apart_def by blast+

lemma owns_less: "gh_own g' \<subseteq>\<^sub>m gh_own g \<Longrightarrow> owns g' i \<Longrightarrow> owns g i"
  by (fastforce simp: owns_def map_le_def dom_def)

lemma apart_less:
  assumes "apart g h" and "gh_own g' \<subseteq>\<^sub>m gh_own g" and "gh_open g' = gh_open g" and "gh_uuids g' \<subseteq> gh_uuids g"
  shows "apart g' h"
  unfolding apart_def
proof (intro conjI allI impI ballI)
  note D = apartD [OF assms(1)]
  show "\<not> owns h i" "gh_open h i = None" if "owns g' i" for i using D(1,2) owns_less [OF assms(2) that] by simp_all
  show "gh_open g' i = None" if "owns h i" for i using D(3) [OF that] assms(3) by simp
  show "gh_uuids g' \<inter> gh_uuids h = {}" using D(4) assms(4) by blast
  show "\<not> suffix u p" if "u \<in> gh_uuids g'" "p \<in> dom (gh_own h)" for u p using D(5) that assms(4) by blast
  show "\<not> suffix u p" if "u \<in> gh_uuids h" "p \<in> dom (gh_own g')" for u p
    using D(6) that map_le_implies_dom_le [OF assms(2)] by blast
qed

definition threads_ok :: "fs \<Rightarrow> ghost list \<Rightarrow> bool" where
  "threads_ok s gs \<longleftrightarrow> (\<forall>t < length gs. thread_ok s (gs ! t))
     \<and> (\<forall>t < length gs. \<forall>t' < length gs. t \<noteq> t' \<longrightarrow> apart (gs ! t) (gs ! t'))"

lemma threads_okI:
  assumes "threads_ok s gs" and "t < length gs" and "thread_ok s' g'"
    and "\<And>h. thread_ok s h \<Longrightarrow> apart (gs ! t) h \<Longrightarrow> thread_ok s' h \<and> apart g' h"
  shows "threads_ok s' (gs[t := g'])"
  unfolding threads_ok_def
proof (intro conjI allI impI)
  fix t1 assume t1: "t1 < length (gs[t := g'])"
  show "thread_ok s' (gs[t := g'] ! t1)"
    using t1 assms by (cases "t1 = t") (auto simp: threads_ok_def)
  fix t2 assume t2: "t2 < length (gs[t := g'])" "t1 \<noteq> t2"
  consider "t1 = t" | "t2 = t" | "t1 \<noteq> t" "t2 \<noteq> t" by blast
  then show "apart (gs[t := g'] ! t1) (gs[t := g'] ! t2)"
  proof cases
    case 1 then show ?thesis using t1 t2 assms by (auto simp: threads_ok_def)
  next
    case 2
    then have "thread_ok s (gs ! t1)" "apart (gs ! t) (gs ! t1)"
      using t1 t2 assms(1,2) by (auto simp: threads_ok_def)
    then have "apart g' (gs ! t1)" using assms(4) by blast
    then show ?thesis using 2 t1 t2 by (simp add: apart_sym)
  next
    case 3 then show ?thesis using t1 t2 assms(1) by (simp add: threads_ok_def)
  qed
qed

text \<open>What other threads do is harmless as long as they keep off the inodes and names a thread relies on.\<close>

lemma thread_ok_frame:
  assumes "thread_ok s h" and "fs_next s \<le> fs_next s'" and "fs_uuids s \<subseteq> fs_uuids s'"
    and data: "\<And>i. owns h i \<or> gh_open h i \<noteq> None \<Longrightarrow> i < fs_next s \<Longrightarrow> file_data s' i = file_data s i"
    and named: "\<And>q i. fs_names s' q = Some i \<Longrightarrow> owns h i \<Longrightarrow> fs_names s q = Some i"
    and kept: "\<And>p. p \<in> dom (gh_own h) \<Longrightarrow> fs_names s' p = fs_names s p \<or> fs_names s' p = None"
    and fresh: "\<And>u p. u \<in> gh_uuids h \<Longrightarrow> p \<in> dom (fs_names s') \<Longrightarrow> p \<notin> dom (fs_names s) \<Longrightarrow> \<not> suffix u p"
  shows "thread_ok s' h"
  unfolding thread_ok_def
proof (intro conjI allI impI ballI)
  fix p i d assume own: "gh_own h p = Some (i, d)"
  then have o: "owns h i" "p \<in> dom (gh_own h)" by (auto simp: owns_def)
  note * = thread_ok_own [OF assms(1) own]
  show "i < fs_next s'" "temp_name p" using * assms(2) by simp_all
  show "file_data s' i = d" using * o data by simp
  show "\<exists>u \<in> fs_uuids s'. is_uuid u \<and> suffix u p" using *(4) assms(3) by blast
  show "q = p" if "fs_names s' q = Some i" for q using named [OF that o(1)] by (rule *(5))
  show "fs_names s' p \<in> {None, Some i}" using kept [OF o(2)] *(6) by auto
  show "p = q" if "gh_own h q = Some (i, e)" for q e using that by (rule *(7))
next
  fix i d assume o: "gh_open h i = Some d"
  note * = thread_ok_open [OF assms(1) o]
  show "i < fs_next s'" "file_data s' i = d" "\<not> owns h i"
    using * o assms(2) data by simp_all
next
  fix u assume u: "u \<in> gh_uuids h"
  note * = thread_ok_uuid [OF assms(1) u]
  show "is_uuid u" "u \<in> fs_uuids s'" using * assms(3) by auto
  fix p assume "p \<in> dom (fs_names s') \<union> dom (gh_own h)"
  then show "\<not> suffix u p" using *(3) fresh [OF u] by blast
qed

lemma thread_ok_names:
  assumes "thread_ok s h" and "fs_names s' = names" and "fs_next s' = fs_next s" and "fs_uuids s' = fs_uuids s"
    and "\<And>i. file_data s' i = file_data s i" and "\<And>q. names q = fs_names s q \<or> names q = None"
  shows "thread_ok s' h"
proof (rule thread_ok_frame [OF assms(1)])
  show "fs_names s q = Some i" if "fs_names s' q = Some i" for q i using that assms(2) assms(6) [of q] by auto
  show "\<not> suffix u p" if "p \<in> dom (fs_names s')" "p \<notin> dom (fs_names s)" for u p using that assms(2) assms(6) [of p] by auto
  show "fs_names s' p = fs_names s p \<or> fs_names s' p = None" for p using assms(2,6) by simp
qed (use assms in simp_all)

section \<open>Good programs\<close>

text \<open>Every name is allocated, and every final file is right.\<close>

definition fs_ok :: "string set \<Rightarrow> (string \<Rightarrow> byte list \<Rightarrow> bool) \<Rightarrow> fs \<Rightarrow> bool" where
  "fs_ok finals ok s \<longleftrightarrow> (\<forall>p i. fs_names s p = Some i \<longrightarrow> i < fs_next s \<and> (p \<in> finals \<longrightarrow> ok p (file_data s i)))"

fun call_ok :: "string set \<Rightarrow> (string \<Rightarrow> byte list \<Rightarrow> bool) \<Rightarrow> ghost \<Rightarrow> 'c os_call \<Rightarrow> bool" where
  "call_ok finals ok g (CreateExcl p) \<longleftrightarrow> p \<notin> finals \<and> p \<noteq> [] \<and> \<not> hex_digit (last p)"
| "call_ok finals ok g (OpenWrite p trunc) \<longleftrightarrow> (\<exists>u \<in> gh_uuids g. suffix u p)"
| "call_ok finals ok g (WriteAtCall i off bs) \<longleftrightarrow> (\<exists>p d. gh_own g p = Some (i, d) \<and> off = length d)"
| "call_ok finals ok g (LinkCall p q) \<longleftrightarrow> q \<in> finals \<and> (\<exists>i d. gh_own g p = Some (i, d) \<and> ok q d)"
| "call_ok finals ok g _ \<longleftrightarrow> True"

fun next_ok ::
  "string set \<Rightarrow> (string \<Rightarrow> byte list \<Rightarrow> bool) \<Rightarrow> ('c \<Rightarrow> os_reply \<Rightarrow> bool) \<Rightarrow> ghost \<Rightarrow> 'c os_call \<Rightarrow> os_reply \<Rightarrow> ghost \<Rightarrow> bool" where
  "next_ok finals ok remote g (OpenRead p) r g' \<longleftrightarrow>
     (case r of
        RErr e \<Rightarrow> g' = g
      | RFile i \<Rightarrow> if p \<in> finals then \<exists>d. ok p d \<and> g' = g\<lparr>gh_open := (gh_open g)(i \<mapsto> d)\<rparr> else g' = g
      | _ \<Rightarrow> False)"
| "next_ok finals ok remote g (OpenWrite p trunc) r g' \<longleftrightarrow>
     (case r of
        RErr e \<Rightarrow> g' = g
      | RFile i \<Rightarrow> g' = g\<lparr>gh_own := (gh_own g)(p \<mapsto> (i, [])), gh_uuids := {u \<in> gh_uuids g. \<not> suffix u p}\<rparr>
      | _ \<Rightarrow> False)"
| "next_ok finals ok remote g (ReadAtCall i n off) r g' \<longleftrightarrow>
     (case r of
        RErr e \<Rightarrow> g' = g
      | RBytes bs eof \<Rightarrow> g' = g \<and> (\<forall>d. gh_open g i = Some d \<longrightarrow> bs = take n (drop off d) \<and> eof = (length bs < n))
      | _ \<Rightarrow> False)"
| "next_ok finals ok remote g (ReadAllCall i) r g' \<longleftrightarrow>
     (case r of
        RErr e \<Rightarrow> g' = g
      | RBytes bs eof \<Rightarrow> g' = g \<and> (\<forall>d. gh_open g i = Some d \<longrightarrow> bs = d)
      | _ \<Rightarrow> False)"
| "next_ok finals ok remote g (WriteAtCall i off bs) r g' \<longleftrightarrow>
     (case r of RErr e \<Rightarrow> g' = own_drop g i | RCount n \<Rightarrow> g' = own_append g i bs | _ \<Rightarrow> False)"
| "next_ok finals ok remote g (LinkCall p q) r g' \<longleftrightarrow>
     (case r of RErr e \<Rightarrow> g' = g | RUnit \<Rightarrow> g' = g\<lparr>gh_own := (gh_own g)(p := None)\<rparr> | _ \<Rightarrow> False)"
| "next_ok finals ok remote g UuidCall r g' \<longleftrightarrow>
     (case r of RName u \<Rightarrow> is_uuid u \<and> g' = g\<lparr>gh_uuids := insert u (gh_uuids g)\<rparr> | _ \<Rightarrow> False)"
| "next_ok finals ok remote g (RemoteCall c) r g' \<longleftrightarrow> remote c r \<and> g' = g"
| "next_ok finals ok remote g _ r g' \<longleftrightarrow> g' = g"

primrec good ::
  "string set \<Rightarrow> (string \<Rightarrow> byte list \<Rightarrow> bool) \<Rightarrow> ('c \<Rightarrow> os_reply \<Rightarrow> bool) \<Rightarrow> 'q set \<Rightarrow> ('q, 'c, 'a) prog \<Rightarrow> ghost
     \<Rightarrow> ('a \<Rightarrow> ghost \<Rightarrow> bool) \<Rightarrow> bool" where
  "good finals ok remote jobs (Done x) g Q = Q x g"
| "good finals ok remote jobs (Call c k) g Q =
     (call_ok finals ok g c \<and> (\<forall>r g'. next_ok finals ok remote g c r g' \<longrightarrow> good finals ok remote jobs (k r) g' Q))"
| "good finals ok remote jobs (Go j p) g Q = (j \<in> jobs \<and> good finals ok remote jobs p g Q)"

lemma good_then:
  assumes "good finals ok remote jobs p g (\<lambda>x g'. good finals ok remote jobs (f x) g' Q)"
  shows "good finals ok remote jobs (prog_then p f) g Q"
  using assms by (induction p arbitrary: g) auto

lemma good_mono:
  assumes "good finals ok remote jobs p g Q" and "\<And>x g'. Q x g' \<Longrightarrow> Q' x g'"
  shows "good finals ok remote jobs p g Q'"
  using assms by (induction p arbitrary: g) auto

section \<open>Soundness\<close>

lemma threads_ok_mono:
  assumes "threads_ok s gs" and "\<And>h. thread_ok s h \<Longrightarrow> thread_ok s' h"
  shows "threads_ok s' gs"
  using assms by (auto simp: threads_ok_def)

lemma threads_ok_nth: "threads_ok s gs \<Longrightarrow> t < length gs \<Longrightarrow> thread_ok s (gs ! t)"
  by (simp add: threads_ok_def)

lemma fs_okD: "fs_ok finals ok s \<Longrightarrow> fs_names s p = Some i \<Longrightarrow> i < fs_next s"
  by (simp add: fs_ok_def)

lemma fs_ok_final: "fs_ok finals ok s \<Longrightarrow> fs_names s p = Some i \<Longrightarrow> p \<in> finals \<Longrightarrow> ok p (file_data s i)"
  by (simp add: fs_ok_def)

text \<open>A new inode is nobody's.\<close>

lemma thread_ok_create:
  assumes "thread_ok s h" and "fs_ok finals ok s" and "fs_names s p = None" and "p \<notin> dom (gh_own h)"
    and "\<And>u. u \<in> gh_uuids h \<Longrightarrow> \<not> suffix u p"
  shows "thread_ok (fs_create p s) h"
proof (rule thread_ok_frame [OF assms(1)])
  fix q i assume q: "fs_names (fs_create p s) q = Some i" and o: "owns h i"
  from o have "i < fs_next s" using thread_ok_own(1) [OF assms(1)] by (auto simp: owns_def)
  with q show "fs_names s q = Some i" by (auto split: if_splits)
qed (use assms in \<open>auto split: if_splits\<close>)

lemma fs_ok_create:
  assumes "fs_ok finals ok s" and "p \<notin> finals"
  shows "fs_ok finals ok (fs_create p s)"
  using assms by (auto simp: fs_ok_def less_Suc_eq)

lemma no_ghost_ok: "thread_ok s no_ghost" "apart g no_ghost" "apart no_ghost g"
  by (simp_all add: thread_ok_def apart_def no_ghost_def owns_def)

lemma threads_ok_start:
  assumes "threads_ok s gs"
  shows "threads_ok s (gs @ [no_ghost])"
  using assms unfolding threads_ok_def by (auto simp: nth_append less_Suc_eq no_ghost_ok)

text \<open>The invariant of a system: there are ghosts for which every thread is good.\<close>

definition sys_ok ::
  "string set \<Rightarrow> (string \<Rightarrow> byte list \<Rightarrow> bool) \<Rightarrow> ('c \<Rightarrow> os_reply \<Rightarrow> bool) \<Rightarrow> 'q set \<Rightarrow> ('q \<Rightarrow> 'a \<Rightarrow> bool)
     \<Rightarrow> fs \<times> ('q, 'c, 'a) threads \<Rightarrow> bool" where
  "sys_ok finals ok remote jobs Q \<sigma> \<longleftrightarrow> fs_ok finals ok (fst \<sigma>)
     \<and> (\<exists>gs. length gs = length (snd \<sigma>) \<and> threads_ok (fst \<sigma>) gs
          \<and> (\<forall>t < length (snd \<sigma>).
               good finals ok remote jobs (snd (snd \<sigma> ! t)) (gs ! t) (\<lambda>x g. Q (fst (snd \<sigma> ! t)) x)))"

locale shared_files =
  fixes finals :: "string set" and ok :: "string \<Rightarrow> byte list \<Rightarrow> bool" and remote :: "'c \<Rightarrow> os_reply \<Rightarrow> bool"
  assumes finals_named: "p \<in> finals \<Longrightarrow> p \<noteq> [] \<and> \<not> hex_digit (last p)"
begin

lemma final_not_temp: "p \<in> finals \<Longrightarrow> \<not> temp_name p"
  using finals_named by (simp add: temp_name_def)

lemma sound_create:
  assumes "threads_ok s gs" and "fs_ok finals ok s" and "fs_names s p = None" and "call_ok finals ok g (CreateExcl p)"
  shows "threads_ok (fs_create p s) gs" and "fs_ok finals ok (fs_create p s)"
proof -
  have p: "p \<notin> finals" "p \<noteq> []" "\<not> hex_digit (last p)" using assms(4) by simp_all
  show "fs_ok finals ok (fs_create p s)" by (rule fs_ok_create [OF assms(2) p(1)])
  show "threads_ok (fs_create p s) gs"
  proof (rule threads_ok_mono [OF assms(1)])
    fix h assume h: "thread_ok s h"
    show "thread_ok (fs_create p s) h"
    proof (rule thread_ok_create [OF h assms(2,3)])
      show "p \<notin> dom (gh_own h)" using thread_ok_own(3) [OF h] p by (auto simp: temp_name_def)
      show "\<not> suffix u p" if "u \<in> gh_uuids h" for u
        by (rule uuid_no_suffix [OF thread_ok_uuid(1) [OF h that] p(2,3)])
    qed
  qed
qed

lemma sound_open_new:
  assumes "threads_ok s gs" and "t < length gs" and "fs_ok finals ok s" and "fs_names s p = None"
    and "call_ok finals ok (gs ! t) (OpenWrite p trunc)"
  shows "threads_ok (fs_create p s)
      (gs[t := (gs ! t)\<lparr>gh_own := (gh_own (gs ! t))(p \<mapsto> (fs_next s, [])), gh_uuids := {u \<in> gh_uuids (gs ! t). \<not> suffix u p}\<rparr>])"
    and "fs_ok finals ok (fs_create p s)"
proof -
  let ?g = "gs ! t"
  let ?g' = "?g\<lparr>gh_own := (gh_own ?g)(p \<mapsto> (fs_next s, [])), gh_uuids := {u \<in> gh_uuids ?g. \<not> suffix u p}\<rparr>"
  obtain u where u: "u \<in> gh_uuids ?g" "suffix u p" using assms(5) by auto
  have g: "thread_ok s ?g" by (rule threads_ok_nth [OF assms(1,2)])
  note uu = thread_ok_uuid [OF g u(1)]
  have temp: "temp_name p" by (rule uuid_suffix_temp [OF uu(1) u(2)])
  then show "fs_ok finals ok (fs_create p s)" using final_not_temp fs_ok_create [OF assms(3)] by blast
  have new: "\<not> owns h (fs_next s) \<and> gh_open h (fs_next s) = None" if "thread_ok s h" for h
    using thread_ok_own(1) [OF that] thread_ok_open(1) [OF that] by (fastforce simp: owns_def)
  have "p \<notin> dom (gh_own ?g)" using uu(3) u(2) by blast
  have "thread_ok (fs_create p s) (?g\<lparr>gh_uuids := {u \<in> gh_uuids ?g. \<not> suffix u p}\<rparr>)"
  proof (rule thread_ok_create [OF _ assms(3,4)])
    show "thread_ok s (?g\<lparr>gh_uuids := {u \<in> gh_uuids ?g. \<not> suffix u p}\<rparr>)"
      by (rule thread_ok_less [OF g]) auto
  qed (use \<open>p \<notin> dom (gh_own ?g)\<close> in auto)
  note old = this
  have "thread_ok (fs_create p s) ?g'"
  proof (rule thread_okI)
    fix q i d assume q: "gh_own ?g' q = Some (i, d)"
    show "i < fs_next (fs_create p s) \<and> file_data (fs_create p s) i = d \<and> temp_name q
        \<and> (\<exists>u \<in> fs_uuids (fs_create p s). is_uuid u \<and> suffix u q) \<and> (\<forall>r. fs_names (fs_create p s) r = Some i \<longrightarrow> r = q)
        \<and> (fs_names (fs_create p s) q = None \<or> fs_names (fs_create p s) q = Some i)
        \<and> (\<forall>r e. gh_own ?g' r = Some (i, e) \<longrightarrow> q = r)"
    proof (cases "q = p")
      case True
      then have "i = fs_next s" "d = []" using q by simp_all
      moreover have "fs_names s r \<noteq> Some (fs_next s)" for r using fs_okD [OF assms(3)] by blast
      moreover have "gh_own ?g r \<noteq> Some (fs_next s, e)" for r e using new [OF g] by (auto simp: owns_def)
      ultimately show ?thesis using True temp uu(1,2) u(2) by auto
    next
      case False
      then have q: "gh_own (?g\<lparr>gh_uuids := {u \<in> gh_uuids ?g. \<not> suffix u p}\<rparr>) q = Some (i, d)" using q by simp
      have "i \<noteq> fs_next s" using q new [OF g] by (auto simp: owns_def)
      then show ?thesis using thread_ok_own [OF old q] by auto
    qed
  next
    fix i d assume "gh_open ?g' i = Some d"
    then have o: "gh_open (?g\<lparr>gh_uuids := {u \<in> gh_uuids ?g. \<not> suffix u p}\<rparr>) i = Some d" by simp
    then have "i \<noteq> fs_next s" using new [OF g] by auto
    then show "i < fs_next (fs_create p s) \<and> file_data (fs_create p s) i = d \<and> \<not> owns ?g' i"
      using thread_ok_open [OF old o] by (auto simp: owns_def split: if_splits)
  next
    fix v assume "v \<in> gh_uuids ?g'"
    then have v: "v \<in> gh_uuids (?g\<lparr>gh_uuids := {u \<in> gh_uuids ?g. \<not> suffix u p}\<rparr>)" "\<not> suffix v p" by simp_all
    then show "is_uuid v \<and> v \<in> fs_uuids (fs_create p s)
        \<and> (\<forall>q \<in> dom (fs_names (fs_create p s)) \<union> dom (gh_own ?g'). \<not> suffix v q)"
      using thread_ok_uuid [OF old v(1)] by auto
  qed
  moreover have "thread_ok (fs_create p s) h \<and> apart ?g' h" if h: "thread_ok s h" "apart ?g h" for h
  proof
    have p: "p \<notin> dom (gh_own h)" "\<And>v. v \<in> gh_uuids h \<Longrightarrow> \<not> suffix v p"
      using apartD(4,5) [OF h(2) u(1)] u(2) uuid_suffix_unique [OF uu(1) thread_ok_uuid(1) [OF h(1)] u(2)] by blast+
    show "thread_ok (fs_create p s) h"
      by (rule thread_ok_create [OF h(1) assms(3,4) p])
    show "apart ?g' h" using h(2) new [OF h(1)] p by (auto simp: apart_def owns_def split: if_splits)
  qed
  ultimately show "threads_ok (fs_create p s) (gs[t := ?g'])" by (rule threads_okI [OF assms(1,2)])
qed

lemma sound_write:
  assumes "threads_ok s gs" and "t < length gs" and "fs_ok finals ok s"
    and "call_ok finals ok (gs ! t) (WriteAtCall i off bs)"
  shows "threads_ok (fs_put i (write_bytes off bs (file_data s i)) s) (gs[t := own_append (gs ! t) i bs])"
    and "threads_ok (fs_put i d' s) (gs[t := own_drop (gs ! t) i])"
    and "fs_ok finals ok (fs_put i d' s)"
proof -
  let ?g = "gs ! t"
  obtain p d where own: "gh_own ?g p = Some (i, d)" and off: "off = length d" using assms(4) by auto
  have g: "thread_ok s ?g" by (rule threads_ok_nth [OF assms(1,2)])
  note o = thread_ok_own [OF g own]
  have data: "write_bytes off bs (file_data s i) = d @ bs" using o(2) off by simp
  show "fs_ok finals ok (fs_put i d' s)"
    using assms(3) o(3) o(5) final_not_temp by (auto simp: fs_ok_def)
  have others: "thread_ok (fs_put i e s) h" if "thread_ok s h" "apart ?g h" for h e
  proof (rule thread_ok_frame [OF that(1)])
    have "owns ?g i" using own by (auto simp: owns_def)
    then show "file_data (fs_put i e s) j = file_data s j" if "owns h j \<or> gh_open h j \<noteq> None" for j
      using that \<open>apart ?g h\<close> by (auto simp: apart_def)
  qed simp_all
  have "thread_ok (fs_put i (d @ bs) s) (own_append ?g i bs)"
  proof (rule thread_okI)
    fix q j e assume "gh_own (own_append ?g i bs) q = Some (j, e)"
    then obtain e0 where e: "gh_own ?g q = Some (j, e0)" "e = (if j = i then e0 @ bs else e0)" by (auto simp: own_append_iff)
    note * = thread_ok_own [OF g e(1)]
    show "j < fs_next (fs_put i (d @ bs) s) \<and> file_data (fs_put i (d @ bs) s) j = e \<and> temp_name q
        \<and> (\<exists>u \<in> fs_uuids (fs_put i (d @ bs) s). is_uuid u \<and> suffix u q)
        \<and> (\<forall>r. fs_names (fs_put i (d @ bs) s) r = Some j \<longrightarrow> r = q)
        \<and> (fs_names (fs_put i (d @ bs) s) q = None \<or> fs_names (fs_put i (d @ bs) s) q = Some j)
        \<and> (\<forall>r e'. gh_own (own_append ?g i bs) r = Some (j, e') \<longrightarrow> q = r)"
      using * e(2) o(2) by (auto simp: own_append_iff)
  next
    fix j e assume "gh_open (own_append ?g i bs) j = Some e"
    then have "gh_open ?g j = Some e" by simp
    note * = thread_ok_open [OF g this]
    moreover have "j \<noteq> i" using *(3) own by (auto simp: owns_def)
    ultimately show "j < fs_next (fs_put i (d @ bs) s) \<and> file_data (fs_put i (d @ bs) s) j = e \<and> \<not> owns (own_append ?g i bs) j"
      by simp
  qed (use thread_ok_uuid [OF g] in auto)
  then show "threads_ok (fs_put i (write_bytes off bs (file_data s i)) s) (gs[t := own_append ?g i bs])"
    unfolding data by (rule threads_okI [OF assms(1,2)]) (auto simp: others apart_def)
  have "thread_ok s (own_drop ?g i)"
    by (rule thread_ok_less [OF g own_drop_less]) simp_all
  then have "thread_ok (fs_put i d' s) (own_drop ?g i)"
  proof (rule thread_ok_frame)
    have "owns ?g i" using own by (auto simp: owns_def)
    then show "file_data (fs_put i d' s) j = file_data s j" if "owns (own_drop ?g i) j \<or> gh_open (own_drop ?g i) j \<noteq> None" for j
      using that thread_ok_open(3) [OF g] by auto
  qed simp_all
  moreover have "thread_ok (fs_put i d' s) h \<and> apart (own_drop ?g i) h" if "thread_ok s h" "apart ?g h" for h
    using others [OF that] apart_less [OF that(2) own_drop_less] by simp
  ultimately show "threads_ok (fs_put i d' s) (gs[t := own_drop ?g i])" by (rule threads_okI [OF assms(1,2)])
qed

lemma sound_link:
  assumes "threads_ok s gs" and "t < length gs" and "fs_ok finals ok s"
    and "call_ok finals ok (gs ! t) (LinkCall p q)" and "fs_names s p = Some i" and "fs_names s q = None"
  shows "threads_ok (fs_rename ((fs_names s)(q \<mapsto> i)) s) (gs[t := (gs ! t)\<lparr>gh_own := (gh_own (gs ! t))(p := None)\<rparr>])"
    and "fs_ok finals ok (fs_rename ((fs_names s)(q \<mapsto> i)) s)"
proof -
  let ?g = "gs ! t" and ?s' = "fs_rename ((fs_names s)(q \<mapsto> i)) s"
  let ?g' = "?g\<lparr>gh_own := (gh_own ?g)(p := None)\<rparr>"
  obtain j d where q: "q \<in> finals" and own: "gh_own ?g p = Some (j, d)" and "ok q d" using assms(4) by auto
  have g: "thread_ok s ?g" by (rule threads_ok_nth [OF assms(1,2)])
  note o = thread_ok_own [OF g own]
  have "j = i" using o(6) assms(5) by auto
  then show "fs_ok finals ok ?s'" using assms(3) o(1,2) \<open>ok q d\<close> by (auto simp: fs_ok_def)
  have fresh: "\<not> suffix u q" if "thread_ok s h" "u \<in> gh_uuids h" for h u
    using uuid_no_suffix [OF thread_ok_uuid(1) [OF that]] finals_named [OF q] by blast
  have keep: "thread_ok ?s' h" if h: "thread_ok s h" and "\<not> owns h i" for h
  proof (rule thread_ok_frame [OF h])
    show "fs_names s r = Some k" if "fs_names ?s' r = Some k" "owns h k" for r k
      using that \<open>\<not> owns h i\<close> by (auto split: if_splits)
    show "fs_names ?s' r = fs_names s r \<or> fs_names ?s' r = None" if "r \<in> dom (gh_own h)" for r
      using that thread_ok_own(3) [OF h] final_not_temp [OF q] by auto
    show "\<not> suffix u r" if "u \<in> gh_uuids h" "r \<in> dom (fs_names ?s')" "r \<notin> dom (fs_names s)" for u r
      using that fresh [OF h] by (auto split: if_splits)
  qed simp_all
  have less: "gh_own ?g' \<subseteq>\<^sub>m gh_own ?g" by (simp add: map_le_def)
  have gone: "\<not> owns ?g' i"
    using thread_ok_own(7) [OF g own] \<open>j = i\<close> by (auto simp: owns_def split: if_splits)
  have "thread_ok s ?g'" by (rule thread_ok_less [OF g less]) simp_all
  then have "thread_ok ?s' ?g'" using keep gone by blast
  moreover have "thread_ok ?s' h \<and> apart ?g' h" if "thread_ok s h" "apart ?g h" for h
  proof
    have "owns ?g i" using own \<open>j = i\<close> by (auto simp: owns_def)
    then show "thread_ok ?s' h" using keep [OF that(1)] that(2) by (auto simp: apart_def)
    show "apart ?g' h" by (rule apart_less [OF that(2) less]) simp_all
  qed
  ultimately show "threads_ok ?s' (gs[t := ?g'])" by (rule threads_okI [OF assms(1,2)])
qed

lemma sound_uuid:
  assumes "threads_ok s gs" and "t < length gs" and "is_uuid u" and "u \<notin> fs_uuids s"
    and "\<forall>p \<in> dom (fs_names s). \<not> suffix u p"
  shows "threads_ok (s\<lparr>fs_uuids := insert u (fs_uuids s)\<rparr>) (gs[t := (gs ! t)\<lparr>gh_uuids := insert u (gh_uuids (gs ! t))\<rparr>])"
proof (rule threads_okI [OF assms(1,2)])
  let ?s' = "s\<lparr>fs_uuids := insert u (fs_uuids s)\<rparr>" and ?g = "gs ! t"
  let ?g' = "?g\<lparr>gh_uuids := insert u (gh_uuids ?g)\<rparr>"
  have keep: "thread_ok ?s' h" if "thread_ok s h" for h
    by (rule thread_ok_frame [OF that]) auto
  have unused: "\<not> suffix u p" if h: "thread_ok s h" and p: "p \<in> dom (gh_own h)" for h p
  proof
    assume "suffix u p"
    from p obtain i d where "gh_own h p = Some (i, d)" by auto
    from thread_ok_own(4) [OF h this] obtain v where "v \<in> fs_uuids s" "is_uuid v" "suffix v p" by blast
    with uuid_suffix_unique [OF assms(3) _ \<open>suffix u p\<close>] assms(4) show False by blast
  qed
  have g: "thread_ok s ?g" by (rule threads_ok_nth [OF assms(1,2)])
  show "thread_ok ?s' ?g'"
  proof (rule thread_okI)
    fix v assume "v \<in> gh_uuids ?g'"
    then consider "v = u" | "v \<in> gh_uuids ?g" by auto
    then show "is_uuid v \<and> v \<in> fs_uuids ?s' \<and> (\<forall>p \<in> dom (fs_names ?s') \<union> dom (gh_own ?g'). \<not> suffix v p)"
      by cases (use assms(3,5) unused [OF g] thread_ok_uuid [OF g] in auto)
  qed (use thread_ok_own [OF keep [OF g]] thread_ok_open [OF keep [OF g]] in \<open>auto simp: owns_def\<close>)
  fix h assume h: "thread_ok s h" "apart ?g h"
  have "u \<notin> gh_uuids h" using thread_ok_uuid(2) [OF h(1)] assms(4) by blast
  with keep [OF h(1)] h(2) unused [OF h(1)] show "thread_ok ?s' h \<and> apart ?g' h"
    by (auto simp: apart_def owns_def)
qed

lemma sound_open_read:
  assumes "threads_ok s gs" and "t < length gs" and "fs_ok finals ok s" and "fs_names s p = Some i" and "p \<in> finals"
  shows "threads_ok s (gs[t := (gs ! t)\<lparr>gh_open := (gh_open (gs ! t))(i \<mapsto> file_data s i)\<rparr>])"
proof (rule threads_okI [OF assms(1,2)])
  let ?g = "gs ! t"
  let ?g' = "?g\<lparr>gh_open := (gh_open ?g)(i \<mapsto> file_data s i)\<rparr>"
  have free: "\<not> owns h i" if "thread_ok s h" for h
  proof
    assume "owns h i"
    then obtain q d where q: "gh_own h q = Some (i, d)" by (auto simp: owns_def)
    with thread_ok_own(3,5) [OF that q] assms(4,5) final_not_temp show False by blast
  qed
  have g: "thread_ok s ?g" by (rule threads_ok_nth [OF assms(1,2)])
  show "thread_ok s ?g'"
  proof (rule thread_okI)
    fix j d assume "gh_open ?g' j = Some d"
    then show "j < fs_next s \<and> file_data s j = d \<and> \<not> owns ?g' j"
      using fs_okD [OF assms(3,4)] free [OF g] thread_ok_open [OF g] by (auto simp: owns_def split: if_splits)
  next
    fix q j d assume "gh_own ?g' q = Some (j, d)"
    then have q: "gh_own ?g q = Some (j, d)" by simp
    show "j < fs_next s \<and> file_data s j = d \<and> temp_name q \<and> (\<exists>u \<in> fs_uuids s. is_uuid u \<and> suffix u q)
        \<and> (\<forall>r. fs_names s r = Some j \<longrightarrow> r = q) \<and> (fs_names s q = None \<or> fs_names s q = Some j)
        \<and> (\<forall>r e. gh_own ?g' r = Some (j, e) \<longrightarrow> q = r)"
      using thread_ok_own [OF g q] by auto
  next
    fix u assume "u \<in> gh_uuids ?g'"
    then have u: "u \<in> gh_uuids ?g" by simp
    show "is_uuid u \<and> u \<in> fs_uuids s \<and> (\<forall>p \<in> dom (fs_names s) \<union> dom (gh_own ?g'). \<not> suffix u p)"
      using thread_ok_uuid [OF g u] by auto
  qed
  fix h assume h: "thread_ok s h" "apart ?g h"
  then show "thread_ok s h \<and> apart ?g' h" using free [OF h(1)] by (auto simp: apart_def owns_def)
qed

text \<open>Calls that change nothing a ghost speaks of, or only remove names.\<close>

lemma sound_names:
  assumes "threads_ok s gs" and "fs_ok finals ok s" and "fs_next s' = fs_next s" and "fs_uuids s' = fs_uuids s"
    and "\<And>i. file_data s' i = file_data s i" and "\<And>q. fs_names s' q = fs_names s q \<or> fs_names s' q = None"
  shows "threads_ok s' (gs[t := gs ! t])" and "fs_ok finals ok s'"
proof -
  have "threads_ok s' gs"
    by (rule threads_ok_mono [OF assms(1)]) (rule thread_ok_names [OF _ refl assms(3,4,5,6)])
  then show "threads_ok s' (gs[t := gs ! t])" by simp
  show "fs_ok finals ok s'"
    unfolding fs_ok_def
  proof (intro allI impI)
    fix p i assume "fs_names s' p = Some i"
    then have "fs_names s p = Some i" using assms(6) [of p] by simp
    then show "i < fs_next s' \<and> (p \<in> finals \<longrightarrow> ok p (file_data s' i))"
      using assms(2,3,5) by (simp add: fs_ok_def)
  qed
qed

lemma os_step_sound:
  assumes "threads_ok s gs" and "t < length gs" and "fs_ok finals ok s" and "call_ok finals ok (gs ! t) c"
    and "os_step remote s c r s'"
  shows "\<exists>g'. next_ok finals ok remote (gs ! t) c r g' \<and> threads_ok s' (gs[t := g']) \<and> fs_ok finals ok s'"
proof -
  have same: "\<exists>g'. next_ok finals ok remote (gs ! t) c r g' \<and> threads_ok s (gs[t := g']) \<and> fs_ok finals ok s"
    if "next_ok finals ok remote (gs ! t) c r (gs ! t)"
    using that assms(1,3) by (intro exI [of _ "gs ! t"]) simp
  from assms(5) show ?thesis
  proof cases
    case fails
    show ?thesis
    proof (cases "\<exists>i off bs. c = WriteAtCall i off bs")
      case True
      then obtain i off bs where c: "c = WriteAtCall i off bs" by blast
      have "fs_put i (file_data s i) s = s\<lparr>fs_inodes := (fs_inodes s)(i := \<lparr>in_data = file_data s i, in_mtime = fs_clock s\<rparr>)\<rparr>"
        by (simp add: fs_put_def)
      note w = sound_write [OF assms(1,2,3) assms(4) [unfolded c]]
      have "threads_ok s (gs[t := own_drop (gs ! t) i])"
        by (rule threads_ok_mono [OF w(2) [of "file_data s i"]]) (erule thread_ok_names, auto)
      then show ?thesis using c fails assms(3) by (intro exI [of _ "own_drop (gs ! t) i"]) simp
    next
      case False
      then have "next_ok finals ok remote (gs ! t) c r (gs ! t)" using fails by (cases c) auto
      with same fails show ?thesis by simp
    qed
  next
    case (open_read p i)
    show ?thesis
    proof (cases "p \<in> finals")
      case True
      have "ok p (file_data s i)" by (rule fs_ok_final [OF assms(3) open_read(4) True])
      then show ?thesis
        using open_read True assms(3) sound_open_read [OF assms(1-3) open_read(4) True]
        by (intro exI [of _ "(gs ! t)\<lparr>gh_open := (gh_open (gs ! t))(i \<mapsto> file_data s i)\<rparr>"]) auto
    qed (use same open_read in simp)
  next
    case (create p)
    then show ?thesis using sound_create [OF assms(1,3)] assms(4) by (intro exI [of _ "gs ! t"]) simp
  next
    case (open_new p trunc)
    then show ?thesis
      using sound_open_new [OF assms(1-3) open_new(4) assms(4) [unfolded open_new(1)]]
      by (intro exI [of _ "(gs ! t)\<lparr>gh_own := (gh_own (gs ! t))(p \<mapsto> (fs_next s, [])),
        gh_uuids := {u \<in> gh_uuids (gs ! t). \<not> suffix u p}\<rparr>"]) simp
  next
    case (open_old p i trunc)
    from assms(4) open_old obtain u where "u \<in> gh_uuids (gs ! t)" "suffix u p" by auto
    with thread_ok_uuid(3) [OF threads_ok_nth [OF assms(1,2)]] open_old(4) have False by blast
    then show ?thesis ..
  next
    case (read bs n off i)
    have "bs = take n (drop off d) \<and> (length bs < n) = (length bs < n)" if "gh_open (gs ! t) i = Some d" for d
      using thread_ok_open(2) [OF threads_ok_nth [OF assms(1,2)] that] read(4) by simp
    with same read show ?thesis by simp
  next
    case (read_all i)
    have "file_data s i = d" if "gh_open (gs ! t) i = Some d" for d
      by (rule thread_ok_open(2) [OF threads_ok_nth [OF assms(1,2)] that])
    with same read_all show ?thesis by simp
  next
    case (write_all i off bs)
    then show ?thesis
      using sound_write(1,3) [OF assms(1-3) assms(4) [unfolded write_all(1)]]
      by (intro exI [of _ "own_append (gs ! t) i bs"]) simp
  next
    case (write_part n bs i off)
    then show ?thesis
      using sound_write(2,3) [OF assms(1-3) assms(4) [unfolded write_part(1)]]
      by (intro exI [of _ "own_drop (gs ! t) i"]) simp
  next
    case (link p i q)
    then show ?thesis
      using sound_link [OF assms(1-3) assms(4) [unfolded link(1)] link(4,5)]
      by (intro exI [of _ "(gs ! t)\<lparr>gh_own := (gh_own (gs ! t))(p := None)\<rparr>"]) simp
  next
    case (remove p i)
    with sound_names [OF assms(1,3), where s' = s'] show ?thesis by (intro exI [of _ "gs ! t"]) auto
  next
    case (remove_all p)
    with sound_names [OF assms(1,3), where s' = s'] show ?thesis by (intro exI [of _ "gs ! t"]) auto
  next
    case (mkdir p)
    with sound_names [OF assms(1,3), where s' = s'] show ?thesis by (intro exI [of _ "gs ! t"]) auto
  next
    case (uuid u)
    moreover have "fs_ok finals ok s'" using assms(3) uuid by (simp add: fs_ok_def)
    ultimately show ?thesis
      using sound_uuid [OF assms(1,2) uuid(4-6)]
      by (intro exI [of _ "(gs ! t)\<lparr>gh_uuids := insert u (gh_uuids (gs ! t))\<rparr>"]) simp
  qed (use same in simp_all)
qed

lemma sys_step_ok:
  assumes "sys_step remote reqs prog_of \<sigma> \<sigma>'" and "sys_ok finals ok remote jobs Q \<sigma>"
    and progs: "\<And>q. q \<in> reqs \<union> jobs \<Longrightarrow> good finals ok remote jobs (prog_of q) no_ghost (\<lambda>x g. Q q x)"
  shows "sys_ok finals ok remote jobs Q \<sigma>'"
proof -
  obtain s ts where st: "\<sigma> = (s, ts)" by (cases \<sigma>)
  obtain gs where gs: "length gs = length ts" "threads_ok s gs" "fs_ok finals ok s"
    "\<And>t. t < length ts \<Longrightarrow> good finals ok remote jobs (snd (ts ! t)) (gs ! t) (\<lambda>x g. Q (fst (ts ! t)) x)"
    using assms(2) st by (auto simp: sys_ok_def)
  from assms(1) [unfolded st] show ?thesis
  proof cases
    case (call t q c k r s')
    have g: "good finals ok remote jobs (Call c k) (gs ! t) (\<lambda>x g. Q q x)" using gs(4) [OF call(2)] call(3) by simp
    then have c: "call_ok finals ok (gs ! t) c" by simp
    obtain g' where g': "next_ok finals ok remote (gs ! t) c r g'" "threads_ok s' (gs[t := g'])" "fs_ok finals ok s'"
      using os_step_sound [OF gs(2) _ gs(3) c call(4)] call(2) gs(1) by auto
    have "good finals ok remote jobs (k r) g' (\<lambda>x g. Q q x)" using g g'(1) by simp
    then show ?thesis
      using call g' gs by (auto simp: sys_ok_def nth_list_update intro!: exI [of _ "gs[t := g']"])
  next
    case (go t q j p)
    have g: "j \<in> jobs" "good finals ok remote jobs p (gs ! t) (\<lambda>x g. Q q x)" using gs(4) [OF go(2)] go(3) by simp_all
    have "good finals ok remote jobs (prog_of j) no_ghost (\<lambda>x g. Q j x)" using progs g(1) by blast
    then show ?thesis
      using go gs g threads_ok_start [OF gs(2)]
      by (auto simp: sys_ok_def nth_append nth_list_update less_Suc_eq intro!: exI [of _ "gs @ [no_ghost]"])
  next
    case (start q)
    have "good finals ok remote jobs (prog_of q) no_ghost (\<lambda>x g. Q q x)" using progs start by blast
    then show ?thesis
      using start gs threads_ok_start [OF gs(2)]
      by (auto simp: sys_ok_def nth_append less_Suc_eq intro!: exI [of _ "gs @ [no_ghost]"])
  next
    case (tick now)
    have "threads_ok (s\<lparr>fs_clock := now\<rparr>) gs" "fs_ok finals ok (s\<lparr>fs_clock := now\<rparr>)"
      using threads_ok_mono [OF gs(2)] thread_ok_names [of s _ "s\<lparr>fs_clock := now\<rparr>"] gs(3) by (auto simp: fs_ok_def)
    then show ?thesis using tick gs by (auto simp: sys_ok_def)
  qed
qed

text \<open>In every interleaving, the final files are right and finished programs have returned what they promise.\<close>

lemma sys_sound:
  assumes "(sys_step remote reqs prog_of)\<^sup>*\<^sup>* (s0, []) (s, ts)" and "fs_ok finals ok s0"
    and progs: "\<And>q. q \<in> reqs \<union> jobs \<Longrightarrow> good finals ok remote jobs (prog_of q) no_ghost (\<lambda>x g. Q q x)"
  shows "fs_ok finals ok s" and "(q, Done x) \<in> set ts \<Longrightarrow> Q q x"
proof -
  have "sys_ok finals ok remote jobs Q (s0, [])" using assms(2) by (simp add: sys_ok_def threads_ok_def)
  with assms(1) have *: "sys_ok finals ok remote jobs Q (s, ts)"
    by (induction rule: rtranclp_induct) (auto intro: sys_step_ok [OF _ _ progs])
  then show "fs_ok finals ok s" by (simp add: sys_ok_def)
  show "Q q x" if "(q, Done x) \<in> set ts"
    using * that by (auto simp: sys_ok_def in_set_conv_nth)
qed

end

end
