(* ===== verification/File_Lock.thy ===== *)
theory File_Lock
  imports Shared_Files
begin

text \<open>
  The lock files of the storage cache (\<open>packages/shared/pkg/storage/lock\<close>): a lock is a file next to
  the path it protects, created exclusively and taken to be stale after ten seconds; an
  \<open>AtomicImmutableFile\<close> collects what is written in a temporary file and publishes it under its
  final name with a hard link, which fails if the name is taken (\<open>utils/move.go\<close>).  An open file is
  its name with its inode.
\<close>

section \<open>Locks\<close>

type_synonym os_file = "string \<times> nat"

datatype lock_error = ErrLockAlreadyHeld | LockError os_errno

definition defaultLockTTL :: int where "defaultLockTTL = 10 * 1000000000"

definition getLockFilePath :: "string \<Rightarrow> string" where
  "getLockFilePath path = path @ ''.lock''"

definition createLock :: "string \<Rightarrow> ('q, 'c, (lock_error, os_file) outcome) prog" where
  "createLock lockPath =
     prog_then (os_do (CreateExcl lockPath) as_file) (\<lambda>r.
       case r of
         Ok i \<Rightarrow> Done (Ok (lockPath, i))
       | Err e \<Rightarrow> if e = ErrExist then Done (Err ErrLockAlreadyHeld) else Done (Err (LockError e))
       | Panic \<Rightarrow> Done Panic)"

definition TryAcquireLock :: "string \<Rightarrow> ('q, 'c, (lock_error, os_file) outcome) prog" where
  "TryAcquireLock path =
     (let lockPath = getLockFilePath path
      in prog_then (os_do (StatCall lockPath) as_stat) (\<lambda>info.
           case info of
             Ok (_, _, modTime) \<Rightarrow>
               prog_then (os_do NowCall as_time) (\<lambda>now.
                 if now - modTime \<le> defaultLockTTL then Done (Err ErrLockAlreadyHeld)
                 else prog_then (os_do (RemoveCall lockPath) as_unit) (\<lambda>r.
                   case r of
                     Err e \<Rightarrow> if e \<noteq> ErrNotExist then Done (Err (LockError e)) else createLock lockPath
                   | _ \<Rightarrow> createLock lockPath))
           | _ \<Rightarrow> createLock lockPath))"

definition ReleaseLock :: "os_file option \<Rightarrow> ('q, 'c, (os_errno, unit) outcome) prog" where
  "ReleaseLock file =
     (case file of
        None \<Rightarrow> Done (Ok ())
      | Some (lockPath, i) \<Rightarrow>
          prog_then (os_do (CloseCall i) as_unit) (\<lambda>_.
          prog_then (os_do (RemoveCall lockPath) as_unit) (\<lambda>r.
            case r of Err e \<Rightarrow> if e \<noteq> ErrNotExist then Done (Err e) else Done (Ok ()) | _ \<Rightarrow> Done (Ok ()))))"

section \<open>Publishing a file\<close>

text \<open>The old name is removed whether the link succeeded or not; an error of that is only logged.\<close>

definition RenameOrDeleteFile :: "string \<Rightarrow> string \<Rightarrow> ('q, 'c, (os_errno, unit) outcome) prog" where
  "RenameOrDeleteFile oldPath newPath =
     prog_then (os_do (LinkCall oldPath newPath) as_unit) (\<lambda>r.
     prog_then (os_do (RemoveCall oldPath) as_unit) (\<lambda>_. Done r))"

text \<open>\<open>af_pos\<close> is the position of the temporary file, \<open>af_closed\<close> the state of the once.\<close>

record AtomicImmutableFile =
  af_lockFile :: os_file
  af_tempFile :: os_file
  af_filename :: string
  af_pos :: nat
  af_closed :: bool

definition OpenFile :: "string \<Rightarrow> ('q, 'c, (lock_error, AtomicImmutableFile) outcome) prog" where
  "OpenFile filename =
     try_then (TryAcquireLock filename) (\<lambda>lockFile.
       prog_then (os_do UuidCall as_name) (\<lambda>u.
       let tempFilename = filename @ ''.temp.'' @ u
       in prog_then (os_do (OpenWrite tempFilename False) as_file) (\<lambda>r.
            case r of
              Ok i \<Rightarrow> Done (Ok \<lparr>af_lockFile = lockFile, af_tempFile = (tempFilename, i), af_filename = filename,
                               af_pos = 0, af_closed = False\<rparr>)
            | Err e \<Rightarrow> prog_then (ReleaseLock (Some lockFile)) (\<lambda>_. Done (Err (LockError e)))
            | Panic \<Rightarrow> Done Panic)))"

definition af_Write ::
  "AtomicImmutableFile \<Rightarrow> byte list \<Rightarrow> ('q, 'c, (os_errno, unit) outcome \<times> AtomicImmutableFile) prog" where
  "af_Write f bs =
     prog_then (os_do (WriteAtCall (snd (af_tempFile f)) (af_pos f) bs) as_unit) (\<lambda>r.
       Done (r, f\<lparr>af_pos := af_pos f + length bs\<rparr>))"

text \<open>\<open>True\<close> stands for an error; the errors that occurred are joined.\<close>

definition af_close ::
  "AtomicImmutableFile \<Rightarrow> bool \<Rightarrow> ('q, 'c, (unit, unit) outcome \<times> AtomicImmutableFile) prog" where
  "af_close f success =
     (if af_closed f then Done (Ok (), f)
      else prog_then (os_do (CloseCall (snd (af_tempFile f))) as_unit) (\<lambda>c.
        prog_then
          (if success then
             prog_then (RenameOrDeleteFile (fst (af_tempFile f)) (af_filename f)) (\<lambda>r.
               Done (case r of Err e \<Rightarrow> e \<noteq> ErrExist | _ \<Rightarrow> False))
           else prog_then (os_do (RemoveCall (fst (af_tempFile f))) as_unit) (\<lambda>r. Done (\<not> is_ok r))) (\<lambda>failed.
        prog_then (ReleaseLock (Some (af_lockFile f))) (\<lambda>_.
          Done (if failed \<or> \<not> is_ok c then Err () else Ok (), f\<lparr>af_closed := True\<rparr>)))))"

definition File_Commit :: "AtomicImmutableFile \<Rightarrow> ('q, 'c, (unit, unit) outcome \<times> AtomicImmutableFile) prog" where
  "File_Commit f = af_close f True"

definition File_Close :: "AtomicImmutableFile \<Rightarrow> ('q, 'c, (unit, unit) outcome \<times> AtomicImmutableFile) prog" where
  "File_Close f = af_close f False"

section \<open>These programs are good\<close>

context shared_files
begin

lemma good_createLock:
  assumes "getLockFilePath path \<notin> finals" and "\<And>r. Q r g"
  shows "good finals ok remote jobs (createLock (getLockFilePath path)) g Q"
  using assms
  by (auto simp: createLock_def getLockFilePath_def hex_digit_def split: outcome.splits)

lemma good_TryAcquireLock:
  assumes "getLockFilePath path \<notin> finals" and "\<And>r. Q r g"
  shows "good finals ok remote jobs (TryAcquireLock path) g Q"
  using assms good_createLock [of path Q g jobs, OF assms(1)]
  by (auto simp: TryAcquireLock_def Let_def split: outcome.splits)

lemma good_ReleaseLock:
  assumes "\<And>r. Q r g"
  shows "good finals ok remote jobs (ReleaseLock f) g Q"
  using assms by (auto simp: ReleaseLock_def split: option.splits outcome.splits)

lemma good_RenameOrDeleteFile:
  assumes "new \<in> finals" and "gh_own g old = Some (i, d)" and "ok new d" and "\<And>r g'. Q r g'"
  shows "good finals ok remote jobs (RenameOrDeleteFile old new) g Q"
  using assms by (auto simp: RenameOrDeleteFile_def split: os_reply.splits)

end

end
