(* ===== verification/Storage_Cache.thy ===== *)
theory Storage_Cache
  imports File_Lock
begin

text \<open>
  The cache that stands before a remote object store
  (\<open>packages/shared/pkg/storage/storage_cache.go\<close> and \<open>storage_cache_seekable.go\<close>).  A seekable object
  is cached in chunk files and a size file.  Every operation is a program over the shared cache directory; the object it wraps is the
  remote service.  Writing back happens in goroutines, which are the jobs of the requests.  Spans,
  counters and log messages are left out; \<open>skip\<close> is the flag that the context carries.
\<close>

section \<open>Chunks\<close>

record cachedSeekable =
  cs_path :: string
  cs_chunkSize :: int

datatype inner_call =
    InnerReadAt nat int | InnerSize | InnerStoreFile string
  | InnerOpenRange int int | InnerRangeRead int int nat nat | InnerRangeClose
  | InnerWriteTo | InnerPut "byte list" | InnerExists

datatype cache_error =
    ErrOffsetUnaligned | ErrBufferTooSmall | ErrMultipleChunks | ErrBufferTooLarge
  | OsError os_errno | LockFailed lock_error | InnerError os_errno | ParseError | CommitError

text \<open>\<open>fmt.Sprintf("%0wd", i)\<close>: the sign counts for the width.\<close>

definition pad_zero :: "nat \<Rightarrow> int \<Rightarrow> string" where
  "pad_zero w i =
     (let ds = nat_digits (nat \<bar>i\<bar>)
      in if i < 0 then CHR ''-'' # replicate (w - 1 - length ds) CHR ''0'' @ ds
         else replicate (w - length ds) CHR ''0'' @ ds)"

definition makeChunkFilename :: "cachedSeekable \<Rightarrow> int \<Rightarrow> string" where
  "makeChunkFilename c off =
     cs_path c @ ''/'' @ pad_zero 12 (off sdiv cs_chunkSize c) @ ''-'' @ Itoa (cs_chunkSize c) @ ''.bin''"

definition makeTempChunkFilename :: "cachedSeekable \<Rightarrow> int \<Rightarrow> string \<Rightarrow> string" where
  "makeTempChunkFilename c off tempFilename =
     cs_path c @ ''/.temp.'' @ pad_zero 12 (off sdiv cs_chunkSize c) @ ''-'' @ Itoa (cs_chunkSize c) @ ''.bin.'' @ tempFilename"

definition sizeFilename :: "cachedSeekable \<Rightarrow> string" where
  "sizeFilename c = Join [cs_path c, ''size.txt'']"

definition validateReadAtParams :: "cachedSeekable \<Rightarrow> int \<Rightarrow> int \<Rightarrow> (cache_error, unit) outcome" where
  "validateReadAtParams c buffSize off =
     (if buffSize = 0 then Err ErrBufferTooSmall
      else if cs_chunkSize c < buffSize then Err ErrBufferTooLarge
      else if off smod cs_chunkSize c \<noteq> 0 then Err ErrOffsetUnaligned
      else if cs_chunkSize c < off smod cs_chunkSize c + buffSize then Err ErrMultipleChunks
      else Ok ())"

definition isCompleteRead :: "nat \<Rightarrow> nat \<Rightarrow> bool \<Rightarrow> bool" where
  "isCompleteRead n expected eof \<longleftrightarrow> n = expected \<or> (0 < n \<and> eof)"

section \<open>Requests and jobs\<close>

text \<open>
  The requests of the clients of a seekable object, and the goroutines they start.  A range request
  carries the sizes of the reads its client does before it closes the reader; a store request the
  feature flag for writing through.
\<close>

datatype seek_req =
    ReqReadAt nat int bool | ReqRange int int bool "nat list" | ReqSize bool | ReqStoreFile string bool
  | JobWriteChunk int string "byte list" | JobWriteSize int | JobCreateBlocks string | JobRemove string | JobDelete string

datatype seek_result =
    ResRead "(cache_error, byte list \<times> bool) outcome"
  | ResRange "(cache_error, byte list) outcome"
  | ResSize "(cache_error, int) outcome"
  | ResUnit "(cache_error, unit) outcome"

type_synonym 'a seek_prog = "(seek_req, inner_call, 'a) prog"

section \<open>Reading\<close>

definition readAtFromCache :: "string \<Rightarrow> nat \<Rightarrow> ('q, 'c, (cache_error, byte list \<times> bool) outcome) prog" where
  "readAtFromCache chunkPath n =
     prog_then (os_do (OpenRead chunkPath) as_file) (\<lambda>fp.
       case fp of
         Ok i \<Rightarrow>
           prog_then (os_do (ReadAtCall i n 0) as_bytes) (\<lambda>r.
           prog_then (os_do (CloseCall i) as_unit) (\<lambda>_. Done (map_err OsError r)))
       | Err e \<Rightarrow> Done (Err (OsError e))
       | Panic \<Rightarrow> Done Panic)"

text \<open>The bytes of the buffer that were read, and whether the error is \<open>io.EOF\<close>.\<close>

definition ReadAt :: "cachedSeekable \<Rightarrow> bool \<Rightarrow> nat \<Rightarrow> int \<Rightarrow> (cache_error, byte list \<times> bool) outcome seek_prog" where
  "ReadAt c skip n off =
     (case validateReadAtParams c (int n) off of
        Ok _ \<Rightarrow>
          (let chunkPath = makeChunkFilename c off
           in prog_then (readAtFromCache chunkPath n) (\<lambda>cached.
                case cached of
                  Ok x \<Rightarrow> Done (Ok x)
                | _ \<Rightarrow>
                    prog_then (os_do (RemoteCall (InnerReadAt n off)) as_bytes) (\<lambda>r.
                      case r of
                        Ok (bs, eof) \<Rightarrow>
                          if \<not> skip \<and> isCompleteRead (length bs) n eof
                          then Go (JobWriteChunk off chunkPath bs) (Done (Ok (bs, eof)))
                          else Done (Ok (bs, eof))
                      | Err e \<Rightarrow> Done (Err (InnerError e))
                      | Panic \<Rightarrow> Done Panic)))
      | Err e \<Rightarrow> Done (Err e)
      | Panic \<Rightarrow> Done Panic)"

text \<open>
  A range reader: a section of a cached file, the remote stream, or the remote stream with what was
  read from it so far.  The position counts the bytes delivered.
\<close>

datatype range_reader =
    FileRange nat int nat
  | InnerRange int int nat
  | WriteThrough int int nat "byte list" string

definition OpenRangeReader :: "cachedSeekable \<Rightarrow> bool \<Rightarrow> int \<Rightarrow> int \<Rightarrow> (cache_error, range_reader) outcome seek_prog" where
  "OpenRangeReader c skip off len =
     (let chunkPath = makeChunkFilename c off
      in prog_then (os_do (OpenRead chunkPath) as_file) (\<lambda>fp.
           case fp of
             Ok i \<Rightarrow> Done (Ok (FileRange i len 0))
           | _ \<Rightarrow>
               prog_then (os_do (RemoteCall (InnerOpenRange off len)) as_unit) (\<lambda>r.
                 case r of
                   Ok _ \<Rightarrow> Done (Ok (if skip then InnerRange off len 0 else WriteThrough off len 0 [] chunkPath))
                 | Err e \<Rightarrow> Done (Err (InnerError e))
                 | Panic \<Rightarrow> Done Panic)))"

fun range_Read :: "range_reader \<Rightarrow> nat \<Rightarrow> ((cache_error, byte list \<times> bool) outcome \<times> range_reader) seek_prog" where
  "range_Read (FileRange i len pos) n =
     (if len \<le> int pos then Done (Ok ([], True), FileRange i len pos)
      else prog_then (os_do (ReadAtCall i (min n (nat (len - int pos))) pos) as_bytes) (\<lambda>r.
        Done (map_err OsError r, FileRange i len (pos + (case r of Ok (bs, _) \<Rightarrow> length bs | _ \<Rightarrow> 0)))))"
| "range_Read (InnerRange off len pos) n =
     prog_then (os_do (RemoteCall (InnerRangeRead off len pos n)) as_bytes) (\<lambda>r.
       Done (map_err InnerError r, InnerRange off len (pos + (case r of Ok (bs, _) \<Rightarrow> length bs | _ \<Rightarrow> 0))))"
| "range_Read (WriteThrough off len pos buf chunkPath) n =
     prog_then (os_do (RemoteCall (InnerRangeRead off len pos n)) as_bytes) (\<lambda>r.
       let got = (case r of Ok (bs, _) \<Rightarrow> bs | _ \<Rightarrow> [])
       in Done (map_err InnerError r, WriteThrough off len (pos + length got) (buf @ got) chunkPath))"

fun range_Close :: "range_reader \<Rightarrow> (os_errno, unit) outcome seek_prog" where
  "range_Close (FileRange i len pos) = os_do (CloseCall i) as_unit"
| "range_Close (InnerRange off len pos) = os_do (RemoteCall InnerRangeClose) as_unit"
| "range_Close (WriteThrough off len pos buf chunkPath) =
     prog_then (os_do (RemoteCall InnerRangeClose) as_unit) (\<lambda>closeErr.
       if 0 < length buf \<and> int (length buf) = len then Go (JobWriteChunk off chunkPath buf) (Done closeErr)
       else Done closeErr)"

text \<open>The client of a range reader: it reads in pieces until the end, an error, or until it has enough.\<close>

fun read_range :: "range_reader \<Rightarrow> nat list \<Rightarrow> byte list \<Rightarrow> ((cache_error, byte list) outcome \<times> range_reader) seek_prog" where
  "read_range rd [] got = Done (Ok got, rd)"
| "read_range rd (n # ns) got =
     prog_then (range_Read rd n) (\<lambda>(r, rd').
       case r of
         Ok (bs, eof) \<Rightarrow> if eof then Done (Ok (got @ bs), rd') else read_range rd' ns (got @ bs)
       | Err e \<Rightarrow> Done (Err e, rd')
       | Panic \<Rightarrow> Done (Panic, rd'))"

definition range_request :: "cachedSeekable \<Rightarrow> bool \<Rightarrow> int \<Rightarrow> int \<Rightarrow> nat list \<Rightarrow> (cache_error, byte list) outcome seek_prog" where
  "range_request c skip off len ns =
     prog_then (OpenRangeReader c skip off len) (\<lambda>r.
       case r of
         Ok rd \<Rightarrow> prog_then (read_range rd ns []) (\<lambda>(x, rd'). prog_then (range_Close rd') (\<lambda>_. Done x))
       | Err e \<Rightarrow> Done (Err e)
       | Panic \<Rightarrow> Done Panic)"

definition bytes_text :: "byte list \<Rightarrow> string" where
  "bytes_text bs = map (\<lambda>b. char_of (unat b)) bs"

definition text_bytes :: "string \<Rightarrow> byte list" where
  "text_bytes s = map (\<lambda>c. of_char c) s"

lemma bytes_text_bytes [simp]: "bytes_text (text_bytes s) = s"
proof -
  have "unat (of_char ch :: byte) = of_char ch" for ch
  proof -
    have "unat (of_char ch :: byte) = unat (word_of_nat (of_char ch) :: byte)" by (simp only: of_nat_of_char)
    also have "\<dots> = take_bit 8 (of_char ch)" by (simp only: unat_of_nat) (simp add: take_bit_eq_mod)
    finally show ?thesis using nat_of_char_less_256 [of ch] by (simp add: take_bit_eq_mod)
  qed
  then show ?thesis by (simp add: bytes_text_def text_bytes_def o_def)
qed

definition readLocalSize :: "cachedSeekable \<Rightarrow> ('q, 'c, (cache_error, int) outcome) prog" where
  "readLocalSize c =
     prog_then (os_do (OpenRead (sizeFilename c)) as_file) (\<lambda>fp.
       case fp of
         Ok i \<Rightarrow>
           prog_then (os_do (ReadAllCall i) as_bytes) (\<lambda>r.
           prog_then (os_do (CloseCall i) as_unit) (\<lambda>_.
             Done (case r of
                     Ok (bs, _) \<Rightarrow> (case Atoi (bytes_text bs) of None \<Rightarrow> Err ParseError | Some n \<Rightarrow> Ok n)
                   | Err e \<Rightarrow> Err (OsError e)
                   | Panic \<Rightarrow> Panic)))
       | Err e \<Rightarrow> Done (Err (OsError e))
       | Panic \<Rightarrow> Done Panic)"

fun as_count :: "os_reply \<Rightarrow> (os_errno, nat) outcome" where
  "as_count (RCount n) = Ok n"
| "as_count (RErr e) = Err e"
| "as_count _ = Err ErrOther"

text \<open>A boolean reply is a count of one or zero.\<close>

fun as_flag :: "os_reply \<Rightarrow> (os_errno, bool) outcome" where
  "as_flag (RCount n) = Ok (n \<noteq> 0)"
| "as_flag (RErr e) = Err e"
| "as_flag _ = Err ErrOther"

definition Size :: "cachedSeekable \<Rightarrow> bool \<Rightarrow> (cache_error, int) outcome seek_prog" where
  "Size c skip =
     prog_then (readLocalSize c) (\<lambda>r.
       case r of
         Ok n \<Rightarrow> Done (Ok n)
       | _ \<Rightarrow>
           prog_then (os_do (RemoteCall InnerSize) as_count) (\<lambda>r.
             case r of
               Ok n \<Rightarrow> if skip then Done (Ok (int n)) else Go (JobWriteSize (int n)) (Done (Ok (int n)))
             | Err e \<Rightarrow> Done (Err (InnerError e))
             | Panic \<Rightarrow> Done Panic))"

section \<open>Writing back\<close>

text \<open>\<open>os.WriteFile\<close>: the file is closed whatever happens, an error of that counts if there was none.\<close>

definition WriteFile :: "string \<Rightarrow> byte list \<Rightarrow> ('q, 'c, (os_errno, unit) outcome) prog" where
  "WriteFile path bs =
     prog_then (os_do (OpenWrite path True) as_file) (\<lambda>f.
       case f of
         Ok i \<Rightarrow>
           prog_then (os_do (WriteAtCall i 0 bs) as_unit) (\<lambda>r.
           prog_then (os_do (CloseCall i) as_unit) (\<lambda>c. Done (and_then r (\<lambda>_. c))))
       | Err e \<Rightarrow> Done (Err e)
       | Panic \<Rightarrow> Done Panic)"

definition safelyRemoveFile :: "string \<Rightarrow> ('q, 'c, unit) prog" where
  "safelyRemoveFile path = prog_then (os_do (RemoveCall path) as_unit) (\<lambda>_. Done ())"

text \<open>What both write-backs do under the lock: a temporary file, then a link to the final name.\<close>

definition publish :: "string \<Rightarrow> string \<Rightarrow> byte list \<Rightarrow> (cache_error, unit) outcome seek_prog" where
  "publish tempPath finalPath bs =
     prog_then (WriteFile tempPath bs) (\<lambda>r.
       case r of
         Ok _ \<Rightarrow> prog_then (RenameOrDeleteFile tempPath finalPath) (\<lambda>r. Done (map_err OsError r))
       | Err e \<Rightarrow> Go (JobRemove tempPath) (Done (Err (OsError e)))
       | Panic \<Rightarrow> Done Panic)"

definition writeChunkToCache :: "cachedSeekable \<Rightarrow> int \<Rightarrow> string \<Rightarrow> byte list \<Rightarrow> (cache_error, unit) outcome seek_prog" where
  "writeChunkToCache c off chunkPath bs =
     prog_then (TryAcquireLock chunkPath) (\<lambda>r.
       case r of
         Ok lockFile \<Rightarrow>
           prog_then (os_do UuidCall as_name) (\<lambda>u.
           prog_then (publish (makeTempChunkFilename c off u) chunkPath bs) (\<lambda>x.
           prog_then (ReleaseLock (Some lockFile)) (\<lambda>_. Done x)))
       | _ \<Rightarrow> Done (Ok ()))"

definition writeLocalSize :: "cachedSeekable \<Rightarrow> int \<Rightarrow> (cache_error, unit) outcome seek_prog" where
  "writeLocalSize c n =
     prog_then (TryAcquireLock (sizeFilename c)) (\<lambda>r.
       case r of
         Ok lockFile \<Rightarrow>
           prog_then (os_do UuidCall as_name) (\<lambda>u.
           prog_then (publish (Join [cs_path c, ''.size.bin.'' @ u]) (sizeFilename c) (text_bytes (Itoa n))) (\<lambda>x.
           prog_then (ReleaseLock (Some lockFile)) (\<lambda>_. Done x)))
       | Err e \<Rightarrow> Done (Err (LockFailed e))
       | Panic \<Rightarrow> Done Panic)"

section \<open>Writing through\<close>

text \<open>
  \<open>io.CopyN\<close> moves the chunk in pieces of 32 KiB: each is read at the reader's offset, written at the
  end of the output, and a short read ends the copy.
\<close>

definition copyBufferSize :: nat where "copyBufferSize = 32 * 1024"

fun piece_sizes :: "nat \<Rightarrow> nat \<Rightarrow> nat list" where
  "piece_sizes piece 0 = []"
| "piece_sizes piece (Suc n) =
     (if piece = 0 then [] else min piece (Suc n) # piece_sizes piece (Suc n - piece))"

record offsetReader =
  or_wrapped :: nat
  or_offset :: nat

definition newOffsetReader :: "nat \<Rightarrow> nat \<Rightarrow> offsetReader" where
  "newOffsetReader reader off = \<lparr>or_wrapped = reader, or_offset = off\<rparr>"

definition offsetReader_Read ::
  "offsetReader \<Rightarrow> nat \<Rightarrow> ('q, 'c, (os_errno, byte list \<times> bool) outcome \<times> offsetReader) prog" where
  "offsetReader_Read rd n =
     prog_then (os_do (ReadAtCall (or_wrapped rd) n (or_offset rd)) as_bytes) (\<lambda>r.
       Done (r, rd\<lparr>or_offset := or_offset rd + (case r of Ok (bs, _) \<Rightarrow> length bs | _ \<Rightarrow> 0)\<rparr>))"

fun copy_pieces :: "nat list \<Rightarrow> offsetReader \<Rightarrow> nat \<Rightarrow> nat \<Rightarrow> ('q, 'c, (os_errno, unit) outcome) prog" where
  "copy_pieces [] rd output pos = Done (Ok ())"
| "copy_pieces (n # ns) rd output pos =
     prog_then (offsetReader_Read rd n) (\<lambda>(r, rd').
       case r of
         Ok (bs, eof) \<Rightarrow>
           (if bs = [] then (if eof then Done (Ok ()) else copy_pieces ns rd' output pos)
            else prog_then (os_do (WriteAtCall output pos bs) as_unit) (\<lambda>w.
              case w of
                Ok _ \<Rightarrow> if eof then Done (Ok ()) else copy_pieces ns rd' output (pos + length bs)
              | Err e \<Rightarrow> Done (Err e)
              | Panic \<Rightarrow> Done Panic))
       | Err e \<Rightarrow> Done (Err e)
       | Panic \<Rightarrow> Done Panic)"

definition writeChunkFromFile :: "cachedSeekable \<Rightarrow> int \<Rightarrow> nat \<Rightarrow> (cache_error, unit) outcome seek_prog" where
  "writeChunkFromFile c off input =
     (let chunkPath = makeChunkFilename c off
      in prog_then (os_do (OpenWrite chunkPath True) as_file) (\<lambda>f.
           case f of
             Ok output \<Rightarrow>
               prog_then (copy_pieces (piece_sizes copyBufferSize (nat (cs_chunkSize c))) (newOffsetReader input (nat off)) output 0) (\<lambda>r.
               prog_then (if is_ok r then Done () else safelyRemoveFile chunkPath) (\<lambda>_.
               prog_then (os_do (CloseCall output) as_unit) (\<lambda>_. Done (map_err OsError r))))
           | Err e \<Rightarrow> Done (Err (OsError e))
           | Panic \<Rightarrow> Done Panic))"

text \<open>
  The chunks of a file.  The workers of the error collector are run one after the other, as with the
  smallest concurrency limit; every error is collected.
\<close>

definition chunk_offsets :: "int \<Rightarrow> nat \<Rightarrow> int list" where
  "chunk_offsets chunkSize totalSize =
     map (\<lambda>k. int k * chunkSize) [0..<nat ((int totalSize + chunkSize - 1) div chunkSize)]"

fun write_chunks :: "cachedSeekable \<Rightarrow> int list \<Rightarrow> nat \<Rightarrow> bool \<Rightarrow> bool seek_prog" where
  "write_chunks c [] input failed = Done failed"
| "write_chunks c (off # offs) input failed =
     prog_then (writeChunkFromFile c off input) (\<lambda>r. write_chunks c offs input (failed \<or> \<not> is_ok r))"

definition createCacheBlocksFromFile :: "cachedSeekable \<Rightarrow> string \<Rightarrow> (cache_error, int) outcome seek_prog" where
  "createCacheBlocksFromFile c inputPath =
     prog_then (os_do (OpenRead inputPath) as_file) (\<lambda>f.
       case f of
         Ok input \<Rightarrow>
           prog_then (os_do (FStatCall input) as_stat) (\<lambda>st.
             prog_then
               (case st of
                  Ok (_, totalSize, _) \<Rightarrow>
                    prog_then (write_chunks c (chunk_offsets (cs_chunkSize c) totalSize) input False) (\<lambda>failed.
                      Done (if failed then Err CommitError else Ok (int totalSize)))
                | Err e \<Rightarrow> Done (Err (OsError e))
                | Panic \<Rightarrow> Done Panic) (\<lambda>x.
             prog_then (os_do (CloseCall input) as_unit) (\<lambda>_. Done x)))
       | Err e \<Rightarrow> Done (Err (OsError e))
       | Panic \<Rightarrow> Done Panic)"

definition StoreFile :: "bool \<Rightarrow> string \<Rightarrow> (cache_error, unit) outcome seek_prog" where
  "StoreFile writeThrough path =
     (let store = prog_then (os_do (RemoteCall (InnerStoreFile path)) as_unit) (\<lambda>r. Done (map_err InnerError r))
      in if writeThrough then Go (JobCreateBlocks path) store else store)"

section \<open>The provider\<close>

text \<open>
  The storage provider that wraps another one with the cache.  Opening an object makes its cache
  directory; deleting removes the cached files in the background.
\<close>

definition MemoryChunkSize :: int where "MemoryChunkSize = 4 * 1024 * 1024"

definition OpenSeekable ::
  "string \<Rightarrow> ('q, 'c, (os_errno, unit) outcome) prog \<Rightarrow> string \<Rightarrow> ('q, 'c, (cache_error, cachedSeekable) outcome) prog" where
  "OpenSeekable rootPath innerOpen path =
     prog_then innerOpen (\<lambda>r.
       case r of
         Ok _ \<Rightarrow>
           (let localPath = Join [rootPath, path]
            in prog_then (os_do (MkdirAllCall localPath) as_unit) (\<lambda>m.
                 case m of
                   Ok _ \<Rightarrow> Done (Ok \<lparr>cs_path = localPath, cs_chunkSize = MemoryChunkSize\<rparr>)
                 | Err e \<Rightarrow> Done (Err (OsError e))
                 | Panic \<Rightarrow> Done Panic))
       | Err e \<Rightarrow> Done (Err (InnerError e))
       | Panic \<Rightarrow> Done Panic)"

definition deleteCachedObjectsWithPrefix :: "string \<Rightarrow> ('q, 'c, unit) prog" where
  "deleteCachedObjectsWithPrefix fullPrefix = prog_then (os_do (RemoveAllCall fullPrefix) as_unit) (\<lambda>_. Done ())"

definition DeleteObjectsWithPrefix ::
  "string \<Rightarrow> (os_errno, unit) outcome seek_prog \<Rightarrow> string \<Rightarrow> (os_errno, unit) outcome seek_prog" where
  "DeleteObjectsWithPrefix rootPath innerDelete path = Go (JobDelete (Join [rootPath, path])) innerDelete"

text \<open>The program of every request and job of an object.\<close>

fun seek_prog :: "cachedSeekable \<Rightarrow> seek_req \<Rightarrow> seek_result seek_prog" where
  "seek_prog c (ReqReadAt n off skip) = prog_then (ReadAt c skip n off) (\<lambda>x. Done (ResRead x))"
| "seek_prog c (ReqRange off len skip ns) = prog_then (range_request c skip off len ns) (\<lambda>x. Done (ResRange x))"
| "seek_prog c (ReqSize skip) = prog_then (Size c skip) (\<lambda>x. Done (ResSize x))"
| "seek_prog c (ReqStoreFile path writeThrough) =
     prog_then (StoreFile writeThrough path) (\<lambda>x. Done (ResUnit x))"
| "seek_prog c (JobWriteChunk off chunkPath bs) =
     prog_then (writeChunkToCache c off chunkPath bs) (\<lambda>x. Done (ResUnit x))"
| "seek_prog c (JobWriteSize n) = prog_then (writeLocalSize c n) (\<lambda>x. Done (ResUnit x))"
| "seek_prog c (JobCreateBlocks path) =
     prog_then (createCacheBlocksFromFile c path) (\<lambda>r.
       case r of
         Ok n \<Rightarrow> prog_then (writeLocalSize c n) (\<lambda>x. Done (ResUnit x))
       | Err e \<Rightarrow> Done (ResUnit (Err e))
       | Panic \<Rightarrow> Done (ResUnit Panic))"
| "seek_prog c (JobRemove path) = prog_then (safelyRemoveFile path) (\<lambda>_. Done (ResUnit (Ok ())))"
| "seek_prog c (JobDelete path) = prog_then (deleteCachedObjectsWithPrefix path) (\<lambda>_. Done (ResUnit (Ok ())))"

section \<open>The object and its files\<close>

text \<open>
  The remote object holds the bytes \<open>obj\<close>.  Its calls may fail; a \<open>ReadAt\<close> that is short ends with
  \<open>io.EOF\<close>, a range stream delivers some prefix of what is left and may end early.
\<close>

fun seek_remote :: "byte list \<Rightarrow> inner_call \<Rightarrow> os_reply \<Rightarrow> bool" where
  "seek_remote obj (InnerReadAt n off) r \<longleftrightarrow> (\<exists>e. r = RErr e) \<or>
     (0 \<le> off \<and> (\<exists>bs eof. r = RBytes bs eof \<and> bs = take n (drop (nat off) obj) \<and> (length bs < n \<longrightarrow> eof)))"
| "seek_remote obj (InnerRangeRead off len pos n) r \<longleftrightarrow> (\<exists>e. r = RErr e) \<or>
     (0 \<le> off \<and> (\<exists>bs eof. r = RBytes bs eof \<and> prefix bs (drop pos (take (nat len) (drop (nat off) obj))) \<and> length bs \<le> n))"
| "seek_remote obj InnerSize r \<longleftrightarrow> (\<exists>e. r = RErr e) \<or> (r = RCount (length obj) \<and> int (length obj) < 2 ^ 63)"
| "seek_remote obj InnerWriteTo r \<longleftrightarrow> (\<exists>e. r = RErr e) \<or> r = RBytes obj True"
| "seek_remote obj InnerExists r \<longleftrightarrow> (\<exists>e. r = RErr e) \<or> r = RCount 1"
| "seek_remote obj _ r \<longleftrightarrow> (\<exists>e. r = RErr e) \<or> r = RUnit"

definition chunk_at :: "cachedSeekable \<Rightarrow> byte list \<Rightarrow> int \<Rightarrow> byte list" where
  "chunk_at c obj off = take (nat (cs_chunkSize c)) (drop (nat off) obj)"

definition aligned :: "cachedSeekable \<Rightarrow> int \<Rightarrow> bool" where
  "aligned c off \<longleftrightarrow> off smod cs_chunkSize c = 0"

definition seek_files :: "cachedSeekable \<Rightarrow> string set" where
  "seek_files c = insert (sizeFilename c) (range (makeChunkFilename c))"

definition seek_file_ok :: "cachedSeekable \<Rightarrow> byte list \<Rightarrow> string \<Rightarrow> byte list \<Rightarrow> bool" where
  "seek_file_ok c obj p d \<longleftrightarrow>
     (\<forall>off. aligned c off \<longrightarrow> p = makeChunkFilename c off \<longrightarrow> 0 \<le> off \<and> d = chunk_at c obj off)
     \<and> (p = sizeFilename c \<longrightarrow> d = text_bytes (Itoa (int (length obj))) \<and> int (length obj) < 2 ^ 63)"

lemma pad_zero_value: "digits_value (if i < 0 then tl (pad_zero w i) else pad_zero w i) = \<bar>i\<bar>"
  by (simp add: pad_zero_def Let_def digits_value_zeros nat_digits_value del: foldl_append)

lemma pad_zero_sign: "hd (pad_zero w i) = CHR ''-'' \<longleftrightarrow> i < 0"
proof (cases "i < 0")
  case False
  have "hd (nat_digits (nat \<bar>i\<bar>)) \<noteq> CHR ''-''"
    using nat_digits_chars [of "nat \<bar>i\<bar>"] by (cases "nat_digits (nat \<bar>i\<bar>)") auto
  then show ?thesis using False nat_digits_chars [of "nat \<bar>i\<bar>"]
    by (cases "w - length (nat_digits (nat \<bar>i\<bar>))") (simp_all add: pad_zero_def Let_def)
qed (simp add: pad_zero_def Let_def)

lemma pad_zero_inj:
  assumes "pad_zero w i = pad_zero w j"
  shows "i = j"
proof -
  have sign: "i < 0 \<longleftrightarrow> j < 0" using pad_zero_sign [of w i] pad_zero_sign [of w j] assms by simp
  have "digits_value (if i < 0 then tl (pad_zero w i) else pad_zero w i)
      = digits_value (if j < 0 then tl (pad_zero w j) else pad_zero w j)"
    unfolding sign assms by (rule refl)
  then have "\<bar>i\<bar> = \<bar>j\<bar>" unfolding pad_zero_value .
  with sign show ?thesis by linarith
qed

lemma aligned_eq: "aligned c off \<Longrightarrow> off = off sdiv cs_chunkSize c * cs_chunkSize c"
  using sdiv_mult_smod_eq [of off "cs_chunkSize c"] by (simp add: aligned_def)

lemma chunk_name_inj:
  assumes "makeChunkFilename c off = makeChunkFilename c off'" and "aligned c off" and "aligned c off'"
  shows "off = off'"
proof -
  have "off sdiv cs_chunkSize c = off' sdiv cs_chunkSize c"
    using assms(1) pad_zero_inj by (auto simp: makeChunkFilename_def)
  then show ?thesis using aligned_eq [OF assms(2)] aligned_eq [OF assms(3)] by simp
qed

lemma uuid_elem: "is_uuid u \<Longrightarrow> valid_elem (''.size.bin.'' @ u)"
  by (auto simp: valid_elem_def is_uuid_def hex_digit_def)

lemma chunk_last: "last (makeChunkFilename c off) = CHR ''n''" "makeChunkFilename c off \<noteq> []"
  by (simp_all add: makeChunkFilename_def)

lemma size_last: "last (sizeFilename c) = CHR ''t''" "sizeFilename c \<noteq> []"
proof -
  have "valid_elem ''size.txt''" by (simp add: valid_elem_def)
  then obtain front where "sizeFilename c = front @ ''size.txt''" unfolding sizeFilename_def using Join_ends by blast
  then show "last (sizeFilename c) = CHR ''t''" "sizeFilename c \<noteq> []" by simp_all
qed

lemma seek_files_named: "p \<in> seek_files c \<Longrightarrow> p \<noteq> [] \<and> \<not> hex_digit (last p)"
  using chunk_last [of c] size_last [of c] by (auto simp: seek_files_def hex_digit_def)

lemma final_names: "makeChunkFilename c off \<in> seek_files c" "sizeFilename c \<in> seek_files c"
  by (simp_all add: seek_files_def)

lemma lock_not_final: "getLockFilePath p \<notin> seek_files c"
proof
  assume "getLockFilePath p \<in> seek_files c"
  then have "last (getLockFilePath p) \<in> {CHR ''n'', CHR ''t''}"
    using chunk_last [of c] size_last [of c] by (auto simp: seek_files_def)
  then show False by (simp add: getLockFilePath_def)
qed

lemma chunk_file_ok:
  assumes "aligned c off" and "0 \<le> off" and "d = chunk_at c obj off"
  shows "seek_file_ok c obj (makeChunkFilename c off) d"
  unfolding seek_file_ok_def
proof (intro conjI allI impI)
  fix off' assume "aligned c off'" and "makeChunkFilename c off = makeChunkFilename c off'"
  then have "off' = off" using chunk_name_inj assms(1) by blast
  then show "0 \<le> off'" "d = chunk_at c obj off'" using assms(2,3) by simp_all
next
  assume "makeChunkFilename c off = sizeFilename c"
  then show "d = text_bytes (Itoa (int (length obj)))" "int (length obj) < 2 ^ 63"
    using chunk_last(1) [of c off] size_last [of c] by simp_all
qed

section \<open>Every operation is good\<close>

text \<open>
  Requests that ask for whole chunks: reads with a buffer of the chunk size, ranges that start at a
  chunk and take all of it (the last one may be shorter), and stores that do not write through.
\<close>

fun chunk_req :: "cachedSeekable \<Rightarrow> byte list \<Rightarrow> seek_req \<Rightarrow> bool" where
  "chunk_req c obj (ReqReadAt n off skip) \<longleftrightarrow> int n = cs_chunkSize c"
| "chunk_req c obj (ReqRange off len skip ns) \<longleftrightarrow>
     aligned c off \<and> 0 \<le> off \<and> len \<le> cs_chunkSize c \<and> int (length (chunk_at c obj off)) \<le> len"
| "chunk_req c obj (ReqSize skip) \<longleftrightarrow> True"
| "chunk_req c obj (ReqStoreFile path writeThrough) \<longleftrightarrow> \<not> writeThrough"
| "chunk_req c obj (JobWriteChunk off chunkPath bs) \<longleftrightarrow>
     aligned c off \<and> 0 \<le> off \<and> chunkPath = makeChunkFilename c off \<and> bs = chunk_at c obj off"
| "chunk_req c obj (JobWriteSize n) \<longleftrightarrow> n = int (length obj) \<and> n < 2 ^ 63"
| "chunk_req c obj (JobCreateBlocks path) \<longleftrightarrow> False"
| "chunk_req c obj (JobRemove path) \<longleftrightarrow> True"
| "chunk_req c obj (JobDelete path) \<longleftrightarrow> True"

text \<open>What a finished request has returned.\<close>

fun seek_result_ok :: "byte list \<Rightarrow> seek_req \<Rightarrow> seek_result \<Rightarrow> bool" where
  "seek_result_ok obj (ReqReadAt n off skip) (ResRead (Ok (bs, eof))) \<longleftrightarrow>
     0 \<le> off \<and> bs = take n (drop (nat off) obj) \<and> (length bs < n \<longrightarrow> eof)"
| "seek_result_ok obj (ReqRange off len skip ns) (ResRange (Ok bs)) \<longleftrightarrow> prefix bs (take (nat len) (drop (nat off) obj))"
| "seek_result_ok obj (ReqSize skip) (ResSize (Ok n)) \<longleftrightarrow> n = int (length obj)"
| "seek_result_ok obj _ _ \<longleftrightarrow> True"

interpretation seek: shared_files "seek_files c" "seek_file_ok c obj" "seek_remote obj" for c obj
  by unfold_locales (rule seek_files_named)

abbreviation good_seek :: "cachedSeekable \<Rightarrow> byte list \<Rightarrow> 'a seek_prog \<Rightarrow> ghost \<Rightarrow> ('a \<Rightarrow> ghost \<Rightarrow> bool) \<Rightarrow> bool" where
  "good_seek c obj \<equiv> good (seek_files c) (seek_file_ok c obj) (seek_remote obj) (Collect (chunk_req c obj))"

lemma good_WriteFile:
  assumes "u \<in> gh_uuids g" and "suffix u p" and "\<And>e g'. Q (Err e) g'"
    and "\<And>i g'. gh_own g' p = Some (i, bs) \<Longrightarrow> Q (Ok ()) g'"
  shows "good_seek c obj (WriteFile p bs) g Q"
  using assms unfolding WriteFile_def
  by (auto split: outcome.splits os_reply.splits simp: own_append_def intro!: as_unit_cases [where Q = Q])

lemma good_publish:
  assumes "u \<in> gh_uuids g" and "suffix u p" and "q \<in> seek_files c" and "seek_file_ok c obj q bs" and "\<And>r g'. Q r g'"
  shows "good_seek c obj (publish p q bs) g Q"
  unfolding publish_def
proof (rule good_then, rule good_WriteFile [OF assms(1,2)])
  fix i and g' :: ghost assume "gh_own g' p = Some (i, bs)"
  then show "good_seek c obj (case Ok () of
         Ok x \<Rightarrow> prog_then (RenameOrDeleteFile p q) (\<lambda>r. Done (map_err OsError r))
       | Err e \<Rightarrow> Go (JobRemove p) (Done (Err (OsError e))) | Panic \<Rightarrow> Done Panic) g' Q"
    using assms(3-5) by (auto intro!: good_then seek.good_RenameOrDeleteFile)
qed (use assms(5) in simp)

lemma good_writeChunkToCache:
  assumes "aligned c off" and "0 \<le> off" and "\<And>r g'. Q r g'"
  shows "good_seek c obj (writeChunkToCache c off (makeChunkFilename c off) (chunk_at c obj off)) g Q"
proof -
  have temp: "suffix u (makeTempChunkFilename c off u)" for u
    by (auto simp: makeTempChunkFilename_def intro!: suffix_appendI suffix_ConsI)
  have "seek_file_ok c obj (makeChunkFilename c off) (chunk_at c obj off)"
    by (rule chunk_file_ok [OF assms(1,2) refl])
  then show ?thesis
    using assms(3) temp unfolding writeChunkToCache_def
    by (auto intro!: good_then seek.good_TryAcquireLock seek.good_ReleaseLock good_publish lock_not_final final_names
        split: outcome.splits os_reply.splits)
qed

lemma good_writeLocalSize:
  assumes "int (length obj) < 2 ^ 63" and "\<And>r g'. Q r g'"
  shows "good_seek c obj (writeLocalSize c (int (length obj))) g Q"
proof -
  have temp: "suffix u (Join [cs_path c, ''.size.bin.'' @ u])" if u: "is_uuid u" for u
  proof -
    obtain front where "Join [cs_path c, ''.size.bin.'' @ u] = (front @ ''.size.bin.'') @ u"
      using Join_ends [OF uuid_elem [OF u], of "cs_path c"] by auto
    then show ?thesis by (auto simp: suffix_def)
  qed
  have "sizeFilename c \<noteq> makeChunkFilename c off" for off
    using chunk_last(1) [of c off] size_last(1) [of c] by auto
  then have "seek_file_ok c obj (sizeFilename c) (text_bytes (Itoa (int (length obj))))"
    using assms(1) by (auto simp: seek_file_ok_def)
  then show ?thesis
    using assms(2) temp unfolding writeLocalSize_def
    by (auto intro!: good_then seek.good_TryAcquireLock seek.good_ReleaseLock good_publish lock_not_final final_names
        split: outcome.splits os_reply.splits)
qed

lemma validated: "validateReadAtParams c n off = Ok () \<Longrightarrow> aligned c off"
  by (simp add: validateReadAtParams_def aligned_def split: if_splits)

lemma good_readAtFromCache:
  assumes "aligned c off" and "\<And>e g'. Q (Err e) g'"
    and "\<And>bs g'. 0 \<le> off \<Longrightarrow> bs = take n (chunk_at c obj off) \<Longrightarrow> Q (Ok (bs, length bs < n)) g'"
  shows "good_seek c obj (readAtFromCache (makeChunkFilename c off) n) g Q"
  using assms final_names(1) [of c off] unfolding readAtFromCache_def
  by (auto split: outcome.splits os_reply.splits simp: seek_file_ok_def)

lemma good_ReadAt:
  assumes "int n = cs_chunkSize c"
    and "\<And>r g'. seek_result_ok obj (ReqReadAt n off skip) (ResRead r) \<Longrightarrow> Q r g'"
  shows "good_seek c obj (ReadAt c skip n off) g Q"
proof (cases "validateReadAtParams c (int n) off")
  case (Ok u)
  then have off: "aligned c off" by (simp add: validated)
  have chunk: "chunk_at c obj off = take n (drop (nat off) obj)" using assms(1) [symmetric] by (simp add: chunk_at_def)
  let ?rest = "\<lambda>cached. case cached of
      Ok x \<Rightarrow> Done (Ok x)
    | _ \<Rightarrow> prog_then (os_do (RemoteCall (InnerReadAt n off)) as_bytes) (\<lambda>r.
             case r of
               Ok (bs, eof) \<Rightarrow>
                 if \<not> skip \<and> isCompleteRead (length bs) n eof
                 then Go (JobWriteChunk off (makeChunkFilename c off) bs) (Done (Ok (bs, eof)))
                 else Done (Ok (bs, eof))
             | Err e \<Rightarrow> Done (Err (InnerError e))
             | Panic \<Rightarrow> Done Panic)"
  have miss: "good_seek c obj (?rest (Err e)) g' Q" for e g'
    using off by (auto split: outcome.splits os_reply.splits simp: chunk intro!: assms(2))
  have hit: "good_seek c obj (?rest (Ok (bs, length bs < n))) g' Q"
    if "0 \<le> off" "bs = take n (chunk_at c obj off)" for bs g'
    using that by (auto simp: chunk intro!: assms(2))
  have "good_seek c obj (prog_then (readAtFromCache (makeChunkFilename c off) n) ?rest) g Q"
    by (rule good_then, rule good_readAtFromCache [OF off], rule miss, rule hit)
  then show ?thesis unfolding ReadAt_def Ok Let_def by (simp only: outcome.case)
qed (use assms(2) in \<open>simp_all add: ReadAt_def\<close>)

lemma good_Size:
  assumes "\<And>r g'. seek_result_ok obj (ReqSize skip) (ResSize r) \<Longrightarrow> Q r g'"
  shows "good_seek c obj (Size c skip) g Q"
  using assms final_names(2) [of c] Atoi_Itoa [of "int (length obj)"] unfolding Size_def readLocalSize_def
  by (auto split: outcome.splits os_reply.splits simp: seek_file_ok_def)

text \<open>
  What holds of a range reader that has delivered \<open>got\<close>: a section of a cached file reads the chunk, a
  stream that is written through has buffered what it delivered.
\<close>

definition range_data :: "byte list \<Rightarrow> int \<Rightarrow> int \<Rightarrow> byte list" where
  "range_data obj off len = take (nat len) (drop (nat off) obj)"

fun reader_ok :: "cachedSeekable \<Rightarrow> byte list \<Rightarrow> int \<Rightarrow> int \<Rightarrow> byte list \<Rightarrow> ghost \<Rightarrow> range_reader \<Rightarrow> bool" where
  "reader_ok c obj off len got g (FileRange i len' pos) \<longleftrightarrow>
     len' = len \<and> pos = length got \<and> gh_open g i = Some (chunk_at c obj off)"
| "reader_ok c obj off len got g (InnerRange off' len' pos) \<longleftrightarrow> off' = off \<and> len' = len \<and> pos = length got"
| "reader_ok c obj off len got g (WriteThrough off' len' pos buf chunkPath) \<longleftrightarrow>
     off' = off \<and> len' = len \<and> pos = length got \<and> buf = got \<and> chunkPath = makeChunkFilename c off"

lemma prefix_extend:
  assumes "prefix got d" and "prefix bs (drop (length got) d)"
  shows "prefix (got @ bs) d"
  using assms by (auto simp: prefix_def)

lemma chunk_section:
  assumes "len \<le> cs_chunkSize c"
  shows "prefix (take (min n (nat (len - int pos))) (drop pos (chunk_at c obj off))) (drop pos (range_data obj off len))"
proof -
  have "take (min n (nat len - pos)) (drop pos (chunk_at c obj off)) = take (min n (nat len - pos)) (drop pos (range_data obj off len))"
    using assms by (simp add: chunk_at_def range_data_def drop_take min_def)
  moreover have "nat (len - int pos) = nat len - pos" by simp
  ultimately show ?thesis by (simp add: take_is_prefix)
qed

lemma good_range_Read:
  assumes "reader_ok c obj off len got g rd" and "prefix got (range_data obj off len)" and "len \<le> cs_chunkSize c"
    and "\<And>bs eof rd' g'. reader_ok c obj off len (got @ bs) g' rd' \<Longrightarrow> prefix (got @ bs) (range_data obj off len) \<Longrightarrow> Q (Ok (bs, eof), rd') g'"
    and "\<And>e rd' g'. reader_ok c obj off len got g' rd' \<Longrightarrow> Q (Err e, rd') g'"
  shows "good_seek c obj (range_Read rd n) g Q"
proof (cases rd)
  case (FileRange i len' pos)
  have *: "prefix (got @ take (min n (nat (len - int pos))) (drop pos (chunk_at c obj off))) (range_data obj off len)"
    if "pos = length got"
    using prefix_extend [OF assms(2)] chunk_section [OF assms(3)] that by blast
  have "Q (Ok ([], True), rd) g" by (rule assms(4)) (use assms(1,2) in simp_all)
  then show ?thesis
    using assms(1) * FileRange by (auto split: outcome.splits os_reply.splits intro!: assms(4,5))
next
  case (InnerRange off' len' pos)
  then show ?thesis
    using assms(1) prefix_extend [OF assms(2)]
    by (auto split: outcome.splits os_reply.splits intro!: assms(4,5) simp: range_data_def)
next
  case (WriteThrough off' len' pos buf chunkPath)
  then show ?thesis
    using assms(1) prefix_extend [OF assms(2)]
    by (auto split: outcome.splits os_reply.splits intro!: assms(4,5) simp: range_data_def Let_def)
qed

lemma good_read_range:
  assumes "reader_ok c obj off len got g rd" and "prefix got (range_data obj off len)" and "len \<le> cs_chunkSize c"
    and "\<And>got' rd' g'. reader_ok c obj off len got' g' rd' \<Longrightarrow> prefix got' (range_data obj off len) \<Longrightarrow> Q (Ok got', rd') g'"
    and "\<And>e got' rd' g'. reader_ok c obj off len got' g' rd' \<Longrightarrow> prefix got' (range_data obj off len) \<Longrightarrow> Q (Err e, rd') g'"
  shows "good_seek c obj (read_range rd ns got) g Q"
  using assms(1,2)
proof (induction ns arbitrary: rd got g)
  case Nil
  then show ?case using assms(4) by simp
next
  case (Cons n ns)
  show ?case
    using Cons.prems
    by (auto intro!: good_then good_range_Read [OF _ _ assms(3)] Cons.IH assms(4,5))
qed

lemma good_OpenRangeReader:
  assumes "aligned c off" and "\<And>rd g'. reader_ok c obj off len [] g' rd \<Longrightarrow> Q (Ok rd) g'" and "\<And>e g'. Q (Err e) g'"
  shows "good_seek c obj (OpenRangeReader c skip off len) g Q"
  using assms(1) final_names(1) [of c off] unfolding OpenRangeReader_def Let_def
  by (auto split: outcome.splits os_reply.splits intro!: assms(2,3) simp: seek_file_ok_def)

text \<open>A stream is written back only when it delivered its whole range, which is then the whole chunk.\<close>

lemma whole_range:
  assumes "chunk_req c obj (ReqRange off len skip ns)" and "prefix got (range_data obj off len)" and "int (length got) = len"
  shows "got = chunk_at c obj off"
proof -
  let ?n = "length obj - nat off"
  have "len \<le> cs_chunkSize c" "int (min ?n (nat (cs_chunkSize c))) \<le> len"
    using assms(1) by (simp_all add: chunk_at_def)
  then have len: "nat len \<le> nat (cs_chunkSize c)" "min ?n (nat (cs_chunkSize c)) \<le> nat len" by linarith+
  have "length got \<le> min ?n (nat len)" using prefix_length_le [OF assms(2)] by (simp add: range_data_def)
  then have n: "nat len \<le> ?n" using assms(3) by auto
  obtain zs where z: "range_data obj off len = got @ zs" using assms(2) by (auto simp: prefix_def)
  have "length (range_data obj off len) = length got" using n assms(3) by (auto simp: range_data_def)
  with z have "got = range_data obj off len" by simp
  also have "\<dots> = chunk_at c obj off"
    using len n by (cases "?n \<le> nat (cs_chunkSize c)") (auto simp: range_data_def chunk_at_def min_def)
  finally show ?thesis .
qed

lemma good_range_Close:
  assumes "chunk_req c obj (ReqRange off len skip ns)" and "reader_ok c obj off len got g rd"
    and "prefix got (range_data obj off len)" and "\<And>r g'. Q r g'"
  shows "good_seek c obj (range_Close rd) g Q"
  using assms whole_range [OF assms(1,3)]
  by (cases rd) (auto simp: os_do_def)

lemma good_range_request:
  assumes "chunk_req c obj (ReqRange off len skip ns)"
    and "\<And>r g'. seek_result_ok obj (ReqRange off len skip ns) (ResRange r) \<Longrightarrow> Q r g'"
  shows "good_seek c obj (range_request c skip off len ns) g Q"
proof -
  have a: "aligned c off" "len \<le> cs_chunkSize c" using assms(1) by simp_all
  have "good_seek c obj (prog_then (read_range rd ns []) (\<lambda>(x, rd'). prog_then (range_Close rd') (\<lambda>_. Done x))) g' Q"
    if "reader_ok c obj off len [] g' rd" for rd g'
    by (auto intro!: good_then good_read_range [OF that _ a(2)] good_range_Close [OF assms(1)] assms(2)
        simp: range_data_def)
  then show ?thesis
    unfolding range_request_def
    by (auto intro!: good_then good_OpenRangeReader [OF a(1)] assms(2))
qed

lemma good_seek_prog:
  assumes "chunk_req c obj q"
  shows "good_seek c obj (seek_prog c q) g (\<lambda>x g. seek_result_ok obj q x)"
proof (cases q)
  case (ReqStoreFile path writeThrough)
  then show ?thesis using assms by (auto simp: StoreFile_def Let_def)
next
  case (JobRemove path)
  then show ?thesis by (auto simp: safelyRemoveFile_def)
next
  case (JobDelete path)
  then show ?thesis by (auto simp: deleteCachedObjectsWithPrefix_def)
qed (use assms in \<open>auto intro!: good_then good_ReadAt good_range_request good_Size good_writeChunkToCache good_writeLocalSize\<close>)

section \<open>The cache is transparent\<close>

text \<open>
  C3.  However many readers, range readers, size requests, write-backs and deletions run at the same
  time over one cache directory, on whatever machines, with whatever failures and interleavings, as
  long as requests ask for whole chunks: every file of the cache is right, a finished \<open>ReadAt\<close> has
  returned exactly the bytes of the object at its offset, a finished range reader some first part of
  its range, and a finished \<open>Size\<close> the size.
\<close>

theorem cache_transparent:
  assumes "(sys_step (seek_remote obj) (Collect (chunk_req c obj)) (seek_prog c))\<^sup>*\<^sup>* (s0, []) (s, ts)"
    and "fs_ok (seek_files c) (seek_file_ok c obj) s0"
  shows "fs_ok (seek_files c) (seek_file_ok c obj) s
    \<and> (\<forall>(q, p) \<in> set ts. \<forall>x. p = Done x \<longrightarrow> seek_result_ok obj q x)"
  using seek.sys_sound [OF assms, where jobs = "Collect (chunk_req c obj)" and Q = "seek_result_ok obj"] good_seek_prog
  by auto

section \<open>Concrete runs\<close>

definition empty_fs :: fs where
  "empty_fs = \<lparr>fs_names = Map.empty, fs_dirs = {}, fs_inodes = (\<lambda>_. \<lparr>in_data = [], in_mtime = 0\<rparr>), fs_next = 0,
     fs_clock = 0, fs_uuids = {}\<rparr>"

text \<open>A remote object that never fails.\<close>

fun seek_answer :: "byte list \<Rightarrow> inner_call \<Rightarrow> os_reply" where
  "seek_answer obj (InnerReadAt n off) = (if off < 0 then RErr ErrOther
     else let bs = take n (drop (nat off) obj) in RBytes bs (length bs < n))"
| "seek_answer obj (InnerRangeRead off len pos n) = (if off < 0 then RErr ErrOther
     else let bs = take n (drop pos (take (nat len) (drop (nat off) obj))) in RBytes bs (length bs < n))"
| "seek_answer obj InnerSize = (if int (length obj) < 2 ^ 63 then RCount (length obj) else RErr ErrOther)"
| "seek_answer obj InnerWriteTo = RBytes obj True"
| "seek_answer obj InnerExists = RCount 1"
| "seek_answer obj _ = RUnit"

lemma seek_answer_ok: "seek_remote obj d (seek_answer obj d)"
  by (cases d) (auto simp: Let_def take_is_prefix)

lemma temp_chunk_names:
  "makeTempChunkFilename c off u \<noteq> makeChunkFilename c off'"
  "is_uuid u \<Longrightarrow> makeTempChunkFilename c off u \<noteq> getLockFilePath p"
proof -
  show "makeTempChunkFilename c off u \<noteq> makeChunkFilename c off'"
  proof
    assume "makeTempChunkFilename c off u = makeChunkFilename c off'"
    then have "CHR ''.'' = hd (pad_zero 12 (off' sdiv cs_chunkSize c) @ ''-'' @ Itoa (cs_chunkSize c) @ ''.bin'')"
      by (auto simp: makeTempChunkFilename_def makeChunkFilename_def dest: arg_cong [where f = hd])
    moreover have "pad_zero 12 i \<noteq> [] \<and> hd (pad_zero 12 i) \<noteq> CHR ''.''" for i
      using nat_digits_chars [of "nat \<bar>i\<bar>"]
      by (cases "12 - length (nat_digits (nat \<bar>i\<bar>))"; cases "nat_digits (nat \<bar>i\<bar>)") (auto simp: pad_zero_def Let_def)
    ultimately show False by (metis hd_append2)
  qed
  show "makeTempChunkFilename c off u \<noteq> getLockFilePath p" if "is_uuid u"
  proof -
    have "u \<noteq> []" "hex_digit (last u)" using that by (auto simp: is_uuid_def)
    then have "hex_digit (last (makeTempChunkFilename c off u))" by (simp add: makeTempChunkFilename_def)
    moreover have "\<not> hex_digit (last (getLockFilePath p))" by (simp add: getLockFilePath_def hex_digit_def)
    ultimately show ?thesis by auto
  qed
qed

lemma lock_chunk_names: "getLockFilePath p \<noteq> p" "getLockFilePath p \<noteq> makeChunkFilename c off"
proof -
  have "last (getLockFilePath p) = CHR ''k''" by (simp add: getLockFilePath_def)
  then show "getLockFilePath p \<noteq> makeChunkFilename c off" using chunk_last(1) [of c off] by auto
qed (simp add: getLockFilePath_def)

text \<open>An undisturbed write-back stores the bytes under the name of the chunk.\<close>

lemma write_back_run:
  assumes "chunk = makeChunkFilename c off" and "fs_names s chunk = None" and "fs_names s (getLockFilePath chunk) = None" and "fs_dirs s = {}" and "fresh_uuid s"
    and "fs_names s (makeTempChunkFilename c off (uuid_text (card (fs_uuids s)))) = None"
  shows "\<exists>s'. run_prog rm 20 s (seek_prog c (JobWriteChunk off chunk bs)) = (s', Done (ResUnit (Ok ())), [])
    \<and> run_valid remote rm 20 s (seek_prog c (JobWriteChunk off chunk bs))
    \<and> fs_names s' = (fs_names s)(chunk \<mapsto> Suc (fs_next s)) \<and> file_data s' (Suc (fs_next s)) = bs \<and> fs_dirs s' = {}"
proof -
  let ?u = "uuid_text (card (fs_uuids s))"
  have u: "is_uuid ?u" using assms(5) by (simp add: fresh_uuid_def Let_def)
  note names = temp_chunk_names(1) [of c off] temp_chunk_names(2) [OF u, of c off] lock_chunk_names
  have "fresh_uuid (fs_create (getLockFilePath chunk) s)"
    using assms(5) uuid_no_suffix [OF u, of "getLockFilePath chunk"]
    by (auto simp: fresh_uuid_def Let_def getLockFilePath_def hex_digit_def)
  then show ?thesis
    using assms(2-4,6) names names [symmetric]
    by (simp add: writeChunkToCache_def TryAcquireLock_def createLock_def publish_def WriteFile_def RenameOrDeleteFile_def
        ReleaseLock_def Let_def eval_nat_numeral assms(1)) (auto simp: fun_eq_iff write_bytes_def)
qed

text \<open>An undisturbed read of a cached chunk, and one of a chunk that is not cached.\<close>

lemma hit_run:
  assumes "validateReadAtParams c (int n) off = Ok ()" and "fs_names s (makeChunkFilename c off) = Some i"
    and "bs = take n (file_data s i)"
  shows "run_prog rm 10 s (seek_prog c (ReqReadAt n off skip)) = (s, Done (ResRead (Ok (bs, length bs < n))), [])"
    and "run_valid remote rm 10 s (seek_prog c (ReqReadAt n off skip))"
  using assms by (simp_all add: ReadAt_def readAtFromCache_def Let_def eval_nat_numeral)

lemma miss_run:
  assumes "validateReadAtParams c (int n) off = Ok ()" and "fs_names s (makeChunkFilename c off) = None"
    and "bs = take n (drop (nat off) obj)" and "0 \<le> off" and "bs \<noteq> []"
  shows "run_prog (seek_answer obj) 10 s (seek_prog c (ReqReadAt n off False)) =
      (s, Done (ResRead (Ok (bs, length bs < n))), [JobWriteChunk off (makeChunkFilename c off) bs])"
    and "run_valid (seek_remote obj) (seek_answer obj) 10 s (seek_prog c (ReqReadAt n off False))"
proof -
  have c: "isCompleteRead (length bs) n (length bs < n)" using assms(3,5) by (auto simp: isCompleteRead_def)
  show "run_prog (seek_answer obj) 10 s (seek_prog c (ReqReadAt n off False)) =
      (s, Done (ResRead (Ok (bs, length bs < n))), [JobWriteChunk off (makeChunkFilename c off) bs])"
    using assms c by (simp add: ReadAt_def readAtFromCache_def Let_def eval_nat_numeral)
  show "run_valid (seek_remote obj) (seek_answer obj) 10 s (seek_prog c (ReqReadAt n off False))"
    using assms c by (auto simp: ReadAt_def readAtFromCache_def Let_def eval_nat_numeral)
qed

lemma empty_fs_facts [simp]:
  "fs_names empty_fs = Map.empty" "fs_dirs empty_fs = {}" "fs_uuids empty_fs = {}" "fs_next empty_fs = 0"
  by (simp_all add: empty_fs_def)

lemma uuid_text_zero: "is_uuid (uuid_text 0)"
  by code_simp

lemma empty_fresh: "fresh_uuid empty_fs"
  using uuid_text_zero by (simp add: fresh_uuid_def)

lemma sys_start:
  assumes "q \<in> reqs"
  shows "(sys_step remote reqs prog_of)\<^sup>*\<^sup>* (s, ts) (s, ts @ [(q, prog_of q)])"
  using sys_step.start [OF assms] by blast

text \<open>Starting a request and running it alone.\<close>

lemma sys_request:
  assumes "q \<in> reqs" and "run_prog rm n s (prog_of q) = (s', p, js)" and "run_valid remote rm n s (prog_of q)"
  shows "(sys_step remote reqs prog_of)\<^sup>*\<^sup>* (s, ts) (s', ts @ [(q, p)] @ map (\<lambda>j. (j, prog_of j)) js)"
proof -
  have "(sys_step remote reqs prog_of)\<^sup>*\<^sup>* (s, ts) (s, ts @ [(q, prog_of q)])" by (rule sys_start [OF assms(1)])
  also have "(sys_step remote reqs prog_of)\<^sup>*\<^sup>* \<dots> (s', ts @ [(q, p)] @ map (\<lambda>j. (j, prog_of j)) js)"
    using run_prog_steps [OF assms(2,3), of "length ts" "ts @ [(q, prog_of q)]" q reqs prog_of "[]"] by simp
  finally show ?thesis .
qed

lemma seek_request:
  assumes "run_prog rm n s (seek_prog c q) = (s', p, js)" and "run_valid remote rm n s (seek_prog c q)"
  shows "(sys_step remote UNIV (seek_prog c))\<^sup>*\<^sup>* (s, ts) (s', ts @ [(q, p)] @ map (\<lambda>j. (j, seek_prog c j)) js)"
  using sys_request [of q UNIV rm n s "seek_prog c" s' p js remote ts] assms by simp

theorem cache_transparent_witness:
  "\<exists>s ts. (sys_step (seek_remote [1, 2, 3]) (Collect (chunk_req \<lparr>cs_path = ''/c'', cs_chunkSize = 2\<rparr> [1, 2, 3]))
       (seek_prog \<lparr>cs_path = ''/c'', cs_chunkSize = 2\<rparr>))\<^sup>*\<^sup>* (empty_fs, []) (s, ts)
     \<and> (\<exists>bs eof. (ReqReadAt 2 2 False, Done (ResRead (Ok (bs, eof)))) \<in> set ts \<and> bs = [3] \<and> eof)"
proof -
  let ?c = "\<lparr>cs_path = ''/c'', cs_chunkSize = 2\<rparr>" and ?o = "[1, 2, 3] :: byte list" and ?q = "ReqReadAt 2 2 False"
  have v: "validateReadAtParams ?c (int 2) 2 = Ok ()" by (simp add: validateReadAtParams_def signed_modulo_int_def)
  note m = miss_run [OF v, of empty_fs "[3]" ?o]
  have run: "(sys_step (seek_remote ?o) (Collect (chunk_req ?c ?o)) (seek_prog ?c))\<^sup>*\<^sup>* (empty_fs, [])
      (empty_fs, [] @ [(?q, Done (ResRead (Ok ([3], length [3 :: byte] < 2))))]
        @ map (\<lambda>j. (j, seek_prog ?c j)) [JobWriteChunk 2 (makeChunkFilename ?c 2) [3]])"
    by (rule sys_request [where rm = "seek_answer ?o" and n = 10]) (use m in \<open>simp_all add: numeral_2_eq_2\<close>)
  moreover have "fs_ok (seek_files ?c) (seek_file_ok ?c ?o) empty_fs" by (simp add: fs_ok_def)
  ultimately have "seek_result_ok ?o ?q (ResRead (Ok ([3], length [3 :: byte] < 2)))"
    using cache_transparent by fastforce
  with run show ?thesis by fastforce
qed

text \<open>
  Writing back pays off: when nothing disturbs it, a read that misses returns the bytes of the
  remote object and starts one write-back; once that has run, every later read of the chunk returns
  what it should from the cache, whatever the remote object would answer, and changes nothing.
\<close>

lemma written_back_chunk_hits:
  assumes "validateReadAtParams c (int n) off = Ok ()" and "0 \<le> off" and "bs = take n (drop (nat off) obj)" and "bs \<noteq> []"
    and "fs_names s (makeChunkFilename c off) = None" and "fs_names s (getLockFilePath (makeChunkFilename c off)) = None"
    and "fs_dirs s = {}" and "fresh_uuid s" and "fs_names s (makeTempChunkFilename c off (uuid_text (card (fs_uuids s)))) = None"
  shows "\<exists>s'. run_prog (seek_answer obj) 10 s (seek_prog c (ReqReadAt n off False)) =
        (s, Done (ResRead (Ok (bs, length bs < n))), [JobWriteChunk off (makeChunkFilename c off) bs])
    \<and> run_prog (seek_answer obj) 20 s (seek_prog c (JobWriteChunk off (makeChunkFilename c off) bs)) = (s', Done (ResUnit (Ok ())), [])
    \<and> (\<forall>rm skip. run_prog rm 10 s' (seek_prog c (ReqReadAt n off skip)) = (s', Done (ResRead (Ok (bs, length bs < n))), []))"
proof -
  from write_back_run [OF refl assms(5-9), of "seek_answer obj" bs "seek_remote obj"] obtain s' where s':
    "run_prog (seek_answer obj) 20 s (seek_prog c (JobWriteChunk off (makeChunkFilename c off) bs)) = (s', Done (ResUnit (Ok ())), [])"
    "fs_names s' = (fs_names s)(makeChunkFilename c off \<mapsto> Suc (fs_next s))" "file_data s' (Suc (fs_next s)) = bs"
    by blast
  have "fs_names s' (makeChunkFilename c off) = Some (Suc (fs_next s))" "bs = take n (file_data s' (Suc (fs_next s)))"
    using s'(2,3) assms(3) by simp_all
  from hit_run(1) [OF assms(1) this] miss_run(1) [OF assms(1,5,3,2,4)] s'(1) show ?thesis by blast
qed

text \<open>
  A short read poisons the cache: a read with a buffer smaller than the chunk is complete, so its
  bytes are written back as the chunk.  From then on a read of the whole chunk returns only those bytes
  and reports the end of the object, although the object goes on.
\<close>

lemma short_read_poisons_chunk:
  assumes "1 < cs_chunkSize c" and "1 < length obj"
  shows "\<exists>s ts. (sys_step (seek_remote obj) UNIV (seek_prog c))\<^sup>*\<^sup>* (empty_fs, []) (s, ts)
    \<and> (ReqReadAt (nat (cs_chunkSize c)) 0 False, Done (ResRead (Ok ([hd obj], True)))) \<in> set ts"
proof -
  let ?step = "(sys_step (seek_remote obj) UNIV (seek_prog c))\<^sup>*\<^sup>*" and ?n = "nat (cs_chunkSize c)"
  let ?chunk = "makeChunkFilename c 0"
  let ?q1 = "ReqReadAt 1 0 False" and ?j = "JobWriteChunk 0 ?chunk [hd obj]" and ?q2 = "ReqReadAt ?n 0 False"
  have v: "validateReadAtParams c (int 1) 0 = Ok ()" "validateReadAtParams c (int ?n) 0 = Ok ()"
    using assms(1) by (simp_all add: validateReadAtParams_def signed_modulo_int_def)
  have hd: "[hd obj] = take 1 (drop (nat 0) obj)" using assms(2) by (cases obj) simp_all
  have "?step (empty_fs, []) (empty_fs, [] @ [(?q1, Done (ResRead (Ok ([hd obj], length [hd obj] < 1))))]
      @ map (\<lambda>j. (j, seek_prog c j)) [?j])"
    by (rule seek_request [OF miss_run [OF v(1) _ hd]]) simp_all
  then have 1: "?step (empty_fs, []) (empty_fs, [(?q1, Done (ResRead (Ok ([hd obj], False)))), (?j, seek_prog c ?j)])" by simp
  obtain s where s: "run_prog (seek_answer obj) 20 empty_fs (seek_prog c ?j) = (s, Done (ResUnit (Ok ())), [])"
      "run_valid (seek_remote obj) (seek_answer obj) 20 empty_fs (seek_prog c ?j)"
      "fs_names s ?chunk = Some (Suc 0)" "file_data s (Suc 0) = [hd obj]"
    using write_back_run [OF refl, where c = c and off = 0 and s = empty_fs and rm = "seek_answer obj"
        and remote = "seek_remote obj" and bs = "[hd obj]"] empty_fresh by auto
  have 2: "?step (empty_fs, [(?q1, Done (ResRead (Ok ([hd obj], False)))), (?j, seek_prog c ?j)])
      (s, [(?q1, Done (ResRead (Ok ([hd obj], False)))), (?j, Done (ResUnit (Ok ())))])"
    using run_prog_steps [OF s(1,2), of 1 "[(?q1, Done (ResRead (Ok ([hd obj], False)))), (?j, seek_prog c ?j)]" ?j UNIV "seek_prog c" "[]"]
    by simp
  have hit: "[hd obj] = take ?n (file_data s (Suc 0))" "length [hd obj] < ?n" using assms(1) s(4) by simp_all
  have "?step (s, [(?q1, Done (ResRead (Ok ([hd obj], False)))), (?j, Done (ResUnit (Ok ())))])
      (s, [(?q1, Done (ResRead (Ok ([hd obj], False)))), (?j, Done (ResUnit (Ok ())))]
        @ [(?q2, Done (ResRead (Ok ([hd obj], length [hd obj] < ?n))))] @ map (\<lambda>j. (j, seek_prog c j)) [])"
    by (rule seek_request [OF hit_run [OF v(2) s(3) hit(1)]])
  then have 3: "?step (s, [(?q1, Done (ResRead (Ok ([hd obj], False)))), (?j, Done (ResUnit (Ok ())))])
      (s, [(?q1, Done (ResRead (Ok ([hd obj], False)))), (?j, Done (ResUnit (Ok ()))), (?q2, Done (ResRead (Ok ([hd obj], True))))])"
    using hit(2) by simp
  from rtranclp_trans [OF rtranclp_trans [OF 1 2] 3] show ?thesis by (intro exI conjI) (assumption, simp)
qed

text \<open>A file system with one file.\<close>

definition one_file :: "string \<Rightarrow> byte list \<Rightarrow> fs" where
  "one_file p d = fs_put 0 d (fs_create p empty_fs)"

lemma chunk_offsets_first:
  assumes "0 < chunkSize" and "0 < n"
  shows "\<exists>offs. chunk_offsets chunkSize n = 0 # offs"
proof -
  have "chunkSize \<le> int n + chunkSize - 1" using assms by simp
  then have "0 < nat ((int n + chunkSize - 1) div chunkSize)"
    using assms(1) by (simp add: pos_imp_zdiv_pos_iff)
  then show ?thesis by (simp add: chunk_offsets_def upt_conv_Cons)
qed

lemma create_blocks_begins:
  assumes "0 < cs_chunkSize c" and "obj \<noteq> []" and "path \<noteq> makeChunkFilename c 0"
  shows "\<exists>p. run_prog rm 3 (one_file path obj) (seek_prog c (JobCreateBlocks path)) =
      (fs_put 1 [] (fs_create (makeChunkFilename c 0) (one_file path obj)), p, [])"
    and "run_valid remote rm 3 (one_file path obj) (seek_prog c (JobCreateBlocks path))"
proof -
  obtain offs where "chunk_offsets (cs_chunkSize c) (length obj) = 0 # offs"
    using chunk_offsets_first [OF assms(1), of "length obj"] assms(2) by auto
  moreover have "fs_put 1 [] (fs_create (makeChunkFilename c 0) (one_file path obj)) = fs_create (makeChunkFilename c 0) (one_file path obj)"
    by (simp add: fs_create_def fs_put_def one_file_def)
  ultimately show "\<exists>p. run_prog rm 3 (one_file path obj) (seek_prog c (JobCreateBlocks path)) =
      (fs_put 1 [] (fs_create (makeChunkFilename c 0) (one_file path obj)), p, [])"
    and "run_valid remote rm 3 (one_file path obj) (seek_prog c (JobCreateBlocks path))"
    using assms(3)
    by (simp_all add: createCacheBlocksFromFile_def one_file_def writeChunkFromFile_def eval_nat_numeral Let_def)
qed

text \<open>
  Writing through is not atomic: the chunk file is created empty under its final name and filled
  by copying.  A read that comes between, even after \<open>StoreFile\<close> itself has returned without error,
  takes the empty file for the chunk and reports the end of an object that has bytes there.
\<close>

lemma StoreFile_exposes_empty_chunk:
  assumes "0 < cs_chunkSize c" and "obj \<noteq> []" and "path \<noteq> makeChunkFilename c 0"
  shows "\<exists>s ts. (sys_step (seek_remote obj) UNIV (seek_prog c))\<^sup>*\<^sup>* (one_file path obj, []) (s, ts)
    \<and> {(ReqStoreFile path True, Done (ResUnit (Ok ()))),
       (ReqReadAt (nat (cs_chunkSize c)) 0 False, Done (ResRead (Ok ([], True))))} \<subseteq> set ts"
proof -
  let ?step = "(sys_step (seek_remote obj) UNIV (seek_prog c))\<^sup>*\<^sup>*" and ?n = "nat (cs_chunkSize c)"
  let ?start = "one_file path obj" and ?mid = "fs_put 1 [] (fs_create (makeChunkFilename c 0) (one_file path obj))"
  let ?q1 = "ReqStoreFile path True" and ?j = "JobCreateBlocks path" and ?q2 = "ReqReadAt ?n 0 False"
  have "run_prog (seek_answer obj) 5 ?start (seek_prog c ?q1) = (?start, Done (ResUnit (Ok ())), [?j])"
      "run_valid (seek_remote obj) (seek_answer obj) 5 ?start (seek_prog c ?q1)"
    by (simp_all add: StoreFile_def Let_def eval_nat_numeral)
  from seek_request [OF this, of "[]"]
  have 1: "?step (?start, []) (?start, [(?q1, Done (ResUnit (Ok ()))), (?j, seek_prog c ?j)])" by simp
  obtain p where "run_prog (seek_answer obj) 3 ?start (seek_prog c ?j) = (?mid, p, [])"
    using create_blocks_begins(1) [OF assms] by blast
  from run_prog_steps [OF this create_blocks_begins(2) [OF assms, of "seek_remote obj"], of 1
      "[(?q1, Done (ResUnit (Ok ()))), (?j, seek_prog c ?j)]" ?j UNIV "seek_prog c" "[]"]
  have 2: "?step (?start, [(?q1, Done (ResUnit (Ok ()))), (?j, seek_prog c ?j)]) (?mid, [(?q1, Done (ResUnit (Ok ()))), (?j, p)])"
    by simp
  have v: "validateReadAtParams c (int ?n) 0 = Ok ()"
    using assms(1) by (simp add: validateReadAtParams_def signed_modulo_int_def)
  have "fs_names ?mid (makeChunkFilename c 0) = Some 1" "[] = take ?n (file_data ?mid 1)"
    by (simp_all add: one_file_def)
  from seek_request [OF hit_run(1) [OF v this, where rm = "seek_answer obj" and skip = False]
      hit_run(2) [OF v this, where remote = "seek_remote obj"], of "[(?q1, Done (ResUnit (Ok ()))), (?j, p)]"]
  have 3: "?step (?mid, [(?q1, Done (ResUnit (Ok ()))), (?j, p)])
      (?mid, [(?q1, Done (ResUnit (Ok ()))), (?j, p), (?q2, Done (ResRead (Ok ([], True))))])" using assms(1) by simp
  from rtranclp_trans [OF rtranclp_trans [OF 1 2] 3] show ?thesis by (intro exI conjI) (assumption, simp)
qed

end
