(* ===== verification/Storage_Blob.thy ===== *)
theory Storage_Blob
  imports Storage_Cache
begin

text \<open>
  Blobs behind the cache (\<open>packages/shared/pkg/storage/storage_cache_blob.go\<close>): an object that is
  read as a whole is cached in one file, written as an \<open>AtomicImmutableFile\<close>.  The writer a blob is
  copied to is in memory: its writes succeed and keep what was written.
\<close>

section \<open>Operations\<close>

record cachedBlob =
  cb_path :: string

text \<open>\<open>ns\<close> are the sizes of the reads by which the writer takes a file, the last read takes the rest.\<close>

datatype blob_req =
    ReqWriteTo bool "nat list" | ReqPut "byte list" bool | ReqExists | JobWriteBlob "byte list"

datatype blob_result =
    ResWriteTo "(cache_error, nat) outcome" "byte list"
  | ResBlob "(cache_error, unit) outcome"
  | ResExists "(cache_error, bool) outcome"

type_synonym 'a blob_prog = "(blob_req, inner_call, 'a) prog"

definition fullFilename :: "cachedBlob \<Rightarrow> string" where
  "fullFilename b = cb_path b @ ''/content.bin''"

fun copy_file :: "nat \<Rightarrow> nat list \<Rightarrow> byte list \<Rightarrow> ('q, 'c, (os_errno, unit) outcome \<times> byte list) prog" where
  "copy_file i [] dst =
     prog_then (os_do (ReadAllCall i) as_bytes) (\<lambda>r.
       case r of Ok (bs, _) \<Rightarrow> Done (Ok (), dst @ drop (length dst) bs) | Err e \<Rightarrow> Done (Err e, dst) | Panic \<Rightarrow> Done (Panic, dst))"
| "copy_file i (n # ns) dst =
     prog_then (os_do (ReadAtCall i n (length dst)) as_bytes) (\<lambda>r.
       case r of
         Ok (bs, eof) \<Rightarrow> if eof then Done (Ok (), dst @ bs) else copy_file i ns (dst @ bs)
       | Err e \<Rightarrow> Done (Err e, dst)
       | Panic \<Rightarrow> Done (Panic, dst))"

text \<open>The result with what the writer holds; an error leaves there what was copied before.\<close>

definition copyFullFileFromCache :: "cachedBlob \<Rightarrow> nat list \<Rightarrow> ('q, 'c, (cache_error, nat) outcome \<times> byte list) prog" where
  "copyFullFileFromCache b ns =
     prog_then (os_do (OpenRead (fullFilename b)) as_file) (\<lambda>fp.
       case fp of
         Ok i \<Rightarrow>
           prog_then (copy_file i ns []) (\<lambda>(r, dst).
           prog_then (os_do (CloseCall i) as_unit) (\<lambda>_.
             Done (case r of Ok _ \<Rightarrow> Ok (length dst) | Err e \<Rightarrow> Err (OsError e) | Panic \<Rightarrow> Panic, dst)))
       | Err e \<Rightarrow> Done (Err (OsError e), [])
       | Panic \<Rightarrow> Done (Panic, []))"

definition writeFileToCache :: "cachedBlob \<Rightarrow> byte list \<Rightarrow> ('q, 'c, (cache_error, unit) outcome) prog" where
  "writeFileToCache b input =
     prog_then (OpenFile (fullFilename b)) (\<lambda>r.
       case r of
         Ok output \<Rightarrow>
           prog_then (if input = [] then Done (Ok (), output) else af_Write output input) (\<lambda>(w, output').
             case w of
               Ok _ \<Rightarrow>
                 prog_then (File_Commit output') (\<lambda>(x, output'').
                 prog_then (File_Close output'') (\<lambda>_. Done (map_err (\<lambda>_. CommitError) x)))
             | Err e \<Rightarrow> prog_then (File_Close output') (\<lambda>_. Done (Err (OsError e)))
             | Panic \<Rightarrow> Done Panic)
       | Err e \<Rightarrow> Done (Err (LockFailed e))
       | Panic \<Rightarrow> Done Panic)"

definition WriteTo :: "cachedBlob \<Rightarrow> bool \<Rightarrow> nat list \<Rightarrow> ((cache_error, nat) outcome \<times> byte list) blob_prog" where
  "WriteTo b skip ns =
     prog_then (copyFullFileFromCache b ns) (\<lambda>(r, dst).
       case r of
         Ok n \<Rightarrow> Done (Ok n, dst)
       | _ \<Rightarrow>
           prog_then (os_do (RemoteCall InnerWriteTo) as_bytes) (\<lambda>r.
             case r of
               Ok (data, _) \<Rightarrow>
                 (let result = Done (Ok (length data), dst @ data)
                  in if skip then result else Go (JobWriteBlob data) result)
             | Err e \<Rightarrow> Done (Err (InnerError e), dst)
             | Panic \<Rightarrow> Done (Panic, dst)))"

definition blob_Put :: "bool \<Rightarrow> byte list \<Rightarrow> (cache_error, unit) outcome blob_prog" where
  "blob_Put writeThrough data =
     (let put = prog_then (os_do (RemoteCall (InnerPut data)) as_unit) (\<lambda>r. Done (map_err InnerError r))
      in if writeThrough then Go (JobWriteBlob data) put else put)"

definition blob_Exists :: "(cache_error, bool) outcome blob_prog" where
  "blob_Exists = prog_then (os_do (RemoteCall InnerExists) as_flag) (\<lambda>r. Done (map_err InnerError r))"

definition OpenBlob ::
  "string \<Rightarrow> ('q, 'c, (os_errno, unit) outcome) prog \<Rightarrow> string \<Rightarrow> ('q, 'c, (cache_error, cachedBlob) outcome) prog" where
  "OpenBlob rootPath innerOpen path =
     prog_then innerOpen (\<lambda>r.
       case r of
         Ok _ \<Rightarrow>
           (let localPath = Join [rootPath, path]
            in prog_then (os_do (MkdirAllCall localPath) as_unit) (\<lambda>m.
                 case m of
                   Ok _ \<Rightarrow> Done (Ok \<lparr>cb_path = localPath\<rparr>)
                 | Err e \<Rightarrow> Done (Err (OsError e))
                 | Panic \<Rightarrow> Done Panic))
       | Err e \<Rightarrow> Done (Err (InnerError e))
       | Panic \<Rightarrow> Done Panic)"

fun blob_prog :: "cachedBlob \<Rightarrow> blob_req \<Rightarrow> blob_result blob_prog" where
  "blob_prog b (ReqWriteTo skip ns) = prog_then (WriteTo b skip ns) (\<lambda>(r, dst). Done (ResWriteTo r dst))"
| "blob_prog b (ReqPut data writeThrough) = prog_then (blob_Put writeThrough data) (\<lambda>x. Done (ResBlob x))"
| "blob_prog b ReqExists = prog_then blob_Exists (\<lambda>x. Done (ResExists x))"
| "blob_prog b (JobWriteBlob data) = prog_then (writeFileToCache b data) (\<lambda>x. Done (ResBlob x))"

section \<open>Every operation is good\<close>

text \<open>Objects are written once: all requests that put the object put the same bytes.\<close>

fun blob_req_ok :: "byte list \<Rightarrow> blob_req \<Rightarrow> bool" where
  "blob_req_ok obj (ReqPut data writeThrough) \<longleftrightarrow> data = obj"
| "blob_req_ok obj (JobWriteBlob data) \<longleftrightarrow> data = obj"
| "blob_req_ok obj _ \<longleftrightarrow> True"

fun blob_result_ok :: "byte list \<Rightarrow> blob_req \<Rightarrow> blob_result \<Rightarrow> bool" where
  "blob_result_ok obj (ReqWriteTo skip ns) (ResWriteTo (Ok n) dst) \<longleftrightarrow>
     n = length obj \<and> (\<exists>again. prefix again obj \<and> dst = again @ obj)"
| "blob_result_ok obj ReqExists (ResExists (Ok x)) \<longleftrightarrow> x"
| "blob_result_ok obj _ _ \<longleftrightarrow> True"

lemma fullFilename_last: "fullFilename b \<noteq> [] \<and> last (fullFilename b) = CHR ''n''"
  by (simp add: fullFilename_def)

interpretation blob: shared_files "{fullFilename b}" "\<lambda>_ d. d = obj" "seek_remote obj" for b obj
  by unfold_locales (use fullFilename_last in \<open>auto simp: hex_digit_def\<close>)

abbreviation good_blob :: "cachedBlob \<Rightarrow> byte list \<Rightarrow> 'a blob_prog \<Rightarrow> ghost \<Rightarrow> ('a \<Rightarrow> ghost \<Rightarrow> bool) \<Rightarrow> bool" where
  "good_blob b obj \<equiv> good {fullFilename b} (\<lambda>_ d. d = obj) (seek_remote obj) (Collect (blob_req_ok obj))"

lemma blob_lock_not_final: "getLockFilePath p \<noteq> fullFilename b"
proof -
  have "last (getLockFilePath p) = CHR ''k''" by (simp add: getLockFilePath_def)
  then show ?thesis using fullFilename_last [of b] by auto
qed

lemma good_OpenFile:
  assumes "\<And>e g'. Q (Err e) g'" and "\<And>g'. Q Panic g'"
    and "\<And>f g'. gh_own g' (fst (af_tempFile f)) = Some (snd (af_tempFile f), []) \<Longrightarrow> af_filename f = fullFilename b
           \<Longrightarrow> af_pos f = 0 \<Longrightarrow> Q (Ok f) g'"
  shows "good_blob b obj (OpenFile (fullFilename b)) g Q"
proof -
  have name: "getLockFilePath (fullFilename b) \<notin> {fullFilename b}" using blob_lock_not_final by simp
  show ?thesis
    unfolding OpenFile_def try_then_def
    by (rule good_then, rule blob.good_TryAcquireLock [OF name])
      (auto split: outcome.splits os_reply.splits simp: Let_def
        intro!: good_then blob.good_ReleaseLock assms suffix_appendI suffix_ConsI)
qed

lemma good_af_close:
  assumes "success \<Longrightarrow> af_filename f = fullFilename b \<and> gh_own g (fst (af_tempFile f)) = Some (snd (af_tempFile f), obj)"
    and "\<And>r f' g'. af_closed f' \<Longrightarrow> Q (r, f') g'"
  shows "good_blob b obj (af_close f success) g Q"
proof (cases "af_closed f")
  case True
  then show ?thesis using assms(2) by (simp add: af_close_def)
next
  case False
  then show ?thesis
    using assms unfolding af_close_def
    by (cases success) (auto intro!: good_then blob.good_RenameOrDeleteFile blob.good_ReleaseLock)
qed

lemma good_writeFileToCache:
  assumes "\<And>r g'. Q r g'"
  shows "good_blob b obj (writeFileToCache b obj) g Q"
proof -
  let ?finish = "\<lambda>(w, f). case w of
      Ok _ \<Rightarrow> prog_then (File_Commit f) (\<lambda>(x, f'). prog_then (File_Close f') (\<lambda>_. Done (map_err (\<lambda>_. CommitError) x)))
    | Err e \<Rightarrow> prog_then (File_Close f) (\<lambda>_. Done (Err (OsError e)))
    | Panic \<Rightarrow> Done Panic"
  have commit: "good_blob b obj (?finish (Ok (), f)) g' Q"
    if "af_filename f = fullFilename b" "gh_own g' (fst (af_tempFile f)) = Some (snd (af_tempFile f), obj)" for f g'
    unfolding File_Commit_def File_Close_def prod.case outcome.case
    by (rule good_then, rule good_af_close) (use that assms in \<open>auto intro!: good_then good_af_close\<close>)
  have drop: "good_blob b obj (?finish (Err e, f)) g' Q" for f g' e
    unfolding File_Close_def prod.case outcome.case by (rule good_then, rule good_af_close) (use assms in auto)
  have "good_blob b obj (prog_then (if obj = [] then Done (Ok (), f) else af_Write f obj) ?finish) g' Q"
    if f: "gh_own g' (fst (af_tempFile f)) = Some (snd (af_tempFile f), [])" "af_filename f = fullFilename b" "af_pos f = 0" for f g'
  proof (cases "obj = []")
    case True
    then show ?thesis using commit [OF f(2), of g'] f(1) by (simp only: if_True prog_then.simps simp_thms)
  next
    case False
    have "good_blob b obj (af_Write f obj) g' (\<lambda>x g''. good_blob b obj (?finish x) g'' Q)"
      unfolding af_Write_def prog_then_os_do good.simps
    proof (intro conjI allI impI)
      show "call_ok {fullFilename b} (\<lambda>_ d. d = obj) g' (WriteAtCall (snd (af_tempFile f)) (af_pos f) obj)" using f by auto
      fix r g'' assume n: "next_ok {fullFilename b} (\<lambda>_ d. d = obj) (seek_remote obj) g' (WriteAtCall (snd (af_tempFile f)) (af_pos f) obj) r g''"
      show "good_blob b obj (?finish (as_unit r, f\<lparr>af_pos := af_pos f + length obj\<rparr>)) g'' Q"
      proof (cases "\<exists>e. r = RErr e")
        case True
        then show ?thesis using drop by auto
      next
        case False
        with n have "g'' = own_append g' (snd (af_tempFile f)) obj" "as_unit r = Ok ()" by (cases r; auto)+
        then show ?thesis using commit [of "f\<lparr>af_pos := af_pos f + length obj\<rparr>" g''] f(1,2) by (simp only:) (auto simp: own_append_def)
      qed
    qed
    then show ?thesis using False by (simp only: if_False) (rule good_then)
  qed
  then show ?thesis
    unfolding writeFileToCache_def
    by (intro good_then good_OpenFile) (simp_all only: outcome.case good.simps assms)
qed

lemma good_copy_file:
  assumes "gh_open g i = Some obj" and "prefix dst obj"
    and "\<And>r dst'. prefix dst' obj \<Longrightarrow> (is_ok r \<Longrightarrow> dst' = obj) \<Longrightarrow> Q (r, dst') g"
  shows "good_blob b obj (copy_file i ns dst) g Q"
  using assms(1,2)
proof (induction ns arbitrary: dst)
  case Nil
  then show ?case by (auto split: outcome.splits os_reply.splits intro!: assms(3) simp: prefix_def)
next
  case (Cons n ns)
  have "prefix (dst @ take n (drop (length dst) obj)) obj"
    using Cons.prems(2) by (auto simp: prefix_def) (metis append_take_drop_id)
  moreover have "dst @ take n (drop (length dst) obj) = obj" if "length (take n (drop (length dst) obj)) < n"
    using that Cons.prems(2) by (auto simp: prefix_def)
  ultimately show ?case
    using Cons.prems Cons.IH by (auto split: outcome.splits os_reply.splits intro!: assms(3))
qed

text \<open>What the writer holds when the cached file has been copied, or failed to be.\<close>

lemma good_copyFullFileFromCache:
  assumes "\<And>r dst g'. prefix dst obj \<Longrightarrow> (\<And>n. r = Ok n \<Longrightarrow> dst = obj \<and> n = length obj) \<Longrightarrow> Q (r, dst) g'"
  shows "good_blob b obj (copyFullFileFromCache b ns) g Q"
  unfolding copyFullFileFromCache_def
  by (auto split: outcome.splits os_reply.splits intro!: good_then good_copy_file assms)

lemma good_remote_WriteTo:
  assumes "\<And>r dst g'. blob_result_ok obj (ReqWriteTo skip ns) (ResWriteTo r dst) \<Longrightarrow> Q (r, dst) g'" and "prefix dst obj"
  shows "good_blob b obj (prog_then (os_do (RemoteCall InnerWriteTo) as_bytes) (\<lambda>r.
      case r of
        Ok (data, _) \<Rightarrow> (let result = Done (Ok (length data), dst @ data) in if skip then result else Go (JobWriteBlob data) result)
      | Err e \<Rightarrow> Done (Err (InnerError e), dst)
      | Panic \<Rightarrow> Done (Panic, dst))) g Q"
proof -
  have "Q (Ok (length obj), dst @ obj) g'" "Q (Err e, dst) g'" for e g'
    using assms(2) by (intro assms(1); auto)+
  then show ?thesis by (auto simp: Let_def)
qed

lemma good_WriteTo:
  assumes "\<And>r dst g'. blob_result_ok obj (ReqWriteTo skip ns) (ResWriteTo r dst) \<Longrightarrow> Q (r, dst) g'"
  shows "good_blob b obj (WriteTo b skip ns) g Q"
  unfolding WriteTo_def
proof (rule good_then, rule good_copyFullFileFromCache)
  fix r :: "(cache_error, nat) outcome" and dst g'
  assume d: "prefix dst obj" and ok: "\<And>n. r = Ok n \<Longrightarrow> dst = obj \<and> n = length obj"
  show "good_blob b obj (case (r, dst) of (r, dst) \<Rightarrow>
      case r of Ok n \<Rightarrow> Done (Ok n, dst) | _ \<Rightarrow> prog_then (os_do (RemoteCall InnerWriteTo) as_bytes) (\<lambda>r.
        case r of
          Ok (data, _) \<Rightarrow> (let result = Done (Ok (length data), dst @ data) in if skip then result else Go (JobWriteBlob data) result)
        | Err e \<Rightarrow> Done (Err (InnerError e), dst)
        | Panic \<Rightarrow> Done (Panic, dst))) g' Q"
  proof (cases r)
    case (Ok n)
    then show ?thesis using ok [OF Ok] by (auto intro!: assms)
  qed (use good_remote_WriteTo [where Q = Q and skip = skip and ns = ns, OF assms d] in \<open>simp_all only: prod.case outcome.case\<close>)
qed

lemma good_blob_prog:
  assumes "blob_req_ok obj q"
  shows "good_blob b obj (blob_prog b q) g (\<lambda>x g. blob_result_ok obj q x)"
  using assms
  by (cases q) (auto intro!: good_then good_WriteTo good_writeFileToCache simp: blob_Put_def blob_Exists_def Let_def)

section \<open>The blob cache is transparent\<close>

text \<open>
  C10.  However many readers, writers of the same bytes and write-backs run at the same time over the
  cache directory of a blob, with whatever failures and interleavings: the cached file is the object,
  complete, \<open>Exists\<close> answers yes or fails, and a \<open>WriteTo\<close> that succeeds reports the size of the object and
  has written all of it, after a first part of it that a failed read of the cached file may have left
  in the writer.
\<close>

theorem blob_transparent:
  assumes "(sys_step (seek_remote obj) (Collect (blob_req_ok obj)) (blob_prog b))\<^sup>*\<^sup>* (s0, []) (s, ts)"
    and "fs_ok {fullFilename b} (\<lambda>_ d. d = obj) s0"
  shows "fs_ok {fullFilename b} (\<lambda>_ d. d = obj) s
    \<and> (\<forall>(q, p) \<in> set ts. \<forall>x. p = Done x \<longrightarrow> blob_result_ok obj q x)"
  using blob.sys_sound [OF assms, where jobs = "Collect (blob_req_ok obj)" and Q = "blob_result_ok obj"] good_blob_prog
  by auto

section \<open>Concrete runs\<close>

lemma blob_names:
  "fullFilename b @ ''.temp.'' @ u \<noteq> fullFilename b" "p @ ''.temp.'' @ u \<noteq> getLockFilePath p"
  by (simp_all add: getLockFilePath_def)

lemma fresh_lock: "fresh_uuid s \<Longrightarrow> fresh_uuid (fs_create (getLockFilePath p) s)"
  using uuid_no_suffix [of "uuid_text (card (fs_uuids s))" "getLockFilePath p"]
  by (auto simp: fresh_uuid_def Let_def getLockFilePath_def hex_digit_def)

lemma cached_read_run:
  assumes "fs_names s (fullFilename b) = Some i"
  shows "run_prog rm 10 s (blob_prog b (ReqWriteTo skip [])) =
      (s, Done (ResWriteTo (Ok (length (file_data s i))) (file_data s i)), [])"
    and "run_valid remote rm 10 s (blob_prog b (ReqWriteTo skip []))"
  using assms by (simp_all add: WriteTo_def copyFullFileFromCache_def eval_nat_numeral)

text \<open>A file published under a name that is taken: the link fails with \<open>EEXIST\<close>, which counts as success.\<close>

lemma publish_taken_run:
  assumes "fs_names s (fullFilename b) = Some i" and "i < fs_next s" and "fs_names s (getLockFilePath (fullFilename b)) = None"
    and "fs_dirs s = {}" and "fresh_uuid s"
    and "fs_names s (fullFilename b @ ''.temp.'' @ uuid_text (card (fs_uuids s))) = None"
  shows "\<exists>s'. run_prog rm 20 s (blob_prog b (JobWriteBlob bs)) = (s', Done (ResBlob (Ok ())), [])
    \<and> run_valid remote rm 20 s (blob_prog b (JobWriteBlob bs))
    \<and> fs_names s' = fs_names s \<and> file_data s' i = file_data s i"
proof -
  let ?u = "uuid_text (card (fs_uuids s))"
  note names = blob_lock_not_final [of "fullFilename b" b] blob_names(1) [of b ?u] blob_names(2) [of "fullFilename b" ?u]
  note names' = names names [symmetric]
  show ?thesis
    using assms names' fresh_lock [OF assms(5), of "fullFilename b"]
    by (cases "bs = []")
      (simp_all add: writeFileToCache_def OpenFile_def try_then_def TryAcquireLock_def createLock_def File_Commit_def File_Close_def
        af_Write_def af_close_def RenameOrDeleteFile_def ReleaseLock_def Let_def eval_nat_numeral fun_eq_iff)
qed

lemma blob_request:
  assumes "run_prog rm n s (blob_prog b q) = (s', p, js)" and "run_valid remote rm n s (blob_prog b q)" and "q \<in> reqs"
  shows "(sys_step remote reqs (blob_prog b))\<^sup>*\<^sup>* (s, ts) (s', ts @ [(q, p)] @ map (\<lambda>j. (j, blob_prog b j)) js)"
  using sys_request [of q reqs rm n s "blob_prog b" s' p js remote ts] assms by simp

theorem blob_transparent_witness:
  "\<exists>s ts. (sys_step (seek_remote [1, 2]) (Collect (blob_req_ok [1, 2])) (blob_prog \<lparr>cb_path = ''/b''\<rparr>))\<^sup>*\<^sup>* (empty_fs, []) (s, ts)
     \<and> (\<exists>again. (ReqWriteTo True [], Done (ResWriteTo (Ok 2) (again @ [1, 2]))) \<in> set ts)"
proof -
  let ?b = "\<lparr>cb_path = ''/b''\<rparr>" and ?o = "[1, 2] :: byte list" and ?q = "ReqWriteTo True []"
  let ?x = "ResWriteTo (Ok (length ?o)) ([] @ ?o)"
  have "run_prog (seek_answer ?o) 10 empty_fs (blob_prog ?b ?q) = (empty_fs, Done ?x, [])"
      "run_valid (seek_remote ?o) (seek_answer ?o) 10 empty_fs (blob_prog ?b ?q)"
    by (simp_all add: WriteTo_def copyFullFileFromCache_def eval_nat_numeral)
  from blob_request [OF this, of "Collect (blob_req_ok ?o)" "[]"]
  have run: "(sys_step (seek_remote ?o) (Collect (blob_req_ok ?o)) (blob_prog ?b))\<^sup>*\<^sup>* (empty_fs, []) (empty_fs, [(?q, Done ?x)])"
    by simp
  moreover have "fs_ok {fullFilename ?b} (\<lambda>_ d. d = ?o) empty_fs" by (simp add: fs_ok_def)
  ultimately have "blob_result_ok ?o ?q ?x" using blob_transparent by fastforce
  with run show ?thesis by fastforce
qed

text \<open>
  The duplicated part is real: when reading the cached file fails after \<open>n\<close> bytes have been
  copied, the remote object is appended to them, and \<open>WriteTo\<close> reports success with the size of the
  object although the writer now holds \<open>n\<close> bytes more.
\<close>

lemma WriteTo_duplicates_prefix:
  assumes "n \<le> length obj"
  shows "\<exists>s ts. (sys_step (seek_remote obj) UNIV (blob_prog b))\<^sup>*\<^sup>* (one_file (fullFilename b) obj, []) (s, ts)
    \<and> (ReqWriteTo True [n], Done (ResWriteTo (Ok (length obj)) (take n obj @ obj))) \<in> set ts"
proof -
  let ?step = "sys_step (seek_remote obj) UNIV (blob_prog b)" and ?start = "one_file (fullFilename b) obj" and ?q = "ReqWriteTo True [n]"
  obtain k where k: "run_prog (seek_answer obj) 2 ?start (blob_prog b ?q) = (?start, Call (ReadAllCall 0) k, [])"
      "run_valid (seek_remote obj) (seek_answer obj) 2 ?start (blob_prog b ?q)"
      "run_prog (seek_answer obj) 5 ?start (k (RErr ErrOther)) =
         (?start, Done (ResWriteTo (Ok (length obj)) (take n obj @ obj)), [])"
      "run_valid (seek_remote obj) (seek_answer obj) 5 ?start (k (RErr ErrOther))"
    using assms by (simp add: WriteTo_def copyFullFileFromCache_def one_file_def eval_nat_numeral)
  have 1: "?step\<^sup>*\<^sup>* (?start, []) (?start, [(?q, Call (ReadAllCall 0) k)])"
    using blob_request [OF k(1,2), of UNIV "[]"] by simp
  have 2: "?step (?start, [(?q, Call (ReadAllCall 0) k)]) (?start, [(?q, k (RErr ErrOther))])"
    using sys_step.call [of 0 "[(?q, Call (ReadAllCall 0) k)]" ?q "ReadAllCall 0" k "seek_remote obj" ?start "RErr ErrOther" ?start]
      os_step.fails [of "ReadAllCall 0" "seek_remote obj" ?start] by auto
  have 3: "?step\<^sup>*\<^sup>* (?start, [(?q, k (RErr ErrOther))])
      (?start, [(?q, Done (ResWriteTo (Ok (length obj)) (take n obj @ obj)))])"
    using run_prog_steps [OF k(3,4), of 0 "[(?q, k (RErr ErrOther))]" ?q UNIV "blob_prog b" "[]"] by simp
  from rtranclp_trans [OF rtranclp.rtrancl_into_rtrancl [OF 1 2] 3] show ?thesis
    by (intro exI conjI) (assumption, simp)
qed

text \<open>
  A cached blob is never updated: a \<open>Put\<close> of new bytes with the write-through cache enabled
  succeeds, and so does the write to the cache it starts; but the file that is there stays, and every
  later \<open>WriteTo\<close> returns the old bytes, whatever the remote object holds.
\<close>

lemma cached_blob_never_updated:
  assumes "fs_names s (fullFilename b) = Some i" and "i < fs_next s" and "fs_names s (getLockFilePath (fullFilename b)) = None"
    and "fs_dirs s = {}" and "fresh_uuid s"
    and "fs_names s (fullFilename b @ ''.temp.'' @ uuid_text (card (fs_uuids s))) = None"
    and "old = file_data s i"
  shows "\<exists>s'. run_prog (seek_answer new) 10 s (blob_prog b (ReqPut new True)) = (s, Done (ResBlob (Ok ())), [JobWriteBlob new])
    \<and> run_prog (seek_answer new) 20 s (blob_prog b (JobWriteBlob new)) = (s', Done (ResBlob (Ok ())), [])
    \<and> (\<forall>rm skip. run_prog rm 10 s' (blob_prog b (ReqWriteTo skip [])) = (s', Done (ResWriteTo (Ok (length old)) old), []))"
proof -
  from publish_taken_run [OF assms(1-6), of "seek_answer new" new "seek_remote new"] obtain s' where s':
    "run_prog (seek_answer new) 20 s (blob_prog b (JobWriteBlob new)) = (s', Done (ResBlob (Ok ())), [])"
    "fs_names s' = fs_names s" "file_data s' i = old" using assms(7) by blast
  have "fs_names s' (fullFilename b) = Some i" using s'(2) assms(1) by simp
  from cached_read_run(1) [OF this] s'(3)
  have "run_prog rm 10 s' (blob_prog b (ReqWriteTo skip [])) = (s', Done (ResWriteTo (Ok (length old)) old), [])" for rm skip
    by simp
  moreover have "run_prog (seek_answer new) 10 s (blob_prog b (ReqPut new True)) = (s, Done (ResBlob (Ok ())), [JobWriteBlob new])"
    by (simp add: blob_Put_def Let_def eval_nat_numeral)
  ultimately show ?thesis using s'(1) by blast
qed

end
