(* ===== verification/Storage_Progress.thy ===== *)
theory Storage_Progress
  imports Storage_Blob
begin

text \<open>
  The cache never makes a request wait.  Locks are only tried, so a request or a job finishes after a
  number of calls of its own that depends on nothing the others do.
\<close>

section \<open>Counting the steps of a thread\<close>









section \<open>The calls of a request\<close>
















section \<open>A thread can always go on\<close>









end
