(* ===== verification/Storage_Local.thy ===== *)
theory Storage_Local
  imports Storage_Blob
begin

text \<open>
  The storage provider that keeps objects in local files (\<open>storage_fs.go\<close>), the choice of the provider
  (\<open>storage.go\<close>) and the names of the files of templates and sandboxes (\<open>template.go\<close>,
  \<open>template_cache.go\<close>, \<open>sandbox.go\<close>).  The operations of a local object are programs over the file
  system; \<open>ns\<close> are the sizes of the reads by which \<open>io.Copy\<close> moves a file, the last read takes the
  rest.  The keyed hash of the upload tokens is a parameter: nothing is assumed about it.
\<close>

section \<open>Local objects\<close>

record fsStorage =
  st_basePath :: string
  st_uploadURL :: string
  st_hmacKey :: "byte list option"

record fsObject =
  fo_path :: string

type_synonym 'a local_prog = "(unit, inner_call, 'a) prog"

datatype local_error = ErrObjectNotExist | ErrIsDirectory | FsError os_errno

definition getPath :: "fsStorage \<Rightarrow> string \<Rightarrow> string" where
  "getPath st path = Join [st_basePath st, path]"

definition fsStorage_open :: "fsStorage \<Rightarrow> string \<Rightarrow> ((local_error, fsObject) outcome) local_prog" where
  "fsStorage_open st path =
     prog_then (os_do (MkdirAllCall (Dir (getPath st path))) as_unit) (\<lambda>r.
       case r of
         Ok _ \<Rightarrow> Done (Ok \<lparr>fo_path = getPath st path\<rparr>)
       | Err e \<Rightarrow> Done (Err (FsError e))
       | Panic \<Rightarrow> Done Panic)"

definition fsStorage_DeleteObjectsWithPrefix :: "fsStorage \<Rightarrow> string \<Rightarrow> ((os_errno, unit) outcome) local_prog" where
  "fsStorage_DeleteObjectsWithPrefix st prefix' = os_do (RemoveAllCall (getPath st prefix')) as_unit"

text \<open>The file is opened for reading and writing and created if it is missing, even after the check.\<close>

definition open_handle :: "fsObject \<Rightarrow> ((local_error, nat) outcome) local_prog" where
  "open_handle ob = prog_then (os_do (OpenWrite (fo_path ob) False) as_file) (\<lambda>r. Done (map_err FsError r))"

definition getHandle :: "fsObject \<Rightarrow> bool \<Rightarrow> ((local_error, nat) outcome) local_prog" where
  "getHandle ob checkExistence =
     (if checkExistence then
        prog_then (os_do (StatCall (fo_path ob)) as_stat) (\<lambda>info.
          case info of
            Ok (isDir, _, _) \<Rightarrow> if isDir then Done (Err ErrIsDirectory) else open_handle ob
          | Err e \<Rightarrow> Done (Err (if e = ErrNotExist then ErrObjectNotExist else FsError e))
          | Panic \<Rightarrow> Done Panic)
      else open_handle ob)"

text \<open>Every operation closes its handle at the end; an error of that is lost.\<close>

definition with_handle ::
  "fsObject \<Rightarrow> bool \<Rightarrow> (nat \<Rightarrow> ((local_error, 'a) outcome) local_prog) \<Rightarrow> ((local_error, 'a) outcome) local_prog" where
  "with_handle ob checkExistence body =
     try_then (getHandle ob checkExistence) (\<lambda>i.
       prog_then (body i) (\<lambda>x. prog_then (os_do (CloseCall i) as_unit) (\<lambda>_. Done x)))"

text \<open>The number of bytes copied and what the writer holds.\<close>

definition fsObject_WriteTo :: "fsObject \<Rightarrow> nat list \<Rightarrow> ((local_error, nat \<times> byte list) outcome) local_prog" where
  "fsObject_WriteTo ob ns =
     with_handle ob True (\<lambda>i. prog_then (copy_file i ns []) (\<lambda>(r, dst).
       Done (case r of Ok _ \<Rightarrow> Ok (length dst, dst) | Err e \<Rightarrow> Err (FsError e) | Panic \<Rightarrow> Panic)))"

definition fsObject_Put :: "fsObject \<Rightarrow> byte list \<Rightarrow> ((local_error, unit) outcome) local_prog" where
  "fsObject_Put ob data =
     with_handle ob False (\<lambda>i.
       if data = [] then Done (Ok ())
       else prog_then (os_do (WriteAtCall i 0 data) as_unit) (\<lambda>r. Done (map_err FsError r)))"

fun copy_between :: "nat \<Rightarrow> nat \<Rightarrow> nat list \<Rightarrow> nat \<Rightarrow> ((os_errno, unit) outcome) local_prog" where
  "copy_between r w [] pos =
     try_then (os_do (ReadAllCall r) as_bytes) (\<lambda>(bs, _).
       if drop pos bs = [] then Done (Ok ()) else os_do (WriteAtCall w pos (drop pos bs)) as_unit)"
| "copy_between r w (n # ns) pos =
     try_then (os_do (ReadAtCall r n pos) as_bytes) (\<lambda>(bs, eof).
       if bs = [] then (if eof then Done (Ok ()) else copy_between r w ns pos)
       else try_then (os_do (WriteAtCall w pos bs) as_unit) (\<lambda>_.
         if eof then Done (Ok ()) else copy_between r w ns (pos + length bs)))"

definition fsObject_StoreFile :: "fsObject \<Rightarrow> string \<Rightarrow> nat list \<Rightarrow> ((local_error, unit) outcome) local_prog" where
  "fsObject_StoreFile ob path ns =
     prog_then (os_do (OpenRead path) as_file) (\<lambda>f.
       case f of
         Ok r \<Rightarrow>
           prog_then (with_handle ob False (\<lambda>w. prog_then (copy_between r w ns 0) (\<lambda>x. Done (map_err FsError x)))) (\<lambda>x.
           prog_then (os_do (CloseCall r) as_unit) (\<lambda>_. Done x))
       | Err e \<Rightarrow> Done (Err (FsError e))
       | Panic \<Rightarrow> Done Panic)"

text \<open>\<open>io.SectionReader\<close> over the handle: the offset moves, the limit stays.\<close>

record fsRangeReadCloser =
  fr_file :: nat
  fr_off :: int
  fr_limit :: int

text \<open>
  The limit \<open>io.NewSectionReader\<close> computes on 64 bits: \<open>off + n\<close> where that fits.  For a negative \<open>n\<close>
  its test \<open>off <= maxint64-n\<close> wraps around and the section has no end.
\<close>

definition section_limit :: "int \<Rightarrow> int \<Rightarrow> int" where
  "section_limit off n = (if 0 \<le> n \<and> off \<le> 2 ^ 63 - 1 - n then off + n else 2 ^ 63 - 1)"

definition fsObject_OpenRangeReader ::
  "fsObject \<Rightarrow> int \<Rightarrow> int \<Rightarrow> ((local_error, fsRangeReadCloser) outcome) local_prog" where
  "fsObject_OpenRangeReader ob off len =
     try_then (getHandle ob True) (\<lambda>i.
       Done (Ok \<lparr>fr_file = i, fr_off = off, fr_limit = section_limit off len\<rparr>))"

text \<open>\<open>os.File.ReadAt\<close> refuses a negative offset.\<close>

definition file_ReadAt :: "nat \<Rightarrow> nat \<Rightarrow> int \<Rightarrow> ((os_errno, byte list \<times> bool) outcome) local_prog" where
  "file_ReadAt i n off = (if off < 0 then Done (Err ErrOther) else os_do (ReadAtCall i n (nat off)) as_bytes)"

definition fsRange_Read ::
  "fsRangeReadCloser \<Rightarrow> nat \<Rightarrow> ((os_errno, byte list \<times> bool) outcome \<times> fsRangeReadCloser) local_prog" where
  "fsRange_Read rd n =
     (if fr_limit rd \<le> fr_off rd then Done (Ok ([], True), rd)
      else prog_then (file_ReadAt (fr_file rd) (min n (nat (fr_limit rd - fr_off rd))) (fr_off rd)) (\<lambda>r.
        Done (r, rd\<lparr>fr_off := fr_off rd + (case r of Ok (bs, _) \<Rightarrow> int (length bs) | _ \<Rightarrow> 0)\<rparr>)))"

definition fsRange_Close :: "fsRangeReadCloser \<Rightarrow> ((os_errno, unit) outcome) local_prog" where
  "fsRange_Close rd = os_do (CloseCall (fr_file rd)) as_unit"

definition fsObject_ReadAt :: "fsObject \<Rightarrow> nat \<Rightarrow> int \<Rightarrow> ((local_error, byte list \<times> bool) outcome) local_prog" where
  "fsObject_ReadAt ob n off =
     with_handle ob True (\<lambda>i. prog_then (file_ReadAt i n off) (\<lambda>r. Done (map_err FsError r)))"

definition fsObject_Exists :: "fsObject \<Rightarrow> ((local_error, bool) outcome) local_prog" where
  "fsObject_Exists ob =
     prog_then (os_do (StatCall (fo_path ob)) as_stat) (\<lambda>r.
       Done (case r of
               Ok _ \<Rightarrow> Ok True
             | Err e \<Rightarrow> if e = ErrNotExist then Ok False else Err (FsError e)
             | Panic \<Rightarrow> Panic))"

definition fsObject_Size :: "fsObject \<Rightarrow> ((local_error, nat) outcome) local_prog" where
  "fsObject_Size ob =
     with_handle ob True (\<lambda>i. prog_then (os_do (FStatCall i) as_stat) (\<lambda>r.
       Done (case r of Ok (_, n, _) \<Rightarrow> Ok n | Err e \<Rightarrow> Err (FsError e) | Panic \<Rightarrow> Panic)))"

definition fsObject_Delete :: "fsObject \<Rightarrow> ((os_errno, unit) outcome) local_prog" where
  "fsObject_Delete ob = os_do (RemoveCall (fo_path ob)) as_unit"

section \<open>What an operation does to the file\<close>

definition content_of :: "fs \<Rightarrow> string \<Rightarrow> byte list" where
  "content_of s p = (case fs_names s p of Some i \<Rightarrow> file_data s i | None \<Rightarrow> [])"

lemmas local_runs = os_step_simps os_do_def try_then_def

lemma write_bytes_start [simp]: "write_bytes 0 bs old = bs @ drop (length bs) old"
  by (simp add: write_bytes_def)

text \<open>A handle is that of the file, created empty if there was none.\<close>

definition opened :: "fs \<Rightarrow> string \<Rightarrow> nat \<Rightarrow> fs \<Rightarrow> bool" where
  "opened s p i s' \<longleftrightarrow> fs_names s p = Some i \<and> s' = s \<or> fs_names s p = None \<and> i = fs_next s \<and> s' = fs_create p s"

lemma opened_facts:
  assumes "opened s p i s'"
  shows "fs_names s' p = Some i" "file_data s' i = content_of s p" "fs_names s p \<noteq> None \<Longrightarrow> s' = s"
    "j \<noteq> fs_next s \<Longrightarrow> file_data s' j = file_data s j" "fs_names s p = None \<Longrightarrow> i = fs_next s"
  using assms by (auto simp: opened_def content_of_def)

lemma open_handle_runs:
  assumes "prog_runs remote s (open_handle ob) s' r"
  shows "(\<exists>e. r = Err e \<and> s' = s) \<or>
    (\<exists>i. r = Ok i \<and> opened s (fo_path ob) i s')"
  using assms by (auto simp: open_handle_def local_runs opened_def)

lemma getHandle_runs:
  assumes "prog_runs remote s (getHandle ob check) s' r"
  shows "(\<exists>e. r = Err e \<and> s' = s) \<or>
    (\<exists>i. r = Ok i \<and> opened s (fo_path ob) i s')"
proof (cases check)
  case True
  with assms have "(\<exists>e. r = Err e \<and> s' = s) \<or> prog_runs remote s (open_handle ob) s' r"
    by (auto simp: getHandle_def local_runs split: if_splits)
  then show ?thesis using open_handle_runs by blast
next
  case False
  with assms have "prog_runs remote s (open_handle ob) s' r" by (simp add: getHandle_def)
  then show ?thesis by (rule open_handle_runs)
qed

lemma with_handle_runs:
  assumes "prog_runs remote s (with_handle ob check body) s' x"
  shows "(\<exists>e. x = Err e \<and> s' = s) \<or>
    (\<exists>i s1. opened s (fo_path ob) i s1 \<and> prog_runs remote s1 (body i) s' x)"
proof -
  from assms obtain s1 r where "prog_runs remote s (getHandle ob check) s1 r"
    and rest: "prog_runs remote s1 (case r of
         Ok i \<Rightarrow> prog_then (body i) (\<lambda>x. prog_then (os_do (CloseCall i) as_unit) (\<lambda>_. Done x))
       | Err e \<Rightarrow> Done (Err e) | Panic \<Rightarrow> Done Panic) s' x"
    unfolding with_handle_def try_then_def prog_runs_then by blast
  from getHandle_runs [OF this(1)] rest show ?thesis
    by (auto simp: os_step_simps)
qed

lemma copy_file_runs:
  assumes "prog_runs remote s (copy_file i ns dst) s' (r, dst')" and "prefix dst (file_data s i)"
  shows "s' = s \<and> r \<noteq> Panic \<and> (is_ok r \<longrightarrow> dst' = file_data s i)"
  using assms
proof (induction ns arbitrary: dst)
  case Nil
  then show ?case by (auto simp: local_runs prefix_def)
next
  case (Cons n ns)
  let ?bs = "take n (drop (length dst) (file_data s i))"
  have "prefix (dst @ ?bs) (file_data s i)"
    using Cons.prems(2) by (auto simp: prefix_def) (metis append_take_drop_id)
  moreover have "dst @ ?bs = file_data s i" if "length ?bs < n"
    using that Cons.prems(2) by (auto simp: prefix_def)
  ultimately show ?case
    using Cons.prems(1) Cons.IH [of "dst @ ?bs"] by (auto simp: local_runs split: if_splits)
qed

lemma fsObject_WriteTo_runs:
  assumes "prog_runs remote s (fsObject_WriteTo ob ns) s' x" and "fs_names s (fo_path ob) \<noteq> None"
  shows "s' = s \<and> ((\<exists>e. x = Err e) \<or> x = Ok (length (content_of s (fo_path ob)), content_of s (fo_path ob)))"
proof (cases "\<exists>e. x = Err e \<and> s' = s")
  case False
  from with_handle_runs [OF assms(1) [unfolded fsObject_WriteTo_def]] False
  obtain i s1 r dst where o: "opened s (fo_path ob) i s1"
    and c: "prog_runs remote s1 (copy_file i ns [] :: _ local_prog) s' (r, dst)"
    and x: "x = (case r of Ok _ \<Rightarrow> Ok (length dst, dst) | Err e \<Rightarrow> Err (FsError e) | Panic \<Rightarrow> Panic)"
    by auto
  from copy_file_runs [OF c] opened_facts(2,3) [OF o] x assms(2) show ?thesis by (cases r) auto
qed blast

lemma fsObject_Put_runs:
  assumes "prog_runs remote s (fsObject_Put ob data) s' (Ok ())"
  shows "fs_names s' (fo_path ob) \<noteq> None
    \<and> content_of s' (fo_path ob) = data @ drop (length data) (content_of s (fo_path ob))"
proof -
  from with_handle_runs [OF assms [unfolded fsObject_Put_def]]
  obtain i s1 where o: "opened s (fo_path ob) i s1"
    and w: "prog_runs remote s1 (if data = [] then Done (Ok ())
       else prog_then (os_do (WriteAtCall i 0 data) as_unit) (\<lambda>r. Done (map_err FsError r)) :: _ local_prog) s' (Ok ())"
    by blast
  note s1 = opened_facts [OF o]
  show ?thesis
  proof (cases "data = []")
    case True
    with w have "s' = s1" by simp
    then show ?thesis using True s1 by (simp add: content_of_def)
  next
    case False
    with w have "s' = fs_put i (write_bytes 0 data (file_data s1 i)) s1" by (auto simp: os_step_simps)
    then show ?thesis using s1 by (simp add: content_of_def)
  qed
qed

text \<open>Copying from one file to another overwrites as much as is copied.\<close>

lemma copy_between_runs:
  assumes "prog_runs remote s (copy_between r w ns pos) s' (Ok ())" and "r \<noteq> w"
    and "file_data s w = take pos (file_data s r) @ drop pos old" and "pos \<le> length (file_data s r)"
  shows "fs_names s' = fs_names s \<and> file_data s' w = file_data s r @ drop (length (file_data s r)) old"
  using assms
proof (induction ns arbitrary: s pos)
  case Nil
  let ?src = "file_data s r"
  have "write_bytes pos (drop pos ?src) (file_data s w) = ?src @ drop (length ?src) old"
    using Nil.prems(3,4) by (simp add: write_bytes_def)
  moreover have "?src @ drop (length ?src) old = file_data s w" if "drop pos ?src = []"
    using that Nil.prems(3,4) by simp
  ultimately show ?case
    using Nil.prems(1,2) by (auto simp: local_runs split: if_splits)
next
  case (Cons n ns)
  let ?src = "file_data s r" and ?bs = "take n (drop pos (file_data s r))"
  let ?s1 = "fs_put w (write_bytes pos ?bs (file_data s w)) s"
  have pos: "length (take pos ?src) = pos" using Cons.prems(4) by simp
  have w: "write_bytes pos ?bs (file_data s w) = take (pos + length ?bs) ?src @ drop (pos + length ?bs) old"
    using Cons.prems(3,4) by (simp add: write_bytes_def take_add min_def)
  have fin: "take (pos + length ?bs) ?src = ?src" "pos + length ?bs = length ?src" if "length ?bs < n"
    using that Cons.prems(4) by auto
  have step: "fs_names s' = fs_names s \<and> file_data s' w = ?src @ drop (length ?src) old"
    if "prog_runs remote ?s1 (copy_between r w ns (pos + length ?bs)) s' (Ok ())"
    using Cons.IH [OF that Cons.prems(2)] w Cons.prems(2,4) by auto
  have skip: "fs_names s' = fs_names s \<and> file_data s' w = ?src @ drop (length ?src) old"
    if "prog_runs remote s (copy_between r w ns pos) s' (Ok ())"
    using Cons.IH [OF that Cons.prems(2-4)] .
  show ?case
    using Cons.prems(1-3) step skip w fin
    by (auto simp: local_runs split: if_splits)
qed

lemma map_err_Ok: "Ok y = map_err f x \<longleftrightarrow> x = Ok y"
  by (cases x) auto

lemma fsObject_StoreFile_runs:
  assumes "prog_runs remote s (fsObject_StoreFile ob path ns) s' (Ok ())"
    and "fs_names s path = Some r" and "r < fs_next s" and "fs_names s (fo_path ob) \<noteq> Some r"
  shows "content_of s' (fo_path ob) = content_of s path @ drop (length (content_of s path)) (content_of s (fo_path ob))"
proof -
  from assms(1,2) have "prog_runs remote s (with_handle ob False (\<lambda>w. prog_then (copy_between r w ns 0) (\<lambda>x. Done (map_err FsError x)))) s' (Ok ())"
    by (auto simp: fsObject_StoreFile_def local_runs)
  from with_handle_runs [OF this] obtain w s1 where o: "opened s (fo_path ob) w s1"
    and c: "prog_runs remote s1 (copy_between r w ns 0 :: _ local_prog) s' (Ok ())"
    by (auto simp: map_err_Ok)
  note s1 = opened_facts [OF o]
  have src: "file_data s1 r = content_of s path" using s1(4) [of r] assms(2,3) by (simp add: content_of_def)
  have "r \<noteq> w" using o assms(3,4) by (auto simp: opened_def)
  from copy_between_runs [OF c this, of "content_of s (fo_path ob)"] s1(1,2) src
  show ?thesis by (simp add: content_of_def)
qed

section \<open>The contract of the cache\<close>

text \<open>
  The operations of a local object as the cache calls them: a result becomes the reply of the remote
  service.  The reader that \<open>OpenRangeReader\<close> returned is kept for the calls that follow; it counts its
  own position, and the offset, length and position that the cache has in its calls are not used.
\<close>

fun reply_of :: "('e, os_reply) outcome \<Rightarrow> os_reply" where
  "reply_of (Ok r) = r"
| "reply_of _ = RErr ErrOther"

definition reply_with :: "('a \<Rightarrow> os_reply) \<Rightarrow> ('e, 'a) outcome local_prog \<Rightarrow> os_reply local_prog" where
  "reply_with f p = prog_then p (\<lambda>x. Done (reply_of (and_then x (\<lambda>y. Ok (f y)))))"

definition keep_reader :: "fsRangeReadCloser option \<Rightarrow> os_reply local_prog \<Rightarrow> (os_reply \<times> fsRangeReadCloser option) local_prog" where
  "keep_reader rd p = prog_then p (\<lambda>r. Done (r, rd))"

fun local_inner ::
  "fsObject \<Rightarrow> nat list \<Rightarrow> fsRangeReadCloser option \<Rightarrow> inner_call \<Rightarrow> (os_reply \<times> fsRangeReadCloser option) local_prog" where
  "local_inner ob ns rd (InnerReadAt n off) = keep_reader rd (reply_with (\<lambda>(bs, eof). RBytes bs eof) (fsObject_ReadAt ob n off))"
| "local_inner ob ns rd InnerSize = keep_reader rd (reply_with RCount (fsObject_Size ob))"
| "local_inner ob ns rd (InnerStoreFile path) = keep_reader rd (reply_with (\<lambda>_. RUnit) (fsObject_StoreFile ob path ns))"
| "local_inner ob ns rd (InnerOpenRange off len) =
     prog_then (fsObject_OpenRangeReader ob off len) (\<lambda>x.
       case x of Ok rd' \<Rightarrow> Done (RUnit, Some rd') | _ \<Rightarrow> Done (RErr ErrOther, rd))"
| "local_inner ob ns rd (InnerRangeRead off len pos n) =
     (case rd of
        None \<Rightarrow> Done (RErr ErrOther, None)
      | Some reader \<Rightarrow> prog_then (fsRange_Read reader n) (\<lambda>(x, reader').
          Done (reply_of (and_then x (\<lambda>(bs, eof). Ok (RBytes bs eof))), Some reader')))"
| "local_inner ob ns rd InnerRangeClose =
     (case rd of
        None \<Rightarrow> Done (RErr ErrOther, None)
      | Some reader \<Rightarrow> keep_reader None (reply_with (\<lambda>_. RUnit) (fsRange_Close reader)))"
| "local_inner ob ns rd InnerWriteTo = keep_reader rd (reply_with (\<lambda>(_, dst). RBytes dst True) (fsObject_WriteTo ob ns))"
| "local_inner ob ns rd (InnerPut data) = keep_reader rd (reply_with (\<lambda>_. RUnit) (fsObject_Put ob data))"
| "local_inner ob ns rd InnerExists = keep_reader rd (reply_with (\<lambda>b. RCount (if b then 1 else 0)) (fsObject_Exists ob))"

text \<open>
  A range as the cache reads it: it opens the reader, reads into buffers of the given sizes, and
  closes it.  Each call is logged with its reply; a read is logged with the number of bytes that came
  before it.
\<close>

fun local_reads ::
  "fsObject \<Rightarrow> nat list \<Rightarrow> int \<Rightarrow> int \<Rightarrow> nat \<Rightarrow> fsRangeReadCloser option \<Rightarrow> nat list
     \<Rightarrow> ((inner_call \<times> os_reply) list \<times> fsRangeReadCloser option) local_prog" where
  "local_reads ob ns off len pos rd [] = Done ([], rd)"
| "local_reads ob ns off len pos rd (n # sizes) =
     prog_then (local_inner ob ns rd (InnerRangeRead off len pos n)) (\<lambda>(r, rd').
     prog_then (local_reads ob ns off len (pos + (case r of RBytes bs _ \<Rightarrow> length bs | _ \<Rightarrow> 0)) rd' sizes) (\<lambda>(log, rd'').
       Done ((InnerRangeRead off len pos n, r) # log, rd'')))"

definition local_range :: "fsObject \<Rightarrow> nat list \<Rightarrow> int \<Rightarrow> int \<Rightarrow> nat list \<Rightarrow> ((inner_call \<times> os_reply) list) local_prog" where
  "local_range ob ns off len sizes =
     prog_then (local_inner ob ns None (InnerOpenRange off len)) (\<lambda>(r, rd).
       if r \<noteq> RUnit then Done [(InnerOpenRange off len, r)]
       else prog_then (local_reads ob ns off len 0 rd sizes) (\<lambda>(log, rd').
            prog_then (local_inner ob ns rd' InnerRangeClose) (\<lambda>(c, _).
              Done ((InnerOpenRange off len, r) # log @ [(InnerRangeClose, c)]))))"

fun reads_only :: "inner_call \<Rightarrow> bool" where
  "reads_only (InnerPut data) = False"
| "reads_only (InnerStoreFile path) = False"
| "reads_only _ = True"

fun range_read :: "inner_call \<Rightarrow> bool" where
  "range_read (InnerRangeRead off len pos n) \<longleftrightarrow> True"
| "range_read _ \<longleftrightarrow> False"

lemma reply_with_runs:
  assumes "prog_runs remote s (reply_with f p) s' r"
  shows "\<exists>x. prog_runs remote s p s' x \<and> (r = RErr ErrOther \<or> (\<exists>y. x = Ok y \<and> r = f y))"
proof -
  from assms obtain x where "prog_runs remote s p s' x" "r = reply_of (and_then x (\<lambda>y. Ok (f y)))"
    by (auto simp: reply_with_def)
  then show ?thesis by (intro exI [of _ x]) (cases x, auto)
qed

text \<open>An operation on a handle of an object that is there.\<close>

lemma with_handle_there:
  assumes "prog_runs remote s (with_handle ob check body) s' x" and "fs_names s (fo_path ob) = Some i"
  shows "(\<exists>e. x = Err e) \<and> s' = s \<or> prog_runs remote s (body i) s' x"
  using with_handle_runs [OF assms(1)] assms(2) by (auto simp: opened_def)

lemma file_ReadAt_runs:
  assumes "prog_runs remote s (file_ReadAt i n off) s' x"
  shows "s' = s \<and> ((\<exists>e. x = Err e) \<or> (0 \<le> off \<and>
    (\<exists>bs. x = Ok (bs, length bs < n) \<and> bs = take n (drop (nat off) (file_data s i)))))"
  using assms by (auto simp: file_ReadAt_def local_runs split: if_splits)

lemma fsObject_ReadAt_runs:
  assumes "prog_runs remote s (fsObject_ReadAt ob n off) s' x" and "fs_names s (fo_path ob) = Some i"
  shows "s' = s \<and> ((\<exists>e. x = Err e) \<or> (0 \<le> off \<and>
    (\<exists>bs. x = Ok (bs, length bs < n) \<and> bs = take n (drop (nat off) (file_data s i)))))"
  using with_handle_there [OF assms(1) [unfolded fsObject_ReadAt_def] assms(2)]
  by (auto dest!: file_ReadAt_runs)

text \<open>The section of the file that the range is, from the position the reader has reached.\<close>

lemma section_read:
  assumes "0 \<le> off" and "0 \<le> len" and "int (length data) < 2 ^ 63" and "off + int pos < section_limit off len"
  shows "take (min n (nat (section_limit off len - (off + int pos)))) (drop (nat (off + int pos)) data)
    = take n (drop pos (take (nat len) (drop (nat off) data)))"
proof -
  define k where "k = nat (section_limit off len - (off + int pos))"
  have d: "drop (nat (off + int pos)) data = drop pos (drop (nat off) data)"
    using assms(1) by (simp add: nat_add_distrib add.commute)
  have "take k (drop pos (drop (nat off) data)) = take (nat len - pos) (drop pos (drop (nat off) data))"
  proof (cases "off \<le> 2 ^ 63 - 1 - len")
    case True
    then have "k = nat len - pos" using assms(2,4) by (simp add: k_def section_limit_def nat_diff_distrib)
    then show ?thesis by simp
  next
    case False
    then have "length (drop pos (drop (nat off) data)) \<le> k" "length (drop pos (drop (nat off) data)) \<le> nat len - pos"
      using assms by (auto simp: k_def section_limit_def)
    then show ?thesis by simp
  qed
  then have "take n (take k (drop pos (drop (nat off) data))) = take n (take (nat len - pos) (drop pos (drop (nat off) data)))"
    by simp
  then show ?thesis by (simp only: k_def [symmetric] d take_take drop_take)
qed

lemma fsRange_Read_runs:
  assumes "prog_runs remote s (fsRange_Read \<lparr>fr_file = i, fr_off = off + int pos, fr_limit = section_limit off len\<rparr> n) s' (x, rd)"
    and "0 \<le> off" and "0 \<le> len" and "int (length (file_data s i)) < 2 ^ 63"
  shows "s' = s \<and> ((\<exists>e. x = Err e) \<and> rd = \<lparr>fr_file = i, fr_off = off + int pos, fr_limit = section_limit off len\<rparr>
    \<or> (\<exists>bs eof. x = Ok (bs, eof) \<and> rd = \<lparr>fr_file = i, fr_off = off + int (pos + length bs), fr_limit = section_limit off len\<rparr>
        \<and> prefix bs (drop pos (take (nat len) (drop (nat off) (file_data s i)))) \<and> length bs \<le> n))"
proof (cases "section_limit off len \<le> off + int pos")
  case True
  with assms(1) show ?thesis by (auto simp: fsRange_Read_def)
next
  case False
  let ?m = "min n (nat (section_limit off len - (off + int pos)))"
  from assms(1) False have r: "prog_runs remote s (file_ReadAt i ?m (off + int pos)) s' x"
    and rd: "rd = \<lparr>fr_file = i, fr_off = off + int pos + (case x of Ok (bs, _) \<Rightarrow> int (length bs) | _ \<Rightarrow> 0),
      fr_limit = section_limit off len\<rparr>"
    by (auto simp: fsRange_Read_def)
  from file_ReadAt_runs [OF r] rd section_read [OF assms(2-4), of pos n] False
  show ?thesis by (auto simp: take_is_prefix)
qed

lemma local_reads_runs:
  assumes "prog_runs remote s (local_reads ob ns off len pos (Some \<lparr>fr_file = i, fr_off = off + int pos, fr_limit = section_limit off len\<rparr>) sizes)
      s' (log, rd)"
    and "0 \<le> off" and "0 \<le> len" and "int (length (file_data s i)) < 2 ^ 63"
  shows "s' = s \<and> (\<forall>(c, r) \<in> set log. seek_remote (file_data s i) c r) \<and> rd \<noteq> None"
  using assms(1)
proof (induction sizes arbitrary: pos log)
  case (Cons n sizes)
  let ?rd = "\<lambda>pos. \<lparr>fr_file = i, fr_off = off + int pos, fr_limit = section_limit off len\<rparr>"
  from Cons.prems obtain x rd1 s1 log' where x: "prog_runs remote s (fsRange_Read (?rd pos) n) s1 (x, rd1)"
    and l: "prog_runs remote s1 (local_reads ob ns off len (pos + (case reply_of (and_then x (\<lambda>(bs, eof). Ok (RBytes bs eof))) of
        RBytes bs _ \<Rightarrow> length bs | _ \<Rightarrow> 0)) (Some rd1) sizes) s' (log', rd)"
    and log: "log = (InnerRangeRead off len pos n, reply_of (and_then x (\<lambda>(bs, eof). Ok (RBytes bs eof)))) # log'"
    by (fastforce split: prod.splits)
  from fsRange_Read_runs [OF x assms(2-4)] consider
      e where "s1 = s" "x = Err e" "rd1 = ?rd pos"
    | bs eof where "s1 = s" "x = Ok (bs, eof)" "rd1 = ?rd (pos + length bs)"
        "prefix bs (drop pos (take (nat len) (drop (nat off) (file_data s i))))" "length bs \<le> n" by blast
  then show ?case
  proof cases
    case 1
    then show ?thesis using Cons.IH [of pos log'] l log by simp
  next
    case 2
    then show ?thesis using Cons.IH [of "pos + length bs" log'] l log assms(2) by simp
  qed
qed simp

lemma keep_reader_runs: "prog_runs remote s (keep_reader rd p) s' (r, rd') \<Longrightarrow> prog_runs remote s p s' r \<and> rd' = rd"
  by (auto simp: keep_reader_def)

lemma getHandle_there:
  assumes "prog_runs remote s (getHandle ob True) s' x" and "fs_names s (fo_path ob) = Some i"
  shows "s' = s \<and> ((\<exists>e. x = Err e) \<or> x = Ok i)"
  using getHandle_runs [OF assms(1)] assms(2) by (auto simp: opened_def)

lemma open_range_runs:
  assumes "prog_runs remote s (local_inner ob ns rd (InnerOpenRange off len)) s' (r, rd')" and "fs_names s (fo_path ob) = Some i"
  shows "s' = s \<and> ((\<exists>e. r = RErr e) \<or> r = RUnit \<and> rd' = Some \<lparr>fr_file = i, fr_off = off, fr_limit = section_limit off len\<rparr>)"
proof -
  from assms(1) obtain x s1 where x: "prog_runs remote s (getHandle ob True) s1 x"
    and rest: "prog_runs remote s1 (prog_then (case x of Ok i \<Rightarrow> Done (Ok \<lparr>fr_file = i, fr_off = off, fr_limit = section_limit off len\<rparr>)
        | Err e \<Rightarrow> Done (Err e) | Panic \<Rightarrow> Done Panic)
      (\<lambda>x. case x of Ok rd' \<Rightarrow> Done (RUnit, Some rd') | _ \<Rightarrow> Done (RErr ErrOther, rd)) :: _ local_prog) s' (r, rd')"
    by (auto simp: fsObject_OpenRangeReader_def try_then_def)
  from getHandle_there [OF x assms(2)] rest show ?thesis by auto
qed

lemma range_close_runs:
  assumes "prog_runs remote s (local_inner ob ns rd InnerRangeClose) s' (r, rd')"
  shows "s' = s \<and> ((\<exists>e. r = RErr e) \<or> r = RUnit)"
  using assms by (auto simp: fsRange_Close_def local_runs split: option.splits dest!: keep_reader_runs reply_with_runs)

lemma local_call_runs:
  assumes "fs_names s (fo_path ob) = Some i" and "fo_path ob \<notin> fs_dirs s" and "int (length (file_data s i)) < 2 ^ 63"
    and "\<not> range_read c" and "prog_runs remote s (local_inner ob ns rd c) s' (r, rd')"
  shows "seek_remote (file_data s i) c r \<and> (reads_only c \<longrightarrow> s' = s)"
proof -
  have reply: "\<exists>x. prog_runs remote s p s' x \<and> (r = RErr ErrOther \<or> (\<exists>y. x = Ok y \<and> r = f y))"
    if "local_inner ob ns rd c = keep_reader rd (reply_with f p)" for f :: "'y \<Rightarrow> os_reply" and p :: "('e, 'y) outcome local_prog"
    using keep_reader_runs [OF assms(5) [unfolded that]] by (auto dest: reply_with_runs)
  show ?thesis
  proof (cases c)
    case (InnerReadAt n off)
    with reply fsObject_ReadAt_runs assms(1) show ?thesis by fastforce
  next
    case InnerSize
    then obtain x where x: "prog_runs remote s (fsObject_Size ob) s' x" "r = RErr ErrOther \<or> (\<exists>y. x = Ok y \<and> r = RCount y)"
      using reply [of RCount "fsObject_Size ob"] by auto
    from with_handle_there [OF x(1) [unfolded fsObject_Size_def] assms(1)]
    show ?thesis using x(2) assms(3) InnerSize by (auto simp: local_runs)
  next
    case (InnerOpenRange off len)
    with open_range_runs assms(1,5) show ?thesis by fastforce
  next
    case InnerRangeClose
    with range_close_runs assms(5) show ?thesis by fastforce
  next
    case InnerWriteTo
    with reply assms(1) show ?thesis by (fastforce dest!: fsObject_WriteTo_runs simp: content_of_def)
  next
    case InnerExists
    then obtain x where x: "prog_runs remote s (fsObject_Exists ob) s' x"
      "r = RErr ErrOther \<or> (\<exists>y. x = Ok y \<and> r = RCount (if y then 1 else 0))"
      using reply [of "\<lambda>b. RCount (if b then 1 else 0)" "fsObject_Exists ob"] by auto
    then show ?thesis using InnerExists assms(1,2) by (auto simp: fsObject_Exists_def local_runs)
  next
    case (InnerStoreFile path)
    with reply [of "\<lambda>_. RUnit" "fsObject_StoreFile ob path ns"] show ?thesis by auto
  next
    case (InnerPut data)
    with reply [of "\<lambda>_. RUnit" "fsObject_Put ob data"] show ?thesis by auto
  qed (use assms(4) in simp)
qed

lemma local_range_runs:
  assumes "fs_names s (fo_path ob) = Some i" and "fo_path ob \<notin> fs_dirs s" and "int (length (file_data s i)) < 2 ^ 63"
    and "0 \<le> off" and "0 \<le> len" and "prog_runs remote s (local_range ob ns off len sizes) s' log"
  shows "s' = s \<and> (\<forall>(c, r) \<in> set log. seek_remote (file_data s i) c r)"
proof -
  from assms(6) obtain r rd s1 where o: "prog_runs remote s (local_inner ob ns None (InnerOpenRange off len)) s1 (r, rd)"
    and rest: "if r \<noteq> RUnit then s' = s1 \<and> log = [(InnerOpenRange off len, r)]
      else \<exists>l rd1 s2 c rd2. prog_runs remote s1 (local_reads ob ns off len 0 rd sizes) s2 (l, rd1)
        \<and> prog_runs remote s2 (local_inner ob ns rd1 InnerRangeClose) s' (c, rd2)
        \<and> log = (InnerOpenRange off len, r) # l @ [(InnerRangeClose, c)]"
    unfolding local_range_def by (fastforce split: if_splits prod.splits simp del: local_inner.simps)
  note o' = open_range_runs [OF o assms(1)]
  show ?thesis
  proof (cases "r = RUnit")
    case True
    then obtain l rd1 s2 c rd2 where l: "prog_runs remote s (local_reads ob ns off len 0 rd sizes) s2 (l, rd1)"
      and c: "prog_runs remote s2 (local_inner ob ns rd1 InnerRangeClose) s' (c, rd2)"
      and log: "log = (InnerOpenRange off len, r) # l @ [(InnerRangeClose, c)]"
      using rest o' by auto
    from local_reads_runs [of remote s ob ns off len 0 i] l o' True assms(3-5)
    have "s2 = s" "\<forall>(c, r) \<in> set l. seek_remote (file_data s i) c r" by simp_all
    with range_close_runs [OF c] log True show ?thesis by auto
  next
    case False
    with rest o' show ?thesis by auto
  qed
qed

text \<open>
  C12.  A local object that exists keeps the contract the cache relies on.  Whatever single call the
  cache makes and whatever fails, the reply is one the contract allows for the bytes in the file, and
  only \<open>Put\<close> and \<open>StoreFile\<close> change anything.  When the cache opens a range that does not start before
  the object or have a negative length, reads it through the reader it got into buffers of any sizes,
  and closes it, every reply is one the contract allows at the position reached, and nothing changes.
\<close>

theorem local_object_contract:
  assumes "fs_names s (fo_path ob) = Some i" and "fo_path ob \<notin> fs_dirs s" and "int (length (file_data s i)) < 2 ^ 63"
  shows "(\<not> range_read c \<and> prog_runs remote s (local_inner ob ns rd c) s' (r, rd') \<longrightarrow>
        seek_remote (file_data s i) c r \<and> (reads_only c \<longrightarrow> s' = s))
    \<and> (0 \<le> off \<and> 0 \<le> len \<and> prog_runs remote s (local_range ob ns off len sizes) s'' log \<longrightarrow>
        s'' = s \<and> (\<forall>(c, r) \<in> set log. seek_remote (file_data s i) c r))"
  using local_call_runs [OF assms, of c remote ns rd s' r rd'] local_range_runs [OF assms, of off len remote ns sizes s'' log]
  by blast

lemma one_file_facts [simp]:
  "fs_names (one_file p d) = [p \<mapsto> 0]" "file_data (one_file p d) 0 = d" "fs_dirs (one_file p d) = {}" "fs_next (one_file p d) = 1"
  by (simp_all add: one_file_def)

lemma one_file_put: "fs_put 0 d' (one_file p d) = one_file p d'"
  by (simp add: one_file_def fs_put_def fs_create_def)

theorem local_object_contract_witness:
  "\<exists>log r. prog_runs (\<lambda>_ _. False) (one_file ''/o'' [7, 8, 9]) (local_range \<lparr>fo_path = ''/o''\<rparr> [] 1 5 [1, 4]) (one_file ''/o'' [7, 8, 9]) log
     \<and> log = [(InnerOpenRange 1 5, RUnit), (InnerRangeRead 1 5 0 1, RBytes [8] False), (InnerRangeRead 1 5 1 4, RBytes [9] True),
         (InnerRangeClose, RUnit)]
     \<and> (\<forall>(c, r) \<in> set log. seek_remote [7, 8, 9] c r)
     \<and> prog_runs (\<lambda>_ _. False) (one_file ''/o'' [7, 8, 9]) (local_inner \<lparr>fo_path = ''/o''\<rparr> [] None (InnerReadAt 2 1))
         (one_file ''/o'' [7, 8, 9]) (r, None)
     \<and> r = RBytes [8, 9] False \<and> seek_remote [7, 8, 9] (InnerReadAt 2 1) r"
proof -
  let ?s = "one_file ''/o'' [7, 8, 9]" and ?ob = "\<lparr>fo_path = ''/o''\<rparr>"
  let ?p = "local_range ?ob [] 1 5 [1, 4]" and ?q = "local_inner ?ob [] None (InnerReadAt 2 1)"
  let ?log = "[(InnerOpenRange 1 5, RUnit), (InnerRangeRead 1 5 0 1, RBytes [8] False), (InnerRangeRead 1 5 1 4, RBytes [9] True),
         (InnerRangeClose, RUnit)]"
  note defs = Let_def local_range_def section_limit_def fsObject_OpenRangeReader_def getHandle_def open_handle_def try_then_def
    fsRange_Read_def file_ReadAt_def fsRange_Close_def keep_reader_def reply_with_def fsObject_ReadAt_def with_handle_def
  have "run_prog (\<lambda>_. RUnit) 10 ?s ?p = (?s, Done ?log, [])" "run_valid (\<lambda>_ _. False) (\<lambda>_. RUnit) 10 ?s ?p"
    by (simp_all add: defs eval_nat_numeral)
  then have p: "prog_runs (\<lambda>_ _. False) ?s ?p ?s ?log" by (rule run_prog_runs)
  have "run_prog (\<lambda>_. RUnit) 10 ?s ?q = (?s, Done (RBytes [8, 9] False, None), [])" "run_valid (\<lambda>_ _. False) (\<lambda>_. RUnit) 10 ?s ?q"
    by (simp_all add: defs eval_nat_numeral)
  then have q: "prog_runs (\<lambda>_ _. False) ?s ?q ?s (RBytes [8, 9] False, None)" by (rule run_prog_runs)
  have "fs_names ?s (fo_path ?ob) = Some 0" "fo_path ?ob \<notin> fs_dirs ?s" "int (length (file_data ?s 0)) < 2 ^ 63" by simp_all
  from local_object_contract [OF this, of "InnerReadAt 2 1" _ "[]" None ?s "RBytes [8, 9] False" None 1 5 "[1, 4]" ?s ?log] p q
  have "\<forall>(c, r) \<in> set ?log. seek_remote [7, 8, 9] c r" "seek_remote [7, 8, 9] (InnerReadAt 2 1) (RBytes [8, 9] False)"
    by (simp_all only: one_file_facts range_read.simps simp_thms) auto
  then show ?thesis using p q by blast
qed

section \<open>Overwriting\<close>

text \<open>
  What is read after a write.  The file is opened without truncation: after a \<open>Put\<close> that
  succeeded, a \<open>WriteTo\<close> that succeeds delivers the new data followed by the tail of what the object
  held before, so it delivers what was put exactly when the object was not longer before.
\<close>

lemma local_put_read_back:
  assumes "prog_runs remote s (fsObject_Put ob data) s1 (Ok ())"
    and "prog_runs remote s1 (fsObject_WriteTo ob ns) s2 (Ok (n, dst))"
  shows "dst = data @ drop (length data) (content_of s (fo_path ob)) \<and> n = length dst
    \<and> (dst = data \<longleftrightarrow> length (content_of s (fo_path ob)) \<le> length data)"
  using fsObject_Put_runs [OF assms(1)] fsObject_WriteTo_runs [OF assms(2)] by auto

end
