(* ===== verification/Interleaving.thy ===== *)
theory Interleaving
  imports Aether_Prelude
begin

text \<open>
  Goroutines that share a state.  Each is at a point of its code; a step of the system is one atomic
  step of one of them, or a new one that starts.  The locale is the proof method for such systems: an
  invariant of the shared state, an assertion for every point of the code that no step of another
  goroutine breaks, and a weight for every point whose sum the shared state accounts for.
\<close>

inductive par_step :: "('s \<Rightarrow> 'p \<Rightarrow> 's \<Rightarrow> 'p \<Rightarrow> bool) \<Rightarrow> 'p set \<Rightarrow> 's \<times> 'p list \<Rightarrow> 's \<times> 'p list \<Rightarrow> bool"
  for step starts where
  run: "t < length ts \<Longrightarrow> step s (ts ! t) s' p \<Longrightarrow> par_step step starts (s, ts) (s', ts[t := p])"
| spawn: "p \<in> starts \<Longrightarrow> par_step step starts (s, ts) (s, ts @ [p])"

definition par_runs :: "('s \<Rightarrow> 'p \<Rightarrow> 's \<Rightarrow> 'p \<Rightarrow> bool) \<Rightarrow> 'p set \<Rightarrow> 's \<Rightarrow> 's \<Rightarrow> 'p list \<Rightarrow> bool" where
  "par_runs step starts s0 s ts \<longleftrightarrow> (par_step step starts)\<^sup>*\<^sup>* (s0, []) (s, ts)"

definition sum_of :: "('p \<Rightarrow> int) \<Rightarrow> 'p list \<Rightarrow> int" where
  "sum_of weight ts = sum_list (map weight ts)"

lemma sum_of_simps [simp]:
  "sum_of w [] = 0" "sum_of w (ts @ us) = sum_of w ts + sum_of w us" "sum_of w (p # ts) = w p + sum_of w ts"
  by (simp_all add: sum_of_def)

lemma sum_of_update: "t < length ts \<Longrightarrow> sum_of w (ts[t := p]) = sum_of w ts + w p - w (ts ! t)"
  by (induction ts arbitrary: t) (auto split: nat.splits)

lemma sum_of_nonneg: "(\<And>p. 0 \<le> w p) \<Longrightarrow> 0 \<le> sum_of w ts"
  by (induction ts) (auto intro: add_nonneg_nonneg)

lemma sum_of_member:
  assumes "\<And>p. 0 \<le> w p" and "p \<in> set ts"
  shows "w p \<le> sum_of w ts"
proof -
  from assms(2) obtain us vs where "ts = us @ p # vs" by (auto simp: in_set_conv_decomp)
  then show ?thesis using sum_of_nonneg [of w us, OF assms(1)] sum_of_nonneg [of w vs, OF assms(1)] by simp
qed

lemma sum_of_two:
  assumes "\<And>p. 0 \<le> w p" and "t < length ts" and "u < length ts" and "t \<noteq> u"
  shows "w (ts ! t) + w (ts ! u) \<le> sum_of w ts"
proof -
  have mem: "ts ! u \<in> set (take t ts @ drop (Suc t) ts)"
  proof (cases "u < t")
    case True
    then have "take t ts ! u = ts ! u" "u < length (take t ts)" using assms(2) by simp_all
    then show ?thesis by (metis Un_iff nth_mem set_append)
  next
    case False
    then have "drop (Suc t) ts ! (u - Suc t) = ts ! u" "u - Suc t < length (drop (Suc t) ts)" using assms(3,4) by simp_all
    then show ?thesis by (metis Un_iff nth_mem set_append)
  qed
  have "sum_of w ts = w (ts ! t) + sum_of w (take t ts @ drop (Suc t) ts)"
    using arg_cong [OF id_take_nth_drop [OF assms(2)], of "sum_of w"] by simp
  with sum_of_member [OF assms(1) mem] show ?thesis by simp
qed

text \<open>Runs of one goroutine.\<close>

lemma single_start: "p \<in> starts \<Longrightarrow> par_runs step starts s s [p]"
  using par_step.spawn [of p starts step s "[]"] by (auto simp: par_runs_def)

lemma single_step: "par_runs step starts s0 s [p] \<Longrightarrow> step s p s' p' \<Longrightarrow> par_runs step starts s0 s' [p']"
  using par_step.run [of 0 "[p]" step s s' p' starts] by (auto simp: par_runs_def intro: rtranclp.rtrancl_into_rtrancl)

text \<open>Runs of many, step by step.\<close>

lemma runs_spawn: "par_runs step starts s0 s ts \<Longrightarrow> p \<in> starts \<Longrightarrow> par_runs step starts s0 s (ts @ [p])"
  unfolding par_runs_def by (erule rtranclp.rtrancl_into_rtrancl) (rule par_step.spawn)

lemma runs_run: "par_runs step starts s0 s ts \<Longrightarrow> t < length ts \<Longrightarrow> step s (ts ! t) s' p \<Longrightarrow> par_runs step starts s0 s' (ts[t := p])"
  unfolding par_runs_def by (erule rtranclp.rtrancl_into_rtrancl) (rule par_step.run)

text \<open>A condition on the state that, once lost, stays lost holds in every state of a run that ends with it.\<close>

lemma runs_restrict:
  assumes "par_runs step starts s0 s ts" and "P s" and "\<And>s p s' p'. step s p s' p' \<Longrightarrow> P s' \<Longrightarrow> P s"
  shows "par_runs (\<lambda>s p s' p'. step s p s' p' \<and> P s') starts s0 s ts"
proof -
  let ?step = "\<lambda>s p s' p'. step s p s' p' \<and> P s'"
  have "P s \<longrightarrow> (par_step ?step starts)\<^sup>*\<^sup>* (s0, []) (s, ts)"
    using assms(1) unfolding par_runs_def
  proof (induction rule: rtranclp_induct2)
    case (step s1 ts1 s2 ts2)
    show ?case
    proof
      assume P2: "P s2"
      have "P s1" using step.hyps(2) P2 assms(3) by (auto elim!: par_step.cases)
      moreover have "par_step ?step starts (s1, ts1) (s2, ts2)" using step.hyps(2) P2 by (auto elim!: par_step.cases intro: par_step.intros)
      ultimately show "(par_step ?step starts)\<^sup>*\<^sup>* (s0, []) (s2, ts2)" using step.IH by (simp add: rtranclp.rtrancl_into_rtrancl)
    qed
  qed simp
  then show ?thesis using assms(2) unfolding par_runs_def by blast
qed

locale interleaving =
  fixes step :: "'s \<Rightarrow> 'p \<Rightarrow> 's \<Rightarrow> 'p \<Rightarrow> bool" and starts :: "'p set"
    and inv :: "'s \<Rightarrow> bool" and asrt :: "'s \<Rightarrow> 'p \<Rightarrow> bool" and weight :: "'p \<Rightarrow> int" and total :: "'s \<Rightarrow> int"
  assumes start_ok: "p \<in> starts \<Longrightarrow> inv s \<Longrightarrow> asrt s p \<and> weight p = 0"
    and weight_nonneg: "0 \<le> weight p"
    and step_ok: "step s p s' p' \<Longrightarrow> inv s \<Longrightarrow> asrt s p \<Longrightarrow> weight p \<le> total s \<Longrightarrow>
      inv s' \<and> asrt s' p' \<and> total s' + weight p = total s + weight p'"
    and step_free: "step s p s' p' \<Longrightarrow> inv s \<Longrightarrow> asrt s p \<Longrightarrow> weight p + weight q \<le> total s \<Longrightarrow> asrt s q \<Longrightarrow> asrt s' q"
begin

lemma step_keeps:
  assumes "par_step step starts (s, ts) (s', ts')"
    and "inv s" and "\<forall>p \<in> set ts. asrt s p" and "sum_of weight ts = total s"
  shows "inv s' \<and> (\<forall>p \<in> set ts'. asrt s' p) \<and> sum_of weight ts' = total s'"
  using assms(1)
proof cases
  case (run t p)
  have p: "asrt s (ts ! t)" using run assms(3) by simp
  have w: "weight (ts ! t) \<le> total s" using sum_of_member [of weight "ts ! t" ts, OF weight_nonneg] run assms(4) by simp
  note ok = step_ok [OF run(3) assms(2) p w]
  have "asrt s' (ts' ! u)" if u: "u < length ts'" for u
  proof (cases "u = t")
    case False
    then have "weight (ts ! t) + weight (ts ! u) \<le> total s" using sum_of_two [of weight t ts u, OF weight_nonneg] run u assms(4) by simp
    then show ?thesis using step_free [OF run(3) assms(2) p, of "ts ! u"] assms(3) run(1) u False by simp
  qed (use run ok in simp)
  then have "\<forall>q \<in> set ts'. asrt s' q" by (auto simp: in_set_conv_nth)
  then show ?thesis using ok run assms(4) by (simp add: sum_of_update)
next
  case (spawn p)
  then show ?thesis using start_ok [of p s] assms(2-4) by auto
qed

lemma steps_keep:
  assumes "(par_step step starts)\<^sup>*\<^sup>* (s, ts) (s', ts')" and "inv s" and "\<forall>p \<in> set ts. asrt s p" and "sum_of weight ts = total s"
  shows "inv s' \<and> (\<forall>p \<in> set ts'. asrt s' p) \<and> sum_of weight ts' = total s'"
  using assms(1)
proof (induction rule: rtranclp_induct2)
  case refl
  then show ?case using assms(2-4) by simp
next
  case (step s1 ts1 s2 ts2)
  then show ?case using step_keeps by blast
qed

lemma runs_keep:
  assumes "par_runs step starts s0 s ts" and "inv s0" and "total s0 = 0"
  shows "inv s" and "p \<in> set ts \<Longrightarrow> asrt s p" and "sum_of weight ts = total s"
  using steps_keep [of s0 "[]" s ts] assms unfolding par_runs_def by auto

end

end
