(* ===== verification/Admission_Limits.thy ===== *)
theory Admission_Limits
  imports Interleaving
begin

text \<open>
  What bounds concurrency in the shared packages: the semaphore whose limit can be changed
  (\<open>utils/resizable_semaphore.go\<close>), the limiter of connections per sandbox (\<open>connlimit/limiter.go\<close>)
  and updates that are rolled back together (\<open>utils/apply_all_or_none.go\<close>).  The semaphore works under
  a mutex, so its operations are atomic; the counters of the limiter are only loaded and compared and
  swapped atomically.  The concurrent map of the limiter is a third-party package: a parameter with
  its documented laws.
\<close>

section \<open>The semaphore\<close>

record AdjustableSemaphore =
  sm_used :: i64
  sm_limit :: i64

definition NewAdjustableSemaphore :: "i64 \<Rightarrow> (unit, AdjustableSemaphore) outcome" where
  "NewAdjustableSemaphore limit = (if sint limit \<le> 0 then Err () else Ok \<lparr>sm_used = 0, sm_limit = limit\<rparr>)"

datatype acquire_turn = Acquired | Waiting | AcquireError

text \<open>One turn of the loop of \<open>Acquire\<close>: \<open>cancelled\<close> says whether the context is done.\<close>

definition Acquire :: "bool \<Rightarrow> i64 \<Rightarrow> AdjustableSemaphore \<Rightarrow> acquire_turn \<times> AdjustableSemaphore" where
  "Acquire cancelled n s =
     (if sint n \<le> 0 then (AcquireError, s)
      else if sint (sm_limit s) < sint (sm_used s + n) then (if cancelled then AcquireError else Waiting, s)
      else (Acquired, s\<lparr>sm_used := sm_used s + n\<rparr>))"

definition TryAcquire :: "i64 \<Rightarrow> AdjustableSemaphore \<Rightarrow> bool \<times> AdjustableSemaphore" where
  "TryAcquire n s =
     (if sint n \<le> 0 then (False, s)
      else if sint (sm_limit s) < sint (sm_used s + n) then (False, s)
      else (True, s\<lparr>sm_used := sm_used s + n\<rparr>))"

definition SetLimit :: "i64 \<Rightarrow> AdjustableSemaphore \<Rightarrow> (unit, AdjustableSemaphore) outcome" where
  "SetLimit limit s = (if sint limit \<le> 0 then Err () else Ok (s\<lparr>sm_limit := limit\<rparr>))"

definition Release :: "i64 \<Rightarrow> AdjustableSemaphore \<Rightarrow> (unit, AdjustableSemaphore) outcome" where
  "Release n s =
     (if sint n \<le> 0 then Panic
      else if sint (sm_used s) < sint n then Panic
      else Ok (s\<lparr>sm_used := sm_used s - n\<rparr>))"

text \<open>A goroutine that acquires, holds and releases, or that changes the limit.\<close>

datatype sem_pc =
    SemAcquire i64 | SemTry i64 | SemHeld i64 | SemRefused | SemReleased | SemPanicked
  | SemSetLimit i64 | SemLimitSet "(unit, unit) outcome"

inductive sem_step :: "AdjustableSemaphore \<Rightarrow> sem_pc \<Rightarrow> AdjustableSemaphore \<Rightarrow> sem_pc \<Rightarrow> bool" where
  acquired: "Acquire cancelled n s = (Acquired, s') \<Longrightarrow> sem_step s (SemAcquire n) s' (SemHeld n)"
| waiting: "Acquire cancelled n s = (Waiting, s') \<Longrightarrow> sem_step s (SemAcquire n) s' (SemAcquire n)"
| failed: "Acquire cancelled n s = (AcquireError, s') \<Longrightarrow> sem_step s (SemAcquire n) s' SemRefused"
| tried: "TryAcquire n s = (b, s') \<Longrightarrow> sem_step s (SemTry n) s' (if b then SemHeld n else SemRefused)"
| released: "Release n s = Ok s' \<Longrightarrow> sem_step s (SemHeld n) s' SemReleased"
| panicked: "Release n s = Panic \<Longrightarrow> sem_step s (SemHeld n) s SemPanicked"
| limit_set: "SetLimit l s = Ok s' \<Longrightarrow> sem_step s (SemSetLimit l) s' (SemLimitSet (Ok ()))"
| limit_refused: "SetLimit l s = Err e \<Longrightarrow> sem_step s (SemSetLimit l) s (SemLimitSet (Err e))"

text \<open>No goroutine asks for \<open>2\<^sup>6\<^sup>2\<close> or more, and no limit is above \<open>m\<close>.\<close>

fun sem_start :: "int \<Rightarrow> sem_pc \<Rightarrow> bool" where
  "sem_start m (SemAcquire n) \<longleftrightarrow> sint n < 2 ^ 62"
| "sem_start m (SemTry n) \<longleftrightarrow> sint n < 2 ^ 62"
| "sem_start m (SemSetLimit l) \<longleftrightarrow> sint l \<le> m"
| "sem_start m _ \<longleftrightarrow> False"

fun sem_asrt :: "int \<Rightarrow> sem_pc \<Rightarrow> bool" where
  "sem_asrt m (SemHeld n) \<longleftrightarrow> 0 < sint n"
| "sem_asrt m SemPanicked \<longleftrightarrow> False"
| "sem_asrt m (SemAcquire n) \<longleftrightarrow> sint n < 2 ^ 62"
| "sem_asrt m (SemTry n) \<longleftrightarrow> sint n < 2 ^ 62"
| "sem_asrt m (SemSetLimit l) \<longleftrightarrow> sint l \<le> m"
| "sem_asrt m _ \<longleftrightarrow> True"

fun sem_held :: "sem_pc \<Rightarrow> int" where
  "sem_held (SemHeld n) = max 0 (sint n)"
| "sem_held _ = 0"

definition sem_inv :: "int \<Rightarrow> AdjustableSemaphore \<Rightarrow> bool" where
  "sem_inv m s \<longleftrightarrow> m < 2 ^ 62 \<and> 0 \<le> sint (sm_used s) \<and> sint (sm_used s) \<le> m \<and> 0 < sint (sm_limit s) \<and> sint (sm_limit s) \<le> m"

lemma sint_add_small:
  assumes "0 \<le> sint a + sint b" and "sint a + sint b < 2 ^ 63"
  shows "sint (a + b :: i64) = sint a + sint b"
proof -
  have "a + b = word_of_int (sint a + sint b)" by simp
  then show ?thesis using sint_word_of_int_small [OF assms(1)] assms(2) by simp
qed

lemma sint_diff_small:
  assumes "0 \<le> sint a - sint b" and "sint a - sint b < 2 ^ 63"
  shows "sint (a - b :: i64) = sint a - sint b"
proof -
  have "a - b = word_of_int (sint a - sint b)" by simp
  then show ?thesis using sint_word_of_int_small [OF assms(1)] assms(2) by simp
qed

lemma sem_grant:
  assumes "sem_inv m s" and "0 < sint n" and "sint n < 2 ^ 62" and "sint (sm_used s + n) \<le> sint (sm_limit s)"
  shows "sem_inv m (s\<lparr>sm_used := sm_used s + n\<rparr>) \<and> sint (sm_used s + n) = sint (sm_used s) + sint n"
proof -
  have "sint (sm_used s + n) = sint (sm_used s) + sint n"
    using assms(1-3) by (intro sint_add_small) (auto simp: sem_inv_def)
  then show ?thesis using assms by (auto simp: sem_inv_def)
qed

lemma sem_give_back:
  assumes "sem_inv m s" and "0 < sint n" and "sint n \<le> sint (sm_used s)"
  shows "sem_inv m (s\<lparr>sm_used := sm_used s - n\<rparr>) \<and> sint (sm_used s - n) = sint (sm_used s) - sint n"
proof -
  have "sint (sm_used s - n) = sint (sm_used s) - sint n"
    using assms by (intro sint_diff_small) (auto simp: sem_inv_def)
  then show ?thesis using assms by (auto simp: sem_inv_def)
qed

interpretation sem: interleaving sem_step "Collect (sem_start m)" "sem_inv m" "\<lambda>_. sem_asrt m" sem_held "\<lambda>s. sint (sm_used s)" for m
proof
  show "sem_asrt m p \<and> sem_held p = 0" if "p \<in> Collect (sem_start m)" for p using that by (cases p) auto
  show "0 \<le> sem_held p" for p by (cases p) auto
  show "sem_inv m s' \<and> sem_asrt m p' \<and> sint (sm_used s') + sem_held p = sint (sm_used s) + sem_held p'"
    if "sem_step s p s' p'" "sem_inv m s" "sem_asrt m p" "sem_held p \<le> sint (sm_used s)" for s s' p p'
    using that
  proof (induction rule: sem_step.induct)
    case (acquired cancelled n s s')
    then show ?case using sem_grant [of m s n] by (auto simp: Acquire_def split: if_splits)
  next
    case (tried n s b s')
    then show ?case using sem_grant [of m s n] by (auto simp: TryAcquire_def split: if_splits)
  next
    case (released n s s')
    then show ?case using sem_give_back [of m s n] by (auto simp: Release_def split: if_splits)
  next
    case (limit_set l s s')
    then show ?case by (auto simp: SetLimit_def sem_inv_def split: if_splits)
  qed (auto simp: Acquire_def Release_def split: if_splits)
qed

text \<open>
  C27.  The semaphore keeps its books.  However many goroutines acquire, try, release and change the
  limit at the same time, as long as every amount asked for is below \<open>2\<^sup>6\<^sup>2\<close> and every limit, the first
  and those set later, is at most some \<open>m\<close> below it: what is used is exactly the sum of what they hold, it
  is never more than \<open>m\<close>, and nobody who releases what it acquired panics.
\<close>

theorem semaphore_accounts:
  assumes "par_runs sem_step (Collect (sem_start m)) s0 s ts" and "NewAdjustableSemaphore l = Ok s0"
    and "sint l \<le> m" and "m < 2 ^ 62"
  shows "sint (sm_used s) = sum_of sem_held ts \<and> sum_of sem_held ts \<le> m \<and> SemPanicked \<notin> set ts"
proof -
  have start: "sem_inv m s0" "sint (sm_used s0) = 0"
    using assms(2-4) by (auto simp: NewAdjustableSemaphore_def sem_inv_def split: if_splits)
  note keep = sem.runs_keep [OF assms(1) start]
  show ?thesis using keep(1) keep(3) keep(2) [of SemPanicked] by (auto simp: sem_inv_def)
qed

theorem semaphore_accounts_witness:
  "\<exists>s ts. par_runs sem_step (Collect (sem_start 3)) \<lparr>sm_used = 0, sm_limit = 3\<rparr> s ts \<and> SemHeld 2 \<in> set ts
     \<and> sint (sm_used s) = sum_of sem_held ts"
proof -
  let ?s0 = "\<lparr>sm_used = 0, sm_limit = 3\<rparr>"
  let ?step = "par_step sem_step (Collect (sem_start 3))"
  have 1: "?step (?s0, []) (?s0, [] @ [SemTry 2])" by (rule par_step.spawn) simp
  have "TryAcquire 2 ?s0 = (True, \<lparr>sm_used = 2, sm_limit = 3\<rparr>)" by (simp add: TryAcquire_def)
  from sem_step.tried [OF this]
  have 2: "?step (?s0, [SemTry 2]) (\<lparr>sm_used = 2, sm_limit = 3\<rparr>, [SemTry 2][0 := SemHeld 2])"
    by (intro par_step.run) simp_all
  have "?step\<^sup>*\<^sup>* (?s0, []) (\<lparr>sm_used = 2, sm_limit = 3\<rparr>, [SemHeld 2])"
    using 1 2 by (simp add: converse_rtranclp_into_rtranclp)
  then have "par_runs sem_step (Collect (sem_start 3)) ?s0 \<lparr>sm_used = 2, sm_limit = 3\<rparr> [SemHeld 2]" by (simp add: par_runs_def)
  with semaphore_accounts [OF this, of 3] show ?thesis by (fastforce simp: NewAdjustableSemaphore_def)
qed

text \<open>
  Without the bound on what is asked for the test wraps around: while anything at all is in use,
  asking for the largest amount is granted whatever the limit, and leaves a negative count.
\<close>

lemma semaphore_wraps:
  assumes "0 < sint (sm_used s)" and "0 < sint (sm_limit s)"
  shows "\<exists>s'. TryAcquire (2 ^ 63 - 1) s = (True, s') \<and> sint (sm_used s') < 0"
proof -
  let ?n = "2 ^ 63 - 1 :: i64"
  obtain k where k: "sm_used s = word_of_int k" "k = sint (sm_used s)" by simp
  have lt: "k < 2 ^ 63" using sint_lt [of "sm_used s"] k(2) by simp
  have n: "sint ?n = 2 ^ 63 - 1" by simp
  have "?n = - 9223372036854775809" by code_simp
  then have "sm_used s + ?n = word_of_int k - word_of_int 9223372036854775809" using k(1) by simp
  also have "\<dots> = word_of_int (k - 1 - 2 ^ 63)" by (simp only: flip: of_int_diff) simp
  finally have "sm_used s + ?n = word_of_int (k - 1 - 2 ^ 63)" .
  moreover have "sint (word_of_int (k - 1 - 2 ^ 63) :: i64) = k - 1 - 2 ^ 63"
    unfolding sint_sbintrunc' by (rule signed_take_bit_int_eq_self) (use assms(1) k(2) lt in simp_all)
  ultimately have "sint (sm_used s + ?n) = k - 1 - 2 ^ 63" by (simp only:)
  then show ?thesis using assms k(2) lt n by (simp add: TryAcquire_def)
qed

section \<open>Connections per sandbox\<close>

text \<open>
  The concurrent map: reading a key, storing by a callback that sees the value in the map, removing.
  The laws are what the package documents of them.
\<close>

record ('m, 'v) cmap =
  cm_New :: 'm
  cm_Get :: "'m \<Rightarrow> string \<Rightarrow> 'v option"
  cm_Upsert :: "'m \<Rightarrow> string \<Rightarrow> 'v \<Rightarrow> ('v option \<Rightarrow> 'v \<Rightarrow> 'v) \<Rightarrow> 'v \<times> 'm"
  cm_Remove :: "'m \<Rightarrow> string \<Rightarrow> 'm"

definition cmap_laws :: "('m, 'v) cmap \<Rightarrow> bool" where
  "cmap_laws M \<longleftrightarrow>
     (\<forall>k. cm_Get M (cm_New M) k = None)
     \<and> (\<forall>m k v cb. fst (cm_Upsert M m k v cb) = cb (cm_Get M m k) v
          \<and> (\<forall>j. cm_Get M (snd (cm_Upsert M m k v cb)) j = (if j = k then Some (cb (cm_Get M m k) v) else cm_Get M m j)))
     \<and> (\<forall>m k j. cm_Get M (cm_Remove M m k) j = (if j = k then None else cm_Get M m j))"

text \<open>The counters are objects the map points to.\<close>

record 'm ConnectionLimiter =
  cl_connections :: 'm
  cl_counters :: "nat \<Rightarrow> int"
  cl_next :: nat

definition NewConnectionLimiter :: "('m, nat) cmap \<Rightarrow> 'm ConnectionLimiter" where
  "NewConnectionLimiter M = \<lparr>cl_connections = cm_New M, cl_counters = (\<lambda>_. 0), cl_next = 0\<rparr>"

definition getCounter :: "('m, nat) cmap \<Rightarrow> string \<Rightarrow> 'm ConnectionLimiter \<Rightarrow> nat \<times> 'm ConnectionLimiter" where
  "getCounter M sandboxID l =
     (let fresh = cl_next l;
          (counter, m) = cm_Upsert M (cl_connections l) sandboxID fresh (\<lambda>old new. case old of Some v \<Rightarrow> v | None \<Rightarrow> new)
      in (counter, l\<lparr>cl_connections := m, cl_counters := (cl_counters l)(fresh := 0), cl_next := Suc fresh\<rparr>))"

definition CompareAndSwap :: "nat \<Rightarrow> int \<Rightarrow> int \<Rightarrow> 'm ConnectionLimiter \<Rightarrow> bool \<times> 'm ConnectionLimiter" where
  "CompareAndSwap counter old new l =
     (if cl_counters l counter = old then (True, l\<lparr>cl_counters := (cl_counters l)(counter := new)\<rparr>) else (False, l))"

definition limiter_Remove :: "('m, nat) cmap \<Rightarrow> string \<Rightarrow> 'm ConnectionLimiter \<Rightarrow> 'm ConnectionLimiter" where
  "limiter_Remove M sandboxID l = l\<lparr>cl_connections := cm_Remove M (cl_connections l) sandboxID\<rparr>"

definition limiter_Count :: "('m, nat) cmap \<Rightarrow> string \<Rightarrow> 'm ConnectionLimiter \<Rightarrow> int" where
  "limiter_Count M sandboxID l =
     (case cm_Get M (cl_connections l) sandboxID of Some counter \<Rightarrow> cl_counters l counter | None \<Rightarrow> 0)"

text \<open>
  A goroutine that tries to get a connection for a sandbox, holds it and releases it.  \<open>TryAcquire\<close>
  and \<open>Release\<close> load the counter and compare and swap it until that succeeds.
\<close>

datatype conn_pc =
    ConnStart string int | ConnLoad string int nat | ConnSwap string int nat int
  | ConnRefused string int | ConnHeld string int
  | ConnLoadRelease string nat | ConnSwapRelease string nat int | ConnReleased string

inductive conn_step ::
  "('m, nat) cmap \<Rightarrow> 'm ConnectionLimiter \<Rightarrow> conn_pc \<Rightarrow> 'm ConnectionLimiter \<Rightarrow> conn_pc \<Rightarrow> bool" for M where
  enter: "getCounter M k l = (c, l') \<Longrightarrow> conn_step M l (ConnStart k limit) l' (ConnLoad k limit c)"
| refuse: "0 \<le> limit \<Longrightarrow> limit \<le> cl_counters l c \<Longrightarrow> conn_step M l (ConnLoad k limit c) l (ConnRefused k (cl_counters l c))"
| load: "\<not> (0 \<le> limit \<and> limit \<le> cl_counters l c) \<Longrightarrow>
    conn_step M l (ConnLoad k limit c) l (ConnSwap k limit c (cl_counters l c))"
| swap: "CompareAndSwap c current (current + 1) l = (True, l') \<Longrightarrow>
    conn_step M l (ConnSwap k limit c current) l' (ConnHeld k (current + 1))"
| swap_again: "CompareAndSwap c current (current + 1) l = (False, l') \<Longrightarrow>
    conn_step M l (ConnSwap k limit c current) l' (ConnLoad k limit c)"
| release: "cm_Get M (cl_connections l) k = Some c \<Longrightarrow> conn_step M l (ConnHeld k n) l (ConnLoadRelease k c)"
| release_gone: "cm_Get M (cl_connections l) k = None \<Longrightarrow> conn_step M l (ConnHeld k n) l (ConnReleased k)"
| release_load: "0 < cl_counters l c \<Longrightarrow> conn_step M l (ConnLoadRelease k c) l (ConnSwapRelease k c (cl_counters l c))"
| release_zero: "cl_counters l c \<le> 0 \<Longrightarrow> conn_step M l (ConnLoadRelease k c) l (ConnReleased k)"
| release_swap: "CompareAndSwap c current (current - 1) l = (True, l') \<Longrightarrow>
    conn_step M l (ConnSwapRelease k c current) l' (ConnReleased k)"
| release_again: "CompareAndSwap c current (current - 1) l = (False, l') \<Longrightarrow>
    conn_step M l (ConnSwapRelease k c current) l' (ConnLoadRelease k c)"

fun conn_start :: "string \<Rightarrow> int \<Rightarrow> conn_pc \<Rightarrow> bool" where
  "conn_start key limit (ConnStart k n) \<longleftrightarrow> (k = key \<longrightarrow> n = limit)"
| "conn_start key limit _ \<longleftrightarrow> False"

text \<open>The connections for a sandbox that are held: until the release has taken effect.\<close>

fun conn_held :: "string \<Rightarrow> conn_pc \<Rightarrow> int" where
  "conn_held key (ConnHeld k n) = (if k = key then 1 else 0)"
| "conn_held key (ConnLoadRelease k c) = (if k = key then 1 else 0)"
| "conn_held key (ConnSwapRelease k c n) = (if k = key then 1 else 0)"
| "conn_held key _ = 0"

fun conn_asrt :: "('m, nat) cmap \<Rightarrow> string \<Rightarrow> int \<Rightarrow> 'm ConnectionLimiter \<Rightarrow> conn_pc \<Rightarrow> bool" where
  "conn_asrt M key limit l (ConnStart k n) \<longleftrightarrow> (k = key \<longrightarrow> n = limit)"
| "conn_asrt M key limit l (ConnLoad k n c) \<longleftrightarrow> cm_Get M (cl_connections l) k = Some c \<and> (k = key \<longrightarrow> n = limit)"
| "conn_asrt M key limit l (ConnSwap k n c cur) \<longleftrightarrow>
     cm_Get M (cl_connections l) k = Some c \<and> (k = key \<longrightarrow> n = limit \<and> cur < limit)"
| "conn_asrt M key limit l (ConnHeld k n) \<longleftrightarrow> cm_Get M (cl_connections l) k \<noteq> None"
| "conn_asrt M key limit l (ConnLoadRelease k c) \<longleftrightarrow> cm_Get M (cl_connections l) k = Some c"
| "conn_asrt M key limit l (ConnSwapRelease k c cur) \<longleftrightarrow> cm_Get M (cl_connections l) k = Some c \<and> 0 < cur"
| "conn_asrt M key limit l _ \<longleftrightarrow> True"

definition conn_inv :: "('m, nat) cmap \<Rightarrow> string \<Rightarrow> int \<Rightarrow> 'm ConnectionLimiter \<Rightarrow> bool" where
  "conn_inv M key limit l \<longleftrightarrow>
     (\<forall>k c. cm_Get M (cl_connections l) k = Some c \<longrightarrow> c < cl_next l
        \<and> (\<forall>j. cm_Get M (cl_connections l) j = Some c \<longrightarrow> j = k))
     \<and> 0 \<le> limiter_Count M key l \<and> limiter_Count M key l \<le> limit"

lemma cmap_Upsert:
  assumes "cmap_laws M" and "cm_Upsert M m k v cb = (r, m')"
  shows "r = cb (cm_Get M m k) v" "cm_Get M m' j = (if j = k then Some r else cm_Get M m j)"
proof -
  have "fst (cm_Upsert M m k v cb) = cb (cm_Get M m k) v"
    "cm_Get M (snd (cm_Upsert M m k v cb)) j = (if j = k then Some (cb (cm_Get M m k) v) else cm_Get M m j)"
    using assms(1) by (simp_all add: cmap_laws_def)
  then show "r = cb (cm_Get M m k) v" "cm_Get M m' j = (if j = k then Some r else cm_Get M m j)"
    using assms(2) by simp_all
qed

lemma getCounter_facts:
  assumes "cmap_laws M" and "getCounter M k l = (c, l')"
  shows "c = (case cm_Get M (cl_connections l) k of Some v \<Rightarrow> v | None \<Rightarrow> cl_next l)"
    "cm_Get M (cl_connections l') j = (if j = k then Some c else cm_Get M (cl_connections l) j)"
    "cl_counters l' = (cl_counters l)(cl_next l := 0)" "cl_next l' = Suc (cl_next l)"
proof -
  obtain m where u: "cm_Upsert M (cl_connections l) k (cl_next l) (\<lambda>old new. case old of Some v \<Rightarrow> v | None \<Rightarrow> new) = (c, m)"
    and l': "l' = l\<lparr>cl_connections := m, cl_counters := (cl_counters l)(cl_next l := 0), cl_next := Suc (cl_next l)\<rparr>"
    using assms(2) by (auto simp: getCounter_def Let_def split: prod.splits)
  note * = cmap_Upsert [OF assms(1) u]
  show "c = (case cm_Get M (cl_connections l) k of Some v \<Rightarrow> v | None \<Rightarrow> cl_next l)" by (rule *(1))
  show "cm_Get M (cl_connections l') j = (if j = k then Some c else cm_Get M (cl_connections l) j)"
    using *(2) [of j] by (simp add: l')
  show "cl_counters l' = (cl_counters l)(cl_next l := 0)" "cl_next l' = Suc (cl_next l)" by (simp_all add: l')
qed

lemma CompareAndSwap_facts:
  assumes "CompareAndSwap c old new l = (b, l')"
  shows "b \<Longrightarrow> cl_counters l c = old \<and> l' = l\<lparr>cl_counters := (cl_counters l)(c := new)\<rparr>" "\<not> b \<Longrightarrow> l' = l"
  using assms by (auto simp: CompareAndSwap_def split: if_splits)

lemma conn_inv_map:
  assumes "conn_inv M key limit l" and "cm_Get M (cl_connections l) k = Some c"
  shows "c < cl_next l" "cm_Get M (cl_connections l) j = Some c \<Longrightarrow> j = k"
  using assms by (auto simp: conn_inv_def)

lemma limiter_Count_swap:
  assumes "conn_inv M key limit l" and "cm_Get M (cl_connections l) k = Some c"
  shows "limiter_Count M key (l\<lparr>cl_counters := (cl_counters l)(c := v)\<rparr>) = (if k = key then v else limiter_Count M key l)"
  using conn_inv_map(2) [OF assms, of key] assms(2) by (auto simp: limiter_Count_def split: option.splits)

lemma conn_inv_swap:
  assumes "conn_inv M key limit l" and "cm_Get M (cl_connections l) k = Some c" and "k = key \<Longrightarrow> 0 \<le> v \<and> v \<le> limit"
  shows "conn_inv M key limit (l\<lparr>cl_counters := (cl_counters l)(c := v)\<rparr>)"
  using assms limiter_Count_swap [OF assms(1,2), of v] by (auto simp: conn_inv_def)

text \<open>Entering keeps every counter that is there and adds a zero one where there was none.\<close>

lemma conn_enter:
  assumes "cmap_laws M" and "getCounter M k l = (c, l')" and "conn_inv M key limit l"
  shows "conn_inv M key limit l'" "limiter_Count M key l' = limiter_Count M key l"
    "cm_Get M (cl_connections l) j = Some d \<Longrightarrow> cm_Get M (cl_connections l') j = Some d"
    "cm_Get M (cl_connections l') k = Some c"
proof -
  note g = getCounter_facts [OF assms(1,2)]
  show keep: "cm_Get M (cl_connections l') j = Some d" if "cm_Get M (cl_connections l) j = Some d" for j d
    using that g(1,2) by auto
  show "cm_Get M (cl_connections l') k = Some c" by (simp add: g(2))
  have old: "cl_counters l' d = cl_counters l d" if "cm_Get M (cl_connections l) j = Some d" for j d
    using conn_inv_map(1) [OF assms(3) that] by (simp add: g(3))
  show count: "limiter_Count M key l' = limiter_Count M key l"
  proof (cases "cm_Get M (cl_connections l) key")
    case None
    then show ?thesis using g by (auto simp: limiter_Count_def split: option.splits if_splits)
  next
    case (Some d)
    then show ?thesis using keep [OF Some] old [OF Some] by (simp add: limiter_Count_def)
  qed
  have new: "c = cl_next l" if "cm_Get M (cl_connections l) k = None" using that g(1) by simp
  have "d < cl_next l' \<and> (\<forall>i. cm_Get M (cl_connections l') i = Some d \<longrightarrow> i = j)"
    if d: "cm_Get M (cl_connections l') j = Some d" for j d
  proof (cases "cm_Get M (cl_connections l) k")
    case None
    then show ?thesis
      using d g(2,4) new conn_inv_map [OF assms(3)] by (fastforce split: if_splits)
  next
    case (Some e)
    then have "cm_Get M (cl_connections l') i = cm_Get M (cl_connections l) i" for i using g(1,2) by auto
    then show ?thesis using d g(4) conn_inv_map [OF assms(3), of j d] by auto
  qed
  then show "conn_inv M key limit l'" using assms(3) count by (simp add: conn_inv_def)
qed

lemma conn_asrt_stable:
  assumes "conn_asrt M key limit l q" and "\<And>k c. cm_Get M (cl_connections l) k = Some c \<Longrightarrow> cm_Get M (cl_connections l') k = Some c"
  shows "conn_asrt M key limit l' q"
  using assms by (cases q) auto

lemma conn_step_keeps_map:
  assumes "conn_step M l p l' p'" and "cmap_laws M" and "conn_inv M key limit l" and "cm_Get M (cl_connections l) k = Some c"
  shows "cm_Get M (cl_connections l') k = Some c"
  using assms
proof (induction rule: conn_step.induct)
  case (enter j l d l' limit')
  then show ?case using conn_enter(3) by metis
qed (auto simp: CompareAndSwap_def split: if_splits)

lemma conn_step_ok:
  assumes "conn_step M l p l' p'" and "cmap_laws M" and "0 \<le> limit" and "conn_inv M key limit l" and "conn_asrt M key limit l p"
    and "conn_held key p \<le> limiter_Count M key l"
  shows "conn_inv M key limit l' \<and> conn_asrt M key limit l' p'
    \<and> limiter_Count M key l' + conn_held key p = limiter_Count M key l + conn_held key p'"
  using assms
proof (induction rule: conn_step.induct)
  case (enter k l c l' n)
  then show ?case using conn_enter [OF enter(2,1,4)] by auto
next
  case (swap c cur l l' k n)
  have l': "cl_counters l c = cur" "l' = l\<lparr>cl_counters := (cl_counters l)(c := cur + 1)\<rparr>"
    using CompareAndSwap_facts(1) [OF swap(1)] by simp_all
  have k: "cm_Get M (cl_connections l) k = Some c" "k = key \<Longrightarrow> cur < limit" using swap(5) by auto
  have "k = key \<Longrightarrow> limiter_Count M key l = cur" using k(1) l'(1) by (simp add: limiter_Count_def)
  with k swap(4) show ?case
    using conn_inv_swap [OF swap(4) k(1), of "cur + 1"] limiter_Count_swap [OF swap(4) k(1), of "cur + 1"]
    by (auto simp: l'(2) conn_inv_def)
next
  case (release_swap c cur l l' k)
  have l': "cl_counters l c = cur" "l' = l\<lparr>cl_counters := (cl_counters l)(c := cur - 1)\<rparr>"
    using CompareAndSwap_facts(1) [OF release_swap(1)] by simp_all
  have k: "cm_Get M (cl_connections l) k = Some c" "0 < cur" using release_swap(5) by auto
  have "k = key \<Longrightarrow> limiter_Count M key l = cur" using k(1) l'(1) by (simp add: limiter_Count_def)
  with k release_swap(4) show ?case
    using conn_inv_swap [OF release_swap(4) k(1), of "cur - 1"] limiter_Count_swap [OF release_swap(4) k(1), of "cur - 1"]
    by (auto simp: l'(2) conn_inv_def)
next
  case (release_zero l c k)
  then show ?case by (auto simp: limiter_Count_def split: if_splits)
qed (auto dest: CompareAndSwap_facts(2))

lemma conn_interleaving:
  assumes "cmap_laws M" and "0 \<le> limit"
  shows "interleaving (conn_step M) (Collect (conn_start key limit)) (conn_inv M key limit) (conn_asrt M key limit)
    (conn_held key) (limiter_Count M key)"
proof
  show "conn_asrt M key limit l p \<and> conn_held key p = 0" if "p \<in> Collect (conn_start key limit)" for l p
    using that by (cases p) auto
  show "0 \<le> conn_held key p" for p by (cases p) auto
  show "conn_inv M key limit l' \<and> conn_asrt M key limit l' p'
      \<and> limiter_Count M key l' + conn_held key p = limiter_Count M key l + conn_held key p'"
    if "conn_step M l p l' p'" "conn_inv M key limit l" "conn_asrt M key limit l p" "conn_held key p \<le> limiter_Count M key l" for l p l' p'
    by (rule conn_step_ok [OF that(1) assms that(2-4)])
  show "conn_asrt M key limit l' q"
    if "conn_step M l p l' p'" "conn_inv M key limit l" "conn_asrt M key limit l q" for l p l' p' q
    by (rule conn_asrt_stable [OF that(3)]) (rule conn_step_keeps_map [OF that(1) assms(1) that(2)])
qed

text \<open>
  C28.  The limit on connections holds.  However many goroutines connect to sandboxes and disconnect at
  the same time, racing on the counters, as long as no entry is removed: the counter of a sandbox is the
  number of connections held for it, and that number is never more than its limit.
\<close>

theorem limiter_respects_limit:
  assumes "cmap_laws M" and "0 \<le> limit"
    and "par_runs (conn_step M) (Collect (conn_start key limit)) (NewConnectionLimiter M) l ts"
  shows "limiter_Count M key l = sum_of (conn_held key) ts \<and> sum_of (conn_held key) ts \<le> limit"
proof -
  have "limiter_Count M key (NewConnectionLimiter M) = 0" "conn_inv M key limit (NewConnectionLimiter M)"
    using assms(1,2) by (simp_all add: limiter_Count_def conn_inv_def NewConnectionLimiter_def cmap_laws_def)
  note keep = interleaving.runs_keep [OF conn_interleaving [OF assms(1,2)] assms(3) this(2,1)]
  show ?thesis using keep(1,3) by (auto simp: conn_inv_def)
qed

text \<open>A map as the package documents it.\<close>

definition example_cmap :: "(string \<rightharpoonup> 'v, 'v) cmap" where
  "example_cmap = \<lparr>cm_New = Map.empty, cm_Get = (\<lambda>m k. m k),
     cm_Upsert = (\<lambda>m k v cb. (cb (m k) v, m(k \<mapsto> cb (m k) v))), cm_Remove = (\<lambda>m k. m(k := None))\<rparr>"

theorem limiter_respects_limit_witness:
  "cmap_laws (example_cmap :: (string \<rightharpoonup> nat, nat) cmap)
   \<and> (\<exists>l. par_runs (conn_step example_cmap) (Collect (conn_start ''a'' 0)) (NewConnectionLimiter example_cmap) l [ConnRefused ''a'' 0]
        \<and> limiter_Count example_cmap ''a'' l = 0)"
proof
  let ?M = "example_cmap :: (string \<rightharpoonup> nat, nat) cmap"
  show laws: "cmap_laws ?M" by (auto simp: cmap_laws_def example_cmap_def)
  obtain l where l: "getCounter ?M ''a'' (NewConnectionLimiter ?M) = (0, l)" "cl_counters l 0 = 0"
    by (simp add: getCounter_def example_cmap_def NewConnectionLimiter_def)
  let ?step = "par_step (conn_step ?M) (Collect (conn_start ''a'' 0))"
  have 1: "?step (NewConnectionLimiter ?M, []) (NewConnectionLimiter ?M, [] @ [ConnStart ''a'' 0])" by (rule par_step.spawn) simp
  have 2: "?step (NewConnectionLimiter ?M, [ConnStart ''a'' 0]) (l, [ConnStart ''a'' 0][0 := ConnLoad ''a'' 0 0])"
    using conn_step.enter [OF l(1), of 0] by (intro par_step.run) simp_all
  have 3: "?step (l, [ConnLoad ''a'' 0 0]) (l, [ConnLoad ''a'' 0 0][0 := ConnRefused ''a'' 0])"
    using conn_step.refuse [of 0 l 0 ?M "''a''"] l(2) by (intro par_step.run) simp_all
  have "?step\<^sup>*\<^sup>* (NewConnectionLimiter ?M, []) (l, [ConnRefused ''a'' 0])"
    using 1 2 3 by (simp add: converse_rtranclp_into_rtranclp)
  then have run: "par_runs (conn_step ?M) (Collect (conn_start ''a'' 0)) (NewConnectionLimiter ?M) l [ConnRefused ''a'' 0]"
    by (simp add: par_runs_def)
  from limiter_respects_limit [OF laws _ run] run
  show "\<exists>l. par_runs (conn_step ?M) (Collect (conn_start ''a'' 0)) (NewConnectionLimiter ?M) l [ConnRefused ''a'' 0]
      \<and> limiter_Count ?M ''a'' l = 0" by auto
qed

section \<open>All updates or none\<close>

text \<open>An update changes the world and gives an optional rollback; errors and panics leave as they come.\<close>

type_synonym ('e, 'w) update_func = "'w \<Rightarrow> ('e, ('w \<Rightarrow> 'w) option) outcome \<times> 'w"

fun apply_loop :: "('e, 'w) update_func list \<Rightarrow> ('w \<Rightarrow> 'w) list \<Rightarrow> 'w \<Rightarrow> ('e, unit) outcome \<times> 'w" where
  "apply_loop [] rollbacks w = (Ok (), w)"
| "apply_loop (update # updates) rollbacks w =
     (case update w of
        (Ok None, w') \<Rightarrow> apply_loop updates rollbacks w'
      | (Ok (Some rollback), w') \<Rightarrow> apply_loop updates (rollbacks @ [rollback]) w'
      | (Err e, w') \<Rightarrow> (Err e, fold (\<lambda>r. r) (rev rollbacks) w')
      | (Panic, w') \<Rightarrow> (Panic, w'))"

definition ApplyAllOrNone :: "('e, 'w) update_func list \<Rightarrow> 'w \<Rightarrow> ('e, unit) outcome \<times> 'w" where
  "ApplyAllOrNone updates w = apply_loop updates [] w"

text \<open>An update that behaves: its rollback undoes it, without one it changes nothing, and neither does a failing one.\<close>

definition undoable :: "('e, 'w) update_func \<Rightarrow> bool" where
  "undoable u \<longleftrightarrow> (\<forall>w. case u w of
      (Ok None, w') \<Rightarrow> w' = w
    | (Ok (Some rollback), w') \<Rightarrow> rollback w' = w
    | (Err e, w') \<Rightarrow> w' = w
    | (Panic, w') \<Rightarrow> True)"

lemma apply_loop_undoes:
  assumes "\<forall>u \<in> set updates. undoable u" and "fold (\<lambda>r. r) (rev rollbacks) w = w0"
    and "apply_loop updates rollbacks w = (Err e, w')"
  shows "w' = w0"
  using assms
proof (induction updates arbitrary: rollbacks w)
  case (Cons u us)
  have u: "undoable u" and us: "\<forall>u \<in> set us. undoable u" using Cons.prems(1) by simp_all
  obtain r w1 where uw: "u w = (r, w1)" by (cases "u w")
  note uw' = u [unfolded undoable_def, rule_format, of w, unfolded uw, simplified]
  show ?case
  proof (cases r)
    case (Ok rb)
    then show ?thesis
      using Cons.IH [OF us, of "rollbacks @ [the rb]" w1] Cons.IH [OF us, of rollbacks w1] Cons.prems(2,3) uw uw'
      by (cases rb) simp_all
  next
    case (Err e')
    then show ?thesis using Cons.prems(2,3) uw uw' by simp
  next
    case Panic
    then show ?thesis using Cons.prems(3) uw by simp
  qed
qed simp

text \<open>When an update fails, the world is as it was before the first one.\<close>

lemma ApplyAllOrNone_none:
  assumes "\<forall>u \<in> set updates. undoable u" and "ApplyAllOrNone updates w = (Err e, w')"
  shows "w' = w"
  using apply_loop_undoes [of updates "[]" w w e w'] assms by (simp add: ApplyAllOrNone_def)

text \<open>And if it succeeds every update has been applied, in order.\<close>

lemma apply_loop_all:
  assumes "apply_loop updates rollbacks w = (Ok (), w')"
  shows "w' = fold (\<lambda>u w. snd (u w)) updates w \<and> (\<forall>k < length updates. is_ok (fst ((updates ! k) (fold (\<lambda>u w. snd (u w)) (take k updates) w))))"
  using assms
proof (induction updates arbitrary: rollbacks w)
  case (Cons u us)
  obtain r w1 where uw: "u w = (r, w1)" by (cases "u w")
  then have r: "is_ok r" and ih: "\<exists>rs. apply_loop us rs w1 = (Ok (), w')"
    using Cons.prems by (auto split: outcome.splits option.splits)
  from ih Cons.IH have *: "w' = fold (\<lambda>u w. snd (u w)) us w1"
    "\<forall>k < length us. is_ok (fst ((us ! k) (fold (\<lambda>u w. snd (u w)) (take k us) w1)))" by blast+
  have "is_ok (fst (((u # us) ! k) (fold (\<lambda>u w. snd (u w)) (take k (u # us)) w)))" if "k < length (u # us)" for k
    using that *(2) uw r by (cases k) auto
  then show ?case using *(1) uw by simp
qed simp

end
