(* ===== verification/Multipart_Upload.thy ===== *)
theory Multipart_Upload
  imports Aether_Prelude
begin

text \<open>
  Uploading a file in parts (\<open>packages/shared/pkg/storage/gcp_multipart.go\<close>).  The bucket is a service
  with a state of its own, behind a client that retries; both are parameters.  The goroutines that
  upload the parts interact only through the service and their slots of the result, so a run of them is
  a sequence of uploads in some order.  The file does not change while it is open.
\<close>

section \<open>The service\<close>

text \<open>
  A call gives the status of the response and what the code reads of it, or a transport error: the
  upload identifier of the parsed body, the entity tag of the header (empty if missing), nothing.
\<close>

record 'w bucket =
  bk_initiate :: "'w \<Rightarrow> (unit, nat \<times> string option) outcome \<times> 'w"
  bk_put_part :: "string \<Rightarrow> nat \<Rightarrow> byte list \<Rightarrow> 'w \<Rightarrow> (unit, nat \<times> string) outcome \<times> 'w"
  bk_complete :: "string \<Rightarrow> (nat \<times> string) list \<Rightarrow> 'w \<Rightarrow> (unit, nat) outcome \<times> 'w"

text \<open>
  What the service documents: a part stored under its number replaces the one before and is known by
  its tag, other parts stay whatever happens; an upload completes with parts in increasing order whose
  tags match, and the object is then their concatenation.
\<close>

definition bucket_laws ::
  "'w bucket \<Rightarrow> ('w \<Rightarrow> string \<Rightarrow> nat \<Rightarrow> (string \<times> byte list) option) \<Rightarrow> ('w \<Rightarrow> byte list) \<Rightarrow> bool" where
  "bucket_laws B parts object \<longleftrightarrow>
     (\<forall>i n d w r w'. bk_put_part B i n d w = (r, w') \<longrightarrow>
        (\<forall>m. m \<noteq> n \<longrightarrow> parts w' i m = parts w i m)
        \<and> (\<forall>tag. r = Ok (200, tag) \<longrightarrow> parts w' i n = Some (tag, d)))
     \<and> (\<forall>i ps w w'. bk_complete B i ps w = (Ok 200, w') \<longrightarrow> sorted_wrt (<) (map fst ps) \<longrightarrow>
        (\<exists>ds. length ds = length ps \<and> (\<forall>k < length ps. parts w i (fst (ps ! k)) = Some (snd (ps ! k), ds ! k))
          \<and> object w' = concat ds))"

section \<open>The upload\<close>

datatype upload_error =
    OpenFailed | InitiateFailed | ReadFailed nat | PartFailed nat | NoETag nat | PartCancelled nat | CompleteFailed

definition gcpMultipartUploadChunkSize :: nat where
  "gcpMultipartUploadChunkSize = 50 * 1024 * 1024"

record Part =
  pt_PartNumber :: nat
  pt_ETag :: string

definition initiateUpload :: "'w bucket \<Rightarrow> 'w \<Rightarrow> (upload_error, string) outcome \<times> 'w" where
  "initiateUpload B w =
     (case bk_initiate B w of
        (Ok (status, uploadID), w') \<Rightarrow>
          if status \<noteq> 200 then (Err InitiateFailed, w')
          else (case uploadID of None \<Rightarrow> Err InitiateFailed | Some i \<Rightarrow> Ok i, w')
      | (Err _, w') \<Rightarrow> (Err InitiateFailed, w')
      | (Panic, w') \<Rightarrow> (Panic, w'))"

definition uploadPart ::
  "'w bucket \<Rightarrow> string \<Rightarrow> nat \<Rightarrow> byte list \<Rightarrow> 'w \<Rightarrow> (upload_error, string) outcome \<times> 'w" where
  "uploadPart B uploadID partNumber data w =
     (case bk_put_part B uploadID partNumber data w of
        (Ok (status, etag), w') \<Rightarrow>
          (if status \<noteq> 200 then Err (PartFailed partNumber)
           else if etag = [] then Err (NoETag partNumber)
           else Ok etag, w')
      | (Err _, w') \<Rightarrow> (Err (PartFailed partNumber), w')
      | (Panic, w') \<Rightarrow> (Panic, w'))"

text \<open>The parts are sorted by number before they are sent.\<close>

definition completeUpload :: "'w bucket \<Rightarrow> string \<Rightarrow> Part list \<Rightarrow> 'w \<Rightarrow> (upload_error, unit) outcome \<times> 'w" where
  "completeUpload B uploadID parts w =
     (case bk_complete B uploadID (map (\<lambda>p. (pt_PartNumber p, pt_ETag p)) (sort_key pt_PartNumber parts)) w of
        (Ok status, w') \<Rightarrow> (if status \<noteq> 200 then Err CompleteFailed else Ok (), w')
      | (Err _, w') \<Rightarrow> (Err CompleteFailed, w')
      | (Panic, w') \<Rightarrow> (Panic, w'))"

text \<open>
  \<open>int(math.Ceil(float64(fileSize) / float64(chunkSize)))\<close>, and at least one part; the division by
  \<open>float64\<close> is exact enough for sizes below \<open>2\<^sup>5\<^sup>3\<close>.
\<close>

definition num_parts :: "nat \<Rightarrow> nat" where
  "num_parts fileSize =
     (let n = (fileSize + gcpMultipartUploadChunkSize - 1) div gcpMultipartUploadChunkSize
      in if n = 0 then 1 else n)"

definition part_offset :: "nat \<Rightarrow> nat" where
  "part_offset partNumber = (partNumber - 1) * gcpMultipartUploadChunkSize"

definition part_size :: "nat \<Rightarrow> nat \<Rightarrow> nat" where
  "part_size fileSize partNumber =
     (if fileSize < part_offset partNumber + gcpMultipartUploadChunkSize then fileSize - part_offset partNumber
      else gcpMultipartUploadChunkSize)"

text \<open>
  The goroutine of one part: \<open>cancelled\<close> says that it finds the context cancelled, \<open>readable\<close> that
  reading the file succeeds (a short read is an error).
\<close>

definition upload_worker ::
  "'w bucket \<Rightarrow> byte list \<Rightarrow> string \<Rightarrow> bool \<Rightarrow> bool \<Rightarrow> nat \<Rightarrow> Part list \<Rightarrow> 'w \<Rightarrow> (upload_error, unit) outcome \<times> Part list \<times> 'w" where
  "upload_worker B file uploadID cancelled readable partNumber parts w =
     (if cancelled then (Err (PartCancelled partNumber), parts, w)
      else let chunk = take (part_size (length file) partNumber) (drop (part_offset partNumber) file)
           in if \<not> readable \<or> length chunk < part_size (length file) partNumber
              then (Err (ReadFailed partNumber), parts, w)
              else case uploadPart B uploadID partNumber chunk w of
                     (Ok etag, w') \<Rightarrow> (Ok (), parts[partNumber - 1 := \<lparr>pt_PartNumber = partNumber, pt_ETag = etag\<rparr>], w')
                   | (Err e, w') \<Rightarrow> (Err e, parts, w')
                   | (Panic, w') \<Rightarrow> (Panic, parts, w'))"

text \<open>
  The workers in the order in which they finish, each with what it finds; \<open>Wait\<close> reports the first
  error.
\<close>

fun upload_workers ::
  "'w bucket \<Rightarrow> byte list \<Rightarrow> string \<Rightarrow> (nat \<times> bool \<times> bool) list \<Rightarrow> Part list \<Rightarrow> 'w \<Rightarrow> (upload_error, unit) outcome \<times> Part list \<times> 'w" where
  "upload_workers B file uploadID [] parts w = (Ok (), parts, w)"
| "upload_workers B file uploadID ((n, cancelled, readable) # rest) parts w =
     (case upload_worker B file uploadID cancelled readable n parts w of
        (r, parts', w') \<Rightarrow>
          case upload_workers B file uploadID rest parts' w' of
            (r', parts'', w'') \<Rightarrow> (case r of Ok _ \<Rightarrow> r' | Err e \<Rightarrow> Err e | Panic \<Rightarrow> Panic, parts'', w''))"

definition uploadParts ::
  "'w bucket \<Rightarrow> byte list \<Rightarrow> string \<Rightarrow> (nat \<times> bool \<times> bool) list \<Rightarrow> nat \<Rightarrow> 'w \<Rightarrow> (upload_error, Part list) outcome \<times> 'w" where
  "uploadParts B file uploadID schedule numParts w =
     (case upload_workers B file uploadID schedule (replicate numParts \<lparr>pt_PartNumber = 0, pt_ETag = []\<rparr>) w of
        (r, parts, w') \<Rightarrow> (and_then r (\<lambda>_. Ok parts), w'))"

text \<open>\<open>None\<close> is a file that cannot be opened or whose size cannot be read.\<close>

definition UploadFileInParallel ::
  "'w bucket \<Rightarrow> byte list option \<Rightarrow> (nat \<times> bool \<times> bool) list \<Rightarrow> 'w \<Rightarrow> (upload_error, nat) outcome \<times> 'w" where
  "UploadFileInParallel B file schedule w =
     (case file of
        None \<Rightarrow> (Err OpenFailed, w)
      | Some content \<Rightarrow>
          (case initiateUpload B w of
             (Ok uploadID, w1) \<Rightarrow>
               (case uploadParts B content uploadID schedule (num_parts (length content)) w1 of
                  (Ok parts, w2) \<Rightarrow>
                    (case completeUpload B uploadID parts w2 of
                       (r, w3) \<Rightarrow> (and_then r (\<lambda>_. Ok (length content)), w3))
                | (Err e, w2) \<Rightarrow> (Err e, w2)
                | (Panic, w2) \<Rightarrow> (Panic, w2))
           | (Err e, w1) \<Rightarrow> (Err e, w1)
           | (Panic, w1) \<Rightarrow> (Panic, w1)))"

text \<open>Every part has one goroutine.\<close>

definition full_schedule :: "nat \<Rightarrow> (nat \<times> bool \<times> bool) list \<Rightarrow> bool" where
  "full_schedule numParts schedule \<longleftrightarrow> distinct (map fst schedule) \<and> set (map fst schedule) = {1..numParts}"

section \<open>A successful upload is complete\<close>

definition part_chunk :: "byte list \<Rightarrow> nat \<Rightarrow> byte list" where
  "part_chunk file n = take gcpMultipartUploadChunkSize (drop (part_offset n) file)"

lemma chunk_size_pos: "0 < gcpMultipartUploadChunkSize"
  by (simp add: gcpMultipartUploadChunkSize_def)

lemma part_chunk_eq: "take (part_size (length file) n) (drop (part_offset n) file) = part_chunk file n"
  by (auto simp: part_size_def part_chunk_def)

lemma concat_pieces: "concat (map (\<lambda>k. take c (drop (k * c) xs)) [0..<m]) = take (m * c) xs"
proof (induction m)
  case (Suc m)
  have "take (m * c) xs @ take c (drop (m * c) xs) = take (m * c + c) xs" by (simp add: take_add)
  then show ?case using Suc by (simp add: add.commute)
qed simp

lemma parts_cover: "fileSize \<le> num_parts fileSize * gcpMultipartUploadChunkSize"
proof -
  let ?c = gcpMultipartUploadChunkSize
  let ?n = "(fileSize + ?c - 1) div ?c"
  have "fileSize + ?c - 1 < (?n + 1) * ?c"
    using chunk_size_pos by (metis Suc_eq_plus1 dividend_less_div_times mult_Suc add.commute)
  then have "fileSize \<le> ?n * ?c" using chunk_size_pos by simp
  then show ?thesis by (auto simp: num_parts_def Let_def)
qed

lemma chunks_make_file: "concat (map (part_chunk file) [1..<Suc (num_parts (length file))]) = file"
proof -
  have "map (part_chunk file) [1..<Suc m] = map (\<lambda>k. take gcpMultipartUploadChunkSize (drop (k * gcpMultipartUploadChunkSize) file)) [0..<m]" for m
    by (simp add: part_chunk_def part_offset_def map_Suc_upt [symmetric] del: upt_Suc)
  then show ?thesis using parts_cover [of "length file"] by (simp only: concat_pieces) simp
qed

lemma bucket_complete:
  assumes "bucket_laws B parts object" and "bk_complete B i ps w = (Ok 200, w')" and "sorted_wrt (<) (map fst ps)"
  shows "\<exists>ds. length ds = length ps \<and> (\<forall>k < length ps. parts w i (fst (ps ! k)) = Some (snd (ps ! k), ds ! k))
    \<and> object w' = concat ds"
  using conjunct2 [OF assms(1) [unfolded bucket_laws_def]] assms(2,3) by simp

lemma uploadPart_Ok:
  assumes "bucket_laws B parts object" and "uploadPart B i n d w = (Ok tag, w')"
  shows "parts w' i n = Some (tag, d)" "m \<noteq> n \<Longrightarrow> parts w' i m = parts w i m"
proof -
  from assms(2) have "bk_put_part B i n d w = (Ok (200, tag), w')"
    by (auto simp: uploadPart_def split: prod.splits outcome.splits if_splits)
  then show "parts w' i n = Some (tag, d)" "m \<noteq> n \<Longrightarrow> parts w' i m = parts w i m"
    using assms(1) unfolding bucket_laws_def by blast+
qed

lemma upload_worker_Ok:
  assumes "upload_worker B file i cancelled readable n ps w = (Ok (), ps', w')"
  shows "\<exists>tag. uploadPart B i n (part_chunk file n) w = (Ok tag, w') \<and> ps' = ps[n - 1 := \<lparr>pt_PartNumber = n, pt_ETag = tag\<rparr>]"
  using assms by (auto simp: upload_worker_def part_chunk_eq Let_def split: if_splits prod.splits outcome.splits)

lemma upload_workers_Ok:
  assumes "bucket_laws B parts object" and "upload_workers B file i schedule ps w = (Ok (), ps', w')"
    and "distinct (map fst schedule)" and "\<forall>n \<in> set (map fst schedule). 1 \<le> n \<and> n \<le> length ps"
  shows "length ps' = length ps
    \<and> (\<forall>n. 1 \<le> n \<longrightarrow> (if n \<in> set (map fst schedule)
           then \<exists>tag. ps' ! (n - 1) = \<lparr>pt_PartNumber = n, pt_ETag = tag\<rparr> \<and> parts w' i n = Some (tag, part_chunk file n)
           else ps' ! (n - 1) = ps ! (n - 1) \<and> parts w' i n = parts w i n))"
  using assms(2-4)
proof (induction schedule arbitrary: ps w)
  case (Cons entry rest)
  obtain n cancelled readable where e: "entry = (n, cancelled, readable)" by (cases entry)
  from Cons.prems(1) obtain ps1 w1 where
    1: "upload_worker B file i cancelled readable n ps w = (Ok (), ps1, w1)"
    and 2: "upload_workers B file i rest ps1 w1 = (Ok (), ps', w')"
    by (auto simp: e split: prod.splits outcome.splits)
  from upload_worker_Ok [OF 1] obtain tag where
    u: "uploadPart B i n (part_chunk file n) w = (Ok tag, w1)" and ps1: "ps1 = ps[n - 1 := \<lparr>pt_PartNumber = n, pt_ETag = tag\<rparr>]"
    by blast
  note up = uploadPart_Ok [OF assms(1) u]
  have n: "1 \<le> n" "n \<le> length ps" "n \<notin> set (map fst rest)" using Cons.prems(2,3) by (auto simp: e)
  have rest: "distinct (map fst rest)" "\<forall>n \<in> set (map fst rest). 1 \<le> n \<and> n \<le> length ps1"
    using Cons.prems(2,3) by (auto simp: e ps1)
  have ih: "length ps' = length ps1"
    "\<And>m. 1 \<le> m \<Longrightarrow> (if m \<in> set (map fst rest)
       then \<exists>tag. ps' ! (m - 1) = \<lparr>pt_PartNumber = m, pt_ETag = tag\<rparr> \<and> parts w' i m = Some (tag, part_chunk file m)
       else ps' ! (m - 1) = ps1 ! (m - 1) \<and> parts w' i m = parts w1 i m)"
    using Cons.IH [OF 2 rest] by blast+
  have "if m \<in> set (map fst (entry # rest))
       then \<exists>tag. ps' ! (m - 1) = \<lparr>pt_PartNumber = m, pt_ETag = tag\<rparr> \<and> parts w' i m = Some (tag, part_chunk file m)
       else ps' ! (m - 1) = ps ! (m - 1) \<and> parts w' i m = parts w i m" if m: "1 \<le> m" for m
  proof (cases "m = n")
    case True
    then show ?thesis using ih(2) [OF m] n up(1) by (auto simp: e ps1)
  next
    case False
    then have "ps1 ! (m - 1) = ps ! (m - 1)" using m n(1) by (auto simp: ps1)
    moreover have "m \<in> set (map fst (entry # rest)) \<longleftrightarrow> m \<in> set (map fst rest)" using False by (simp add: e)
    ultimately show ?thesis using ih(2) [OF m] up(2) [OF False] by (simp only:)
  qed
  moreover have "length ps' = length ps" using ih(1) by (simp add: ps1)
  ultimately show ?case by blast
qed simp

lemma uploadParts_Ok:
  assumes "bucket_laws B parts object" and "uploadParts B file i schedule m w = (Ok ps, w')" and "full_schedule m schedule"
  shows "length ps = m" "k < m \<Longrightarrow> \<exists>tag. ps ! k = \<lparr>pt_PartNumber = Suc k, pt_ETag = tag\<rparr> \<and> parts w' i (Suc k) = Some (tag, part_chunk file (Suc k))"
proof -
  from assms(2) have u: "upload_workers B file i schedule (replicate m \<lparr>pt_PartNumber = 0, pt_ETag = []\<rparr>) w = (Ok (), ps, w')"
    by (auto simp: uploadParts_def split: prod.splits elim!: and_then.elims)
  have s: "distinct (map fst schedule)" "\<forall>n \<in> set (map fst schedule). 1 \<le> n \<and> n \<le> length (replicate m \<lparr>pt_PartNumber = 0, pt_ETag = []\<rparr>)"
    "set (map fst schedule) = {1..m}" using assms(3) by (auto simp: full_schedule_def)
  from upload_workers_Ok [OF assms(1) u s(1,2)] have *: "length ps = m"
    "\<And>n. 1 \<le> n \<Longrightarrow> n \<in> {1..m} \<Longrightarrow> \<exists>tag. ps ! (n - 1) = \<lparr>pt_PartNumber = n, pt_ETag = tag\<rparr> \<and> parts w' i n = Some (tag, part_chunk file n)"
    unfolding s(3) by (simp, metis)
  then show "length ps = m"
    "k < m \<Longrightarrow> \<exists>tag. ps ! k = \<lparr>pt_PartNumber = Suc k, pt_ETag = tag\<rparr> \<and> parts w' i (Suc k) = Some (tag, part_chunk file (Suc k))"
    using *(2) [of "Suc k"] by auto
qed

text \<open>
  An upload that reports success is complete.  Whatever the order in which the parts finish and
  whatever the service does within its contract: if the upload returns without error, it returns the
  size of the file and the object is the file.  An empty file is one empty part.
\<close>

lemma UploadFileInParallel_complete:
  assumes "bucket_laws B parts object" and "full_schedule (num_parts (length file)) schedule" and "length file < 2 ^ 53"
    and "UploadFileInParallel B (Some file) schedule w = (Ok n, w')"
  shows "n = length file \<and> object w' = file"
proof -
  let ?m = "num_parts (length file)"
  from assms(4) obtain i w1 ps w2 where
    ps: "uploadParts B file i schedule ?m w1 = (Ok ps, w2)" and fin: "completeUpload B i ps w2 = (Ok (), w')" and n: "n = length file"
    by (auto simp: UploadFileInParallel_def split: prod.splits outcome.splits elim!: and_then.elims)
  note up = uploadParts_Ok [OF assms(1) ps assms(2)]
  have nums: "map pt_PartNumber ps = [1..<Suc ?m]"
  proof (rule nth_equalityI)
    show "map pt_PartNumber ps ! k = [1..<Suc ?m] ! k" if "k < length (map pt_PartNumber ps)" for k
      using that up(1) up(2) [of k] by (auto simp del: upt_Suc)
  qed (simp add: up(1) del: upt_Suc)
  then have "sorted (map pt_PartNumber ps)" by (simp del: upt_Suc)
  then have sort: "sort_key pt_PartNumber ps = ps" by (rule sort_key_id_if_sorted)
  let ?send = "map (\<lambda>p. (pt_PartNumber p, pt_ETag p)) ps"
  have c: "bk_complete B i ?send w2 = (Ok 200, w')"
    using fin by (auto simp: completeUpload_def sort split: prod.splits outcome.splits if_splits)
  have "map fst ?send = [1..<Suc ?m]" using nums by (simp add: o_def del: upt_Suc)
  then have "sorted_wrt (<) (map fst ?send)" by (simp del: upt_Suc)
  from bucket_complete [OF assms(1) c this] obtain ds where ds: "length ds = length ?send"
    "\<forall>k < length ?send. parts w2 i (fst (?send ! k)) = Some (snd (?send ! k), ds ! k)" "object w' = concat ds"
    by blast
  have "ds = map (part_chunk file) [1..<Suc ?m]"
  proof (rule nth_equalityI)
    show "ds ! k = map (part_chunk file) [1..<Suc ?m] ! k" if "k < length ds" for k
      using that ds(1,2) up(1) up(2) [of k] by (auto simp del: upt_Suc)
  qed (simp add: ds(1) up(1) del: upt_Suc)
  then show ?thesis using n ds(3) chunks_make_file by simp
qed

text \<open>A bucket that does what it should: parts by upload and number, tagged with the number of calls.\<close>

record example_state =
  ex_parts :: "nat \<rightharpoonup> string \<times> byte list"
  ex_object :: "byte list"

definition example_bucket :: "example_state bucket" where
  "example_bucket =
     \<lparr>bk_initiate = (\<lambda>w. (Ok (200, Some ''u''), w)),
      bk_put_part = (\<lambda>i n d w. (Ok (200, ''t''), w\<lparr>ex_parts := (ex_parts w)(n \<mapsto> (''t'', d))\<rparr>)),
      bk_complete = (\<lambda>i ps w. if list_all (\<lambda>(n, tag). map_option fst (ex_parts w n) = Some tag) ps
        then (Ok 200, w\<lparr>ex_object := concat (map (\<lambda>(n, tag). snd (the (ex_parts w n))) ps)\<rparr>) else (Ok 400, w))\<rparr>"

lemma example_bucket_laws: "bucket_laws example_bucket (\<lambda>w i. ex_parts w) ex_object"
  unfolding bucket_laws_def
proof (intro conjI allI impI)
  fix i ps w w' assume c: "bk_complete example_bucket i ps w = (Ok 200, w')"
  let ?ds = "map (\<lambda>(n, tag). snd (the (ex_parts w n))) ps"
  have ok: "list_all (\<lambda>(n, tag). map_option fst (ex_parts w n) = Some tag) ps" and w': "ex_object w' = concat ?ds"
    using c by (auto simp: example_bucket_def split: if_splits)
  have "ex_parts w (fst (ps ! k)) = Some (snd (ps ! k), ?ds ! k)" if "k < length ps" for k
    using ok that by (cases "ps ! k") (fastforce simp: list_all_length)
  with w' show "\<exists>ds. length ds = length ps \<and> (\<forall>k<length ps. ex_parts w (fst (ps ! k)) = Some (snd (ps ! k), ds ! k)) \<and> ex_object w' = concat ds"
    by (intro exI [of _ ?ds]) simp
qed (auto simp: example_bucket_def)

end
