(* ===== verification/Storage_Remote.thy ===== *)
theory Storage_Remote
  imports Storage_Local Admission_Limits Multipart_Upload
begin

text \<open>
  The objects of the two cloud providers (\<open>storage_google.go\<close>, \<open>storage_aws.go\<close>) and the limiter of
  uploads (\<open>packages/shared/pkg/limit\<close>).  The clients of the two services are parameters: records of
  the calls the code makes, on a world \<open>'w\<close>, with their documented behaviour as the predicates
  \<open>gcs_laws\<close> and \<open>s3_laws\<close> over the objects \<open>content w\<close> that are stored.  Every call may fail, time out or
  be cancelled, which is an error of the call.  The locale \<open>remote_object\<close> is the interface of an
  object to the cache; both providers interpret it.
\<close>

section \<open>Response bodies\<close>

text \<open>
  What a body delivers, and what comes after that: its end, the \<open>io.ErrUnexpectedEOF\<close> of a body that is
  cut before its announced length, or another error.
\<close>

datatype body_end = EndClean | EndCut | EndError

record body =
  bd_bytes :: "byte list"
  bd_end :: body_end

abbreviation bd_fails :: "body \<Rightarrow> bool" where
  "bd_fails b \<equiv> bd_end b \<noteq> EndClean"

definition body_of :: "byte list \<Rightarrow> body \<Rightarrow> bool" where
  "body_of d b \<longleftrightarrow> prefix (bd_bytes b) d \<and> (\<not> bd_fails b \<longrightarrow> bd_bytes b = d)"

text \<open>One \<open>Read\<close> into a buffer of \<open>n\<close> bytes when at most \<open>k\<close> have arrived.\<close>

definition body_Read :: "nat \<Rightarrow> nat \<Rightarrow> body \<Rightarrow> (unit, byte list \<times> bool) outcome \<times> body" where
  "body_Read k n b =
     (if bd_bytes b = [] then (if bd_fails b then Err () else Ok ([], True), b)
      else (Ok (take (min k n) (bd_bytes b), False), b\<lparr>bd_bytes := drop (min k n) (bd_bytes b)\<rparr>))"

fun body_reads :: "(nat \<times> nat) list \<Rightarrow> body \<Rightarrow> byte list \<times> body" where
  "body_reads [] b = ([], b)"
| "body_reads ((k, n) # ks) b =
     (case body_Read k n b of
        (Ok (bs, _), b') \<Rightarrow> (case body_reads ks b' of (rest, b'') \<Rightarrow> (bs @ rest, b''))
      | (_, b') \<Rightarrow> ([], b'))"

text \<open>
  \<open>io.ReadFull\<close>: a body that ends before the buffer is full gives \<open>io.ErrUnexpectedEOF\<close> (\<open>io.EOF\<close> when
  nothing came), and so does one that is cut, whose own error is passed on.
\<close>

datatype read_end = ReadComplete | ReadEOF | ReadUnexpectedEOF | ReadError

definition ReadFull :: "nat \<Rightarrow> body \<Rightarrow> byte list \<times> read_end" where
  "ReadFull n b =
     (let bs = take n (bd_bytes b)
      in (bs, if length bs = n then ReadComplete
              else case bd_end b of
                EndError \<Rightarrow> ReadError
              | EndCut \<Rightarrow> ReadUnexpectedEOF
              | EndClean \<Rightarrow> if bs = [] then ReadEOF else ReadUnexpectedEOF))"

text \<open>An unexpected end becomes \<open>io.EOF\<close>; any other error is passed on.\<close>

datatype remote_error = RemoteNotExist | RemoteError

definition read_at_result :: "byte list \<times> read_end \<Rightarrow> (remote_error, byte list \<times> bool) outcome" where
  "read_at_result x =
     (case x of
        (bs, ReadError) \<Rightarrow> Err RemoteError
      | (bs, ReadComplete) \<Rightarrow> Ok (bs, False)
      | (bs, _) \<Rightarrow> Ok (bs, True))"

text \<open>\<open>io.Copy\<close> to a writer that accepts everything.\<close>

definition copy_body :: "body \<Rightarrow> (remote_error, nat) outcome \<times> byte list" where
  "copy_body b = (if bd_fails b then Err RemoteError else Ok (length (bd_bytes b)), bd_bytes b)"

definition ignoreNotExists :: "remote_error option \<Rightarrow> remote_error option" where
  "ignoreNotExists e = (if e = Some RemoteNotExist then None else e)"

text \<open>\<open>Exists\<close> of both providers asks for the size.\<close>

definition exists_from_size :: "(remote_error, nat) outcome \<Rightarrow> (remote_error, bool) outcome" where
  "exists_from_size r =
     (case r of
        Ok _ \<Rightarrow> Ok True
      | Err e \<Rightarrow> (case ignoreNotExists (Some e) of None \<Rightarrow> Ok False | Some e' \<Rightarrow> Err e')
      | Panic \<Rightarrow> Panic)"

datatype cloud_error = ObjectNotExist | NoSuchKey | NotFound | WriterEOF | ServiceError

section \<open>Google Cloud Storage\<close>

text \<open>
  The writer's two outcomes are that of writing the data and that of closing it.  A listing is the
  names the iterator delivers, and whether it fails after them.
\<close>

record 'w gcs =
  gc_Attrs :: "string \<Rightarrow> 'w \<Rightarrow> (cloud_error, nat) outcome \<times> 'w"
  gc_NewRangeReader :: "string \<Rightarrow> int \<Rightarrow> int \<Rightarrow> 'w \<Rightarrow> (cloud_error, body) outcome \<times> 'w"
  gc_NewReader :: "string \<Rightarrow> 'w \<Rightarrow> (cloud_error, body) outcome \<times> 'w"
  gc_Writer :: "string \<Rightarrow> byte list \<Rightarrow> 'w \<Rightarrow> ((cloud_error, unit) outcome \<times> (cloud_error, unit) outcome) \<times> 'w"
  gc_Delete :: "string \<Rightarrow> 'w \<Rightarrow> (cloud_error, unit) outcome \<times> 'w"
  gc_Objects :: "string \<Rightarrow> 'w \<Rightarrow> (string list \<times> bool) \<times> 'w"

record gcpObject =
  go_path :: string

definition gcpStorage_open :: "string \<Rightarrow> (remote_error, gcpObject) outcome" where
  "gcpStorage_open path = Ok \<lparr>go_path = path\<rparr>"

fun delete_each :: "'w gcs \<Rightarrow> string list \<Rightarrow> bool \<Rightarrow> 'w \<Rightarrow> (remote_error, unit) outcome \<times> 'w" where
  "delete_each G [] fails w = (if fails then Err RemoteError else Ok (), w)"
| "delete_each G (name # names) fails w =
     (case gc_Delete G name w of
        (Ok _, w') \<Rightarrow> delete_each G names fails w'
      | (Err _, w') \<Rightarrow> (Err RemoteError, w')
      | (Panic, w') \<Rightarrow> (Panic, w'))"

definition gcpStorage_DeleteObjectsWithPrefix :: "'w gcs \<Rightarrow> string \<Rightarrow> 'w \<Rightarrow> (remote_error, unit) outcome \<times> 'w" where
  "gcpStorage_DeleteObjectsWithPrefix G prefix' w =
     (case gc_Objects G (prefix' @ ''/'') w of ((names, fails), w') \<Rightarrow> delete_each G names fails w')"

definition gcpObject_Delete :: "'w gcs \<Rightarrow> gcpObject \<Rightarrow> 'w \<Rightarrow> (remote_error, unit) outcome \<times> 'w" where
  "gcpObject_Delete G ob w = (case gc_Delete G (go_path ob) w of (r, w') \<Rightarrow> (map_err (\<lambda>_. RemoteError) r, w'))"

definition gcpObject_Size :: "'w gcs \<Rightarrow> gcpObject \<Rightarrow> 'w \<Rightarrow> (remote_error, nat) outcome \<times> 'w" where
  "gcpObject_Size G ob w =
     (case gc_Attrs G (go_path ob) w of
        (r, w') \<Rightarrow> (map_err (\<lambda>e. if e = ObjectNotExist then RemoteNotExist else RemoteError) r, w'))"

definition gcpObject_Exists :: "'w gcs \<Rightarrow> gcpObject \<Rightarrow> 'w \<Rightarrow> (remote_error, bool) outcome \<times> 'w" where
  "gcpObject_Exists G ob w = (case gcpObject_Size G ob w of (r, w') \<Rightarrow> (exists_from_size r, w'))"

text \<open>The reader cancels the context of the stream when it is closed.\<close>

record cancelOnCloseReader =
  cr_body :: body
  cr_cancelled :: bool

definition gcpObject_OpenRangeReader ::
  "'w gcs \<Rightarrow> gcpObject \<Rightarrow> int \<Rightarrow> int \<Rightarrow> 'w \<Rightarrow> (remote_error, cancelOnCloseReader) outcome \<times> 'w" where
  "gcpObject_OpenRangeReader G ob off len w =
     (case gc_NewRangeReader G (go_path ob) off len w of
        (Ok b, w') \<Rightarrow> (Ok \<lparr>cr_body = b, cr_cancelled = False\<rparr>, w')
      | (Err _, w') \<Rightarrow> (Err RemoteError, w')
      | (Panic, w') \<Rightarrow> (Panic, w'))"

definition cancelOnClose_Close :: "cancelOnCloseReader \<Rightarrow> cancelOnCloseReader" where
  "cancelOnClose_Close rd = rd\<lparr>cr_cancelled := True\<rparr>"

definition gcpObject_ReadAt ::
  "'w gcs \<Rightarrow> gcpObject \<Rightarrow> nat \<Rightarrow> int \<Rightarrow> 'w \<Rightarrow> (remote_error, byte list \<times> bool) outcome \<times> 'w" where
  "gcpObject_ReadAt G ob n off w =
     (case gc_NewRangeReader G (go_path ob) off (int n) w of
        (Ok b, w') \<Rightarrow> (read_at_result (ReadFull n b), w')
      | (Err _, w') \<Rightarrow> (Err RemoteError, w')
      | (Panic, w') \<Rightarrow> (Panic, w'))"

text \<open>An \<open>io.EOF\<close> of the writer is left for its \<open>Close\<close> to report.\<close>

definition gcpObject_Put :: "'w gcs \<Rightarrow> gcpObject \<Rightarrow> byte list \<Rightarrow> 'w \<Rightarrow> (remote_error, unit) outcome \<times> 'w" where
  "gcpObject_Put G ob data w =
     (case gc_Writer G (go_path ob) data w of
        ((written, closed), w') \<Rightarrow>
          ((case written of
              Panic \<Rightarrow> Panic
            | Err e \<Rightarrow> if e \<noteq> WriterEOF then Err RemoteError else map_err (\<lambda>_. RemoteError) closed
            | Ok _ \<Rightarrow> map_err (\<lambda>_. RemoteError) closed), w'))"

text \<open>The count and the error, and what the writer received.\<close>

definition gcpObject_WriteTo ::
  "'w gcs \<Rightarrow> gcpObject \<Rightarrow> 'w \<Rightarrow> ((remote_error, nat) outcome \<times> byte list) \<times> 'w" where
  "gcpObject_WriteTo G ob w =
     (case gc_NewReader G (go_path ob) w of
        (Ok b, w') \<Rightarrow> (copy_body b, w')
      | (Err e, w') \<Rightarrow> ((Err (if e = ObjectNotExist then RemoteNotExist else RemoteError), []), w')
      | (Panic, w') \<Rightarrow> ((Panic, []), w'))"

section \<open>The upload limiter\<close>

record Limiter =
  lm_gCloudUploadLimiter :: AdjustableSemaphore
  lm_done :: bool

definition Limiter_New :: "i64 \<Rightarrow> (unit, Limiter) outcome" where
  "Limiter_New fallback =
     and_then (NewAdjustableSemaphore fallback) (\<lambda>uploadLimiter. Ok \<lparr>lm_gCloudUploadLimiter = uploadLimiter, lm_done = False\<rparr>)"

definition Limiter_Close :: "Limiter \<Rightarrow> Limiter" where
  "Limiter_Close l = l\<lparr>lm_done := True\<rparr>"

text \<open>A tick of the goroutine that follows the feature flag; an error is only logged.\<close>

definition UpdateUploadLimitSemaphore :: "i64 \<Rightarrow> Limiter \<Rightarrow> Limiter" where
  "UpdateUploadLimitSemaphore flag l =
     (if lm_done l then l
      else case SetLimit flag (lm_gCloudUploadLimiter l) of
             Ok s \<Rightarrow> l\<lparr>lm_gCloudUploadLimiter := s\<rparr>
           | _ \<Rightarrow> l)"

text \<open>
  Storing a file: small ones in one shot, others in parts under the upload semaphore.  \<open>file\<close> is what
  reading it gives, \<open>None\<close> if that fails; \<open>lim\<close> the limiter, if there is one; \<open>cancelled\<close> whether the
  context is done when the semaphore is asked for; \<open>creds\<close> whether a token for the uploader is found.
  The result is \<open>None\<close> while the call waits for the semaphore.
\<close>

definition upload_parallel ::
  "'w bucket \<Rightarrow> byte list \<Rightarrow> bool \<Rightarrow> (nat \<times> bool \<times> bool) list \<Rightarrow> 'w \<Rightarrow> (remote_error, unit) outcome \<times> 'w" where
  "upload_parallel B data creds schedule w =
     (if \<not> creds then (Err RemoteError, w)
      else case UploadFileInParallel B (Some data) schedule w of
             (r, w') \<Rightarrow> (and_then (map_err (\<lambda>_. RemoteError) r) (\<lambda>_. Ok ()), w'))"

definition gcpObject_StoreFile ::
  "'w gcs \<Rightarrow> 'w bucket \<Rightarrow> gcpObject \<Rightarrow> byte list option \<Rightarrow> bool \<Rightarrow> bool \<Rightarrow> (nat \<times> bool \<times> bool) list
     \<Rightarrow> Limiter option \<Rightarrow> 'w \<Rightarrow> ((remote_error, unit) outcome \<times> Limiter option \<times> 'w) option" where
  "gcpObject_StoreFile G B ob file cancelled creds schedule lim w =
     (case file of
        None \<Rightarrow> Some (Err RemoteError, lim, w)
      | Some data \<Rightarrow>
          if length data < gcpMultipartUploadChunkSize
          then (case gcpObject_Put G ob data w of (r, w') \<Rightarrow> Some (r, lim, w'))
          else case lim of
                 None \<Rightarrow> (case upload_parallel B data creds schedule w of (r, w') \<Rightarrow> Some (r, lim, w'))
               | Some l \<Rightarrow>
                   (case Acquire cancelled 1 (lm_gCloudUploadLimiter l) of
                      (Waiting, _) \<Rightarrow> None
                    | (AcquireError, _) \<Rightarrow> Some (Err RemoteError, lim, w)
                    | (Acquired, s) \<Rightarrow>
                        (case upload_parallel B data creds schedule w of
                           (r, w') \<Rightarrow>
                             (case Release 1 s of
                                Ok s' \<Rightarrow> Some (r, Some (l\<lparr>lm_gCloudUploadLimiter := s'\<rparr>), w')
                              | _ \<Rightarrow> Some (Panic, Some (l\<lparr>lm_gCloudUploadLimiter := s\<rparr>), w')))))"

section \<open>Amazon S3\<close>

text \<open>
  \<open>s3_GetObject\<close> takes the text of the \<open>Range\<close> header, if there is one.  A listing is one
  page, with the flag \<open>IsTruncated\<close>, which the code does not look at; a deletion of several keys answers with the keys it could not delete and those it deleted.
\<close>

record 'w s3 =
  s3_GetObject :: "string \<Rightarrow> string option \<Rightarrow> 'w \<Rightarrow> (cloud_error, body) outcome \<times> 'w"
  s3_HeadObject :: "string \<Rightarrow> 'w \<Rightarrow> (cloud_error, nat) outcome \<times> 'w"
  s3_PutObject :: "string \<Rightarrow> byte list \<Rightarrow> 'w \<Rightarrow> (cloud_error, unit) outcome \<times> 'w"
  s3_Upload :: "string \<Rightarrow> byte list \<Rightarrow> 'w \<Rightarrow> (cloud_error, unit) outcome \<times> 'w"
  s3_DeleteObject :: "string \<Rightarrow> 'w \<Rightarrow> (cloud_error, unit) outcome \<times> 'w"
  s3_ListObjectsV2 :: "string \<Rightarrow> 'w \<Rightarrow> (cloud_error, string list \<times> bool) outcome \<times> 'w"
  s3_DeleteObjects :: "string list \<Rightarrow> 'w \<Rightarrow> (cloud_error, string list \<times> string list) outcome \<times> 'w"

record awsObject =
  ao_path :: string

definition awsStorage_open :: "string \<Rightarrow> (remote_error, awsObject) outcome" where
  "awsStorage_open path = Ok \<lparr>ao_path = path\<rparr>"

definition awsStorage_DeleteObjectsWithPrefix :: "'w s3 \<Rightarrow> string \<Rightarrow> 'w \<Rightarrow> (remote_error, unit) outcome \<times> 'w" where
  "awsStorage_DeleteObjectsWithPrefix S prefix' w =
     (case s3_ListObjectsV2 S prefix' w of
        (Ok (objects, isTruncated), w1) \<Rightarrow>
          if objects = [] then (Ok (), w1)
          else (case s3_DeleteObjects S objects w1 of
                  (Ok (errors, deleted), w2) \<Rightarrow>
                    (if errors \<noteq> [] \<or> length deleted \<noteq> length objects then Err RemoteError else Ok (), w2)
                | (Err _, w2) \<Rightarrow> (Err RemoteError, w2)
                | (Panic, w2) \<Rightarrow> (Panic, w2))
      | (Err _, w1) \<Rightarrow> (Err RemoteError, w1)
      | (Panic, w1) \<Rightarrow> (Panic, w1))"

definition get_error :: "cloud_error \<Rightarrow> remote_error" where
  "get_error e = (if e = NoSuchKey then RemoteNotExist else RemoteError)"

text \<open>The end of a range is computed on \<open>int64\<close>.\<close>

definition range_header :: "int \<Rightarrow> int \<Rightarrow> string" where
  "range_header a b = ''bytes='' @ Itoa a @ ''-'' @ Itoa b"

definition readRange :: "int \<Rightarrow> int \<Rightarrow> string" where
  "readRange off len = range_header off (signed_take_bit 63 (off + len - 1))"

definition awsObject_WriteTo ::
  "'w s3 \<Rightarrow> awsObject \<Rightarrow> 'w \<Rightarrow> ((remote_error, nat) outcome \<times> byte list) \<times> 'w" where
  "awsObject_WriteTo S ob w =
     (case s3_GetObject S (ao_path ob) None w of
        (Ok b, w') \<Rightarrow> (copy_body b, w')
      | (Err e, w') \<Rightarrow> ((Err (get_error e), []), w')
      | (Panic, w') \<Rightarrow> ((Panic, []), w'))"

text \<open>\<open>file\<close> is the content of the file, \<open>None\<close> if it cannot be opened.\<close>

definition awsObject_StoreFile :: "'w s3 \<Rightarrow> awsObject \<Rightarrow> byte list option \<Rightarrow> 'w \<Rightarrow> (remote_error, unit) outcome \<times> 'w" where
  "awsObject_StoreFile S ob file w =
     (case file of
        None \<Rightarrow> (Err RemoteError, w)
      | Some data \<Rightarrow> (case s3_Upload S (ao_path ob) data w of (r, w') \<Rightarrow> (map_err (\<lambda>_. RemoteError) r, w')))"

definition awsObject_Put :: "'w s3 \<Rightarrow> awsObject \<Rightarrow> byte list \<Rightarrow> 'w \<Rightarrow> (remote_error, unit) outcome \<times> 'w" where
  "awsObject_Put S ob data w =
     (case s3_PutObject S (ao_path ob) data w of (r, w') \<Rightarrow> (map_err (\<lambda>_. RemoteError) r, w'))"

definition awsObject_OpenRangeReader ::
  "'w s3 \<Rightarrow> awsObject \<Rightarrow> int \<Rightarrow> int \<Rightarrow> 'w \<Rightarrow> (remote_error, body) outcome \<times> 'w" where
  "awsObject_OpenRangeReader S ob off len w =
     (case s3_GetObject S (ao_path ob) (Some (readRange off len)) w of (r, w') \<Rightarrow> (map_err get_error r, w'))"

definition awsObject_ReadAt ::
  "'w s3 \<Rightarrow> awsObject \<Rightarrow> nat \<Rightarrow> int \<Rightarrow> 'w \<Rightarrow> (remote_error, byte list \<times> bool) outcome \<times> 'w" where
  "awsObject_ReadAt S ob n off w =
     (case s3_GetObject S (ao_path ob) (Some (readRange off (int n))) w of
        (Ok b, w') \<Rightarrow> (read_at_result (ReadFull n b), w')
      | (Err e, w') \<Rightarrow> (Err (get_error e), w')
      | (Panic, w') \<Rightarrow> (Panic, w'))"

definition awsObject_Size :: "'w s3 \<Rightarrow> awsObject \<Rightarrow> 'w \<Rightarrow> (remote_error, nat) outcome \<times> 'w" where
  "awsObject_Size S ob w =
     (case s3_HeadObject S (ao_path ob) w of
        (r, w') \<Rightarrow> (map_err (\<lambda>e. if e = NoSuchKey \<or> e = NotFound then RemoteNotExist else RemoteError) r, w'))"

definition awsObject_Exists :: "'w s3 \<Rightarrow> awsObject \<Rightarrow> 'w \<Rightarrow> (remote_error, bool) outcome \<times> 'w" where
  "awsObject_Exists S ob w = (case awsObject_Size S ob w of (r, w') \<Rightarrow> (exists_from_size r, w'))"

definition awsObject_Delete :: "'w s3 \<Rightarrow> awsObject \<Rightarrow> 'w \<Rightarrow> (remote_error, unit) outcome \<times> 'w" where
  "awsObject_Delete S ob w = (case s3_DeleteObject S (ao_path ob) w of (r, w') \<Rightarrow> (map_err (\<lambda>_. RemoteError) r, w'))"

section \<open>The services\<close>

text \<open>
  What Cloud Storage documents.  Reads leave the objects as they are; attributes and readers are those
  of the object; \<open>ErrObjectNotExist\<close> means that there is none; a negative offset with a length is
  refused; closing a writer without an error stores what was written, and fails if writing failed; a
  listing that ends has every name with the prefix once.
\<close>

definition gcs_laws :: "'w gcs \<Rightarrow> ('w \<Rightarrow> string \<Rightarrow> byte list option) \<Rightarrow> bool" where
  "gcs_laws G content \<longleftrightarrow>
     (\<forall>p w r w'. gc_Attrs G p w = (r, w') \<longrightarrow> content w' = content w
        \<and> (\<forall>n. r = Ok n \<longrightarrow> (\<exists>d. content w p = Some d \<and> n = length d \<and> int n < 2 ^ 63))
        \<and> (r = Err ObjectNotExist \<longrightarrow> content w p = None))
     \<and> (\<forall>p off len w r w'. gc_NewRangeReader G p off len w = (r, w') \<longrightarrow> 0 \<le> len \<longrightarrow> content w' = content w
        \<and> (\<forall>b. r = Ok b \<longrightarrow> 0 \<le> off \<and> (\<exists>d. content w p = Some d \<and> body_of (take (nat len) (drop (nat off) d)) b)))
     \<and> (\<forall>p w r w'. gc_NewReader G p w = (r, w') \<longrightarrow> content w' = content w
        \<and> (\<forall>b. r = Ok b \<longrightarrow> (\<exists>d. content w p = Some d \<and> body_of d b)))
     \<and> (\<forall>p d w wr cl w'. gc_Writer G p d w = ((wr, cl), w') \<longrightarrow>
        (\<forall>q. q \<noteq> p \<longrightarrow> content w' q = content w q)
        \<and> (cl = Ok () \<longrightarrow> wr = Ok () \<and> content w' p = Some d))
     \<and> (\<forall>p w r w'. gc_Delete G p w = (r, w') \<longrightarrow>
        (\<forall>q. q \<noteq> p \<longrightarrow> content w' q = content w q) \<and> (r = Ok () \<longrightarrow> content w' p = None))
     \<and> (\<forall>pre w names fails w'. gc_Objects G pre w = ((names, fails), w') \<longrightarrow> content w' = content w
        \<and> set names \<subseteq> {q. content w q \<noteq> None \<and> prefix pre q}
        \<and> (\<not> fails \<longrightarrow> set names = {q. content w q \<noteq> None \<and> prefix pre q}))"

text \<open>
  What S3 documents.  A range that starts inside the object gives its bytes up to the end of the
  object, one that starts behind it is refused, and a header whose end lies before its start is not a
  valid range and is ignored.  A page lists keys with the prefix, all of them unless it is truncated.
\<close>

definition s3_laws :: "'w s3 \<Rightarrow> ('w \<Rightarrow> string \<Rightarrow> byte list option) \<Rightarrow> bool" where
  "s3_laws S content \<longleftrightarrow>
     (\<forall>p range w r w'. s3_GetObject S p range w = (r, w') \<longrightarrow> content w' = content w
        \<and> (\<forall>b. r = Ok b \<longrightarrow> (\<exists>d. content w p = Some d \<and> (range = None \<longrightarrow> body_of d b)
            \<and> (\<forall>i j. 0 \<le> i \<longrightarrow> range = Some (range_header i j) \<longrightarrow>
                 (if i \<le> j then body_of (take (nat (j + 1 - i)) (drop (nat i) d)) b else body_of d b)))))
     \<and> (\<forall>p w r w'. s3_HeadObject S p w = (r, w') \<longrightarrow> content w' = content w
        \<and> (\<forall>n. r = Ok n \<longrightarrow> (\<exists>d. content w p = Some d \<and> n = length d \<and> int n < 2 ^ 63))
        \<and> (r = Err NoSuchKey \<or> r = Err NotFound \<longrightarrow> content w p = None))
     \<and> (\<forall>p d w r w'. s3_PutObject S p d w = (r, w') \<or> s3_Upload S p d w = (r, w') \<longrightarrow>
        (\<forall>q. q \<noteq> p \<longrightarrow> content w' q = content w q) \<and> (r = Ok () \<longrightarrow> content w' p = Some d))
     \<and> (\<forall>p w r w'. s3_DeleteObject S p w = (r, w') \<longrightarrow>
        (\<forall>q. q \<noteq> p \<longrightarrow> content w' q = content w q) \<and> (r = Ok () \<longrightarrow> content w' p = None))
     \<and> (\<forall>pre w r w'. s3_ListObjectsV2 S pre w = (r, w') \<longrightarrow> content w' = content w
        \<and> (\<forall>names isTruncated. r = Ok (names, isTruncated) \<longrightarrow> distinct names
            \<and> set names \<subseteq> {q. content w q \<noteq> None \<and> prefix pre q}
            \<and> (\<not> isTruncated \<longrightarrow> set names = {q. content w q \<noteq> None \<and> prefix pre q})))
     \<and> (\<forall>ks w r w'. s3_DeleteObjects S ks w = (r, w') \<longrightarrow>
        (\<forall>q. q \<notin> set ks \<longrightarrow> content w' q = content w q)
        \<and> (\<forall>errors deleted. r = Ok (errors, deleted) \<longrightarrow> distinct deleted \<and> set deleted \<subseteq> set ks
            \<and> (\<forall>q \<in> set deleted. content w' q = None)))"

section \<open>The interface to the cache\<close>

text \<open>The operations of an object that the cache calls: the interfaces \<open>Seekable\<close> and \<open>Blob\<close>.\<close>

record 'w object_ops =
  ob_ReadAt :: "nat \<Rightarrow> int \<Rightarrow> 'w \<Rightarrow> (remote_error, byte list \<times> bool) outcome \<times> 'w"
  ob_Size :: "'w \<Rightarrow> (remote_error, nat) outcome \<times> 'w"
  ob_OpenRangeReader :: "int \<Rightarrow> int \<Rightarrow> 'w \<Rightarrow> (remote_error, body) outcome \<times> 'w"
  ob_WriteTo :: "'w \<Rightarrow> ((remote_error, nat) outcome \<times> byte list) \<times> 'w"
  ob_Exists :: "'w \<Rightarrow> (remote_error, bool) outcome \<times> 'w"

definition gcp_ops :: "'w gcs \<Rightarrow> gcpObject \<Rightarrow> 'w object_ops" where
  "gcp_ops G ob =
     \<lparr>ob_ReadAt = gcpObject_ReadAt G ob, ob_Size = gcpObject_Size G ob,
      ob_OpenRangeReader = (\<lambda>off len w. case gcpObject_OpenRangeReader G ob off len w of (r, w') \<Rightarrow> (and_then r (\<lambda>rd. Ok (cr_body rd)), w')),
      ob_WriteTo = gcpObject_WriteTo G ob, ob_Exists = gcpObject_Exists G ob\<rparr>"

definition aws_ops :: "'w s3 \<Rightarrow> awsObject \<Rightarrow> 'w object_ops" where
  "aws_ops S ob =
     \<lparr>ob_ReadAt = awsObject_ReadAt S ob, ob_Size = awsObject_Size S ob, ob_OpenRangeReader = awsObject_OpenRangeReader S ob,
      ob_WriteTo = awsObject_WriteTo S ob, ob_Exists = awsObject_Exists S ob\<rparr>"

text \<open>
  How an object answers a call of the cache that reads.  A read of a range is one of a reader that was
  opened for it, after reads that delivered the bytes before the position.
\<close>

inductive object_answers :: "'w object_ops \<Rightarrow> 'w \<Rightarrow> inner_call \<Rightarrow> os_reply \<Rightarrow> 'w \<Rightarrow> bool" for ops where
  read_at: "ob_ReadAt ops n off w = (r, w') \<Longrightarrow>
    object_answers ops w (InnerReadAt n off) (reply_of (and_then r (\<lambda>(bs, eof). Ok (RBytes bs eof)))) w'"
| size: "ob_Size ops w = (r, w') \<Longrightarrow> object_answers ops w InnerSize (reply_of (and_then r (\<lambda>n. Ok (RCount n)))) w'"
| open_range: "ob_OpenRangeReader ops off len w = (r, w') \<Longrightarrow>
    object_answers ops w (InnerOpenRange off len) (reply_of (and_then r (\<lambda>_. Ok RUnit))) w'"
| range_read: "ob_OpenRangeReader ops off len w = (Ok b, w') \<Longrightarrow> body_reads ks b = (before, b') \<Longrightarrow> body_Read k n b' = (r, b'') \<Longrightarrow>
    object_answers ops w (InnerRangeRead off len (length before) n) (reply_of (and_then r (\<lambda>(bs, eof). Ok (RBytes bs eof)))) w'"
| write_to: "ob_WriteTo ops w = ((r, dst), w') \<Longrightarrow>
    object_answers ops w InnerWriteTo (reply_of (and_then r (\<lambda>n. Ok (RBytes dst True)))) w'"
| exists: "ob_Exists ops w = (r, w') \<Longrightarrow>
    object_answers ops w InnerExists (reply_of (and_then r (\<lambda>x. Ok (RCount (if x then 1 else 0))))) w'"

text \<open>Offsets are not negative, ranges not empty, and their ends fit \<open>int64\<close>.\<close>

fun proper_call :: "inner_call \<Rightarrow> bool" where
  "proper_call (InnerReadAt n off) \<longleftrightarrow> 0 \<le> off \<and> off + int n < 2 ^ 63"
| "proper_call (InnerOpenRange off len) \<longleftrightarrow> 0 \<le> off \<and> 0 < len \<and> off + len < 2 ^ 63"
| "proper_call (InnerRangeRead off len pos n) \<longleftrightarrow> 0 \<le> off \<and> 0 < len \<and> off + len < 2 ^ 63"
| "proper_call _ \<longleftrightarrow> True"

lemma body_Read_prefix:
  assumes "body_Read k n b = (r, b')"
  shows "\<exists>bs. bd_bytes b = bs @ bd_bytes b' \<and> length bs \<le> n \<and> bd_end b' = bd_end b \<and> (\<forall>x eof. r = Ok (x, eof) \<longrightarrow> x = bs) \<and> ((\<exists>e. r = Err e) \<longrightarrow> bs = [])"
  using assms by (auto simp: body_Read_def split: if_splits intro!: exI [of _ "take (min k n) (bd_bytes b)"])

lemma body_reads_prefix: "body_reads ks b = (before, b') \<Longrightarrow> bd_bytes b = before @ bd_bytes b'"
proof (induction ks b arbitrary: before b' rule: body_reads.induct)
  case (2 k n ks b)
  obtain r b1 where r: "body_Read k n b = (r, b1)" by fastforce
  obtain rest b2 where rest: "body_reads ks b1 = (rest, b2)" by fastforce
  show ?case
  proof (cases r)
    case (Ok x)
    obtain bs eof where x: "x = (bs, eof)" by fastforce
    have "bd_bytes b1 = rest @ bd_bytes b2" using 2(1) [OF r [symmetric] Ok x [symmetric] rest] .
    then show ?thesis using 2(2) r rest Ok x body_Read_prefix [OF r] by auto
  qed (use 2(2) r body_Read_prefix [OF r] in \<open>auto simp: body_Read_def split: if_splits\<close>)
qed simp

text \<open>
  What the cache relies on, for an object that \<open>holds\<close> some bytes: reads return them and leave them as
  they are.  The exception is a \<open>ReadAt\<close> whose response is \<open>cut\<close>: it may return the bytes that came, with
  the end of the object.  The laws are those of the single operations; the contract of all calls follows.
\<close>

locale remote_object =
  fixes ops :: "'w object_ops" and holds :: "'w \<Rightarrow> byte list \<Rightarrow> bool" and cut :: "'w \<Rightarrow> nat \<Rightarrow> int \<Rightarrow> bool"
  assumes ReadAt_law: "holds w d \<Longrightarrow> ob_ReadAt ops n off w = (r, w') \<Longrightarrow> 0 \<le> off \<Longrightarrow> off + int n < 2 ^ 63 \<Longrightarrow>
      holds w' d \<and> (\<forall>bs eof. r = Ok (bs, eof) \<longrightarrow> bs = take n (drop (nat off) d) \<and> (length bs < n \<longrightarrow> eof)
        \<or> cut w n off \<and> eof \<and> strict_prefix bs (take n (drop (nat off) d)))"
    and Size_law: "holds w d \<Longrightarrow> ob_Size ops w = (z, w') \<Longrightarrow> holds w' d \<and> (\<forall>n. z = Ok n \<longrightarrow> n = length d \<and> int n < 2 ^ 63)"
    and Range_law: "holds w d \<Longrightarrow> ob_OpenRangeReader ops off len w = (g, w') \<Longrightarrow> 0 \<le> off \<Longrightarrow> 0 < len \<Longrightarrow> off + len < 2 ^ 63 \<Longrightarrow>
      holds w' d \<and> (\<forall>b. g = Ok b \<longrightarrow> body_of (take (nat len) (drop (nat off) d)) b)"
    and WriteTo_law: "holds w d \<Longrightarrow> ob_WriteTo ops w = ((x, dst), w') \<Longrightarrow> holds w' d \<and> (\<forall>n. x = Ok n \<longrightarrow> dst = d \<and> n = length d)"
    and Exists_law: "holds w d \<Longrightarrow> ob_Exists ops w = (y, w') \<Longrightarrow> holds w' d \<and> y \<noteq> Ok False"
begin

lemma answers_contract:
  assumes "object_answers ops w c r w'" and "holds w d" and "proper_call c"
  shows "holds w' d \<and> (seek_remote d c r \<or> (\<exists>n off bs. c = InnerReadAt n off \<and> cut w n off \<and> r = RBytes bs True
    \<and> strict_prefix bs (take n (drop (nat off) d))))"
  using assms(1)
proof cases
  case (read_at n off x)
  with ReadAt_law [OF assms(2) read_at(3)] assms(3) show ?thesis by (cases x) auto
next
  case (size x)
  with Size_law [OF assms(2) size(3)] show ?thesis by (cases x) auto
next
  case (open_range off len x)
  with Range_law [OF assms(2) open_range(3)] assms(3) show ?thesis by (cases x) auto
next
  case (range_read off len b ks before b' k n x b'')
  let ?part = "take (nat len) (drop (nat off) d)"
  have b: "holds w' d" "prefix (bd_bytes b) ?part"
    using Range_law [OF assms(2) range_read(3)] assms(3) range_read(1) by (auto simp: body_of_def)
  obtain bs where bs: "bd_bytes b' = bs @ bd_bytes b''" "length bs \<le> n" "\<forall>y eof. x = Ok (y, eof) \<longrightarrow> y = bs"
    using body_Read_prefix [OF range_read(5)] by blast
  have "prefix (before @ bs) ?part"
    using b(2) body_reads_prefix [OF range_read(4)] bs(1) by (auto simp: prefix_def)
  then have "prefix bs (drop (length before) ?part)" by (auto simp: prefix_def)
  then show ?thesis using bs b(1) range_read(1,2) assms(3) by (cases x) auto
next
  case (write_to x dst)
  with WriteTo_law [OF assms(2) write_to(3)] show ?thesis by (cases x) auto
next
  case (exists x)
  with Exists_law [OF assms(2) exists(3)] show ?thesis by (cases x) auto
qed

end

text \<open>Reading a body to the end, or as far as the buffer goes.\<close>

lemma read_at_result_law:
  assumes "body_of part b" and "read_at_result (ReadFull n b) = Ok (bs, eof)"
  shows "bs = take n part \<and> (length bs < n \<longrightarrow> eof) \<or> bd_end b = EndCut \<and> eof \<and> strict_prefix bs (take n part)"
proof -
  obtain tl' where tl': "part = bd_bytes b @ tl'" using assms(1) by (auto simp: body_of_def prefix_def)
  show ?thesis
  proof (cases "n \<le> length (bd_bytes b)")
    case True
    then have "length (take n (bd_bytes b)) = n" by simp
    then show ?thesis using assms(2) tl' True by (auto simp: read_at_result_def ReadFull_def Let_def)
  next
    case False
    then have e: "bs = bd_bytes b" "bd_end b \<noteq> EndError" "eof"
      using assms(2) by (auto simp: read_at_result_def ReadFull_def Let_def split: body_end.splits if_splits)
    show ?thesis
    proof (cases "bd_end b")
      case EndClean
      then have "bd_bytes b = part" using assms(1) by (simp add: body_of_def)
      then show ?thesis using e False by simp
    next
      case EndCut
      have "prefix bs (take n part)" using e(1) tl' False by (auto simp: prefix_def)
      then show ?thesis using e EndCut by (auto simp: strict_prefix_def)
    qed (use e in simp)
  qed
qed

lemma copy_body_law: "body_of d b \<Longrightarrow> copy_body b = (Ok n, dst) \<Longrightarrow> dst = d \<and> n = length d"
  by (auto simp: copy_body_def body_of_def split: if_splits)

lemma exists_from_size_law: "exists_from_size r = Ok False \<longleftrightarrow> r = Err RemoteNotExist"
  by (cases r) (auto simp: exists_from_size_def ignoreNotExists_def)

text \<open>The laws of the services as rules, one per call.\<close>

lemma gcs_Attrs: "gcs_laws G content \<Longrightarrow> gc_Attrs G p w = (r, w') \<Longrightarrow> content w' = content w
    \<and> (\<forall>n. r = Ok n \<longrightarrow> (\<exists>d. content w p = Some d \<and> n = length d \<and> int n < 2 ^ 63)) \<and> (r = Err ObjectNotExist \<longrightarrow> content w p = None)"
  by (simp add: gcs_laws_def)

lemma gcs_NewRangeReader: "gcs_laws G content \<Longrightarrow> gc_NewRangeReader G p off len w = (r, w') \<Longrightarrow> 0 \<le> len \<Longrightarrow> content w' = content w
    \<and> (\<forall>b. r = Ok b \<longrightarrow> 0 \<le> off \<and> (\<exists>d. content w p = Some d \<and> body_of (take (nat len) (drop (nat off) d)) b))"
  by (simp add: gcs_laws_def)

lemma gcs_NewReader: "gcs_laws G content \<Longrightarrow> gc_NewReader G p w = (r, w') \<Longrightarrow> content w' = content w
    \<and> (\<forall>b. r = Ok b \<longrightarrow> (\<exists>d. content w p = Some d \<and> body_of d b))"
  by (simp add: gcs_laws_def)

lemma gcs_Writer: "gcs_laws G content \<Longrightarrow> gc_Writer G p d w = ((wr, Ok ()), w') \<Longrightarrow> wr = Ok () \<and> content w' p = Some d"
  by (simp add: gcs_laws_def)

lemma gcs_Delete: "gcs_laws G content \<Longrightarrow> gc_Delete G p w = (r, w') \<Longrightarrow>
    (\<forall>q. q \<noteq> p \<longrightarrow> content w' q = content w q) \<and> (r = Ok () \<longrightarrow> content w' p = None)"
  by (simp add: gcs_laws_def)

lemma gcs_Objects: "gcs_laws G content \<Longrightarrow> gc_Objects G pre w = ((names, fails), w') \<Longrightarrow> content w' = content w
    \<and> set names \<subseteq> {q. content w q \<noteq> None \<and> prefix pre q} \<and> (\<not> fails \<longrightarrow> set names = {q. content w q \<noteq> None \<and> prefix pre q})"
  by (simp add: gcs_laws_def)

lemma s3_GetObject_law: "s3_laws S content \<Longrightarrow> s3_GetObject S p rg w = (r, w') \<Longrightarrow> content w' = content w
    \<and> (\<forall>b. r = Ok b \<longrightarrow> (\<exists>d. content w p = Some d \<and> (rg = None \<longrightarrow> body_of d b)
        \<and> (\<forall>i j. 0 \<le> i \<longrightarrow> rg = Some (range_header i j) \<longrightarrow>
             (if i \<le> j then body_of (take (nat (j + 1 - i)) (drop (nat i) d)) b else body_of d b))))"
  by (simp add: s3_laws_def)

lemma s3_Get: "s3_laws S content \<Longrightarrow> s3_GetObject S p None w = (r, w') \<Longrightarrow> content w' = content w
    \<and> (\<forall>b. r = Ok b \<longrightarrow> (\<exists>d. content w p = Some d \<and> body_of d b))"
  by (drule (1) s3_GetObject_law) blast

lemma s3_GetRange: "s3_laws S content \<Longrightarrow> s3_GetObject S p (Some (range_header i j)) w = (r, w') \<Longrightarrow> 0 \<le> i \<Longrightarrow> content w' = content w
    \<and> (\<forall>b. r = Ok b \<longrightarrow> (\<exists>d. content w p = Some d
        \<and> (if i \<le> j then body_of (take (nat (j + 1 - i)) (drop (nat i) d)) b else body_of d b)))"
  by (drule (1) s3_GetObject_law) blast

lemma s3_Head: "s3_laws S content \<Longrightarrow> s3_HeadObject S p w = (r, w') \<Longrightarrow> content w' = content w
    \<and> (\<forall>n. r = Ok n \<longrightarrow> (\<exists>d. content w p = Some d \<and> n = length d \<and> int n < 2 ^ 63)) \<and> (r = Err NoSuchKey \<or> r = Err NotFound \<longrightarrow> content w p = None)"
  by (simp add: s3_laws_def)

lemma s3_List: "s3_laws S content \<Longrightarrow> s3_ListObjectsV2 S pre w = (Ok (names, isTruncated), w') \<Longrightarrow> content w' = content w \<and> distinct names
    \<and> set names \<subseteq> {q. content w q \<noteq> None \<and> prefix pre q} \<and> (\<not> isTruncated \<longrightarrow> set names = {q. content w q \<noteq> None \<and> prefix pre q})"
  by (simp add: s3_laws_def)

lemma s3_DeleteMany: "s3_laws S content \<Longrightarrow> s3_DeleteObjects S ks w = (r, w') \<Longrightarrow> (\<forall>q. q \<notin> set ks \<longrightarrow> content w' q = content w q)
    \<and> (\<forall>errors deleted. r = Ok (errors, deleted) \<longrightarrow> distinct deleted \<and> set deleted \<subseteq> set ks \<and> (\<forall>q \<in> set deleted. content w' q = None))"
  by (simp add: s3_laws_def)

lemma range_end: "0 \<le> off \<Longrightarrow> off + len < 2 ^ 63 \<Longrightarrow> 0 \<le> off + len \<Longrightarrow> signed_take_bit 63 (off + len - 1) = off + len - (1 :: int)"
  by (rule signed_take_bit_int_eq_self) simp_all

text \<open>The response of this read was cut before its announced length.\<close>

definition gcp_cut :: "'w gcs \<Rightarrow> gcpObject \<Rightarrow> 'w \<Rightarrow> nat \<Rightarrow> int \<Rightarrow> bool" where
  "gcp_cut G ob w n off \<longleftrightarrow>
     (case fst (gc_NewRangeReader G (go_path ob) off (int n) w) of Ok b \<Rightarrow> bd_end b = EndCut | _ \<Rightarrow> False)"

definition aws_cut :: "'w s3 \<Rightarrow> awsObject \<Rightarrow> 'w \<Rightarrow> nat \<Rightarrow> int \<Rightarrow> bool" where
  "aws_cut S ob w n off \<longleftrightarrow>
     (case fst (s3_GetObject S (ao_path ob) (Some (readRange off (int n))) w) of Ok b \<Rightarrow> bd_end b = EndCut | _ \<Rightarrow> False)"

interpretation gcp: remote_object "gcp_ops G ob" "\<lambda>w d. gcs_laws G content \<and> content w (go_path ob) = Some d" "gcp_cut G ob"
  for G :: "'w gcs" and ob content
proof (unfold_locales, goal_cases)
  case (1 w d n off r w')
  then obtain x where x: "gc_NewRangeReader G (go_path ob) off (int n) w = (x, w')"
    "r = (case x of Ok b \<Rightarrow> read_at_result (ReadFull n b) | Err e \<Rightarrow> Err RemoteError | Panic \<Rightarrow> Panic)"
    by (auto simp: gcp_ops_def gcpObject_ReadAt_def split: prod.splits outcome.splits)
  with gcs_NewRangeReader [OF _ x(1), of content] 1(1) show ?case
    by (auto simp: gcp_cut_def split: outcome.splits dest!: read_at_result_law)
next
  case (2 w d z w')
  then show ?case
    using gcs_Attrs [of G content "go_path ob"] by (fastforce simp: gcp_ops_def gcpObject_Size_def split: prod.splits)
next
  case (3 w d off len g w')
  then show ?case
    using gcs_NewRangeReader [of G content "go_path ob" off len]
    by (fastforce simp: gcp_ops_def gcpObject_OpenRangeReader_def split: prod.splits outcome.splits)
next
  case (4 w d x dst w')
  then show ?case
    using gcs_NewReader [of G content "go_path ob"]
    by (fastforce simp: gcp_ops_def gcpObject_WriteTo_def split: prod.splits outcome.splits dest: copy_body_law)
next
  case (5 w d y w')
  then obtain r where r: "gc_Attrs G (go_path ob) w = (r, w')" "y = exists_from_size (map_err (\<lambda>e. if e = ObjectNotExist then RemoteNotExist else RemoteError) r)"
    by (auto simp: gcp_ops_def gcpObject_Exists_def gcpObject_Size_def split: prod.splits)
  with gcs_Attrs [OF _ r(1), of content] 5(1) show ?case
    by (cases r) (auto simp: exists_from_size_law)
qed

interpretation aws: remote_object "aws_ops S ob" "\<lambda>w d. s3_laws S content \<and> content w (ao_path ob) = Some d" "aws_cut S ob"
  for S :: "'w s3" and ob content
proof (unfold_locales, goal_cases)
  case (1 w d n off r w')
  then obtain x where x: "s3_GetObject S (ao_path ob) (Some (range_header off (off + int n - 1))) w = (x, w')"
    "r = (case x of Ok b \<Rightarrow> read_at_result (ReadFull n b) | Err e \<Rightarrow> Err (get_error e) | Panic \<Rightarrow> Panic)"
    by (auto simp: aws_ops_def awsObject_ReadAt_def readRange_def range_end split: prod.splits outcome.splits)
  note get = s3_GetRange [OF _ x(1) 1(3), of content]
  show ?case
  proof (cases n)
    case 0
    then show ?thesis using get 1(1) x(2) by (auto simp: read_at_result_def ReadFull_def split: outcome.splits)
  next
    case (Suc m)
    have cut: "aws_cut S ob w n off \<longleftrightarrow> (case x of Ok b \<Rightarrow> bd_end b = EndCut | _ \<Rightarrow> False)"
      using x(1) 1(3,4) by (simp add: aws_cut_def readRange_def range_end)
    have "nat (off + int n - 1 + 1 - off) = n" "off \<le> off + int n - 1" using Suc by simp_all
    then show ?thesis
      using get 1(1) x(2) unfolding cut by (auto split: outcome.splits dest!: read_at_result_law)
  qed
next
  case (2 w d z w')
  then show ?case
    using s3_Head [of S content "ao_path ob"] by (fastforce simp: aws_ops_def awsObject_Size_def split: prod.splits)
next
  case (3 w d off len g w')
  then obtain x where x: "s3_GetObject S (ao_path ob) (Some (range_header off (off + len - 1))) w = (x, w')" "g = map_err get_error x"
    by (auto simp: aws_ops_def awsObject_OpenRangeReader_def readRange_def range_end split: prod.splits)
  then show ?case using s3_GetRange [OF _ x(1) 3(3), of content] 3(1,4) by auto
next
  case (4 w d x dst w')
  then show ?case
    using s3_Get [of S content "ao_path ob"]
    by (fastforce simp: aws_ops_def awsObject_WriteTo_def split: prod.splits outcome.splits dest: copy_body_law)
next
  case (5 w d y w')
  then obtain r where r: "s3_HeadObject S (ao_path ob) w = (r, w')"
    "y = exists_from_size (map_err (\<lambda>e. if e = NoSuchKey \<or> e = NotFound then RemoteNotExist else RemoteError) r)"
    by (auto simp: aws_ops_def awsObject_Exists_def awsObject_Size_def split: prod.splits)
  with s3_Head [OF _ r(1), of content] 5(1) show ?case
    by (cases r) (auto simp: exists_from_size_law)
qed

text \<open>
  C31.  Both cloud providers keep the contract the cache relies on, with one exception.  As far as the
  services do what they document, and for offsets that are not negative and ranges that are not empty
  and end below two to the 63, reading does not change the object, and every reply to a call of the
  cache is one the contract allows for its bytes, short reads ending with \<open>io.EOF\<close> included; except that a
  \<open>ReadAt\<close> whose response is cut before its announced length may return a first part of the bytes asked
  for with \<open>io.EOF\<close>.
\<close>

theorem cloud_object_contract:
  assumes "proper_call c"
  shows "(gcs_laws G content \<and> content w (go_path gob) = Some d \<and> object_answers (gcp_ops G gob) w c r w' \<longrightarrow>
        content w' (go_path gob) = Some d
        \<and> (seek_remote d c r \<or> (\<exists>n off bs. c = InnerReadAt n off \<and> gcp_cut G gob w n off \<and> r = RBytes bs True
              \<and> strict_prefix bs (take n (drop (nat off) d)))))
    \<and> (s3_laws S content' \<and> content' v (ao_path aob) = Some d \<and> object_answers (aws_ops S aob) v c r v' \<longrightarrow>
        content' v' (ao_path aob) = Some d
        \<and> (seek_remote d c r \<or> (\<exists>n off bs. c = InnerReadAt n off \<and> aws_cut S aob v n off \<and> r = RBytes bs True
              \<and> strict_prefix bs (take n (drop (nat off) d)))))"
  using gcp.answers_contract [of G gob w c r w' content d] aws.answers_contract [of S aob v c r v' content' d] assms by blast

text \<open>
  A truncated response is taken for the end of the object: both providers turn every
  \<open>io.ErrUnexpectedEOF\<close> into \<open>io.EOF\<close>, also that of a body that was cut.
\<close>

lemma cut_body_reads_as_end:
  assumes "gc_NewRangeReader G (go_path gob) off (int n) w = (Ok b, w')"
    and "s3_GetObject S (ao_path aob) (Some (readRange off (int n))) v = (Ok b, v')"
    and "bd_end b = EndCut" and "length (bd_bytes b) < n"
  shows "gcpObject_ReadAt G gob n off w = (Ok (bd_bytes b, True), w') \<and> awsObject_ReadAt S aob n off v = (Ok (bd_bytes b, True), v')"
  using assms by (simp add: gcpObject_ReadAt_def awsObject_ReadAt_def read_at_result_def ReadFull_def Let_def)

section \<open>Storing and deleting\<close>

lemma gcpObject_Put_stores:
  assumes "gcs_laws G content" and "gcpObject_Put G ob data w = (Ok (), w')"
  shows "content w' (go_path ob) = Some data"
proof -
  obtain wr cl w2 where x: "gc_Writer G (go_path ob) data w = ((wr, cl), w2)" by (metis prod.exhaust)
  then have "cl = Ok () \<and> w2 = w'"
    using assms(2) by (cases wr) (auto simp: gcpObject_Put_def split: if_splits)
  with x gcs_Writer [OF assms(1)] show ?thesis by blast
qed

lemma upload_parallel_stores:
  assumes "bucket_laws B parts (\<lambda>w. case content w p of Some d \<Rightarrow> d | None \<Rightarrow> [])" and "full_schedule (num_parts (length data)) schedule"
    and "length data < 2 ^ 53" and "data \<noteq> []" and "upload_parallel B data creds schedule w = (Ok (), w')"
  shows "content w' p = Some data"
proof -
  obtain n where "UploadFileInParallel B (Some data) schedule w = (Ok n, w')"
    using assms(5) by (auto simp: upload_parallel_def and_then_Ok_iff split: if_splits prod.splits)
  from UploadFileInParallel_complete [OF assms(1-3) this] assms(4) show ?thesis by (auto split: option.splits)
qed

text \<open>An upload gives back what it took from the semaphore.\<close>

lemma acquire_release:
  assumes "Acquire cancelled 1 s = (Acquired, s')" and "0 \<le> sint (sm_used s)" and "sint (sm_used s) < 2 ^ 62"
  shows "Release 1 s' = Ok s"
proof -
  have "sint (sm_used s + 1) = sint (sm_used s) + 1" using sint_add_small [of "sm_used s" 1] assms(2,3) by simp
  moreover have "s' = s\<lparr>sm_used := sm_used s + 1\<rparr>" using assms(1) by (auto simp: Acquire_def split: if_splits)
  ultimately show ?thesis using assms(2) by (simp add: Release_def)
qed

text \<open>
  A file that was stored is stored whole.  Whether the file is small and written in one shot or
  large and uploaded in parts in any order: when \<open>StoreFile\<close> of a Cloud Storage object succeeds, the
  object is the file; and however it returns, the upload semaphore is as it was before.
\<close>

lemma gcp_StoreFile_stores:
  assumes "gcs_laws G content" and "bucket_laws B parts (\<lambda>w. case content w (go_path ob) of Some d \<Rightarrow> d | None \<Rightarrow> [])"
    and "full_schedule (num_parts (length data)) schedule" and "length data < 2 ^ 53"
    and "\<forall>l. lim = Some l \<longrightarrow> 0 \<le> sint (sm_used (lm_gCloudUploadLimiter l)) \<and> sint (sm_used (lm_gCloudUploadLimiter l)) < 2 ^ 62"
    and "gcpObject_StoreFile G B ob (Some data) cancelled creds schedule lim w = Some (r, lim', w')"
  shows "lim' = lim \<and> (r = Ok () \<longrightarrow> content w' (go_path ob) = Some data)"
proof (cases "length data < gcpMultipartUploadChunkSize")
  case True
  then show ?thesis using assms(1,6) gcpObject_Put_stores by (auto simp: gcpObject_StoreFile_def split: prod.splits)
next
  case False
  then have "data \<noteq> []" using chunk_size_pos by auto
  note stores = upload_parallel_stores [where content = content and p = "go_path ob", OF assms(2-4) this]
  show ?thesis
  proof (cases lim)
    case None
    then show ?thesis using False assms(6) stores by (auto simp: gcpObject_StoreFile_def split: prod.splits)
  next
    case (Some l)
    obtain t s where a: "Acquire cancelled 1 (lm_gCloudUploadLimiter l) = (t, s)" by fastforce
    show ?thesis
    proof (cases t)
      case Acquired
      then have "Release 1 s = Ok (lm_gCloudUploadLimiter l)" using a acquire_release assms(5) Some by simp
      then show ?thesis using False Some a Acquired assms(6) stores by (auto simp: gcpObject_StoreFile_def split: prod.splits)
    qed (use False Some a assms(6) in \<open>auto simp: gcpObject_StoreFile_def\<close>)
  qed
qed

lemma delete_each_deletes:
  assumes "gcs_laws G content" and "delete_each G names fails w = (Ok (), w')"
  shows "\<not> fails \<and> content w' q = (if q \<in> set names then None else content w q)"
  using assms(2)
proof (induction names arbitrary: w)
  case (Cons name names)
  then obtain w1 where d: "gc_Delete G name w = (Ok (), w1)" "delete_each G names fails w1 = (Ok (), w')"
    by (auto split: prod.splits outcome.splits)
  from gcs_Delete [OF assms(1) d(1)] Cons.IH [OF d(2)] show ?case by (cases "q = name") auto
qed (simp split: if_splits)

lemma aws_prefix_deletion:
  assumes "s3_laws S content" and "awsStorage_DeleteObjectsWithPrefix S p v = (Ok (), v')"
    and "s3_ListObjectsV2 S p v = (Ok (names, isTruncated), v1)"
  shows "content v' q = (if q \<in> set names then None else content v q)"
proof -
  note page = s3_List [OF assms(1,3)]
  show ?thesis
  proof (cases "names = []")
    case True
    then have "v' = v1" using assms(2,3) by (simp add: awsStorage_DeleteObjectsWithPrefix_def)
    then show ?thesis using page True by auto
  next
    case False
    then obtain deleted where d: "s3_DeleteObjects S names v1 = (Ok ([], deleted), v')" "length deleted = length names"
      using assms(2,3) by (auto simp: awsStorage_DeleteObjectsWithPrefix_def split: prod.splits outcome.splits if_splits)
    note del = s3_DeleteMany [OF assms(1) d(1)]
    have "set deleted = set names"
      using del d(2) page by (intro card_subset_eq) (auto simp: distinct_card)
    then show ?thesis using del page by (cases "q \<in> set names") auto
  qed
qed

text \<open>
  C32.  Deleting by prefix.  When the deletion succeeds, Cloud Storage has lost exactly the objects below
  the directory of that name.  S3 has lost exactly the objects of the one page that was listed; if that
  page was not truncated, these are all objects whose names start with the prefix, a following slash or
  not, and if it was, every object beyond the page is still there although success was reported.
\<close>

theorem prefix_deletion:
  assumes "gcs_laws G content" and "s3_laws S content'"
    and "gcpStorage_DeleteObjectsWithPrefix G p w = (Ok (), w')" and "awsStorage_DeleteObjectsWithPrefix S p v = (Ok (), v')"
    and "s3_ListObjectsV2 S p v = (Ok (names, isTruncated), v1)"
  shows "content w' q = (if prefix (p @ ''/'') q then None else content w q)
    \<and> (q \<in> set names \<longrightarrow> prefix p q) \<and> content' v' q = (if q \<in> set names then None else content' v q)
    \<and> (\<not> isTruncated \<longrightarrow> content' v' q = (if prefix p q then None else content' v q))"
proof -
  obtain gnames fails w1 where l: "gc_Objects G (p @ ''/'') w = ((gnames, fails), w1)" "delete_each G gnames fails w1 = (Ok (), w')"
    using assms(3) by (auto simp: gcpStorage_DeleteObjectsWithPrefix_def split: prod.splits)
  from gcs_Objects [OF assms(1) l(1)] delete_each_deletes [OF assms(1) l(2), of q]
  have "content w' q = (if prefix (p @ ''/'') q then None else content w q)" by auto
  then show ?thesis using aws_prefix_deletion [OF assms(2,4,5), of q] s3_List [OF assms(2,5)] by auto
qed

text \<open>The end of an empty range lies before its start: S3 then ignores the header and sends the whole object.\<close>

lemma aws_empty_range_reads_all:
  assumes "s3_laws S content" and "content w (ao_path ob) = Some d" and "0 \<le> off" and "off < 2 ^ 63"
    and "awsObject_OpenRangeReader S ob off 0 w = (Ok b, w')"
  shows "body_of d b"
proof -
  have "s3_GetObject S (ao_path ob) (Some (range_header off (off - 1))) w = (Ok b, w')"
    using assms(3-5) range_end [of off 0] by (auto simp: awsObject_OpenRangeReader_def readRange_def split: prod.splits elim!: map_err.elims)
  from s3_GetRange [OF assms(1) this assms(3)] assms(2) show ?thesis by simp
qed

section \<open>Example services\<close>

text \<open>Services that keep their objects in an association list and never fail.\<close>

type_synonym object_list = "(string \<times> byte list) list"

definition found :: "object_list \<Rightarrow> string \<Rightarrow> (byte list \<Rightarrow> 'a) \<Rightarrow> (cloud_error, 'a) outcome" where
  "found w p f = (case map_of w p of Some d \<Rightarrow> if int (length d) < 2 ^ 63 then Ok (f d) else Err ServiceError | None \<Rightarrow> Err ObjectNotExist)"

definition example_gcs :: "object_list gcs" where
  "example_gcs =
     \<lparr>gc_Attrs = (\<lambda>p w. (found w p length, w)),
      gc_NewRangeReader = (\<lambda>p off len w.
        (if off < 0 then Err ServiceError else found w p (\<lambda>d. \<lparr>bd_bytes = take (nat len) (drop (nat off) d), bd_end = EndClean\<rparr>), w)),
      gc_NewReader = (\<lambda>p w. (found w p (\<lambda>d. \<lparr>bd_bytes = d, bd_end = EndClean\<rparr>), w)),
      gc_Writer = (\<lambda>p d w. ((Ok (), Ok ()), (p, d) # w)),
      gc_Delete = (\<lambda>p w. (Ok (), filter (\<lambda>x. fst x \<noteq> p) w)),
      gc_Objects = (\<lambda>pre w. ((filter (prefix pre) (map fst w), False), w))\<rparr>"

definition slice_by :: "string \<Rightarrow> byte list \<Rightarrow> byte list" where
  "slice_by h d =
     (case split_on CHR ''-'' (drop 6 h) of
        [a, b] \<Rightarrow>
          (case (decimal a, decimal b) of
             (Some i, Some j) \<Rightarrow> if i \<le> j then take (nat (j + 1 - i)) (drop (nat i) d) else d
           | _ \<Rightarrow> d)
      | _ \<Rightarrow> d)"

definition example_s3 :: "object_list s3" where
  "example_s3 =
     \<lparr>s3_GetObject = (\<lambda>p rg w. (found w p (\<lambda>d. \<lparr>bd_bytes = (case rg of None \<Rightarrow> d | Some h \<Rightarrow> slice_by h d), bd_end = EndClean\<rparr>), w)),
      s3_HeadObject = (\<lambda>p w. (found w p length, w)),
      s3_PutObject = (\<lambda>p d w. (Ok (), (p, d) # w)), s3_Upload = (\<lambda>p d w. (Ok (), (p, d) # w)),
      s3_DeleteObject = (\<lambda>p w. (Ok (), filter (\<lambda>x. fst x \<noteq> p) w)),
      s3_ListObjectsV2 = (\<lambda>pre w. (Ok (filter (prefix pre) (remdups (map fst w)), False), w)),
      s3_DeleteObjects = (\<lambda>ks w. (Ok ([], remdups ks), filter (\<lambda>x. fst x \<notin> set ks) w))\<rparr>"

lemma found_Ok: "found w p f = Ok x \<longleftrightarrow> (\<exists>d. map_of w p = Some d \<and> int (length d) < 2 ^ 63 \<and> x = f d)"
  by (auto simp: found_def split: option.splits)

lemma found_errors: "found w p f = Err ObjectNotExist \<longleftrightarrow> map_of w p = None" "found w p f \<noteq> Err NoSuchKey" "found w p f \<noteq> Err NotFound"
  by (auto simp: found_def split: option.splits)

lemma body_of_whole: "body_of d \<lparr>bd_bytes = d, bd_end = EndClean\<rparr>"
  by (simp add: body_of_def)

lemma map_of_filter: "map_of (filter (\<lambda>x. P (fst x)) w) q = (if P q then map_of w q else None)"
  by (induction w) auto

lemma map_of_names: "{q. map_of w q \<noteq> None \<and> prefix pre q} = set (filter (prefix pre) (map fst w))"
  by (auto simp: map_of_eq_None_iff)

lemma slice_by_header:
  assumes "0 \<le> i"
  shows "slice_by (range_header i j) d = (if i \<le> j then take (nat (j + 1 - i)) (drop (nat i) d) else d)"
proof -
  have hyphen: "CHR ''-'' \<notin> set (nat_digits n)" for n using nat_digits_chars [of n] by auto
  have i: "Itoa i = nat_digits (nat i)" using assms by (simp add: Itoa_def)
  show ?thesis
  proof (cases "0 \<le> j")
    case True
    then have "Itoa j = nat_digits (nat j)" by (simp add: Itoa_def)
    then show ?thesis
      using assms True i hyphen by (simp add: slice_by_def range_header_def split_on_append split_on_single decimal_nat_digits)
  next
    case False
    then have "Itoa j = CHR ''-'' # nat_digits (nat (- j))" by (simp add: Itoa_def)
    then show ?thesis
      using assms False i hyphen split_on_append [of "CHR ''-''" "[]"]
      by (simp add: slice_by_def range_header_def split_on_append split_on_single)
  qed
qed

lemma example_gcs_laws: "gcs_laws example_gcs map_of"
  by (auto simp: gcs_laws_def example_gcs_def found_Ok found_errors map_of_names map_of_filter [where P = "\<lambda>x. x \<noteq> p" for p] body_of_whole
      split: if_splits intro: weak_map_of_SomeI dest: map_of_SomeD intro: rev_image_eqI)

lemma example_s3_laws: "s3_laws example_s3 map_of"
  by (auto simp: s3_laws_def example_s3_def found_Ok found_errors map_of_names map_of_filter [where P = "\<lambda>x. x \<noteq> p" for p]
      map_of_filter [where P = "\<lambda>x. x \<notin> A" for A] body_of_whole slice_by_header
      intro: weak_map_of_SomeI dest: map_of_SomeD intro: rev_image_eqI)

theorem cloud_object_contract_witness:
  "\<exists>w v. object_answers (gcp_ops example_gcs \<lparr>go_path = ''o''\<rparr>) [(''o'', [1, 2, 3])] (InnerReadAt 2 2) (RBytes [3] True) w
     \<and> object_answers (aws_ops example_s3 \<lparr>ao_path = ''o''\<rparr>) [(''o'', [1, 2, 3])] (InnerReadAt 2 2) (RBytes [3] True) v
     \<and> seek_remote [1, 2, 3] (InnerReadAt 2 2) (RBytes [3] True) \<and> map_of w ''o'' = Some [1, 2, 3] \<and> map_of v ''o'' = Some [1, 2, 3]"
proof -
  let ?w = "[(''o'', [1, 2, 3])] :: object_list" and ?G = "\<lparr>go_path = ''o''\<rparr>" and ?A = "\<lparr>ao_path = ''o''\<rparr>"
  have "ob_ReadAt (gcp_ops example_gcs ?G) 2 2 ?w = (Ok ([3], True), ?w)"
    by (simp add: gcp_ops_def gcpObject_ReadAt_def example_gcs_def found_def read_at_result_def ReadFull_def Let_def)
  from object_answers.read_at [OF this] have g: "object_answers (gcp_ops example_gcs ?G) ?w (InnerReadAt 2 2) (RBytes [3] True) ?w" by simp
  have "ob_ReadAt (aws_ops example_s3 ?A) 2 2 ?w = (Ok ([3], True), ?w)"
    by (simp add: aws_ops_def awsObject_ReadAt_def example_s3_def found_def readRange_def range_end slice_by_header read_at_result_def
        ReadFull_def Let_def)
  from object_answers.read_at [OF this] have a: "object_answers (aws_ops example_s3 ?A) ?w (InnerReadAt 2 2) (RBytes [3] True) ?w" by simp
  have "proper_call (InnerReadAt 2 2)" by simp
  from cloud_object_contract [OF this, of example_gcs map_of ?w ?G "[1, 2, 3]" "RBytes [3] True" ?w example_s3 map_of ?w ?A ?w]
    example_gcs_laws example_s3_laws g a
  have "seek_remote [1, 2, 3] (InnerReadAt 2 2) (RBytes [3] True)"
    by (auto simp: gcp_cut_def example_gcs_def found_def)
  with g a show ?thesis by (intro exI [of _ ?w] conjI) simp_all
qed

theorem prefix_deletion_witness:
  "\<exists>w v. gcpStorage_DeleteObjectsWithPrefix example_gcs ''a'' [(''a/x'', [1]), (''ab'', [2])] = (Ok (), w) \<and> map_of w ''ab'' = Some [2]
     \<and> awsStorage_DeleteObjectsWithPrefix example_s3 ''a'' [(''a/x'', [1]), (''ab'', [2])] = (Ok (), v) \<and> map_of v ''ab'' = None"
proof -
  let ?w = "[(''a/x'', [1]), (''ab'', [2])] :: object_list"
  obtain w where g: "gcpStorage_DeleteObjectsWithPrefix example_gcs ''a'' ?w = (Ok (), w)"
    by (simp add: gcpStorage_DeleteObjectsWithPrefix_def example_gcs_def)
  obtain v where a: "awsStorage_DeleteObjectsWithPrefix example_s3 ''a'' ?w = (Ok (), v)"
    by (simp add: awsStorage_DeleteObjectsWithPrefix_def example_s3_def)
  have l: "s3_ListObjectsV2 example_s3 ''a'' ?w = (Ok ([''a/x'', ''ab''], False), ?w)" by (simp add: example_s3_def)
  from prefix_deletion [where content = map_of and content' = map_of and q = "''ab''", OF example_gcs_laws example_s3_laws g a l]
  have "map_of w ''ab'' = Some [2]" "map_of v ''ab'' = None" by simp_all
  with g a show ?thesis by blast
qed

end
