(* ===== verification/Proxy_Pool.thy ===== *)
theory Proxy_Pool
  imports Admission_Limits "HOL-Library.AList"
begin

text \<open>
  The connection pool of the reverse proxy (\<open>packages/shared/pkg/proxy/pool\<close>), the connections it
  tracks (\<open>proxy/tracking\<close>) and the concurrent map both are kept in (\<open>smap/smap.go\<close>).  A pool has one
  client per connection key, a client the connections that were dialled through it; one counter holds
  the number of connections of all clients.  Requests dial, the transport closes connections when it
  likes, and a client that is removed resets all of its connections, all at the same time.  The map
  underneath is a third-party package, a parameter with its documented laws.
\<close>

section \<open>The concurrent map\<close>

record ('m, 'v) smap_ops = "('m, 'v) cmap" +
  cm_Set :: "'m \<Rightarrow> string \<Rightarrow> 'v \<Rightarrow> 'm"
  cm_SetIfAbsent :: "'m \<Rightarrow> string \<Rightarrow> 'v \<Rightarrow> bool \<times> 'm"
  cm_Items :: "'m \<Rightarrow> (string \<times> 'v) list"
  cm_Count :: "'m \<Rightarrow> nat"

definition smap_laws :: "('m, 'v) smap_ops \<Rightarrow> bool" where
  "smap_laws M \<longleftrightarrow> cmap_laws (cmap.truncate M)
     \<and> (\<forall>m k v j. cm_Get M (cm_Set M m k v) j = (if j = k then Some v else cm_Get M m j))
     \<and> (\<forall>m. distinct (map fst (cm_Items M m)) \<and> set (cm_Items M m) = {(k, v). cm_Get M m k = Some v})
     \<and> (\<forall>m. cm_Count M m = length (cm_Items M m))"

definition smap_Remove :: "('m, 'v) smap_ops \<Rightarrow> string \<Rightarrow> 'm \<Rightarrow> 'm" where
  "smap_Remove M key m = cm_Remove M m key"

definition smap_Insert :: "('m, 'v) smap_ops \<Rightarrow> string \<Rightarrow> 'v \<Rightarrow> 'm \<Rightarrow> 'm" where
  "smap_Insert M key v m = cm_Set M m key v"

definition smap_Upsert :: "('m, 'v) smap_ops \<Rightarrow> string \<Rightarrow> 'v \<Rightarrow> ('v option \<Rightarrow> 'v \<Rightarrow> 'v) \<Rightarrow> 'm \<Rightarrow> 'v \<times> 'm" where
  "smap_Upsert M key v cb m = cm_Upsert M m key v cb"

definition smap_Items :: "('m, 'v) smap_ops \<Rightarrow> 'm \<Rightarrow> (string \<times> 'v) list" where
  "smap_Items M m = cm_Items M m"

definition smap_Count :: "('m, 'v) smap_ops \<Rightarrow> 'm \<Rightarrow> nat" where
  "smap_Count M m = cm_Count M m"

lemma smap_rules:
  assumes "smap_laws M"
  shows "cm_Get M (cm_New M) k = None"
    and "cm_Get M (smap_Insert M key v m) j = (if j = key then Some v else cm_Get M m j)"
    and "cm_Get M (smap_Remove M key m) j = (if j = key then None else cm_Get M m j)"
    and "(key, v) \<in> set (smap_Items M m) \<longleftrightarrow> cm_Get M m key = Some v"
  using assms by (auto simp: smap_laws_def cmap_laws_def cmap.truncate_def smap_Insert_def smap_Remove_def smap_Items_def)

lemma smap_Upsert_rules:
  assumes "smap_laws M" and "smap_Upsert M key v cb m = (r, m')"
  shows "r = cb (cm_Get M m key) v" "cm_Get M m' j = (if j = key then Some r else cm_Get M m j)"
proof -
  have "cmap_laws (cmap.truncate M)" "cm_Upsert (cmap.truncate M) m key v cb = (r, m')"
    using assms by (simp_all add: smap_laws_def smap_Upsert_def cmap.truncate_def)
  from cmap_Upsert [OF this] show "r = cb (cm_Get M m key) v" "cm_Get M m' j = (if j = key then Some r else cm_Get M m j)"
    by (simp_all add: cmap.truncate_def)
qed

section \<open>Clients and connections\<close>

text \<open>
  A tracked connection: the client it was dialled for, its key in the map of that client, whether it is
  open, that is, whether its descriptor is not given up yet, and whether \<open>NewConnection\<close> has returned it.
  \<open>net.Conn.Close\<close> gives the descriptor up even when it returns an error; a later one returns
  \<open>net.ErrClosed\<close>.
\<close>

record Connection =
  tc_client :: nat
  tc_key :: string
  tc_open :: bool
  tc_ready :: bool

text \<open>
  \<open>pp_locked\<close> are the keys whose shard is locked while a client is removed, \<open>pp_keys\<close> the keys given to
  connections so far, and \<open>pp_failed\<close> counts the connections whose close returned an error.
\<close>

record 'm ProxyPool =
  pp_pool :: 'm
  pp_active :: "nat \<Rightarrow> 'm"
  pp_clients :: nat
  pp_conns :: "nat \<Rightarrow> Connection"
  pp_nconns :: nat
  pp_keys :: "string set"
  pp_total :: u64
  pp_current :: int
  pp_failed :: nat
  pp_locked :: "string set"

definition Pool_New :: "('m, nat) smap_ops \<Rightarrow> 'm ProxyPool" where
  "Pool_New M =
     \<lparr>pp_pool = cm_New M, pp_active = (\<lambda>_. cm_New M), pp_clients = 0,
      pp_conns = (\<lambda>_. \<lparr>tc_client = 0, tc_key = [], tc_open = False, tc_ready = False\<rparr>), pp_nconns = 0, pp_keys = {},
      pp_total = 0, pp_current = 0, pp_failed = 0, pp_locked = {}\<rparr>"

definition hostConnectionSplit :: int where
  "hostConnectionSplit = 4"

text \<open>How many idle connections a client may keep to one host.\<close>

definition max_host_conns :: "int \<Rightarrow> int" where
  "max_host_conns maxClientConns =
     (if maxClientConns \<le> hostConnectionSplit then maxClientConns else maxClientConns sdiv hostConnectionSplit)"

text \<open>\<open>Get\<close> makes a client with an empty map of connections if there is none for the key.\<close>

definition Pool_Get :: "('m, nat) smap_ops \<Rightarrow> string \<Rightarrow> 'm ProxyPool \<Rightarrow> nat \<times> 'm ProxyPool" where
  "Pool_Get M key s =
     (let fresh = pp_clients s;
          (client, m) = smap_Upsert M key fresh (\<lambda>old new. case old of Some c \<Rightarrow> c | None \<Rightarrow> new) (pp_pool s)
      in (client, s\<lparr>pp_pool := m, pp_active := (pp_active s)(fresh := cm_New M), pp_clients := Suc fresh\<rparr>))"

text \<open>
  Dialling: the outcomes of the attempts in turn, an error with whether the context is done then or
  during the pause after it.  At most \<open>maxAttempts\<close> attempts are made, at least one.
\<close>

datatype 'c attempt = Dialled 'c | DialError bool bool

datatype dial_error = ContextError | LastError

fun dial_loop :: "nat \<Rightarrow> 'c attempt list \<Rightarrow> (dial_error, 'c) outcome \<times> nat" where
  "dial_loop n [] = (Err LastError, 0)"
| "dial_loop 0 as = (Err LastError, 0)"
| "dial_loop (Suc n) (Dialled c # as) = (Ok c, 1)"
| "dial_loop (Suc n) (DialError ctxDone pauseDone # as) =
     (if ctxDone then (Err ContextError, 1)
      else if n = 0 then (Err LastError, 1)
      else if pauseDone then (Err ContextError, 1)
      else case dial_loop n as of (r, k) \<Rightarrow> (r, Suc k))"

definition DialContext :: "int \<Rightarrow> 'c attempt list \<Rightarrow> (dial_error, 'c) outcome \<times> nat" where
  "DialContext maxConnectionAttempts as = dial_loop (nat (max maxConnectionAttempts 1)) as"

lemma dial_loop_attempts: "snd (dial_loop n as) \<le> n"
  by (induction n as rule: dial_loop.induct) (auto split: prod.splits)

lemma dial_loop_Ok:
  "fst (dial_loop n as) = Ok c \<Longrightarrow> \<exists>k < n. k < length as \<and> as ! k = Dialled c \<and> (\<forall>j < k. as ! j = DialError False False)"
proof (induction n as rule: dial_loop.induct)
  case (4 n ctxDone pauseDone as)
  then obtain k where k: "k < n" "k < length as" "as ! k = Dialled c" "\<forall>j < k. as ! j = DialError False False" "\<not> ctxDone" "\<not> pauseDone"
    by (auto split: if_splits prod.splits)
  then show ?case by (intro exI [of _ "Suc k"]) (auto simp: less_Suc_eq_0_disj)
qed auto

text \<open>
  A connection that was dialled is added to the total; \<open>NewConnection\<close> then counts it as a current one and
  starts to track it, and then puts it into the map of its client.
\<close>

definition count_total :: "'m ProxyPool \<Rightarrow> 'm ProxyPool" where
  "count_total s = s\<lparr>pp_total := pp_total s + 1\<rparr>"

definition count_connection :: "nat \<Rightarrow> string \<Rightarrow> 'm ProxyPool \<Rightarrow> nat \<times> 'm ProxyPool" where
  "count_connection client key s =
     (pp_nconns s,
      s\<lparr>pp_current := pp_current s + 1, pp_nconns := Suc (pp_nconns s), pp_keys := insert key (pp_keys s),
        pp_conns := (pp_conns s)(pp_nconns s := \<lparr>tc_client = client, tc_key = key, tc_open = True, tc_ready = False\<rparr>)\<rparr>)"

definition on_active :: "('m \<Rightarrow> 'm) \<Rightarrow> nat \<Rightarrow> 'm ProxyPool \<Rightarrow> 'm ProxyPool" where
  "on_active f c s =
     (let client = tc_client (pp_conns s c) in s\<lparr>pp_active := (pp_active s)(client := f (pp_active s client))\<rparr>)"

definition insert_connection :: "('m, nat) smap_ops \<Rightarrow> nat \<Rightarrow> 'm ProxyPool \<Rightarrow> 'm ProxyPool" where
  "insert_connection M c s =
     (on_active (smap_Insert M (tc_key (pp_conns s c)) c) c s)\<lparr>pp_conns := (pp_conns s)(c := (pp_conns s c)\<lparr>tc_ready := True\<rparr>)\<rparr>"

text \<open>Closing the connection under it, then uncounting it, then taking it out of the map.\<close>

definition net_close :: "nat \<Rightarrow> 'm ProxyPool \<Rightarrow> 'm ProxyPool" where
  "net_close c s = s\<lparr>pp_conns := (pp_conns s)(c := (pp_conns s c)\<lparr>tc_open := False\<rparr>)\<rparr>"

definition uncount :: "'m ProxyPool \<Rightarrow> 'm ProxyPool" where
  "uncount s = s\<lparr>pp_current := pp_current s - 1\<rparr>"

definition unmap :: "('m, nat) smap_ops \<Rightarrow> nat \<Rightarrow> 'm ProxyPool \<Rightarrow> 'm ProxyPool" where
  "unmap M c s = on_active (smap_Remove M (tc_key (pp_conns s c))) c s"

definition failed_close :: "nat \<Rightarrow> 'm ProxyPool \<Rightarrow> 'm ProxyPool" where
  "failed_close c s = (net_close c s)\<lparr>pp_failed := pp_failed s + 1\<rparr>"

definition lock_key :: "string \<Rightarrow> 'm ProxyPool \<Rightarrow> 'm ProxyPool" where
  "lock_key key s = s\<lparr>pp_locked := insert key (pp_locked s)\<rparr>"

definition remove_client :: "('m, nat) smap_ops \<Rightarrow> string \<Rightarrow> 'm ProxyPool \<Rightarrow> 'm ProxyPool" where
  "remove_client M key s = s\<lparr>pp_pool := smap_Remove M key (pp_pool s), pp_locked := pp_locked s - {key}\<rparr>"

definition TotalConnections :: "'m ProxyPool \<Rightarrow> u64" where
  "TotalConnections s = pp_total s"

definition CurrentConnections :: "'m ProxyPool \<Rightarrow> int" where
  "CurrentConnections s = pp_current s"

definition Pool_Size :: "('m, nat) smap_ops \<Rightarrow> 'm ProxyPool \<Rightarrow> nat" where
  "Pool_Size M s = smap_Count M (pp_pool s)"

text \<open>Connections of a client that a removal has to reset.\<close>

definition live_of :: "nat \<Rightarrow> 'm ProxyPool \<Rightarrow> nat set" where
  "live_of client s =
     {c. c < pp_nconns s \<and> tc_ready (pp_conns s c) \<and> tc_open (pp_conns s c) \<and> tc_client (pp_conns s c) = client}"

section \<open>Goroutines\<close>

text \<open>
  A request gets a client and dials.  A connection is closed by whoever has it.  \<open>Close\<close> of the pool
  takes the lock of the key and then the connections of the client, which it resets one by one: a
  connection that is closed already is passed over, an error is collected.  The map is read shard by
  shard while connections come and go: what is read has every connection that was there all the time,
  and perhaps some that came or went.  The last field of its points is the set of connections that were
  live when it took the lock.
\<close>

datatype pool_pc =
    GetClient string | Dialling nat | Counting nat | DialFailed | Inserting nat | Opened nat
  | CloseConn nat | CloseError nat | Uncounting nat | Unmapping nat | ConnClosed nat
  | PoolClose string | Collecting string nat "nat set" | Resetting string "nat list" "nat list" "nat set" | ResetUncount string nat "nat list" "nat list" "nat set"
  | ResetUnmap string nat "nat list" "nat list" "nat set" | PoolClosed string "nat list" "nat set"

inductive pool_step :: "('m, nat) smap_ops \<Rightarrow> 'm ProxyPool \<Rightarrow> pool_pc \<Rightarrow> 'm ProxyPool \<Rightarrow> pool_pc \<Rightarrow> bool" for M where
  get: "key \<notin> pp_locked s \<Longrightarrow> Pool_Get M key s = (client, s') \<Longrightarrow> pool_step M s (GetClient key) s' (Dialling client)"
| dial_failed: "pool_step M s (Dialling client) s DialFailed"
| dialled: "pool_step M s (Dialling client) (count_total s) (Counting client)"
| counted: "key \<notin> pp_keys s \<Longrightarrow> count_connection client key s = (c, s') \<Longrightarrow> pool_step M s (Counting client) s' (Inserting c)"
| inserted: "pool_step M s (Inserting c) (insert_connection M c s) (Opened c)"
| close_again: "tc_ready (pp_conns s c) \<Longrightarrow> \<not> tc_open (pp_conns s c) \<Longrightarrow> pool_step M s (CloseConn c) s (CloseError c)"
| close: "c < pp_nconns s \<Longrightarrow> tc_ready (pp_conns s c) \<Longrightarrow> tc_open (pp_conns s c) \<Longrightarrow>
    pool_step M s (CloseConn c) (net_close c s) (Uncounting c)"
| close_failed: "c < pp_nconns s \<Longrightarrow> tc_ready (pp_conns s c) \<Longrightarrow> tc_open (pp_conns s c) \<Longrightarrow>
    pool_step M s (CloseConn c) (failed_close c s) (CloseError c)"
| uncounted: "pool_step M s (Uncounting c) (uncount s) (Unmapping c)"
| unmapped: "pool_step M s (Unmapping c) (unmap M c s) (ConnClosed c)"
| no_client: "key \<notin> pp_locked s \<Longrightarrow> cm_Get M (pp_pool s) key = None \<Longrightarrow> pool_step M s (PoolClose key) s (PoolClosed key [] {})"
| lock: "key \<notin> pp_locked s \<Longrightarrow> cm_Get M (pp_pool s) key = Some client \<Longrightarrow>
    pool_step M s (PoolClose key) (lock_key key s) (Collecting key client (live_of client s))"
| take_all: "live \<inter> snd ` set (smap_Items M (pp_active s client)) \<subseteq> set todo \<Longrightarrow>
    set todo \<subseteq> {c. c < pp_nconns s \<and> tc_client (pp_conns s c) = client} \<Longrightarrow>
    pool_step M s (Collecting key client live) s (Resetting key todo [] live)"
| reset_closed: "\<not> tc_open (pp_conns s c) \<Longrightarrow> pool_step M s (Resetting key (c # todo) errs live) s (Resetting key todo errs live)"
| reset: "tc_open (pp_conns s c) \<Longrightarrow> errs' = errs \<or> errs' = c # errs \<Longrightarrow>
    pool_step M s (Resetting key (c # todo) errs live) (net_close c s) (ResetUncount key c todo errs' live)"
| reset_failed: "tc_open (pp_conns s c) \<Longrightarrow>
    pool_step M s (Resetting key (c # todo) errs live) (failed_close c s) (Resetting key todo (c # errs) live)"
| reset_uncounted: "pool_step M s (ResetUncount key c todo errs live) (uncount s) (ResetUnmap key c todo errs live)"
| reset_unmapped: "pool_step M s (ResetUnmap key c todo errs live) (unmap M c s) (Resetting key todo errs live)"
| removed: "pool_step M s (Resetting key [] errs live) (remove_client M key s) (PoolClosed key errs live)"

fun pool_start :: "pool_pc \<Rightarrow> bool" where
  "pool_start (GetClient key) \<longleftrightarrow> True"
| "pool_start (CloseConn c) \<longleftrightarrow> True"
| "pool_start (PoolClose key) \<longleftrightarrow> True"
| "pool_start _ \<longleftrightarrow> False"

section \<open>The books of the pool\<close>

definition open_conns :: "'m ProxyPool \<Rightarrow> nat set" where
  "open_conns s = {c. c < pp_nconns s \<and> tc_open (pp_conns s c)}"

text \<open>
  The invariant: a connection that was handed out and is open is in the map of its client under its
  own key, every entry of such a map is a connection of that client, and keys are not used twice.
\<close>

definition pool_inv :: "('m, nat) smap_ops \<Rightarrow> 'm ProxyPool \<Rightarrow> bool" where
  "pool_inv M s \<longleftrightarrow> smap_laws M
     \<and> (\<forall>c < pp_nconns s. tc_ready (pp_conns s c) \<longrightarrow> tc_open (pp_conns s c) \<longrightarrow>
          cm_Get M (pp_active s (tc_client (pp_conns s c))) (tc_key (pp_conns s c)) = Some c)
     \<and> (\<forall>cl key c. cm_Get M (pp_active s cl) key = Some c \<longrightarrow> c < pp_nconns s \<and> tc_key (pp_conns s c) = key \<and> tc_client (pp_conns s c) = cl)
     \<and> (\<forall>c < pp_nconns s. tc_key (pp_conns s c) \<in> pp_keys s \<and> tc_client (pp_conns s c) < pp_clients s)
     \<and> inj_on (\<lambda>c. tc_key (pp_conns s c)) {..< pp_nconns s}
     \<and> (\<forall>key cl. cm_Get M (pp_pool s) key = Some cl \<longrightarrow> cl < pp_clients s)"

definition live_closed :: "'m ProxyPool \<Rightarrow> nat list \<Rightarrow> nat set \<Rightarrow> bool" where
  "live_closed s todo live \<longleftrightarrow> (\<forall>c \<in> live. c < pp_nconns s \<and> (tc_open (pp_conns s c) \<longrightarrow> c \<in> set todo)) \<and> (\<forall>c \<in> set todo. c < pp_nconns s)"

fun pool_asrt :: "'m ProxyPool \<Rightarrow> pool_pc \<Rightarrow> bool" where
  "pool_asrt s (Dialling cl) \<longleftrightarrow> cl < pp_clients s"
| "pool_asrt s (Counting cl) \<longleftrightarrow> cl < pp_clients s"
| "pool_asrt s (Inserting c) \<longleftrightarrow> c < pp_nconns s"
| "pool_asrt s (Opened c) \<longleftrightarrow> c < pp_nconns s"
| "pool_asrt s (Uncounting c) \<longleftrightarrow> c < pp_nconns s \<and> \<not> tc_open (pp_conns s c)"
| "pool_asrt s (Unmapping c) \<longleftrightarrow> c < pp_nconns s \<and> \<not> tc_open (pp_conns s c)"
| "pool_asrt s (Collecting key cl live) \<longleftrightarrow>
     (\<forall>c \<in> live. c < pp_nconns s \<and> tc_ready (pp_conns s c) \<and> tc_client (pp_conns s c) = cl)"
| "pool_asrt s (Resetting key todo errs live) \<longleftrightarrow> live_closed s todo live"
| "pool_asrt s (ResetUncount key c todo errs live) \<longleftrightarrow> live_closed s todo live \<and> c < pp_nconns s \<and> \<not> tc_open (pp_conns s c)"
| "pool_asrt s (ResetUnmap key c todo errs live) \<longleftrightarrow> live_closed s todo live \<and> c < pp_nconns s \<and> \<not> tc_open (pp_conns s c)"
| "pool_asrt s (PoolClosed key errs live) \<longleftrightarrow> live_closed s [] live"
| "pool_asrt s _ \<longleftrightarrow> True"

text \<open>A connection that is closed and not yet uncounted weighs one.\<close>

fun pool_weight :: "pool_pc \<Rightarrow> int" where
  "pool_weight (Uncounting c) = 1"
| "pool_weight (ResetUncount key c todo errs live) = 1"
| "pool_weight _ = 0"

definition pool_total :: "'m ProxyPool \<Rightarrow> int" where
  "pool_total s = pp_current s - int (card (open_conns s)) - int (pp_failed s)"

text \<open>What the single updates do to the connections.\<close>

lemma open_conns_simps:
  "open_conns (net_close c s) = open_conns s - {c}"
  "open_conns (failed_close c s) = open_conns s - {c}"
  "open_conns (uncount s) = open_conns s"
  "open_conns (unmap M c s) = open_conns s"
  "open_conns (insert_connection M c s) = open_conns s"
  "open_conns (lock_key key s) = open_conns s"
  "open_conns (remove_client M key s) = open_conns s"
  by (auto simp: open_conns_def net_close_def failed_close_def uncount_def unmap_def on_active_def insert_connection_def lock_key_def
      remove_client_def Let_def split: if_splits)

lemma open_conns_finite [simp]: "finite (open_conns s)"
  by (simp add: open_conns_def)

lemma open_conns_count:
  assumes "count_connection cl key s = (c, s')"
  shows "open_conns s' = insert c (open_conns s)" and "c \<notin> open_conns s"
  using assms by (auto simp: open_conns_def count_connection_def)

lemma card_open_close:
  assumes "c \<in> open_conns s"
  shows "int (card (open_conns s - {c})) = int (card (open_conns s)) - 1"
proof -
  have "0 < card (open_conns s)" using assms by (auto simp: card_gt_0_iff)
  then show ?thesis using assms by (simp add: card_Diff_singleton)
qed

lemma pool_total_simps:
  assumes "c \<in> open_conns s"
  shows "pool_total (net_close c s) = pool_total s + 1" and "pool_total (failed_close c s) = pool_total s"
  using card_open_close [OF assms] by (simp_all add: pool_total_def open_conns_simps) (simp_all add: net_close_def failed_close_def)

lemma pool_total_other:
  "pool_total (uncount s) = pool_total s - 1"
  "pool_total (unmap M c s) = pool_total s"
  "pool_total (insert_connection M c s) = pool_total s"
  "pool_total (lock_key key s) = pool_total s"
  "pool_total (remove_client M key s) = pool_total s"
  by (simp_all add: pool_total_def open_conns_simps)
    (simp_all add: uncount_def unmap_def on_active_def insert_connection_def lock_key_def remove_client_def Let_def)

lemma pool_total_count:
  assumes "count_connection cl key s = (c, s')"
  shows "pool_total s' = pool_total s"
  using open_conns_count [OF assms] assms by (simp add: pool_total_def) (auto simp: count_connection_def)

lemma Pool_Get_facts:
  assumes "smap_laws M" and "Pool_Get M key s = (cl, s')"
  shows "pp_conns s' = pp_conns s" "pp_nconns s' = pp_nconns s" "pp_keys s' = pp_keys s" "pp_current s' = pp_current s"
    "pp_failed s' = pp_failed s" "pp_clients s' = Suc (pp_clients s)" "pp_active s' = (pp_active s)(pp_clients s := cm_New M)"
    "cl = (case cm_Get M (pp_pool s) key of Some c \<Rightarrow> c | None \<Rightarrow> pp_clients s)"
    "cm_Get M (pp_pool s') j = (if j = key then Some cl else cm_Get M (pp_pool s) j)"
proof -
  obtain m where u: "smap_Upsert M key (pp_clients s) (\<lambda>old new. case old of Some c \<Rightarrow> c | None \<Rightarrow> new) (pp_pool s) = (cl, m)"
    and s': "s' = s\<lparr>pp_pool := m, pp_active := (pp_active s)(pp_clients s := cm_New M), pp_clients := Suc (pp_clients s)\<rparr>"
    using assms(2) by (auto simp: Pool_Get_def Let_def split: prod.splits)
  from s' show "pp_conns s' = pp_conns s" "pp_nconns s' = pp_nconns s" "pp_keys s' = pp_keys s" "pp_current s' = pp_current s"
    "pp_failed s' = pp_failed s" "pp_clients s' = Suc (pp_clients s)" "pp_active s' = (pp_active s)(pp_clients s := cm_New M)" by simp_all
  from smap_Upsert_rules [OF assms(1) u] s'
  show "cl = (case cm_Get M (pp_pool s) key of Some c \<Rightarrow> c | None \<Rightarrow> pp_clients s)"
    "cm_Get M (pp_pool s') j = (if j = key then Some cl else cm_Get M (pp_pool s) j)" by simp_all
qed

lemma pool_invD:
  assumes "pool_inv M s"
  shows "smap_laws M"
    and "c < pp_nconns s \<Longrightarrow> tc_ready (pp_conns s c) \<Longrightarrow> tc_open (pp_conns s c) \<Longrightarrow>
      cm_Get M (pp_active s (tc_client (pp_conns s c))) (tc_key (pp_conns s c)) = Some c"
    and "cm_Get M (pp_active s cl) key = Some c \<Longrightarrow> c < pp_nconns s \<and> tc_key (pp_conns s c) = key \<and> tc_client (pp_conns s c) = cl"
    and "c < pp_nconns s \<Longrightarrow> tc_key (pp_conns s c) \<in> pp_keys s \<and> tc_client (pp_conns s c) < pp_clients s"
    and "c < pp_nconns s \<Longrightarrow> d < pp_nconns s \<Longrightarrow> tc_key (pp_conns s c) = tc_key (pp_conns s d) \<Longrightarrow> c = d"
    and "cm_Get M (pp_pool s) key = Some cl \<Longrightarrow> cl < pp_clients s"
proof -
  show "smap_laws M" "cm_Get M (pp_pool s) key = Some cl \<Longrightarrow> cl < pp_clients s"
    "cm_Get M (pp_active s cl) key = Some c \<Longrightarrow> c < pp_nconns s \<and> tc_key (pp_conns s c) = key \<and> tc_client (pp_conns s c) = cl"
    "c < pp_nconns s \<Longrightarrow> tc_key (pp_conns s c) \<in> pp_keys s \<and> tc_client (pp_conns s c) < pp_clients s"
    using assms by (simp_all add: pool_inv_def)
  show "c < pp_nconns s \<Longrightarrow> tc_ready (pp_conns s c) \<Longrightarrow> tc_open (pp_conns s c) \<Longrightarrow>
      cm_Get M (pp_active s (tc_client (pp_conns s c))) (tc_key (pp_conns s c)) = Some c"
    using assms by (simp add: pool_inv_def)
  have "inj_on (\<lambda>c. tc_key (pp_conns s c)) {..< pp_nconns s}" using assms by (simp add: pool_inv_def)
  then show "c < pp_nconns s \<Longrightarrow> d < pp_nconns s \<Longrightarrow> tc_key (pp_conns s c) = tc_key (pp_conns s d) \<Longrightarrow> c = d"
    by (simp add: inj_on_def)
qed

lemma pool_inv_get:
  assumes "pool_inv M s" and "Pool_Get M key s = (cl, s')"
  shows "pool_inv M s' \<and> cl < pp_clients s'"
proof -
  note inv = pool_invD [OF assms(1)] and get = Pool_Get_facts [OF inv(1) assms(2)]
  have cl: "cl < Suc (pp_clients s)" using get(8) inv(6) [of key] by (auto split: option.splits)
  have old: "tc_client (pp_conns s c) \<noteq> pp_clients s" if "c < pp_nconns s" for c using inv(4) [OF that] by simp
  show ?thesis
    unfolding pool_inv_def get(1-3) get(6,7)
    using inv old cl smap_rules(1) [OF inv(1)] get(9)
    by (auto simp: inj_on_def less_Suc_eq split: if_splits)
qed

lemma pool_inv_count:
  assumes "pool_inv M s" and "key \<notin> pp_keys s" and "cl < pp_clients s" and "count_connection cl key s = (c, s')"
  shows "pool_inv M s' \<and> c < pp_nconns s'"
proof -
  note inv = pool_invD [OF assms(1)]
  have s': "pp_conns s' = (pp_conns s)(pp_nconns s := \<lparr>tc_client = cl, tc_key = key, tc_open = True, tc_ready = False\<rparr>)"
    "pp_nconns s' = Suc (pp_nconns s)" "pp_keys s' = insert key (pp_keys s)" "pp_active s' = pp_active s" "pp_clients s' = pp_clients s"
    "pp_pool s' = pp_pool s" "c = pp_nconns s"
    using assms(4) by (auto simp: count_connection_def)
  have "inj_on (\<lambda>c. tc_key (pp_conns s' c)) {..< pp_nconns s'}"
    unfolding inj_on_def using inv(4,5) assms(2) s' by (auto simp: less_Suc_eq)
  moreover have "d \<noteq> pp_nconns s" if "cm_Get M (pp_active s cl') k = Some d" for cl' k d using inv(3) [OF that] by simp
  ultimately show ?thesis
    unfolding pool_inv_def using inv(1-4,6) assms(3) s' by (auto simp: less_Suc_eq)
qed

lemma pool_invI:
  assumes "smap_laws M"
    and "\<And>c. c < pp_nconns s \<Longrightarrow> tc_ready (pp_conns s c) \<Longrightarrow> tc_open (pp_conns s c) \<Longrightarrow>
      cm_Get M (pp_active s (tc_client (pp_conns s c))) (tc_key (pp_conns s c)) = Some c"
    and "\<And>cl key c. cm_Get M (pp_active s cl) key = Some c \<Longrightarrow> c < pp_nconns s \<and> tc_key (pp_conns s c) = key \<and> tc_client (pp_conns s c) = cl"
    and "\<And>c. c < pp_nconns s \<Longrightarrow> tc_key (pp_conns s c) \<in> pp_keys s \<and> tc_client (pp_conns s c) < pp_clients s"
    and "\<And>c d. c < pp_nconns s \<Longrightarrow> d < pp_nconns s \<Longrightarrow> tc_key (pp_conns s c) = tc_key (pp_conns s d) \<Longrightarrow> c = d"
    and "\<And>key cl. cm_Get M (pp_pool s) key = Some cl \<Longrightarrow> cl < pp_clients s"
  shows "pool_inv M s"
  unfolding pool_inv_def inj_on_def using assms by blast

text \<open>Updates that change one entry of one map of connections and flags of one connection.\<close>

lemma pool_inv_entry:
  assumes "pool_inv M s" and "c < pp_nconns s"
    and "\<And>d. tc_key (pp_conns s' d) = tc_key (pp_conns s d)" and "\<And>d. tc_client (pp_conns s' d) = tc_client (pp_conns s d)"
    and "\<And>d. d \<noteq> c \<Longrightarrow> pp_conns s' d = pp_conns s d"
    and "pp_nconns s' = pp_nconns s" and "pp_keys s' = pp_keys s" and "pp_clients s' = pp_clients s" and "pp_pool s' = pp_pool s"
    and "\<And>cl k. cm_Get M (pp_active s' cl) k =
      (if cl = tc_client (pp_conns s c) \<and> k = tc_key (pp_conns s c) then e else cm_Get M (pp_active s cl) k)"
    and "e = Some c \<or> e = None \<and> \<not> tc_open (pp_conns s' c)"
  shows "pool_inv M s'"
proof (rule pool_invI)
  note inv = pool_invD [OF assms(1)]
  show "smap_laws M" by (rule inv(1))
  show "cm_Get M (pp_active s' (tc_client (pp_conns s' d))) (tc_key (pp_conns s' d)) = Some d"
    if d: "d < pp_nconns s'" "tc_ready (pp_conns s' d)" "tc_open (pp_conns s' d)" for d
  proof (cases "d = c")
    case True
    then show ?thesis using assms(3,4,10,11) d(3) by auto
  next
    case False
    then have "tc_key (pp_conns s d) \<noteq> tc_key (pp_conns s c)" using inv(5) d(1) assms(2,6) by auto
    then show ?thesis using inv(2) [of d] d assms(5) [OF False] assms(6,10) by simp
  qed
  show "d < pp_nconns s' \<and> tc_key (pp_conns s' d) = key \<and> tc_client (pp_conns s' d) = cl"
    if "cm_Get M (pp_active s' cl) key = Some d" for cl key d
    using that inv(3) [of cl key d] assms(2,3,4,6,10,11) by (auto split: if_splits)
  show "tc_key (pp_conns s' d) \<in> pp_keys s' \<and> tc_client (pp_conns s' d) < pp_clients s'" if "d < pp_nconns s'" for d
    using that inv(4) [of d] assms(3,4,6-8) by simp
  show "d = d'" if "d < pp_nconns s'" "d' < pp_nconns s'" "tc_key (pp_conns s' d) = tc_key (pp_conns s' d')" for d d'
    using that inv(5) [of d d'] assms(3,6) by simp
  show "cl < pp_clients s'" if "cm_Get M (pp_pool s') key = Some cl" for key cl using that inv(6) assms(8,9) by simp
qed

lemma pool_inv_insert:
  assumes "pool_inv M s" and "c < pp_nconns s"
  shows "pool_inv M (insert_connection M c s)"
  by (rule pool_inv_entry [OF assms, where e = "Some c"])
    (auto simp: insert_connection_def on_active_def Let_def smap_rules(2) [OF pool_invD(1) [OF assms(1)]])

lemma pool_inv_unmap:
  assumes "pool_inv M s" and "c < pp_nconns s" and "\<not> tc_open (pp_conns s c)"
  shows "pool_inv M (unmap M c s)"
  by (rule pool_inv_entry [OF assms(1,2), where e = None])
    (auto simp: unmap_def on_active_def Let_def smap_rules(3) [OF pool_invD(1) [OF assms(1)]] assms(3))

lemma pool_inv_close:
  assumes "pool_inv M s"
  shows "pool_inv M (net_close c s)"
proof -
  note inv = pool_invD [OF assms]
  have same: "tc_key (pp_conns (net_close c s) d) = tc_key (pp_conns s d)" "tc_client (pp_conns (net_close c s) d) = tc_client (pp_conns s d)"
    "tc_ready (pp_conns (net_close c s) d) = tc_ready (pp_conns s d)"
    "tc_open (pp_conns (net_close c s) d) \<longleftrightarrow> tc_open (pp_conns s d) \<and> d \<noteq> c" for d
    by (auto simp: net_close_def)
  have fields: "pp_nconns (net_close c s) = pp_nconns s" "pp_active (net_close c s) = pp_active s" "pp_keys (net_close c s) = pp_keys s"
    "pp_clients (net_close c s) = pp_clients s" "pp_pool (net_close c s) = pp_pool s"
    by (simp_all add: net_close_def)
  show ?thesis
    by (rule pool_invI; (unfold same fields)?) (use inv in blast)+
qed

lemma pool_inv_fields:
  assumes "pool_inv M s" and "pp_conns s' = pp_conns s" and "pp_nconns s' = pp_nconns s" and "pp_keys s' = pp_keys s"
    and "pp_active s' = pp_active s" and "pp_clients s' = pp_clients s" and "\<And>k cl. cm_Get M (pp_pool s') k = Some cl \<Longrightarrow> cm_Get M (pp_pool s) k = Some cl"
  shows "pool_inv M s'"
  by (rule pool_invI; (unfold assms(2-6))?) (use pool_invD [OF assms(1)] assms(7) in blast)+

lemma pool_inv_steps:
  assumes "pool_inv M s"
  shows "pool_inv M (failed_close c s)" "pool_inv M (uncount s)" "pool_inv M (lock_key key s)" "pool_inv M (remove_client M key s)"
proof -
  show "pool_inv M (failed_close c s)"
    by (rule pool_inv_fields [OF pool_inv_close [OF assms, of c]]) (simp_all add: failed_close_def)
  show "pool_inv M (uncount s)" "pool_inv M (lock_key key s)"
    by (rule pool_inv_fields [OF assms]; simp add: uncount_def lock_key_def)+
  show "pool_inv M (remove_client M key s)"
    by (rule pool_inv_fields [OF assms])
      (use smap_rules(3) [OF pool_invD(1) [OF assms], of key "pp_pool s"] in \<open>auto simp: remove_client_def split: if_splits\<close>)
qed

text \<open>Connections are never forgotten and never opened again, so every assertion is stable.\<close>

definition pool_later :: "'m ProxyPool \<Rightarrow> 'm ProxyPool \<Rightarrow> bool" where
  "pool_later s s' \<longleftrightarrow> pp_nconns s \<le> pp_nconns s' \<and> pp_clients s \<le> pp_clients s'
     \<and> (\<forall>c < pp_nconns s. (tc_open (pp_conns s' c) \<longrightarrow> tc_open (pp_conns s c))
          \<and> (tc_ready (pp_conns s c) \<longrightarrow> tc_ready (pp_conns s' c)) \<and> tc_client (pp_conns s' c) = tc_client (pp_conns s c))"

lemma pool_asrt_later: "pool_later s s' \<Longrightarrow> pool_asrt s p \<Longrightarrow> pool_asrt s' p"
  by (cases p) (force simp: pool_later_def live_closed_def)+

lemma pool_step_later:
  assumes "pool_step M s p s' p'" and "smap_laws M"
  shows "pool_later s s'"
  using assms(1)
proof cases
  case (get key client)
  then show ?thesis using Pool_Get_facts [OF assms(2) get(4)] by (simp add: pool_later_def)
qed (auto simp: pool_later_def count_total_def count_connection_def insert_connection_def on_active_def net_close_def failed_close_def uncount_def
    unmap_def lock_key_def remove_client_def Let_def split: if_splits)

lemma in_open_conns: "c \<in> open_conns s \<longleftrightarrow> c < pp_nconns s \<and> tc_open (pp_conns s c)"
  by (simp add: open_conns_def)

lemma take_all_live:
  assumes "pool_inv M s" and "pool_asrt s (Collecting key cl live)"
    and "live \<inter> snd ` set (smap_Items M (pp_active s cl)) \<subseteq> set todo" and "set todo \<subseteq> {c. c < pp_nconns s \<and> P c}"
  shows "live_closed s todo live"
proof -
  have "c \<in> set todo" if c: "c \<in> live" "tc_open (pp_conns s c)" for c
  proof -
    have "cm_Get M (pp_active s cl) (tc_key (pp_conns s c)) = Some c"
      using pool_invD(2) [OF assms(1), of c] assms(2) c by auto
    then have "(tc_key (pp_conns s c), c) \<in> set (smap_Items M (pp_active s cl))"
      using smap_rules(4) [OF pool_invD(1) [OF assms(1)]] by blast
    with assms(3) c(1) show ?thesis by force
  qed
  then show ?thesis using assms(2,4) by (auto simp: live_closed_def)
qed

lemma pool_step_ok:
  assumes "pool_step M s p s' p'" and "pool_inv M s" and "pool_asrt s p"
  shows "pool_inv M s' \<and> pool_asrt s' p' \<and> pool_total s' + pool_weight p = pool_total s + pool_weight p'"
  using assms(1)
proof cases
  case (get key client)
  then show ?thesis
    using pool_inv_get [OF assms(2) get(4)] Pool_Get_facts(1-6) [OF pool_invD(1) [OF assms(2)] get(4)]
    by (simp add: pool_total_def open_conns_def)
next
  case (dialled client)
  have "pool_inv M (count_total s)" by (rule pool_inv_fields [OF assms(2)]) (simp_all add: count_total_def)
  then show ?thesis using dialled assms(3) by (simp add: pool_total_def open_conns_def count_total_def)
next
  case (counted key client c)
  then show ?thesis
    using pool_inv_count [OF assms(2) counted(3) _ counted(4)] assms(3) pool_total_count [OF counted(4)] by simp
next
  case (inserted c)
  then show ?thesis
    using pool_inv_insert [OF assms(2)] assms(3) pool_total_other(3) by (simp add: insert_connection_def on_active_def Let_def)
next
  case (close c)
  then have "c \<in> open_conns s" by (simp add: in_open_conns)
  with close pool_inv_close [OF assms(2)] pool_total_simps show ?thesis by (simp add: net_close_def)
next
  case (close_failed c)
  then have "c \<in> open_conns s" by (simp add: in_open_conns)
  with close_failed pool_inv_steps [OF assms(2)] pool_total_simps show ?thesis by simp
next
  case (uncounted c)
  then show ?thesis using pool_inv_steps(2) [OF assms(2)] assms(3) pool_total_other(1) [of s] by (simp add: uncount_def)
next
  case (reset_uncounted key c todo errs live)
  then show ?thesis
    using pool_inv_steps(2) [OF assms(2)] assms(3) pool_total_other(1) [of s] by (simp add: uncount_def live_closed_def)
next
  case (lock key client)
  then show ?thesis
    using pool_inv_steps [OF assms(2)] pool_total_other by (simp add: live_of_def lock_key_def) (simp add: pool_total_def open_conns_def)
next
  case (take_all live client todo key)
  then show ?thesis
    using take_all_live [of M s key client live todo "\<lambda>c. tc_client (pp_conns s c) = client"] assms(2,3) by simp
next
  case (reset c errs' errs key todo live)
  then have c: "c \<in> open_conns s" using assms(3) by (simp add: in_open_conns live_closed_def)
  have "live_closed (net_close c s) todo live" using reset assms(3) by (auto simp: live_closed_def net_close_def)
  with reset c pool_inv_close [OF assms(2)] pool_total_simps [OF c] show ?thesis
    by (simp add: in_open_conns) (simp add: net_close_def)
next
  case (reset_failed c key todo errs live)
  then have c: "c \<in> open_conns s" using assms(3) by (simp add: in_open_conns live_closed_def)
  have "live_closed (failed_close c s) todo live" using reset_failed assms(3) by (auto simp: live_closed_def failed_close_def net_close_def)
  with reset_failed c pool_inv_steps [OF assms(2)] pool_total_simps [OF c] show ?thesis by simp
qed (use assms(2,3) pool_inv_steps pool_inv_unmap pool_total_other pool_asrt_later in
    \<open>auto simp: live_closed_def uncount_def unmap_def on_active_def remove_client_def Let_def\<close>)

interpretation pool: interleaving "pool_step M" "Collect pool_start" "pool_inv M" pool_asrt pool_weight pool_total
  for M :: "('m, nat) smap_ops"
proof (unfold_locales, goal_cases)
  case (1 p s)
  then show ?case by (cases p) auto
next
  case (2 p)
  then show ?case by (cases p) auto
next
  case (3 s p s' p')
  then show ?case by (intro pool_step_ok)
next
  case (4 s p s' p' q)
  then show ?case using pool_asrt_later pool_step_later pool_invD(1) by blast
qed

lemma pool_inv_new:
  assumes "smap_laws M"
  shows "pool_inv M (Pool_New M)" and "pool_total (Pool_New M) = 0"
  using smap_rules(1) [OF assms] assms
  by (auto simp: Pool_New_def pool_total_def open_conns_def intro!: pool_invI)

text \<open>
  C33.  The pool keeps its books.  However many requests dial, connections are closed, twice or at the
  same time, and clients are removed: the counter of current connections is the number of tracked
  connections that are open, those a goroutine has closed and is about to uncount, and those whose close
  returned an error; it is never negative.  Every open connection that was handed out is registered with
  its client.  When the removal of a client has finished, no connection is open any more that was
  registered with the client and open when the removal took the lock of its key; nothing is said of
  connections that are dialled through the client after that.
\<close>

theorem pool_accounts:
  assumes "smap_laws M" and "par_runs (pool_step M) (Collect pool_start) (Pool_New M) s ts"
  shows "CurrentConnections s = int (card (open_conns s)) + sum_of pool_weight ts + int (pp_failed s) \<and> 0 \<le> CurrentConnections s
    \<and> (\<forall>c \<in> open_conns s. tc_ready (pp_conns s c) \<longrightarrow>
         cm_Get M (pp_active s (tc_client (pp_conns s c))) (tc_key (pp_conns s c)) = Some c)
    \<and> (\<forall>key errs live. PoolClosed key errs live \<in> set ts \<longrightarrow> live \<inter> open_conns s = {})"
proof -
  note runs = pool.runs_keep [OF assms(2) pool_inv_new [OF assms(1)]]
  have "live \<inter> open_conns s = {}" if "PoolClosed key errs live \<in> set ts" for key errs live
    using runs(2) [OF that] by (auto simp: live_closed_def in_open_conns)
  moreover have "0 \<le> sum_of pool_weight ts" by (rule sum_of_nonneg) (rule pool.weight_nonneg)
  ultimately show ?thesis
    using runs(3) pool_invD(2) [OF runs(1)] by (auto simp: CurrentConnections_def pool_total_def in_open_conns)
qed

text \<open>A map that meets the laws: an association list.\<close>

definition alist_smap :: "((string \<times> 'v) list, 'v) smap_ops" where
  "alist_smap =
     \<lparr>cm_New = [], cm_Get = map_of, cm_Upsert = (\<lambda>m k v cb. let r = cb (map_of m k) v in (r, AList.update k r m)),
      cm_Remove = (\<lambda>m k. AList.delete k m), cm_Set = (\<lambda>m k v. AList.update k v m),
      cm_SetIfAbsent = (\<lambda>m k v. if map_of m k = None then (True, AList.update k v m) else (False, m)),
      cm_Items = (\<lambda>m. AList.clearjunk m), cm_Count = (\<lambda>m. length (AList.clearjunk m))\<rparr>"

lemma alist_smap_laws: "smap_laws alist_smap"
proof -
  have items: "set (AList.clearjunk m) = {(k, v). map_of m k = Some v}" for m :: "(string \<times> 'v) list"
  proof (rule set_eqI)
    fix x :: "string \<times> 'v"
    have "map_of (AList.clearjunk m) (fst x) = Some (snd x) \<longleftrightarrow> (fst x, snd x) \<in> set (AList.clearjunk m)"
      by (rule map_of_eq_Some_iff [OF distinct_clearjunk])
    then show "x \<in> set (AList.clearjunk m) \<longleftrightarrow> x \<in> {(k, v). map_of m k = Some v}"
      by (cases x) (simp add: map_of_clearjunk)
  qed
  then show ?thesis
    by (auto simp: smap_laws_def cmap_laws_def alist_smap_def cmap.truncate_def Let_def update_conv' delete_conv' distinct_clearjunk)
qed

theorem pool_accounts_witness:
  "\<exists>s. par_runs (pool_step alist_smap) (Collect pool_start) (Pool_New alist_smap) s [Opened 0] \<and> CurrentConnections s = 1"
proof -
  let ?M = "alist_smap :: ((string \<times> nat) list, nat) smap_ops"
  obtain s1 where g: "Pool_Get ?M ''k'' (Pool_New ?M) = (0, s1)" by (simp add: Pool_Get_def Pool_New_def alist_smap_def smap_Upsert_def Let_def)
  note facts = Pool_Get_facts [OF alist_smap_laws g]
  have n: "pp_nconns s1 = 0" "pp_keys s1 = {}" "pp_failed s1 = 0" using facts by (simp_all add: Pool_New_def)
  obtain s2 where c: "count_connection 0 ''u'' (count_total s1) = (0, s2)" using n by (simp add: count_connection_def count_total_def)
  let ?s = "insert_connection ?M 0 s2"
  have "par_runs (pool_step ?M) (Collect pool_start) (Pool_New ?M) (Pool_New ?M) [GetClient ''k'']"
    by (rule single_start) simp
  then have "par_runs (pool_step ?M) (Collect pool_start) (Pool_New ?M) s1 [Dialling 0]"
    by (rule single_step) (rule pool_step.get [OF _ g], simp add: Pool_New_def)
  then have "par_runs (pool_step ?M) (Collect pool_start) (Pool_New ?M) (count_total s1) [Counting 0]"
    by (rule single_step) (rule pool_step.dialled)
  then have "par_runs (pool_step ?M) (Collect pool_start) (Pool_New ?M) s2 [Inserting 0]"
    by (rule single_step) (rule pool_step.counted [OF _ c], simp add: n count_total_def)
  then have r: "par_runs (pool_step ?M) (Collect pool_start) (Pool_New ?M) ?s [Opened 0]"
    by (rule single_step) (rule pool_step.inserted)
  have "open_conns (count_total s1) = {}" using n by (simp add: open_conns_def count_total_def)
  then have "open_conns ?s = {0}" using open_conns_count(1) [OF c] by (simp add: open_conns_simps)
  moreover have "pp_failed ?s = 0" using c n by (auto simp: insert_connection_def on_active_def Let_def count_connection_def count_total_def)
  ultimately show ?thesis using pool_accounts [OF alist_smap_laws r] r by auto
qed

end
