(* ===== verification/Storage_Names.thy ===== *)
theory Storage_Names
  imports Storage_Local
begin

text \<open>
  The names and tokens of the storage: the choice of the provider from the environment (\<open>storage.go\<close>,
  \<open>env.go\<close>), the files of templates and sandboxes (\<open>template.go\<close>, \<open>template_cache.go\<close>,
  \<open>sandbox.go\<close>) and the signed upload URLs of local storage (\<open>storage_fs.go\<close>).  The environment is a
  map; the keyed hash \<open>hmac\<close> of the tokens, identifiers drawn at random and the time are parameters.
  A Go string is the list of its bytes.
\<close>

section \<open>Bytes in hexadecimal\<close>

definition hex_char :: "nat \<Rightarrow> char" where
  "hex_char n = ''0123456789abcdef'' ! n"

definition hex_byte :: "byte \<Rightarrow> string" where
  "hex_byte b = [hex_char (unat b div 16), hex_char (unat b mod 16)]"

definition hex_EncodeToString :: "byte list \<Rightarrow> string" where
  "hex_EncodeToString bs = concat (map hex_byte bs)"

text \<open>\<open>hex.DecodeString\<close> accepts digits of both cases and an even number of them.\<close>

definition from_hex_char :: "char \<Rightarrow> nat option" where
  "from_hex_char c =
     (let n = of_char c :: nat
      in if 48 \<le> n \<and> n \<le> 57 then Some (n - 48)
         else if 97 \<le> n \<and> n \<le> 102 then Some (n - 87)
         else if 65 \<le> n \<and> n \<le> 70 then Some (n - 55)
         else None)"

fun hex_DecodeString :: "string \<Rightarrow> byte list option" where
  "hex_DecodeString [] = Some []"
| "hex_DecodeString [c] = None"
| "hex_DecodeString (c # d # s) =
     (case (from_hex_char c, from_hex_char d) of
        (Some a, Some b) \<Rightarrow> map_option (\<lambda>bs. word_of_nat (16 * a + b) # bs) (hex_DecodeString s)
      | _ \<Rightarrow> None)"

lemma from_hex_char_hex_char: "n < 16 \<Longrightarrow> from_hex_char (hex_char n) = Some n"
proof -
  have "\<forall>n \<in> {..<16}. from_hex_char (hex_char n) = Some n" by code_simp
  then show "n < 16 \<Longrightarrow> from_hex_char (hex_char n) = Some n" by simp
qed

lemma hex_Decode_Encode [simp]: "hex_DecodeString (hex_EncodeToString bs) = Some bs"
proof (induction bs)
  case (Cons b bs)
  have "unat b < 256" using unsigned_less [of b] by simp
  then have "unat b div 16 < 16" "unat b mod 16 < 16" by auto
  moreover have "word_of_nat (16 * (unat b div 16) + unat b mod 16) = b" by simp
  ultimately show ?case
    using Cons by (simp add: hex_EncodeToString_def hex_byte_def from_hex_char_hex_char del: mult_div_mod_eq)
qed (simp add: hex_EncodeToString_def)

lemma hex_Encode_inj: "hex_EncodeToString a = hex_EncodeToString b \<longleftrightarrow> a = b"
  using hex_Decode_Encode [of a] hex_Decode_Encode [of b] by (metis option.inject)

lemma hex_length: "length (hex_EncodeToString bs) = 2 * length bs"
  by (induction bs) (simp_all add: hex_EncodeToString_def hex_byte_def)

section \<open>The environment\<close>

definition GetEnv :: "(string \<rightharpoonup> string) \<Rightarrow> string \<Rightarrow> string \<Rightarrow> string" where
  "GetEnv env key defaultValue =
     (case env key of None \<Rightarrow> defaultValue | Some v \<Rightarrow> if v = [] then defaultValue else v)"

definition GetEnvAsInt :: "(string \<rightharpoonup> string) \<Rightarrow> string \<Rightarrow> int \<Rightarrow> (int, int) outcome" where
  "GetEnvAsInt env key defaultValue =
     (case env key of
        None \<Rightarrow> Ok defaultValue
      | Some v \<Rightarrow> if v = [] then Ok defaultValue
                  else (case Atoi v of None \<Rightarrow> Err defaultValue | Some n \<Rightarrow> Ok n))"

text \<open>
  White space as \<open>unicode.IsSpace\<close> has it, in UTF-8: a list of the byte sequences, and the rest after
  the first one that starts the string.
\<close>

definition space_runes :: "string list" where
  "space_runes = map (map char_of)
     ([[9], [10], [11], [12], [13], [32], [194, 133], [194, 160], [225, 154, 128]]
      @ map (\<lambda>n. [226, 128, n]) [128..<139] @ [[226, 128, 168], [226, 128, 169], [226, 128, 175], [226, 129, 159], [227, 128, 128 :: nat]])"

definition strip_space :: "string list \<Rightarrow> string \<Rightarrow> string option" where
  "strip_space runes s = (case filter (\<lambda>r. HasPrefix s r) runes of [] \<Rightarrow> None | r # _ \<Rightarrow> Some (drop (length r) s))"

fun trim_front :: "nat \<Rightarrow> string list \<Rightarrow> string \<Rightarrow> string" where
  "trim_front 0 runes s = s"
| "trim_front (Suc n) runes s = (case strip_space runes s of None \<Rightarrow> s | Some s' \<Rightarrow> trim_front n runes s')"

definition TrimSpace :: "string \<Rightarrow> string" where
  "TrimSpace s =
     (let front = trim_front (length s) space_runes s
      in rev (trim_front (length front) (map rev space_runes) (rev front)))"

definition RequiredEnv :: "(string \<rightharpoonup> string) \<Rightarrow> string \<Rightarrow> (unit, string) outcome" where
  "RequiredEnv env key =
     (case env key of None \<Rightarrow> Panic | Some v \<Rightarrow> if v = [] then Panic else if TrimSpace v = [] then Panic else Ok v)"

definition OptionalEnv :: "(string \<rightharpoonup> string) \<Rightarrow> string \<Rightarrow> string option" where
  "OptionalEnv env key = (case env key of None \<Rightarrow> None | Some v \<Rightarrow> if TrimSpace v = [] then None else Some v)"

section \<open>The provider\<close>

definition GetProviderType :: "(string \<rightharpoonup> string) \<Rightarrow> string" where
  "GetProviderType env = GetEnv env ''STORAGE_PROVIDER'' ''GCPBucket''"

definition storage_IsLocal :: "(string \<rightharpoonup> string) \<Rightarrow> bool" where
  "storage_IsLocal env \<longleftrightarrow> GetProviderType env = ''Local''"

record StorageConfig =
  sc_GetLocalBasePath :: "(string \<rightharpoonup> string) \<Rightarrow> string"
  sc_GetBucketName :: "(string \<rightharpoonup> string) \<Rightarrow> (unit, string) outcome"
  sc_uploadBaseURL :: string
  sc_hmacKey :: "byte list option"

definition WithLocalUpload :: "StorageConfig \<Rightarrow> string \<Rightarrow> byte list option \<Rightarrow> StorageConfig" where
  "WithLocalUpload c uploadBaseURL hmacKey = c\<lparr>sc_uploadBaseURL := uploadBaseURL, sc_hmacKey := hmacKey\<rparr>"

definition TemplateStorageConfig :: StorageConfig where
  "TemplateStorageConfig =
     \<lparr>sc_GetLocalBasePath = (\<lambda>env. GetEnv env ''LOCAL_TEMPLATE_STORAGE_BASE_PATH'' ''/tmp/templates''),
      sc_GetBucketName = (\<lambda>env. RequiredEnv env ''TEMPLATE_BUCKET_NAME''), sc_uploadBaseURL = [], sc_hmacKey = None\<rparr>"

definition BuildCacheStorageConfig :: StorageConfig where
  "BuildCacheStorageConfig =
     \<lparr>sc_GetLocalBasePath = (\<lambda>env. GetEnv env ''LOCAL_BUILD_CACHE_STORAGE_BASE_PATH'' ''/tmp/build-cache''),
      sc_GetBucketName = (\<lambda>env. RequiredEnv env ''BUILD_CACHE_BUCKET_NAME''), sc_uploadBaseURL = [], sc_hmacKey = None\<rparr>"

datatype storage_provider = LocalProvider fsStorage | AWSProvider string | GCPProvider string

definition newFileSystemStorage :: "(string \<rightharpoonup> string) \<Rightarrow> StorageConfig \<Rightarrow> fsStorage" where
  "newFileSystemStorage env cfg =
     \<lparr>st_basePath = sc_GetLocalBasePath cfg env, st_uploadURL = sc_uploadBaseURL cfg, st_hmacKey = sc_hmacKey cfg\<rparr>"

text \<open>The constructors of the cloud providers only wrap clients; \<open>Err\<close> is an unknown provider.\<close>

definition GetStorageProvider :: "(string \<rightharpoonup> string) \<Rightarrow> StorageConfig \<Rightarrow> (unit, storage_provider) outcome" where
  "GetStorageProvider env cfg =
     (let provider = GetProviderType env
      in if provider = ''Local'' then Ok (LocalProvider (newFileSystemStorage env cfg))
         else and_then (sc_GetBucketName cfg env) (\<lambda>bucketName.
           if provider = ''AWSBucket'' then Ok (AWSProvider bucketName)
           else if provider = ''GCPBucket'' then Ok (GCPProvider bucketName)
           else Err ()))"

section \<open>Signed uploads\<close>

text \<open>\<open>url.QueryEscape\<close>.\<close>

definition query_unreserved :: "char \<Rightarrow> bool" where
  "query_unreserved c \<longleftrightarrow>
     (let n = of_char c :: nat
      in (97 \<le> n \<and> n \<le> 122) \<or> (65 \<le> n \<and> n \<le> 90) \<or> (48 \<le> n \<and> n \<le> 57) \<or> c \<in> set ''-_.~'')"

definition upper_hex :: "nat \<Rightarrow> char" where
  "upper_hex n = ''0123456789ABCDEF'' ! n"

definition QueryEscape :: "string \<Rightarrow> string" where
  "QueryEscape s = concat (map (\<lambda>c.
     if query_unreserved c then [c]
     else if c = CHR '' '' then ''+''
     else [CHR ''%'', upper_hex (of_char c div 16), upper_hex (of_char c mod 16)]) s)"

definition upload_message :: "string \<Rightarrow> int \<Rightarrow> byte list" where
  "upload_message path expires = text_bytes path @ [0] @ text_bytes (Itoa expires)"

definition ComputeUploadHMAC :: "(byte list \<Rightarrow> byte list \<Rightarrow> byte list) \<Rightarrow> byte list \<Rightarrow> string \<Rightarrow> int \<Rightarrow> string" where
  "ComputeUploadHMAC hmac key path expires = hex_EncodeToString (hmac key (upload_message path expires))"

text \<open>Times are nanoseconds since the epoch.\<close>

definition time_unix :: "int \<Rightarrow> int" where "time_unix t = t div 1000000000"

definition ValidateUploadToken ::
  "(byte list \<Rightarrow> byte list \<Rightarrow> byte list) \<Rightarrow> byte list \<Rightarrow> string \<Rightarrow> int \<Rightarrow> string \<Rightarrow> int \<Rightarrow> bool" where
  "ValidateUploadToken hmac key path expires token now \<longleftrightarrow>
     (if expires < time_unix now then False else ComputeUploadHMAC hmac key path expires = token)"

definition UploadSignedURL ::
  "(byte list \<Rightarrow> byte list \<Rightarrow> byte list) \<Rightarrow> fsStorage \<Rightarrow> string \<Rightarrow> int \<Rightarrow> int \<Rightarrow> (unit, string) outcome" where
  "UploadSignedURL hmac st path ttl now =
     (case st_hmacKey st of
        None \<Rightarrow> Err ()
      | Some key \<Rightarrow>
          if st_uploadURL st = [] then Err ()
          else (let expires = time_unix (now + ttl); token = ComputeUploadHMAC hmac key path expires
                in Ok (st_uploadURL st @ ''/upload?path='' @ QueryEscape path @ ''&expires='' @ Itoa expires
                       @ ''&token='' @ QueryEscape token)))"

lemma text_bytes_inj: "text_bytes a = text_bytes b \<longleftrightarrow> a = b"
  using bytes_text_bytes [of a] bytes_text_bytes [of b] by metis

lemma nat_digits_inj: "nat_digits a = nat_digits b \<longleftrightarrow> a = b"
  using nat_digits_value [of a] nat_digits_value [of b] by (metis of_nat_eq_iff)

lemma Itoa_inj: "Itoa i = Itoa j \<longleftrightarrow> i = j"
proof
  assume eq: "Itoa i = Itoa j"
  have hd: "hd (Itoa k) = CHR ''-'' \<longleftrightarrow> k < 0" for k
    using nat_digits_chars [of "nat k"] by (cases "nat_digits (nat k)") (auto simp: Itoa_def)
  from eq hd [of i] hd [of j] have "i < 0 \<longleftrightarrow> j < 0" by simp
  with eq show "i = j" by (auto simp: Itoa_def nat_digits_inj split: if_splits)
qed simp

text \<open>The zero byte delimits: the decimal number after it contains none.\<close>

lemma Itoa_no_zero: "0 \<notin> set (text_bytes (Itoa i))"
proof
  assume "0 \<in> set (text_bytes (Itoa i))"
  then obtain c where c: "c \<in> set (Itoa i)" "of_char c = (0 :: byte)" by (auto simp: text_bytes_def)
  from bytes_text_bytes [of "[c]"] c(2) have "char_of (0 :: nat) = c" by (simp add: bytes_text_def text_bytes_def)
  then have "of_char c = (0 :: nat)" by auto
  with c(1) show False
    using nat_digits_chars [of "nat (- i)"] nat_digits_chars [of "nat i"] by (auto simp: Itoa_def split: if_splits)
qed

lemma split_at_last:
  assumes "xs @ z # ys = xs' @ z # ys'" and "z \<notin> set ys" and "z \<notin> set ys'"
  shows "xs = xs' \<and> ys = ys'"
proof -
  have front: "takeWhile (\<lambda>x. x \<noteq> z) (rev (as @ z # bs)) = rev bs" if "z \<notin> set bs" for as bs
    using that by (auto simp: takeWhile_append)
  from front [OF assms(2), of xs] front [OF assms(3), of xs'] assms(1) have "ys = ys'" by simp
  with assms(1) show ?thesis by simp
qed

lemma upload_message_inj: "upload_message p e = upload_message p' e' \<longleftrightarrow> p = p' \<and> e = e'"
  using split_at_last [of "text_bytes p" 0 "text_bytes (Itoa e)" "text_bytes p'" "text_bytes (Itoa e')"] Itoa_no_zero
  by (auto simp: upload_message_def text_bytes_inj Itoa_inj)

text \<open>
  An upload token is bound to its path and time.  The token made for a path and an expiry is
  accepted for a path and an expiry exactly if that time has not passed and either they are the ones
  it was made for or the keyed hash collides on two different messages: no path can be shifted into
  the expiry or the other way round.
\<close>

lemma upload_token_bound:
  "ValidateUploadToken hmac key path' expires' (ComputeUploadHMAC hmac key path expires) now \<longleftrightarrow>
     time_unix now \<le> expires'
     \<and> (path' = path \<and> expires' = expires
        \<or> (upload_message path' expires' \<noteq> upload_message path expires
           \<and> hmac key (upload_message path' expires') = hmac key (upload_message path expires)))"
  using upload_message_inj [of path' expires' path expires]
  by (auto simp: ValidateUploadToken_def ComputeUploadHMAC_def hex_Encode_inj)

section \<open>Files of templates\<close>

record TemplateFiles =
  tf_BuildID :: string

definition CacheKey :: "TemplateFiles \<Rightarrow> string" where "CacheKey t = tf_BuildID t"

definition StorageDir :: "TemplateFiles \<Rightarrow> string" where "StorageDir t = tf_BuildID t"

definition MemfileName :: string where "MemfileName = ''memfile''"
definition RootfsName :: string where "RootfsName = ''rootfs.ext4''"
definition SnapfileName :: string where "SnapfileName = ''snapfile''"
definition MetadataName :: string where "MetadataName = ''metadata.json''"
definition HeaderSuffix :: string where "HeaderSuffix = ''.header''"

definition StorageMemfilePath :: "TemplateFiles \<Rightarrow> string" where
  "StorageMemfilePath t = StorageDir t @ ''/'' @ MemfileName"

definition StorageMemfileHeaderPath :: "TemplateFiles \<Rightarrow> string" where
  "StorageMemfileHeaderPath t = StorageDir t @ ''/'' @ MemfileName @ HeaderSuffix"

definition StorageRootfsPath :: "TemplateFiles \<Rightarrow> string" where
  "StorageRootfsPath t = StorageDir t @ ''/'' @ RootfsName"

definition StorageRootfsHeaderPath :: "TemplateFiles \<Rightarrow> string" where
  "StorageRootfsHeaderPath t = StorageDir t @ ''/'' @ RootfsName @ HeaderSuffix"

definition StorageSnapfilePath :: "TemplateFiles \<Rightarrow> string" where
  "StorageSnapfilePath t = StorageDir t @ ''/'' @ SnapfileName"

definition StorageMetadataPath :: "TemplateFiles \<Rightarrow> string" where
  "StorageMetadataPath t = StorageDir t @ ''/'' @ MetadataName"

text \<open>\<open>strings.Cut\<close> at a character: what comes before and after its first occurrence.\<close>

definition Cut :: "string \<Rightarrow> char \<Rightarrow> string \<times> string \<times> bool" where
  "Cut s c = (takeWhile (\<lambda>d. d \<noteq> c) s, tl (dropWhile (\<lambda>d. d \<noteq> c) s), c \<in> set s)"

definition ParseStoragePath :: "string \<Rightarrow> string \<times> string" where
  "ParseStoragePath path = (case Cut path slash of (buildID, fileName, _) \<Rightarrow> (buildID, fileName))"

lemma Cut_append: "c \<notin> set a \<Longrightarrow> Cut (a @ c # b) c = (a, b, True)"
  by (induction a) (auto simp: Cut_def)

lemma ParseStoragePath_append: "slash \<notin> set a \<Longrightarrow> ParseStoragePath (a @ slash # b) = (a, b)"
  by (simp add: ParseStoragePath_def Cut_append)

text \<open>\<open>ParseStoragePath\<close> undoes every path of a template.\<close>

lemmas storage_paths =
  StorageMemfilePath_def StorageMemfileHeaderPath_def StorageRootfsPath_def StorageRootfsHeaderPath_def
  StorageSnapfilePath_def StorageMetadataPath_def StorageDir_def MemfileName_def RootfsName_def SnapfileName_def
  MetadataName_def HeaderSuffix_def

lemma ParseStoragePath_paths:
  assumes "slash \<notin> set (tf_BuildID t)"
  shows "ParseStoragePath (StorageMemfilePath t) = (tf_BuildID t, MemfileName)"
    "ParseStoragePath (StorageMemfileHeaderPath t) = (tf_BuildID t, MemfileName @ HeaderSuffix)"
    "ParseStoragePath (StorageRootfsPath t) = (tf_BuildID t, RootfsName)"
    "ParseStoragePath (StorageRootfsHeaderPath t) = (tf_BuildID t, RootfsName @ HeaderSuffix)"
    "ParseStoragePath (StorageSnapfilePath t) = (tf_BuildID t, SnapfileName)"
    "ParseStoragePath (StorageMetadataPath t) = (tf_BuildID t, MetadataName)"
  using ParseStoragePath_append [OF assms] by (simp_all add: storage_paths)

record Config =
  cfg_SandboxCacheDir :: string
  cfg_SnapshotCacheDir :: string
  cfg_TemplateCacheDir :: string

record TemplateCacheFiles =
  tc_TemplateFiles :: TemplateFiles
  tc_CacheIdentifier :: string
  tc_config :: Config

definition cacheDir :: "TemplateCacheFiles \<Rightarrow> string" where
  "cacheDir c = Join [cfg_TemplateCacheDir (tc_config c), tf_BuildID (tc_TemplateFiles c), ''cache'', tc_CacheIdentifier c]"

definition CacheFiles :: "TemplateFiles \<Rightarrow> Config \<Rightarrow> (local_error, TemplateCacheFiles) outcome local_prog" where
  "CacheFiles t config =
     prog_then (os_do UuidCall as_name) (\<lambda>identifier.
       let tcf = \<lparr>tc_TemplateFiles = t, tc_CacheIdentifier = identifier, tc_config = config\<rparr>
       in prog_then (os_do (MkdirAllCall (cacheDir tcf)) as_unit) (\<lambda>r.
            case r of
              Ok _ \<Rightarrow> Done (Ok tcf)
            | Err e \<Rightarrow> Done (Err (FsError e))
            | Panic \<Rightarrow> Done Panic))"

definition CacheSnapfilePath :: "TemplateCacheFiles \<Rightarrow> string" where
  "CacheSnapfilePath c = Join [cacheDir c, SnapfileName]"

definition CacheMetadataPath :: "TemplateCacheFiles \<Rightarrow> string" where
  "CacheMetadataPath c = Join [cacheDir c, MetadataName]"

definition TemplateCacheFiles_Close :: "TemplateCacheFiles \<Rightarrow> (os_errno, unit) outcome local_prog" where
  "TemplateCacheFiles_Close c = os_do (RemoveAllCall (cacheDir c)) as_unit"

section \<open>Files of sandboxes\<close>

record SandboxFiles =
  sf_TemplateCacheFiles :: TemplateCacheFiles
  sf_SandboxID :: string
  sf_tmpDir :: string
  sf_randomID :: string

definition NewSandboxFiles :: "TemplateCacheFiles \<Rightarrow> string \<Rightarrow> string \<Rightarrow> string \<Rightarrow> SandboxFiles" where
  "NewSandboxFiles c generated tempDir sandboxID =
     \<lparr>sf_TemplateCacheFiles = c, sf_SandboxID = sandboxID, sf_tmpDir = tempDir, sf_randomID = generated\<rparr>"

definition NewSandboxFilesWithStaticID :: "TemplateCacheFiles \<Rightarrow> string \<Rightarrow> string \<Rightarrow> string \<Rightarrow> SandboxFiles" where
  "NewSandboxFilesWithStaticID c tempDir sandboxID staticID =
     \<lparr>sf_TemplateCacheFiles = c, sf_SandboxID = sandboxID, sf_tmpDir = tempDir, sf_randomID = staticID\<rparr>"

definition SandboxCacheRootfsPath :: "SandboxFiles \<Rightarrow> Config \<Rightarrow> string" where
  "SandboxCacheRootfsPath s config =
     Join [cfg_SandboxCacheDir config, ''rootfs-'' @ sf_SandboxID s @ ''-'' @ sf_randomID s @ ''.cow'']"

definition SandboxFirecrackerSocketPath :: "SandboxFiles \<Rightarrow> string" where
  "SandboxFirecrackerSocketPath s = Join [sf_tmpDir s, ''fc-'' @ sf_SandboxID s @ ''-'' @ sf_randomID s @ ''.sock'']"

definition SandboxUffdSocketPath :: "SandboxFiles \<Rightarrow> string" where
  "SandboxUffdSocketPath s = Join [sf_tmpDir s, ''uffd-'' @ sf_SandboxID s @ ''-'' @ sf_randomID s @ ''.sock'']"

definition SandboxCacheRootfsLinkPath :: "SandboxFiles \<Rightarrow> Config \<Rightarrow> string" where
  "SandboxCacheRootfsLinkPath s config =
     Join [cfg_SandboxCacheDir config, ''rootfs-'' @ sf_SandboxID s @ ''-'' @ sf_randomID s @ ''.link'']"

definition SandboxMetricsFifoPath :: "SandboxFiles \<Rightarrow> string" where
  "SandboxMetricsFifoPath s = Join [sf_tmpDir s, ''fc-metrics-'' @ sf_SandboxID s @ ''-'' @ sf_randomID s @ ''.fifo'']"

definition SandboxCgroupName :: "SandboxFiles \<Rightarrow> string" where
  "SandboxCgroupName s = ''sbx-'' @ sf_SandboxID s @ ''-'' @ sf_randomID s"

text \<open>Joining plain names to one directory puts the same text before each of them.\<close>

lemma Join_front: "\<exists>front. \<forall>n. valid_elem n \<longrightarrow> Join [p, n] = front @ n"
proof (cases "p = []")
  case True
  have "Join [p, n] = [] @ n" if "valid_elem n" for n
  proof -
    have n: "split_on slash n = [n]" "n \<noteq> []" "\<not> IsAbs n"
      using that by (auto simp: valid_elem_def split_on_single IsAbs_def HasPrefix_iff)
    then show ?thesis
      using that clean_elems_snoc [OF that, of False "[]" "[]"] by (simp add: Join_def Clean_def Let_def True)
  qed
  then show ?thesis by blast
next
  case False
  let ?es = "clean_elems (IsAbs p) [] (split_on slash p)"
  let ?front = "(if IsAbs p then [slash] else []) @ (if ?es = [] then [] else join_with ''/'' ?es @ ''/'')"
  have "Join [p, n] = ?front @ n" if "valid_elem n" for n
  proof -
    have n: "split_on slash n = [n]" "n \<noteq> []" using that by (auto simp: valid_elem_def split_on_single)
    have abs: "IsAbs (p @ slash # n) = IsAbs p" using False by (cases p) (auto simp: IsAbs_def HasPrefix_def)
    show ?thesis
      using False n abs clean_elems_snoc [OF that, of "IsAbs p" "[]" "split_on slash p"] join_with_snoc [of ?es "''/''" n]
      by (cases "?es = []") (auto simp: Join_def Clean_def Let_def split_on_middle)
  qed
  then show ?thesis by blast
qed

lemma Join_same_dir:
  assumes "Join [d, n] = Join [d, n']" and "valid_elem n" and "valid_elem n'"
  shows "n = n'"
proof -
  obtain front where f: "\<forall>n. valid_elem n \<longrightarrow> Join [d, n] = front @ n" using Join_front [of d] ..
  have "front @ n = Join [d, n]" using f assms(2) by (simp only: simp_thms)
  also have "\<dots> = front @ n'" using f assms(1,3) by (simp only: simp_thms)
  finally show ?thesis by simp
qed

text \<open>Two identifiers joined by a hyphen, when the first has none.\<close>

lemma hyphen_ids:
  assumes "CHR ''-'' \<notin> set a" and "CHR ''-'' \<notin> set a'" and "a @ CHR ''-'' # b = a' @ CHR ''-'' # b'"
  shows "a = a' \<and> b = b'"
  using Cut_append [OF assms(1), of b] Cut_append [OF assms(2), of b'] unfolding assms(3) by simp

text \<open>
  The files of two sandboxes do not clash.  For identifiers as the validation accepts them, no
  slash and no hyphen in the sandbox's own, two sandboxes that share the disk cache path, the
  Firecracker socket, the memory socket, the metrics pipe or the control group on one machine have the
  same identifier and the same random part.
\<close>

lemma sandbox_files_distinct:
  assumes "sf_tmpDir s = sf_tmpDir s'"
    and "\<forall>x \<in> {s, s'}. CHR ''-'' \<notin> set (sf_SandboxID x) \<and> slash \<notin> set (sf_SandboxID x) \<and> slash \<notin> set (sf_randomID x)"
    and "SandboxCacheRootfsPath s config = SandboxCacheRootfsPath s' config
      \<or> SandboxCacheRootfsLinkPath s config = SandboxCacheRootfsLinkPath s' config
      \<or> SandboxFirecrackerSocketPath s = SandboxFirecrackerSocketPath s'
      \<or> SandboxUffdSocketPath s = SandboxUffdSocketPath s'
      \<or> SandboxMetricsFifoPath s = SandboxMetricsFifoPath s'
      \<or> SandboxCgroupName s = SandboxCgroupName s'"
  shows "sf_SandboxID s = sf_SandboxID s' \<and> sf_randomID s = sf_randomID s'"
proof -
  have elem: "valid_elem (c # d # pre @ sf_SandboxID x @ CHR ''-'' # sf_randomID x @ post)"
    if "x \<in> {s, s'}" "slash \<notin> set (c # d # pre)" "slash \<notin> set post" "c \<noteq> CHR ''.''" for c d pre post x
    using that assms(2) by (auto simp: valid_elem_def)
  have same: ?thesis
    if eq: "Join [dir, c # d # pre @ sf_SandboxID s @ CHR ''-'' # sf_randomID s @ post]
        = Join [dir, c # d # pre @ sf_SandboxID s' @ CHR ''-'' # sf_randomID s' @ post]"
      and "slash \<notin> set (c # d # pre)" "slash \<notin> set post" "c \<noteq> CHR ''.''" for dir c d pre post
    using Join_same_dir [OF eq elem elem] that assms(2)
      hyphen_ids [of "sf_SandboxID s" "sf_SandboxID s'" "sf_randomID s" "sf_randomID s'"] by simp
  show ?thesis
    using assms(3)
  proof (elim disjE)
    assume "SandboxCgroupName s = SandboxCgroupName s'"
    then show ?thesis
      using hyphen_ids [of "sf_SandboxID s" "sf_SandboxID s'" "sf_randomID s" "sf_randomID s'"] assms(2)
      by (simp add: SandboxCgroupName_def)
  next
    assume "SandboxCacheRootfsPath s config = SandboxCacheRootfsPath s' config"
    then show ?thesis
      using same [of "cfg_SandboxCacheDir config" "CHR ''r''" "CHR ''o''" "''otfs-''" "''.cow''"]
      by (simp add: SandboxCacheRootfsPath_def)
  next
    assume "SandboxCacheRootfsLinkPath s config = SandboxCacheRootfsLinkPath s' config"
    then show ?thesis
      using same [of "cfg_SandboxCacheDir config" "CHR ''r''" "CHR ''o''" "''otfs-''" "''.link''"]
      by (simp add: SandboxCacheRootfsLinkPath_def)
  next
    assume "SandboxFirecrackerSocketPath s = SandboxFirecrackerSocketPath s'"
    then show ?thesis
      using same [of "sf_tmpDir s'" "CHR ''f''" "CHR ''c''" "''-''" "''.sock''"] assms(1)
      by (simp add: SandboxFirecrackerSocketPath_def)
  next
    assume "SandboxUffdSocketPath s = SandboxUffdSocketPath s'"
    then show ?thesis
      using same [of "sf_tmpDir s'" "CHR ''u''" "CHR ''f''" "''fd-''" "''.sock''"] assms(1)
      by (simp add: SandboxUffdSocketPath_def)
  next
    assume "SandboxMetricsFifoPath s = SandboxMetricsFifoPath s'"
    then show ?thesis
      using same [of "sf_tmpDir s'" "CHR ''f''" "CHR ''c''" "''-metrics-''" "''.fifo''"] assms(1)
      by (simp add: SandboxMetricsFifoPath_def)
  qed
qed

definition example_sandbox :: SandboxFiles where
  "example_sandbox = NewSandboxFilesWithStaticID
     \<lparr>tc_TemplateFiles = \<lparr>tf_BuildID = ''b''\<rparr>, tc_CacheIdentifier = ''i'',
      tc_config = \<lparr>cfg_SandboxCacheDir = ''/s'', cfg_SnapshotCacheDir = ''/n'', cfg_TemplateCacheDir = ''/t''\<rparr>\<rparr>
     ''/tmp'' ''a'' ''r''"

end
