(* ===== verification/Identity_Names.thy ===== *)
theory Identity_Names
  imports Storage_Names
begin

text \<open>
  The names and keys that clients send: template names and tags (\<open>id/id.go\<close>), API keys and access
  tokens (\<open>keys/key.go\<close>) and the sandbox and port a proxied request is for (\<open>proxy/host.go\<close>).  The
  parser of UUIDs, the hash of keys and random bytes are parameters.
\<close>

section \<open>Template names\<close>

text \<open>
  \<open>strings.ToLower\<close>, as far as the result can be ASCII: besides the capitals only the Kelvin sign and
  the dotted capital I have an ASCII letter as their lower case; all other characters outside ASCII
  stay outside and are rejected by the patterns.
\<close>

definition lower_char :: "char \<Rightarrow> char" where
  "lower_char c = (if 65 \<le> (of_char c :: nat) \<and> (of_char c :: nat) \<le> 90 then char_of (of_char c + 32 :: nat) else c)"

fun lower_runes :: "nat list \<Rightarrow> nat list" where
  "lower_runes [] = []"
| "lower_runes (c # s) =
     (if c = 226 \<and> take 2 s = [132, 170] then 107 # lower_runes (drop 2 s)
      else if c = 196 \<and> take 1 s = [176] then 105 # lower_runes (drop 1 s)
      else c # lower_runes s)"

definition ToLower :: "string \<Rightarrow> string" where
  "ToLower s = map (\<lambda>n. lower_char (char_of n)) (lower_runes (map of_char s))"

definition lower_or_digit :: "char \<Rightarrow> bool" where
  "lower_or_digit c \<longleftrightarrow> (let n = of_char c :: nat in (97 \<le> n \<and> n \<le> 122) \<or> (48 \<le> n \<and> n \<le> 57))"

definition identifierRegex :: "string \<Rightarrow> bool" where
  "identifierRegex s \<longleftrightarrow> s \<noteq> [] \<and> list_all (\<lambda>c. lower_or_digit c \<or> c \<in> set ''-_'') s"

definition tagRegex :: "string \<Rightarrow> bool" where
  "tagRegex s \<longleftrightarrow> s \<noteq> [] \<and> list_all (\<lambda>c. lower_or_digit c \<or> c \<in> set ''-_.'') s"

definition sandboxIDRegex :: "string \<Rightarrow> bool" where
  "sandboxIDRegex s \<longleftrightarrow> s \<noteq> [] \<and> list_all lower_or_digit s"

datatype name_error = InvalidTag | InvalidNamespace | InvalidTemplateID | TagIsUUID | WrongNamespace | InvalidSandboxID

definition ValidateSandboxID :: "string \<Rightarrow> (name_error, unit) outcome" where
  "ValidateSandboxID sandboxID = (if \<not> sandboxIDRegex sandboxID then Err InvalidSandboxID else Ok ())"

definition cleanAndValidate :: "string \<Rightarrow> name_error \<Rightarrow> (string \<Rightarrow> bool) \<Rightarrow> (name_error, string) outcome" where
  "cleanAndValidate value' name re =
     (let cleaned = ToLower (TrimSpace value') in if \<not> re cleaned then Err name else Ok cleaned)"

definition validateTag :: "(string \<Rightarrow> bool) \<Rightarrow> string \<Rightarrow> (name_error, string) outcome" where
  "validateTag is_uuid_text tag =
     and_then (cleanAndValidate tag InvalidTag tagRegex) (\<lambda>cleanedTag.
       if is_uuid_text cleanedTag then Err TagIsUUID else Ok cleanedTag)"

text \<open>The keys of a map come out in any order: the result is their set.\<close>

fun dedup_tags :: "(string \<Rightarrow> bool) \<Rightarrow> string list \<Rightarrow> string set \<Rightarrow> (name_error, string set) outcome" where
  "dedup_tags is_uuid_text [] seen = Ok seen"
| "dedup_tags is_uuid_text (tag # tags) seen =
     and_then (validateTag is_uuid_text tag) (\<lambda>cleanedTag. dedup_tags is_uuid_text tags (insert cleanedTag seen))"

definition ValidateAndDeduplicateTags :: "(string \<Rightarrow> bool) \<Rightarrow> string list \<Rightarrow> (name_error, string set) outcome" where
  "ValidateAndDeduplicateTags is_uuid_text tags = dedup_tags is_uuid_text tags {}"

definition SplitIdentifier :: "string \<Rightarrow> string option \<times> string" where
  "SplitIdentifier identifier =
     (case Cut identifier slash of (before, after, found) \<Rightarrow> if \<not> found then (None, before) else (Some before, after))"

definition WithTag :: "string \<Rightarrow> string \<Rightarrow> string" where
  "WithTag identifier tag = identifier @ '':'' @ tag"

definition WithNamespace :: "string \<Rightarrow> string \<Rightarrow> string" where
  "WithNamespace namespace alias = namespace @ ''/'' @ alias"

definition ExtractAlias :: "string \<Rightarrow> string" where
  "ExtractAlias identifier = snd (SplitIdentifier identifier)"

definition DefaultTag :: string where "DefaultTag = ''default''"

definition ParseName :: "string \<Rightarrow> (name_error, string \<times> string option) outcome" where
  "ParseName input =
     (case Cut (TrimSpace input) CHR '':'' of (identifierPart, tagPart, hasTag) \<Rightarrow>
      case SplitIdentifier identifierPart of (namespacePart, aliasPart) \<Rightarrow>
        and_then
          (if hasTag then and_then (cleanAndValidate tagPart InvalidTag tagRegex) (\<lambda>v. Ok (if v = DefaultTag then None else Some v))
           else Ok None) (\<lambda>tag.
        and_then
          (case namespacePart of
             None \<Rightarrow> Ok None
           | Some ns \<Rightarrow> and_then (cleanAndValidate ns InvalidNamespace identifierRegex) (\<lambda>v. Ok (Some v))) (\<lambda>namespace.
        and_then (cleanAndValidate aliasPart InvalidTemplateID identifierRegex) (\<lambda>alias.
          Ok (case namespace of None \<Rightarrow> alias | Some ns \<Rightarrow> WithNamespace ns alias, tag)))))"

definition ValidateNamespaceMatchesTeam :: "string \<Rightarrow> string \<Rightarrow> (name_error, unit) outcome" where
  "ValidateNamespaceMatchesTeam identifier teamSlug =
     (case fst (SplitIdentifier identifier) of
        None \<Rightarrow> Ok ()
      | Some ns \<Rightarrow> if ns \<noteq> teamSlug then Err WrongNamespace else Ok ())"

section \<open>Names in normal form\<close>

definition name_char :: "char \<Rightarrow> bool" where
  "name_char c \<longleftrightarrow> lower_or_digit c \<or> c \<in> set ''-_./:''"

lemma name_char_range: "name_char c \<Longrightarrow> 45 \<le> (of_char c :: nat) \<and> (of_char c :: nat) \<le> 122 \<and> \<not> (65 \<le> (of_char c :: nat) \<and> (of_char c :: nat) \<le> 90)"
  by (auto simp: name_char_def lower_or_digit_def Let_def)

lemma regex_chars:
  "identifierRegex s \<Longrightarrow> list_all name_char s" "tagRegex s \<Longrightarrow> list_all name_char s"
  by (auto simp: identifierRegex_def tagRegex_def name_char_def list_all_iff)

lemma lower_runes_ascii: "(\<forall>n \<in> set s. n < 128) \<Longrightarrow> lower_runes s = s"
  by (induction s rule: lower_runes.induct) auto

lemma ToLower_clean: "list_all name_char s \<Longrightarrow> ToLower s = s"
proof -
  assume s: "list_all name_char s"
  then have "lower_runes (map of_char s) = map of_char s"
    using name_char_range by (intro lower_runes_ascii) (fastforce simp: list_all_iff)
  moreover have "map lower_char s = s"
    using s name_char_range by (intro map_idI) (fastforce simp: list_all_iff lower_char_def)
  ultimately show ?thesis by (simp add: ToLower_def o_def)
qed

lemma trim_front_clean:
  assumes "\<forall>r \<in> set runes. r \<noteq> [] \<and> \<not> name_char (hd r)" and "list_all name_char s"
  shows "trim_front n runes s = s"
proof -
  have "\<not> HasPrefix s r" if r: "r \<in> set runes" for r
  proof
    assume "HasPrefix s r"
    then obtain rest where "s = r @ rest" by (auto simp: HasPrefix_iff)
    moreover have "r \<noteq> []" "\<not> name_char (hd r)" using r assms(1) by auto
    ultimately show False using assms(2) by (cases r) auto
  qed
  then have "strip_space runes s = None" by (simp add: strip_space_def)
  then show ?thesis by (cases n) simp_all
qed

lemma TrimSpace_clean:
  assumes "list_all name_char s"
  shows "TrimSpace s = s"
proof -
  have "list_all (\<lambda>r. r \<noteq> [] \<and> \<not> name_char (hd r)) space_runes"
    "list_all (\<lambda>r. r \<noteq> [] \<and> \<not> name_char (hd r)) (map rev space_runes)" by code_simp+
  then have runes: "\<forall>r \<in> set space_runes. r \<noteq> [] \<and> \<not> name_char (hd r)"
    "\<forall>r \<in> set (map rev space_runes). r \<noteq> [] \<and> \<not> name_char (hd r)" by (simp_all only: list_all_iff)
  have "list_all name_char (rev s)" using assms by simp
  from trim_front_clean [OF runes(1) assms, of "length s"] trim_front_clean [OF runes(2) this, of "length s"]
  show ?thesis by (simp add: TrimSpace_def Let_def)
qed

lemma clean_again: "list_all name_char s \<Longrightarrow> re s \<Longrightarrow> cleanAndValidate s name re = Ok s"
  by (simp add: cleanAndValidate_def TrimSpace_clean ToLower_clean)

lemma cleanAndValidate_Ok: "cleanAndValidate v name re = Ok s \<Longrightarrow> re s"
  by (auto simp: cleanAndValidate_def Let_def split: if_splits)

text \<open>The normal form: a template with an optional namespace, and an optional tag that is not the default.\<close>

definition normal_identifier :: "string \<Rightarrow> bool" where
  "normal_identifier s \<longleftrightarrow> (case SplitIdentifier s of (ns, alias) \<Rightarrow>
     identifierRegex alias \<and> (case ns of None \<Rightarrow> True | Some n \<Rightarrow> identifierRegex n))"

definition normal_tag :: "string option \<Rightarrow> bool" where
  "normal_tag t \<longleftrightarrow> (case t of None \<Rightarrow> True | Some s \<Rightarrow> tagRegex s \<and> s \<noteq> DefaultTag)"

definition full_name :: "string \<Rightarrow> string option \<Rightarrow> string" where
  "full_name identifier tag = (case tag of None \<Rightarrow> identifier | Some t \<Rightarrow> WithTag identifier t)"

lemma identifier_no_separator: "identifierRegex s \<Longrightarrow> slash \<notin> set s \<and> CHR '':'' \<notin> set s"
  by (auto simp: identifierRegex_def list_all_iff lower_or_digit_def Let_def)

lemma Cut_none: "c \<notin> set s \<Longrightarrow> Cut s c = (s, [], False)"
  by (induction s) (auto simp: Cut_def)

lemma SplitIdentifier_namespace: "identifierRegex ns \<Longrightarrow> SplitIdentifier (WithNamespace ns alias) = (Some ns, alias)"
  using identifier_no_separator [of ns] by (simp add: SplitIdentifier_def WithNamespace_def Cut_append)

lemma SplitIdentifier_plain: "identifierRegex s \<Longrightarrow> SplitIdentifier s = (None, s)"
  using identifier_no_separator [of s] by (simp add: SplitIdentifier_def Cut_none)

lemma ParseName_Ok:
  assumes "ParseName input = Ok (identifier, tag)"
  shows "normal_tag tag \<and> (identifierRegex identifier \<or> (\<exists>ns al. identifier = WithNamespace ns al \<and> identifierRegex ns \<and> identifierRegex al))"
proof -
  obtain ip tp has where c: "Cut (TrimSpace input) CHR '':'' = (ip, tp, has)" by (cases "Cut (TrimSpace input) CHR '':''")
  obtain np ap where s: "SplitIdentifier ip = (np, ap)" by (cases "SplitIdentifier ip")
  from assms obtain al where a: "cleanAndValidate ap InvalidTemplateID identifierRegex = Ok al"
    and t: "(if has then and_then (cleanAndValidate tp InvalidTag tagRegex) (\<lambda>v. Ok (if v = DefaultTag then None else Some v)) else Ok None) = Ok tag"
    and n: "case np of None \<Rightarrow> identifier = al
       | Some ns \<Rightarrow> \<exists>v. cleanAndValidate ns InvalidNamespace identifierRegex = Ok v \<and> identifier = WithNamespace v al"
    by (auto simp: ParseName_def c s and_then_Ok_iff split: option.splits)
  have "normal_tag tag"
    using t by (auto simp: normal_tag_def and_then_Ok_iff split: if_splits option.splits dest: cleanAndValidate_Ok)
  then show ?thesis using a n by (auto split: option.splits dest!: cleanAndValidate_Ok)
qed

lemma ParseName_full_name:
  assumes "identifierRegex identifier \<or> (\<exists>ns al. identifier = WithNamespace ns al \<and> identifierRegex ns \<and> identifierRegex al)"
    and "normal_tag tag"
  shows "ParseName (full_name identifier tag) = Ok (identifier, tag)"
proof -
  have id: "list_all name_char identifier" "CHR '':'' \<notin> set identifier"
    using assms(1) regex_chars(1) identifier_no_separator by (auto simp: WithNamespace_def name_char_def)
  have "list_all name_char (full_name identifier tag)"
    using id(1) assms(2) regex_chars(2) by (auto simp: full_name_def WithTag_def normal_tag_def name_char_def split: option.splits)
  then have trim: "TrimSpace (full_name identifier tag) = full_name identifier tag" by (rule TrimSpace_clean)
  have cut: "Cut (full_name identifier tag) CHR '':'' = (identifier, case tag of None \<Rightarrow> [] | Some t \<Rightarrow> t, tag \<noteq> None)"
    using Cut_append [OF id(2)] Cut_none [OF id(2)] by (auto simp: full_name_def WithTag_def split: option.splits)
  have tag: "cleanAndValidate t InvalidTag tagRegex = Ok t" if "tag = Some t" for t
    using that assms(2) regex_chars(2) by (auto simp: normal_tag_def intro: clean_again)
  have part: "cleanAndValidate p name identifierRegex = Ok p" if "identifierRegex p" for p name
    using that regex_chars(1) by (auto intro: clean_again)
  show ?thesis
    using assms(1)
  proof
    assume i: "identifierRegex identifier"
    then show ?thesis
      unfolding ParseName_def trim cut
      using assms(2) by (cases tag) (simp_all add: SplitIdentifier_plain part tag normal_tag_def)
  next
    assume "\<exists>ns al. identifier = WithNamespace ns al \<and> identifierRegex ns \<and> identifierRegex al"
    then obtain ns al where i: "identifier = WithNamespace ns al" "identifierRegex ns" "identifierRegex al" by blast
    then have "SplitIdentifier identifier = (Some ns, al)" by (simp add: SplitIdentifier_namespace)
    then show ?thesis
      unfolding ParseName_def trim cut
      using assms(2) i by (cases tag) (simp_all add: part tag normal_tag_def)
  qed
qed

text \<open>
  C29.  Parsed names are in normal form.  When a template name is accepted, the result is a template,
  possibly with a namespace, of lower-case letters, digits, hyphens and underscores only, with a tag
  that may have dots and is never the default one; and parsing the name written out again from the
  result gives the same result.
\<close>

theorem ParseName_normal_form:
  assumes "ParseName input = Ok (identifier, tag)"
  shows "normal_identifier identifier \<and> normal_tag tag \<and> ParseName (full_name identifier tag) = Ok (identifier, tag)"
  using ParseName_Ok [OF assms] ParseName_full_name
  by (auto simp: normal_identifier_def SplitIdentifier_plain SplitIdentifier_namespace)

theorem ParseName_normal_form_witness:
  "ParseName ''app:v1'' = Ok (''app'', Some ''v1'') \<and> normal_identifier ''app''"
proof -
  have "identifierRegex ''app''" "normal_tag (Some ''v1'')"
    by (simp_all add: identifierRegex_def normal_tag_def tagRegex_def lower_or_digit_def DefaultTag_def)
  then have "ParseName (full_name ''app'' (Some ''v1'')) = Ok (''app'', Some ''v1'')" by (intro ParseName_full_name) simp_all
  from ParseName_normal_form [OF this] this show ?thesis by (simp add: full_name_def WithTag_def)
qed

section \<open>Keys\<close>

record MaskedIdentifier =
  mk_Prefix :: string
  mk_ValueLength :: nat
  mk_MaskedValuePrefix :: string
  mk_MaskedValueSuffix :: string

record Key =
  ky_PrefixedRawValue :: string
  ky_HashedValue :: string
  ky_Masked :: MaskedIdentifier

datatype key_error = MaskTooShort | MaskExposes | InvalidKeyPrefix | InvalidKey | RandomError

definition identifierValueSuffixLength :: nat where "identifierValueSuffixLength = 4"
definition identifierValuePrefixLength :: nat where "identifierValuePrefixLength = 2"
definition keyLength :: nat where "keyLength = 20"

definition MaskKey :: "string \<Rightarrow> string \<Rightarrow> (key_error, MaskedIdentifier) outcome" where
  "MaskKey prefix' value' =
     (let valueLength = length value';
          suffixOffset = int valueLength - int identifierValueSuffixLength
      in if suffixOffset < 0 then Err MaskTooShort
         else if suffixOffset = 0 then Err MaskExposes
         else let prefixOffset = min (int identifierValuePrefixLength) suffixOffset
              in Ok \<lparr>mk_Prefix = prefix', mk_ValueLength = valueLength,
                     mk_MaskedValuePrefix = take (nat prefixOffset) value',
                     mk_MaskedValueSuffix = drop (nat suffixOffset) value'\<rparr>)"

text \<open>\<open>keyBytes\<close> are the random bytes, \<open>None\<close> if there are none to be had.\<close>

definition GenerateKey :: "(byte list \<Rightarrow> string) \<Rightarrow> byte list option \<Rightarrow> string \<Rightarrow> (key_error, Key) outcome" where
  "GenerateKey hash keyBytes prefix' =
     (case keyBytes of
        None \<Rightarrow> Err RandomError
      | Some bs \<Rightarrow>
          (let generatedIdentifier = hex_EncodeToString bs
           in and_then (MaskKey prefix' generatedIdentifier) (\<lambda>mask.
                Ok \<lparr>ky_PrefixedRawValue = prefix' @ generatedIdentifier, ky_HashedValue = hash bs, ky_Masked = mask\<rparr>)))"

definition MaskToken :: "string \<Rightarrow> string \<Rightarrow> string" where
  "MaskToken prefix' token =
     (case MaskKey prefix' (TrimPrefix token prefix') of
        Ok m \<Rightarrow> mk_Prefix m @ mk_MaskedValuePrefix m @ ''...'' @ mk_MaskedValueSuffix m
      | _ \<Rightarrow> ''invalid_token_format'')"

definition VerifyKey :: "(byte list \<Rightarrow> string) \<Rightarrow> string \<Rightarrow> string \<Rightarrow> (key_error, string) outcome" where
  "VerifyKey hash prefix' key =
     (if \<not> HasPrefix key prefix' then Err InvalidKeyPrefix
      else case hex_DecodeString (drop (length prefix') key) of
             None \<Rightarrow> Err InvalidKey
           | Some keyBytes \<Rightarrow> Ok (hash keyBytes))"

text \<open>What a mask shows: the value is its shown start, a hidden middle, and its shown end.\<close>

lemma MaskKey_parts:
  assumes "MaskKey prefix' value' = Ok m"
  shows "\<exists>hidden. value' = mk_MaskedValuePrefix m @ hidden @ mk_MaskedValueSuffix m \<and> length hidden = length value' - 6
    \<and> 4 < length value' \<and> mk_ValueLength m = length value' \<and> mk_Prefix m = prefix'"
proof -
  let ?n = "length value' - 4"
  from assms have n: "4 < length value'"
    and m: "m = \<lparr>mk_Prefix = prefix', mk_ValueLength = length value', mk_MaskedValuePrefix = take (min 2 ?n) value',
      mk_MaskedValueSuffix = drop ?n value'\<rparr>"
    by (auto simp: MaskKey_def Let_def identifierValueSuffixLength_def identifierValuePrefixLength_def min_def nat_diff_distrib
        split: if_splits)
  have "take (min 2 ?n) value' @ take (?n - 2) (drop 2 value') @ drop ?n value' = value'"
  proof (cases "2 \<le> ?n")
    case True
    have "take ?n value' = take 2 value' @ take (?n - 2) (drop 2 value')"
      by (metis True le_add_diff_inverse take_add)
    then have "(take 2 value' @ take (?n - 2) (drop 2 value')) @ drop ?n value' = value'"
      by (metis append_take_drop_id)
    then show ?thesis using True by (simp add: min_def)
  qed (simp add: min_def)
  then show ?thesis using n m by (intro exI [of _ "take (?n - 2) (drop 2 value')"]) auto
qed

text \<open>
  Keys round trip and stay hidden.  A key generated from twenty random bytes verifies to the hash
  that was stored for it, and its mask leaves 34 of its 40 digits out.
\<close>

lemma GenerateKey_verifies:
  assumes "length bs = keyLength"
  shows "\<exists>key hidden. GenerateKey hash (Some bs) prefix' = Ok key
    \<and> VerifyKey hash prefix' (ky_PrefixedRawValue key) = Ok (ky_HashedValue key)
    \<and> ky_PrefixedRawValue key = prefix' @ mk_MaskedValuePrefix (ky_Masked key) @ hidden @ mk_MaskedValueSuffix (ky_Masked key)
    \<and> length hidden = 34"
proof -
  have len: "length (hex_EncodeToString bs) = 40" using assms by (simp add: hex_length keyLength_def)
  then obtain m where m: "MaskKey prefix' (hex_EncodeToString bs) = Ok m"
    by (auto simp: MaskKey_def Let_def identifierValueSuffixLength_def)
  obtain hidden where h: "hex_EncodeToString bs = mk_MaskedValuePrefix m @ hidden @ mk_MaskedValueSuffix m" "length hidden = 34"
    using MaskKey_parts [OF m] len by auto
  have "HasPrefix (prefix' @ hex_EncodeToString bs) prefix'" by (simp add: HasPrefix_iff)
  then have "VerifyKey hash prefix' (prefix' @ hex_EncodeToString bs) = Ok (hash bs)" by (simp add: VerifyKey_def)
  then show ?thesis using m h by (simp add: GenerateKey_def Let_def)
qed

text \<open>
  The check for values that a mask would expose only refuses four digits: a value of five or six is
  shown whole.
\<close>

lemma MaskKey_exposes_short:
  assumes "MaskKey prefix' value' = Ok m" and "length value' \<le> 6"
  shows "value' = mk_MaskedValuePrefix m @ mk_MaskedValueSuffix m"
  using MaskKey_parts [OF assms(1)] assms(2) by auto

section \<open>The target of a proxied request\<close>

datatype target_error = ErrInvalidHost | InvalidSandboxPort string | MissingHeader string | ErrInvalidSandboxID

text \<open>\<open>strconv.ParseUint(s, 10, 64)\<close>.\<close>

definition ParseUint :: "string \<Rightarrow> nat option" where
  "ParseUint s = (case decimal s of None \<Rightarrow> None | Some v \<Rightarrow> if v < 2 ^ 64 then Some (nat v) else None)"

definition parseHost :: "string \<Rightarrow> (target_error, string \<times> nat) outcome" where
  "parseHost host =
     (if CHR ''.'' \<notin> set host then Err ErrInvalidHost
      else case split_on CHR ''-'' (takeWhile (\<lambda>c. c \<noteq> CHR ''.'') host) of
             sandboxPortString # sandboxID # _ \<Rightarrow>
               (case ParseUint sandboxPortString of
                  None \<Rightarrow> Err (InvalidSandboxPort sandboxPortString)
                | Some port \<Rightarrow> Ok (sandboxID, port))
           | _ \<Rightarrow> Err ErrInvalidHost)"

text \<open>\<open>h\<close> is \<open>Header.Get\<close>: empty when the header is missing.  \<open>Ok None\<close>: neither header is there.\<close>

definition parseHeaders :: "(string \<Rightarrow> string) \<Rightarrow> (target_error, (string \<times> nat) option) outcome" where
  "parseHeaders h =
     (let sandboxID = h ''E2b-Sandbox-Id''; portString = h ''E2b-Sandbox-Port''
      in if sandboxID = [] \<and> portString = [] then Ok None
         else if sandboxID = [] then Err (MissingHeader ''E2b-Sandbox-Id'')
         else if portString = [] then Err (MissingHeader ''E2b-Sandbox-Port'')
         else case ParseUint portString of
                None \<Rightarrow> Err (InvalidSandboxPort portString)
              | Some port \<Rightarrow> Ok (Some (sandboxID, port)))"

definition checked_target :: "string \<times> nat \<Rightarrow> (target_error, string \<times> nat) outcome" where
  "checked_target t = (if is_ok (ValidateSandboxID (fst t)) then Ok t else Err ErrInvalidSandboxID)"

definition GetTargetFromRequest :: "bool \<Rightarrow> (string \<Rightarrow> string) \<Rightarrow> string \<Rightarrow> (target_error, string \<times> nat) outcome" where
  "GetTargetFromRequest processHeaders h host =
     (if processHeaders then
        and_then (parseHeaders h) (\<lambda>t.
          case t of
            Some t \<Rightarrow> checked_target t
          | None \<Rightarrow> and_then (parseHost host) checked_target)
      else and_then (parseHost host) checked_target)"

text \<open>The parts of a host of the form port, hyphen, identifier, domain.\<close>

lemma ParseUint_digits: "port < 2 ^ 64 \<Longrightarrow> ParseUint (nat_digits port) = Some port"
  by (simp add: ParseUint_def decimal_nat_digits)

lemma parseHost_of_target:
  assumes "sandboxIDRegex sid" and "port < 2 ^ 64"
  shows "parseHost (Itoa (int port) @ ''-'' @ sid @ ''.'' @ domain) = Ok (sid, port)"
proof -
  let ?host = "Itoa (int port) @ ''-'' @ sid @ ''.'' @ domain"
  have digits: "c \<noteq> CHR ''.'' \<and> c \<noteq> CHR ''-''" if "c \<in> set (nat_digits port)" for c
    using that nat_digits_chars [of port] by auto
  have sid: "c \<noteq> CHR ''.'' \<and> c \<noteq> CHR ''-''" if "c \<in> set sid" for c
    using that assms(1) by (auto simp: sandboxIDRegex_def list_all_iff lower_or_digit_def Let_def)
  have "takeWhile (\<lambda>c. c \<noteq> CHR ''.'') ?host = nat_digits port @ CHR ''-'' # sid"
    using digits sid by (simp add: Itoa_def takeWhile_append)
  moreover have "split_on CHR ''-'' (nat_digits port @ CHR ''-'' # sid) = [nat_digits port, sid]"
  proof -
    have "CHR ''-'' \<notin> set (nat_digits port)" "CHR ''-'' \<notin> set sid" using digits sid by blast+
    then show ?thesis by (simp add: split_on_append split_on_single)
  qed
  ultimately show ?thesis using ParseUint_digits [OF assms(2)] by (simp add: parseHost_def)
qed

lemma target_valid:
  assumes "GetTargetFromRequest processHeaders h host = Ok t"
  shows "sandboxIDRegex (fst t) \<and> snd t < 2 ^ 64"
proof -
  have uint: "n < 2 ^ 64" if "ParseUint s = Some n" for s n
    using that by (auto simp: ParseUint_def split: option.splits if_splits)
  have host: "snd t < 2 ^ 64" if "parseHost host = Ok t" for host t
    using that uint by (auto simp: parseHost_def split: if_splits list.splits option.splits)
  have headers: "snd t < 2 ^ 64" if "parseHeaders h = Ok (Some t)" for h t
    using that uint by (auto simp: parseHeaders_def Let_def split: if_splits option.splits)
  have check: "t = t' \<and> sandboxIDRegex (fst t)" if "checked_target t' = Ok t" for t t'
    using that by (auto simp: checked_target_def ValidateSandboxID_def split: if_splits)
  from assms obtain t' where "checked_target t' = Ok t" and "parseHeaders h = Ok (Some t') \<or> parseHost host = Ok t'"
    by (auto simp: GetTargetFromRequest_def and_then_Ok_iff split: if_splits option.splits)
  then show ?thesis using host headers check by blast
qed

text \<open>
  C30.  Requests go to the sandbox they name.  Let the host be written as port (below two to the 64),
  hyphen, sandbox identifier and a domain.  If headers are not processed, whatever they hold, or if they
  are and both target headers are missing, the request is routed to exactly that sandbox and port.  If
  they are processed and name a sandbox identifier and a port, they win, whatever the host is; if only
  one of the two is there, the request is refused with the missing one.  Every target that is accepted,
  of whatever request, is a sandbox identifier of lower-case letters and digits and a 64-bit port.
\<close>

theorem target_of_request:
  assumes "sandboxIDRegex sid" and "port < 2 ^ 64"
  shows "GetTargetFromRequest False h (Itoa (int port) @ ''-'' @ sid @ ''.'' @ domain) = Ok (sid, port)
    \<and> (h ''E2b-Sandbox-Id'' = [] \<and> h ''E2b-Sandbox-Port'' = [] \<longrightarrow>
        GetTargetFromRequest True h (Itoa (int port) @ ''-'' @ sid @ ''.'' @ domain) = Ok (sid, port))
    \<and> (h ''E2b-Sandbox-Id'' = sid \<and> h ''E2b-Sandbox-Port'' = Itoa (int port) \<longrightarrow>
        GetTargetFromRequest True h host = Ok (sid, port))
    \<and> (h ''E2b-Sandbox-Id'' = [] \<and> h ''E2b-Sandbox-Port'' \<noteq> [] \<longrightarrow>
        GetTargetFromRequest True h host = Err (MissingHeader ''E2b-Sandbox-Id''))
    \<and> (h ''E2b-Sandbox-Id'' \<noteq> [] \<and> h ''E2b-Sandbox-Port'' = [] \<longrightarrow>
        GetTargetFromRequest True h host = Err (MissingHeader ''E2b-Sandbox-Port''))
    \<and> (\<forall>t. GetTargetFromRequest processHeaders h host = Ok t \<longrightarrow> sandboxIDRegex (fst t) \<and> snd t < 2 ^ 64)"
proof -
  have ok: "checked_target (sid, port) = Ok (sid, port)" using assms(1) by (simp add: checked_target_def ValidateSandboxID_def)
  have "sid \<noteq> []" using assms(1) by (auto simp: sandboxIDRegex_def Let_def)
  moreover have "nat_digits port \<noteq> []" by (metis nat_digits.simps append_is_Nil_conv list.distinct(1))
  ultimately have "GetTargetFromRequest True h host = Ok (sid, port)"
    if "h ''E2b-Sandbox-Id'' = sid" "h ''E2b-Sandbox-Port'' = Itoa (int port)"
    using that ok ParseUint_digits [OF assms(2)] by (simp add: GetTargetFromRequest_def parseHeaders_def Let_def Itoa_def)
  then show ?thesis
    using ok parseHost_of_target [OF assms] target_valid
    by (auto simp: GetTargetFromRequest_def parseHeaders_def Let_def)
qed

theorem target_of_request_witness:
  "GetTargetFromRequest False (\<lambda>_. ''1'') (Itoa (int 80) @ ''-'' @ ''abc'' @ ''.'' @ ''dev'') = Ok (''abc'', 80)
   \<and> GetTargetFromRequest True ((\<lambda>_. [])(''E2b-Sandbox-Id'' := ''abc'', ''E2b-Sandbox-Port'' := ''80'')) ''9-xyz.dev'' = Ok (''abc'', 80)
   \<and> GetTargetFromRequest True ((\<lambda>_. [])(''E2b-Sandbox-Id'' := ''abc'')) ''9-xyz.dev'' = Err (MissingHeader ''E2b-Sandbox-Port'')"
proof -
  have "sandboxIDRegex ''abc''" by (simp add: sandboxIDRegex_def lower_or_digit_def)
  note t = target_of_request [OF this, of 80]
  have d: "Itoa (int 80) = ''80''" by code_simp
  show ?thesis
    using t [of "\<lambda>_. ''1''" "''dev''"]
      t [of "(\<lambda>_. [])(''E2b-Sandbox-Id'' := ''abc'', ''E2b-Sandbox-Port'' := ''80'')" _ "''9-xyz.dev''"]
      t [of "(\<lambda>_. [])(''E2b-Sandbox-Id'' := ''abc'')" _ "''9-xyz.dev''"]
    unfolding d by auto
qed

end
