(* ===== verification/Proxy_Handler.thy ===== *)
theory Proxy_Handler
  imports Proxy_Pool Identity_Names Go_Json
begin

text \<open>
  The handler of the reverse proxy (\<open>packages/shared/pkg/proxy/handler.go\<close>), its errors and error pages
  (\<open>errors.go\<close>, \<open>template\<close>), the limit on connections around it, and how a client rewrites a request
  and answers when it fails (\<open>pool/client.go\<close>).  Forwarding the request itself is the reverse proxy of
  the standard library over the network: the parameter \<open>serve\<close>.  The HTML templates are files; rendering
  them is the parameter \<open>render\<close>.
\<close>

section \<open>Errors and responses\<close>

text \<open>
  An error is the chain that \<open>errors.As\<close> and \<open>errors.Is\<close> walk, \<open>[]\<close> is \<open>nil\<close>.  The type of a port error is
  told apart from a pointer to it, as the two are by \<open>errors.As\<close>.
\<close>

datatype route_error =
    MissingHeaderError string | RouteInvalidHost | RouteInvalidSandboxID
  | InvalidSandboxPortValue string | InvalidSandboxPortPtr string
  | SandboxNotFoundError string | SandboxResumePermissionDenied string | SandboxResourceExhausted string string
  | MissingTrafficAccessToken string string | InvalidTrafficAccessToken string string | OtherError string

fun Error_text :: "route_error \<Rightarrow> string" where
  "Error_text (MissingHeaderError h) = ''Missing header: '' @ h"
| "Error_text RouteInvalidHost = ''invalid url host''"
| "Error_text RouteInvalidSandboxID = ''invalid sandbox ID''"
| "Error_text (InvalidSandboxPortValue p) = ''invalid sandbox port''"
| "Error_text (InvalidSandboxPortPtr p) = ''invalid sandbox port''"
| "Error_text (SandboxNotFoundError i) = ''sandbox not found''"
| "Error_text (SandboxResumePermissionDenied i) = ''sandbox resume permission denied''"
| "Error_text (SandboxResourceExhausted i m) = ''sandbox resource exhausted''"
| "Error_text (MissingTrafficAccessToken i h) = ''missing traffic access token''"
| "Error_text (InvalidTrafficAccessToken i h) = ''invalid traffic access token''"
| "Error_text (OtherError s) = s"

fun errors_As :: "(route_error \<Rightarrow> 'a option) \<Rightarrow> route_error list \<Rightarrow> 'a option" where
  "errors_As f [] = None"
| "errors_As f (e # es) = (case f e of Some x \<Rightarrow> Some x | None \<Rightarrow> errors_As f es)"

datatype page = HtmlPage string | JsonPage json | TextPage string

record ResponseWriter =
  rw_type :: "string option"
  rw_status :: "int option"
  rw_body :: "page list"

text \<open>The first status counts; headers set after it are not sent.\<close>

definition start_response :: "string \<Rightarrow> int \<Rightarrow> ResponseWriter \<Rightarrow> ResponseWriter" where
  "start_response contentType code w =
     (if rw_status w = None then w\<lparr>rw_type := Some contentType, rw_status := Some code\<rparr> else w)"

definition write_page :: "page \<Rightarrow> ResponseWriter \<Rightarrow> ResponseWriter" where
  "write_page p w = w\<lparr>rw_body := rw_body w @ [p]\<rparr>"

definition http_Error :: "string \<Rightarrow> int \<Rightarrow> ResponseWriter \<Rightarrow> ResponseWriter" where
  "http_Error msg code w = write_page (TextPage msg) (start_response ''text/plain; charset=utf-8'' code w)"

section \<open>Error pages\<close>

text \<open>
  A page: the name of its HTML template, the fields of its JSON form, the fields only the HTML shows,
  and the status.
\<close>

record TemplatedError =
  te_template :: string
  te_vars :: "(string \<times> json) list"
  te_hidden :: "(string \<times> string) list"
  te_code :: int

text \<open>
  \<open>(?i)mozilla|chrome|safari|firefox|edge|opera|msie\<close>: letters match in both cases, and the long s,
  whose encoding is \<open>197 191\<close>, matches an s.
\<close>

fun fold_case :: "nat list \<Rightarrow> nat list" where
  "fold_case [] = []"
| "fold_case (c # s) =
     (if c = 197 \<and> take 1 s = [191] then 115 # fold_case (drop 1 s)
      else (if 65 \<le> c \<and> c \<le> 90 then c + 32 else c) # fold_case s)"

definition browserRegex :: "string \<Rightarrow> bool" where
  "browserRegex agent \<longleftrightarrow>
     (let s = map char_of (fold_case (map of_char agent))
      in list_ex (Contains s) [''mozilla'', ''chrome'', ''safari'', ''firefox'', ''edge'', ''opera'', ''msie''])"

text \<open>\<open>written\<close>: the body could be written.\<close>

definition HandleError ::
  "(string \<Rightarrow> (string \<times> json) list \<Rightarrow> (string \<times> string) list \<Rightarrow> string option) \<Rightarrow> bool \<Rightarrow> string \<Rightarrow> TemplatedError
     \<Rightarrow> ResponseWriter \<Rightarrow> (unit, unit) outcome \<times> ResponseWriter" where
  "HandleError render written agent e w =
     (if te_code e \<le> 0 then (Err (), w)
      else if browserRegex agent then
        (case render (te_template e) (te_vars e) (te_hidden e) of
           None \<Rightarrow> (Err (), w)
         | Some html \<Rightarrow>
             (let w' = start_response ''text/html; charset=utf-8'' (te_code e) w
              in if written then (Ok (), write_page (HtmlPage html) w') else (Err (), w')))
      else let w' = start_response ''application/json; charset=utf-8'' (te_code e) w
           in if written then (Ok (), write_page (JsonPage (JObject (te_vars e))) w') else (Err (), w'))"

definition NewPortClosedError :: "string \<Rightarrow> string \<Rightarrow> nat \<Rightarrow> TemplatedError" where
  "NewPortClosedError sandboxId host port =
     \<lparr>te_template = ''portClosedHtml'',
      te_vars = [(''sandboxId'', JString sandboxId), (''message'', JString ''The sandbox is running but port is not open''),
                 (''port'', JNumber (Itoa (int port))), (''code'', JNumber ''502'')],
      te_hidden = [(''Host'', host)], te_code = 502\<rparr>"

definition NewSandboxNotFoundError :: "string \<Rightarrow> string \<Rightarrow> TemplatedError" where
  "NewSandboxNotFoundError sandboxId host =
     \<lparr>te_template = ''sandboxNotFoundHtml'',
      te_vars = [(''sandboxId'', JString sandboxId), (''message'', JString ''The sandbox was not found''), (''code'', JNumber ''502'')],
      te_hidden = [(''Host'', host)], te_code = 502\<rparr>"

definition NewSandboxResumePermissionDeniedError :: "string \<Rightarrow> string \<Rightarrow> TemplatedError" where
  "NewSandboxResumePermissionDeniedError sandboxId host =
     \<lparr>te_template = ''sandboxResumePermissionDeniedHtml'',
      te_vars = [(''sandboxId'', JString sandboxId),
                 (''message'', JString (''This sandbox can'' @ [CHR 0x27] @ ''t be resumed with the credentials provided. Check your access token and try again.'')),
                 (''code'', JNumber ''403'')],
      te_hidden = [(''Host'', host)], te_code = 403\<rparr>"

definition NewTeamSandboxLimitError :: "string \<Rightarrow> string \<Rightarrow> string \<Rightarrow> TemplatedError" where
  "NewTeamSandboxLimitError sandboxId host message =
     \<lparr>te_template = ''teamSandboxLimitHtml'',
      te_vars = [(''sandboxId'', JString sandboxId), (''message'', JString (if message = [] then ''Sandbox limit reached'' else message)),
                 (''code'', JNumber ''429'')],
      te_hidden = [(''Host'', host)], te_code = 429\<rparr>"

definition NewTrafficAccessTokenMissingHeader :: "string \<Rightarrow> string \<Rightarrow> string \<Rightarrow> TemplatedError" where
  "NewTrafficAccessTokenMissingHeader sandboxId host header =
     \<lparr>te_template = ''missingTrafficAccessTokenErrHtml'',
      te_vars = [(''sandboxId'', JString sandboxId),
                 (''message'', JString (''Sandbox is secured with traffic access token. Token header '' @ [CHR 0x27] @ header @ [CHR 0x27] @ '' is missing'')),
                 (''code'', JNumber ''403'')],
      te_hidden = [(''Header'', header), (''Host'', host)], te_code = 403\<rparr>"

definition NewTrafficAccessTokenInvalidHeader :: "string \<Rightarrow> string \<Rightarrow> string \<Rightarrow> TemplatedError" where
  "NewTrafficAccessTokenInvalidHeader sandboxId host header =
     \<lparr>te_template = ''invalidTrafficAccessTokenErrHtml'',
      te_vars = [(''sandboxId'', JString sandboxId),
                 (''message'', JString (''Sandbox is secured with traffic access token. Provided token in header '' @ [CHR 0x27] @ header @ [CHR 0x27] @ '' is invalid'')),
                 (''code'', JNumber ''403'')],
      te_hidden = [(''Header'', header), (''Host'', host)], te_code = 403\<rparr>"

definition NewSandboxTooManyConnectionsError :: "string \<Rightarrow> string \<Rightarrow> int \<Rightarrow> TemplatedError" where
  "NewSandboxTooManyConnectionsError sandboxId host limit =
     \<lparr>te_template = ''sandboxTooManyConnectionsHtml'',
      te_vars = [(''sandboxId'', JString sandboxId),
                 (''message'', JString (''The sandbox has too many concurrent incoming connections (limit: '' @ Itoa limit @ '')'')),
                 (''code'', JNumber ''429''), (''connectionLimit'', JNumber (Itoa limit))],
      te_hidden = [(''Host'', host)], te_code = 429\<rparr>"

section \<open>The handler\<close>

record Destination =
  ds_Url :: string
  ds_SandboxId :: string
  ds_SandboxPort :: nat
  ds_DefaultToPortError :: bool
  ds_ConnectionKey :: string
  ds_MaskRequestHost :: "string option"

text \<open>What the handler needs of its surroundings: the rendering of pages, whether writing succeeds, the request.\<close>

record proxy_env =
  pe_render :: "string \<Rightarrow> (string \<times> json) list \<Rightarrow> (string \<times> string) list \<Rightarrow> string option"
  pe_written :: bool
  pe_agent :: string
  pe_host :: string

definition answer_page :: "proxy_env \<Rightarrow> string \<Rightarrow> TemplatedError \<Rightarrow> ResponseWriter \<Rightarrow> ResponseWriter" where
  "answer_page env failure e w =
     (case HandleError (pe_render env) (pe_written env) (pe_agent env) e w of
        (Ok _, w') \<Rightarrow> w'
      | (_, w') \<Rightarrow> http_Error failure 500 w')"

definition refuse_route :: "proxy_env \<Rightarrow> route_error list \<Rightarrow> ResponseWriter \<Rightarrow> ResponseWriter" where
  "refuse_route env err w =
     (case errors_As (\<lambda>e. case e of MissingHeaderError h \<Rightarrow> Some h | _ \<Rightarrow> None) err of
        Some _ \<Rightarrow> http_Error ''missing header'' 400 w
      | None \<Rightarrow>
      if RouteInvalidHost \<in> set err then http_Error ''Invalid host'' 400 w
      else if RouteInvalidSandboxID \<in> set err then http_Error ''Invalid sandbox ID'' 400 w
      else case errors_As (\<lambda>e. case e of InvalidSandboxPortPtr p \<Rightarrow> Some p | _ \<Rightarrow> None) err of
        Some _ \<Rightarrow> http_Error ''Invalid sandbox port'' 400 w
      | None \<Rightarrow>
      case errors_As (\<lambda>e. case e of SandboxNotFoundError i \<Rightarrow> Some i | _ \<Rightarrow> None) err of
        Some i \<Rightarrow> answer_page env ''Failed to handle sandbox not found error'' (NewSandboxNotFoundError i (pe_host env)) w
      | None \<Rightarrow>
      case errors_As (\<lambda>e. case e of SandboxResumePermissionDenied i \<Rightarrow> Some i | _ \<Rightarrow> None) err of
        Some i \<Rightarrow> answer_page env ''Failed to handle sandbox resume permission denied error'' (NewSandboxResumePermissionDeniedError i (pe_host env)) w
      | None \<Rightarrow>
      case errors_As (\<lambda>e. case e of SandboxResourceExhausted i m \<Rightarrow> Some (i, m) | _ \<Rightarrow> None) err of
        Some (i, m) \<Rightarrow> answer_page env ''Failed to handle team sandbox limit error'' (NewTeamSandboxLimitError i (pe_host env) m) w
      | None \<Rightarrow>
      case errors_As (\<lambda>e. case e of MissingTrafficAccessToken i h \<Rightarrow> Some (i, h) | _ \<Rightarrow> None) err of
        Some (i, h) \<Rightarrow> answer_page env ''Failed to handle invalid missing access token header error'' (NewTrafficAccessTokenMissingHeader i (pe_host env) h) w
      | None \<Rightarrow>
      case errors_As (\<lambda>e. case e of InvalidTrafficAccessToken i h \<Rightarrow> Some (i, h) | _ \<Rightarrow> None) err of
        Some (i, h) \<Rightarrow> answer_page env ''Failed to handle invalid traffic access token header error'' (NewTrafficAccessTokenInvalidHeader i (pe_host env) h) w
      | None \<Rightarrow> http_Error (''Unexpected error when routing request: '' @ Error_text (hd err)) 500 w)"

text \<open>
  \<open>TryAcquire\<close> and \<open>Release\<close> of the limiter when nobody else is between the load and the swap of the
  counter; with others they are the step relation \<open>conn_step\<close>.
\<close>

definition limiter_TryAcquire :: "('m, nat) cmap \<Rightarrow> string \<Rightarrow> int \<Rightarrow> 'm ConnectionLimiter \<Rightarrow> (int \<times> bool) \<times> 'm ConnectionLimiter" where
  "limiter_TryAcquire M key limit l =
     (case getCounter M key l of
        (c, l') \<Rightarrow>
          (let current = cl_counters l' c
           in if 0 \<le> limit \<and> limit \<le> current then ((current, False), l')
              else ((current + 1, True), snd (CompareAndSwap c current (current + 1) l'))))"

definition limiter_Release :: "('m, nat) cmap \<Rightarrow> string \<Rightarrow> 'm ConnectionLimiter \<Rightarrow> 'm ConnectionLimiter" where
  "limiter_Release M key l =
     (case cm_Get M (cl_connections l) key of
        None \<Rightarrow> l
      | Some c \<Rightarrow>
          (let current = cl_counters l c
           in if current \<le> 0 then l else snd (CompareAndSwap c current (current - 1) l)))"

datatype conn_event = ConnectionAcquired int | ConnectionReleased | ConnectionBlocked

text \<open>
  The destination and the error are those of \<open>getDestination\<close>, \<open>maxLimit\<close> is \<open>None\<close> without a limiter.
  \<open>serve\<close> may panic; the release is deferred and happens all the same.
\<close>

definition proxy_handler ::
  "('m, nat) cmap \<Rightarrow> proxy_env \<Rightarrow> int option \<Rightarrow> (Destination \<Rightarrow> ResponseWriter \<Rightarrow> (unit, unit) outcome \<times> ResponseWriter)
     \<Rightarrow> Destination option \<times> route_error list \<Rightarrow> ResponseWriter \<Rightarrow> 'm ConnectionLimiter
     \<Rightarrow> (unit, unit) outcome \<times> ResponseWriter \<times> 'm ConnectionLimiter \<times> conn_event list" where
  "proxy_handler M env maxLimit serve destination w l =
     (if snd destination \<noteq> [] then (Ok (), refuse_route env (snd destination) w, l, [])
      else case fst destination of
        None \<Rightarrow> (Panic, w, l, [])
      | Some d \<Rightarrow>
          (case maxLimit of
             None \<Rightarrow> (case serve d w of (r, w') \<Rightarrow> (r, w', l, []))
           | Some limit \<Rightarrow>
               (case limiter_TryAcquire M (ds_SandboxId d) limit l of
                  ((count, acquired), l') \<Rightarrow>
                    if \<not> acquired then
                      (Ok (), answer_page env ''Failed to handle too many connections error''
                                (NewSandboxTooManyConnectionsError (ds_SandboxId d) (pe_host env) limit) w, l', [ConnectionBlocked])
                    else (case serve d w of
                            (r, w') \<Rightarrow> (r, w', limiter_Release M (ds_SandboxId d) l', [ConnectionAcquired count, ConnectionReleased])))))"

section \<open>The client\<close>

text \<open>
  The URL the request is sent to, its host and its forwarded host, which the reverse proxy removes from
  what the client sent before it calls \<open>Rewrite\<close>.
\<close>

record proxied_request =
  pq_url :: string
  pq_Host :: string
  pq_XForwardedHost :: "string option"

definition Rewrite :: "Destination option \<Rightarrow> string \<Rightarrow> string \<Rightarrow> proxied_request" where
  "Rewrite t inURL inHost =
     (case t of
        None \<Rightarrow> \<lparr>pq_url = inURL, pq_Host = [], pq_XForwardedHost = None\<rparr>
      | Some d \<Rightarrow>
          (case ds_MaskRequestHost d of
             Some m \<Rightarrow> \<lparr>pq_url = ds_Url d, pq_Host = m, pq_XForwardedHost = Some inHost\<rparr>
           | None \<Rightarrow> \<lparr>pq_url = ds_Url d, pq_Host = inHost, pq_XForwardedHost = None\<rparr>))"

definition client_ErrorHandler :: "proxy_env \<Rightarrow> Destination option \<Rightarrow> ResponseWriter \<Rightarrow> ResponseWriter" where
  "client_ErrorHandler env t w =
     (case t of
        None \<Rightarrow> http_Error ''Failed to route request to sandbox'' 500 w
      | Some d \<Rightarrow>
          if pe_host env = [] then http_Error ''Failed to route request to sandbox'' 500 w
          else if ds_DefaultToPortError d then
            answer_page env ''Failed to handle closed port error'' (NewPortClosedError (ds_SandboxId d) (pe_host env) (ds_SandboxPort d)) w
          else http_Error ''Failed to route request to sandbox'' 502 w)"

section \<open>Admission\<close>

text \<open>Different sandboxes have different counters, all allocated.\<close>

definition limiter_wf :: "('m, nat) cmap \<Rightarrow> 'm ConnectionLimiter \<Rightarrow> bool" where
  "limiter_wf M l \<longleftrightarrow> (\<forall>k c. cm_Get M (cl_connections l) k = Some c \<longrightarrow> c < cl_next l \<and> 0 \<le> cl_counters l c
     \<and> (\<forall>j. cm_Get M (cl_connections l) j = Some c \<longrightarrow> j = k))"

lemma getCounter_counts:
  assumes "cmap_laws M" and "limiter_wf M l" and "getCounter M key l = (c, l')"
  shows "limiter_wf M l'" and "limiter_Count M k l' = limiter_Count M k l" and "cm_Get M (cl_connections l') key = Some c"
    and "cl_counters l' c = limiter_Count M key l"
proof -
  note get = getCounter_facts [OF assms(1,3)]
  have old: "c' \<noteq> cl_next l" if "cm_Get M (cl_connections l) j = Some c'" for j c' using that assms(2) by (auto simp: limiter_wf_def)
  show "cm_Get M (cl_connections l') key = Some c" by (simp add: get)
  show "cl_counters l' c = limiter_Count M key l" using old by (auto simp: get limiter_Count_def split: option.splits)
  show "limiter_Count M k l' = limiter_Count M k l" using old by (auto simp: get limiter_Count_def split: option.splits)
  show "limiter_wf M l'"
  proof (cases "cm_Get M (cl_connections l) key")
    case None
    then show ?thesis using assms(2) old get(1) unfolding limiter_wf_def get(2-4) by (auto simp: less_Suc_eq split: if_splits)
  next
    case (Some c0)
    then have "cm_Get M (cl_connections l') j = cm_Get M (cl_connections l) j" for j using get(1,2) by simp
    then show ?thesis using assms(2) old unfolding limiter_wf_def get(3,4) by (simp add: less_Suc_eq)
  qed
qed

lemma TryAcquire_counts:
  assumes "cmap_laws M" and "limiter_wf M l" and "limiter_TryAcquire M key limit l = ((count, acquired), l')"
  shows "acquired \<longleftrightarrow> limit < 0 \<or> limiter_Count M key l < limit"
    and "limiter_wf M l'" and "limiter_Count M k l' = limiter_Count M k l + (if acquired \<and> k = key then 1 else 0)"
proof -
  obtain c l1 where c: "getCounter M key l = (c, l1)" by fastforce
  note facts = getCounter_counts [OF assms(1,2) c]
  have l': "acquired \<longleftrightarrow> \<not> (0 \<le> limit \<and> limit \<le> limiter_Count M key l)"
    "l' = (if acquired then l1\<lparr>cl_counters := (cl_counters l1)(c := cl_counters l1 c + 1)\<rparr> else l1)"
    using assms(3) c facts(4) by (auto simp: limiter_TryAcquire_def Let_def CompareAndSwap_def split: if_splits)
  show "acquired \<longleftrightarrow> limit < 0 \<or> limiter_Count M key l < limit" using l'(1) by auto
  show "limiter_wf M l'" using facts(1) l'(2) by (auto simp: limiter_wf_def)
  have other: "c' \<noteq> c" if "cm_Get M (cl_connections l1) k = Some c'" "k \<noteq> key" for c'
    using that facts(1,3) by (auto simp: limiter_wf_def)
  show "limiter_Count M k l' = limiter_Count M k l + (if acquired \<and> k = key then 1 else 0)"
    using l'(2) facts(2) [of k] facts(3) other
    by (cases "k = key") (auto simp: limiter_Count_def split: option.splits)
qed

lemma Release_counts:
  assumes "limiter_wf M l" and "0 < limiter_Count M key l"
  shows "limiter_Count M k (limiter_Release M key l) = limiter_Count M k l - (if k = key then 1 else 0)"
proof -
  obtain c where c: "cm_Get M (cl_connections l) key = Some c" "0 < cl_counters l c"
    using assms(2) by (auto simp: limiter_Count_def split: option.splits)
  have other: "c' \<noteq> c" if "cm_Get M (cl_connections l) k = Some c'" "k \<noteq> key" for c'
    using that assms(1) c(1) by (auto simp: limiter_wf_def)
  show ?thesis using c other
    by (cases "k = key") (auto simp: limiter_Release_def limiter_Count_def CompareAndSwap_def Let_def split: option.splits)
qed

text \<open>The answer has the status of the page for every agent, unless the page is HTML and cannot be rendered.\<close>

definition page_lost :: "proxy_env \<Rightarrow> TemplatedError \<Rightarrow> bool" where
  "page_lost env e \<longleftrightarrow> browserRegex (pe_agent env) \<and> pe_render env (te_template e) (te_vars e) (te_hidden e) = None"

lemma answer_page_status:
  assumes "rw_status w = None" and "0 < te_code e"
  shows "rw_status (answer_page env failure e w) = Some (if page_lost env e then 500 else te_code e)"
  using assms
  by (auto simp: answer_page_def HandleError_def page_lost_def http_Error_def start_response_def write_page_def Let_def split: option.splits)

text \<open>
  C34.  The proxy admits by the limit and gives back what it took.  A request with a destination is
  forwarded exactly if there is no limiter, no limit, or fewer connections than the limit.  Otherwise it
  is refused: nothing is forwarded, and if no answer was started before, the answer has the status 429,
  for browsers and other agents, whether its body could be written or not; only if the page for a browser
  cannot be rendered it has 500.  Whatever the request, and even if forwarding it panics, afterwards every
  sandbox has as many connections as before.
\<close>

theorem proxy_admission:
  assumes "cmap_laws M" and "limiter_wf M l" and "proxy_handler M env maxLimit serve destination w l = (r, w', l', events)"
  shows "limiter_Count M k l' = limiter_Count M k l
    \<and> (\<forall>d. destination = (Some d, []) \<longrightarrow>
        (if \<forall>limit. maxLimit = Some limit \<longrightarrow> limit < 0 \<or> limiter_Count M (ds_SandboxId d) l < limit
         then serve d w = (r, w') \<and> ConnectionBlocked \<notin> set events
         else r = Ok () \<and> events = [ConnectionBlocked] \<and> (rw_status w = None \<longrightarrow> rw_status w' =
           Some (if page_lost env (NewSandboxTooManyConnectionsError (ds_SandboxId d) (pe_host env) (the maxLimit)) then 500 else 429))))"
proof (cases "\<exists>d limit. destination = (Some d, []) \<and> maxLimit = Some limit")
  case True
  then obtain d limit where d: "destination = (Some d, [])" "maxLimit = Some limit" by blast
  obtain count acquired l1 where t: "limiter_TryAcquire M (ds_SandboxId d) limit l = ((count, acquired), l1)" by (metis prod.exhaust)
  note acq = TryAcquire_counts [OF assms(1,2) t]
  have nonneg: "0 \<le> limiter_Count M (ds_SandboxId d) l" using assms(2) by (auto simp: limiter_Count_def limiter_wf_def split: option.splits)
  show ?thesis
  proof (cases acquired)
    case True
    obtain r1 w1 where s: "serve d w = (r1, w1)" by fastforce
    have "0 < limiter_Count M (ds_SandboxId d) l1" using acq(3) [of "ds_SandboxId d"] nonneg True by simp
    with Release_counts [OF acq(2) this, of k] acq(1) acq(3) [of k] assms(3) d t True s show ?thesis
      by (auto simp: proxy_handler_def)
  next
    case False
    have "te_code (NewSandboxTooManyConnectionsError i h n) = 429" for i h n by (simp add: NewSandboxTooManyConnectionsError_def)
    then show ?thesis using False acq(1) acq(3) [of k] assms(3) d t by (auto simp: proxy_handler_def answer_page_status)
  qed
next
  case False
  then show ?thesis using assms(3) by (cases destination) (auto simp: proxy_handler_def split: prod.splits if_splits option.splits)
qed

section \<open>Refused requests\<close>

text \<open>The errors of \<open>GetTargetFromRequest\<close> as the handler sees them: the port error is returned by value.\<close>

fun target_route :: "target_error \<Rightarrow> string \<Rightarrow> route_error list" where
  "target_route ErrInvalidHost cause = [RouteInvalidHost]"
| "target_route (InvalidSandboxPort p) cause = [InvalidSandboxPortValue p, OtherError cause]"
| "target_route (MissingHeader h) cause = [MissingHeaderError h]"
| "target_route ErrInvalidSandboxID cause = [RouteInvalidSandboxID]"

text \<open>
  C35.  Requests that name no sandbox are refused.  When the target of a request cannot be read, the
  request is not forwarded, no connection is taken, and the answer is 400; but a port that is no number
  is answered as an internal error, 500, because the handler looks for a pointer where the error is a
  value.
\<close>

theorem bad_targets_refused:
  assumes "GetTargetFromRequest processHeaders h host = Err e" and "rw_status w = None"
    and "proxy_handler M env maxLimit serve (d, target_route e cause) w l = (r, w', l', events)"
  shows "r = Ok () \<and> l' = l \<and> events = [] \<and> length (rw_body w') = Suc (length (rw_body w))
    \<and> rw_status w' = Some (if \<exists>p. e = InvalidSandboxPort p then 500 else 400)"
  using assms(2,3) by (cases e) (auto simp: proxy_handler_def refuse_route_def http_Error_def start_response_def write_page_def)

theorem bad_targets_refused_witness:
  "\<exists>w'. proxy_handler (cmap.truncate (alist_smap :: ((string \<times> nat) list, nat) smap_ops))
       \<lparr>pe_render = (\<lambda>_ _ _. Some []), pe_written = True, pe_agent = [], pe_host = ''x-abc.dev''\<rparr> None (\<lambda>_ w. (Ok (), w))
       (None, target_route (InvalidSandboxPort ''x'') ''cause'') \<lparr>rw_type = None, rw_status = None, rw_body = []\<rparr>
       (NewConnectionLimiter (cmap.truncate alist_smap)) = (Ok (), w', NewConnectionLimiter (cmap.truncate alist_smap), [])
     \<and> rw_status w' = Some 500"
proof -
  let ?M = "cmap.truncate (alist_smap :: ((string \<times> nat) list, nat) smap_ops)"
  let ?env = "\<lparr>pe_render = (\<lambda>_ _ _. Some []), pe_written = True, pe_agent = [], pe_host = ''x-abc.dev''\<rparr>"
  let ?w = "\<lparr>rw_type = None, rw_status = None, rw_body = []\<rparr>"
  have e: "GetTargetFromRequest False (\<lambda>_. []) ''x-abc.dev'' = Err (InvalidSandboxPort ''x'')" by code_simp
  obtain r w' l' events where p: "proxy_handler ?M ?env None (\<lambda>_ w. (Ok (), w)) (None, target_route (InvalidSandboxPort ''x'') ''cause'') ?w
      (NewConnectionLimiter ?M) = (r, w', l', events)" by (metis prod.exhaust)
  from bad_targets_refused [OF e _ p] p show ?thesis by auto
qed

text \<open>Every error the handler knows has its status, whichever way it is wrapped.\<close>

lemma refuse_route_status:
  assumes "rw_status w = None" and "\<And>t v h. pe_render env t v h \<noteq> None"
  shows "rw_status (refuse_route env [OtherError x, SandboxNotFoundError i] w) = Some 502"
    and "rw_status (refuse_route env [OtherError x, SandboxResumePermissionDenied i] w) = Some 403"
    and "rw_status (refuse_route env [OtherError x, SandboxResourceExhausted i m] w) = Some 429"
    and "rw_status (refuse_route env [OtherError x, MissingTrafficAccessToken i h] w) = Some 403"
    and "rw_status (refuse_route env [OtherError x, InvalidTrafficAccessToken i h] w) = Some 403"
    and "rw_status (refuse_route env [OtherError x] w) = Some 500"
  using answer_page_status [OF assms(1)] assms
  by (simp_all add: refuse_route_def page_lost_def NewSandboxNotFoundError_def NewSandboxResumePermissionDeniedError_def NewTeamSandboxLimitError_def
      NewTrafficAccessTokenMissingHeader_def NewTrafficAccessTokenInvalidHeader_def http_Error_def start_response_def write_page_def)

theorem proxy_admission_witness:
  "\<exists>w' l'. proxy_handler (cmap.truncate (alist_smap :: ((string \<times> nat) list, nat) smap_ops))
       \<lparr>pe_render = (\<lambda>_ _ _. Some []), pe_written = False, pe_agent = ''Mozilla/5.0'', pe_host = ''h''\<rparr> (Some 0) (\<lambda>_ w. (Ok (), w))
       (Some \<lparr>ds_Url = ''u'', ds_SandboxId = ''s'', ds_SandboxPort = 80, ds_DefaultToPortError = False, ds_ConnectionKey = ''k'',
              ds_MaskRequestHost = None\<rparr>, []) \<lparr>rw_type = None, rw_status = None, rw_body = []\<rparr>
       (NewConnectionLimiter (cmap.truncate alist_smap)) = (Ok (), w', l', [ConnectionBlocked])
     \<and> rw_status w' = Some 429 \<and> limiter_Count (cmap.truncate alist_smap) ''s'' l' = 0"
proof -
  let ?M = "cmap.truncate (alist_smap :: ((string \<times> nat) list, nat) smap_ops)"
  let ?env = "\<lparr>pe_render = (\<lambda>_ _ _. Some []), pe_written = False, pe_agent = ''Mozilla/5.0'', pe_host = ''h''\<rparr>"
  let ?d = "\<lparr>ds_Url = ''u'', ds_SandboxId = ''s'', ds_SandboxPort = 80, ds_DefaultToPortError = False, ds_ConnectionKey = ''k'',
    ds_MaskRequestHost = None\<rparr>"
  let ?w = "\<lparr>rw_type = None, rw_status = None, rw_body = []\<rparr>" and ?l = "NewConnectionLimiter ?M"
  have M: "cmap_laws ?M" using alist_smap_laws [where 'a = nat] by (simp add: smap_laws_def)
  have l: "limiter_wf ?M ?l" "limiter_Count ?M ''s'' ?l = 0" using M by (simp_all add: limiter_wf_def NewConnectionLimiter_def cmap_laws_def limiter_Count_def)
  obtain r w' l' events where p: "proxy_handler ?M ?env (Some 0) (\<lambda>_ w. (Ok (), w)) (Some ?d, []) ?w ?l = (r, w', l', events)" by (metis prod.exhaust)
  from proxy_admission [OF M l(1) p, of "''s''"] l(2)
  have "r = Ok ()" "events = [ConnectionBlocked]" "rw_status w' = Some 429" "limiter_Count ?M ''s'' l' = 0" by (simp_all add: page_lost_def)
  with p show ?thesis by blast
qed

end
