(* ===== verification/Sync_Once.thy ===== *)
theory Sync_Once
  imports Interleaving
begin

text \<open>
  Values that are set once (\<open>utils/set_once.go\<close>) and what is built on them: \<open>ErrorOnce\<close>, \<open>Promise\<close>
  and \<open>Lazy\<close>.  A \<open>SetOnce\<close> is the state of its channel \<open>Done\<close> and its result; its operations are
  goroutines whose atomic steps are those between the synchronisation points of the code: the test of
  the channel, the section under the mutex, and closing the channel.
\<close>

section \<open>SetOnce\<close>

text \<open>A result is a value with an error; \<open>None\<close> is no error.\<close>

type_synonym ('v, 'e) once_result = "'v \<times> 'e option"

record ('v, 'e) SetOnce =
  so_done :: bool
  so_res :: "('v, 'e) once_result option"

definition NewSetOnce :: "('v, 'e) SetOnce" where
  "NewSetOnce = \<lparr>so_done = False, so_res = None\<rparr>"

datatype 'e once_error = ErrAlreadySet | NotSetError | CtxError | SetError 'e

text \<open>
  Where a goroutine is: in \<open>setResult\<close> before the test of the channel, before the mutex, before the
  deferred closing of the channel, and when it has returned; in \<open>Wait\<close> and \<open>WaitWithContext\<close>
  before the channel and before reading the result, and when it has returned; in \<open>Result\<close>.
\<close>

datatype ('v, 'e) once_pc =
    SetTest "('v, 'e) once_result" | SetLock "('v, 'e) once_result" | SetClose "('v, 'e) once_result" "'e once_error option"
  | SetReturned "('v, 'e) once_result" "'e once_error option"
  | WaitDone | WaitCtx | WaitRead | WaitReturned "('e once_error, 'v) outcome"
  | ResultAt | ResultReturned "('e once_error, 'v) outcome"

definition setResult_locked ::
  "('v, 'e) once_result \<Rightarrow> ('v, 'e) SetOnce \<Rightarrow> 'e once_error option \<times> ('v, 'e) SetOnce" where
  "setResult_locked r s =
     (if so_res s \<noteq> None then (Some ErrAlreadySet, s) else (None, s\<lparr>so_res := Some r\<rparr>))"

definition setDone :: "('v, 'e) SetOnce \<Rightarrow> ('v, 'e) SetOnce" where
  "setDone s = s\<lparr>so_done := True\<rparr>"

fun once_answer :: "('v, 'e) once_result \<Rightarrow> ('e once_error, 'v) outcome" where
  "once_answer (v, None) = Ok v"
| "once_answer (v, Some e) = Err (SetError e)"

definition Result :: "('v, 'e) SetOnce \<Rightarrow> ('e once_error, 'v) outcome" where
  "Result s = (case so_res s of None \<Rightarrow> Err NotSetError | Some r \<Rightarrow> once_answer r)"

inductive once_step :: "('v, 'e) SetOnce \<Rightarrow> ('v, 'e) once_pc \<Rightarrow> ('v, 'e) SetOnce \<Rightarrow> ('v, 'e) once_pc \<Rightarrow> bool" where
  set_closed: "so_done s \<Longrightarrow> once_step s (SetTest r) s (SetClose r (Some ErrAlreadySet))"
| set_open: "\<not> so_done s \<Longrightarrow> once_step s (SetTest r) s (SetLock r)"
| set_locked: "setResult_locked r s = (e, s') \<Longrightarrow> once_step s (SetLock r) s' (SetClose r e)"
| set_close: "once_step s (SetClose r e) (setDone s) (SetReturned r e)"
| wait_done: "so_done s \<Longrightarrow> once_step s WaitDone s WaitRead"
| wait_ctx_done: "so_done s \<Longrightarrow> once_step s WaitCtx s WaitRead"
| wait_cancelled: "once_step s WaitCtx s (WaitReturned (Err CtxError))"
| wait_read: "once_step s WaitRead s (WaitReturned (Result s))"
| result: "once_step s ResultAt s (ResultReturned (Result s))"

inductive_cases once_stepE: "once_step s p s' p'"

text \<open>Where each exported operation starts.\<close>

definition SetValue :: "'v \<Rightarrow> ('v, 'e) once_pc" where "SetValue value' = SetTest (value', None)"

definition SetOnce_SetError :: "'v \<Rightarrow> 'e option \<Rightarrow> ('v, 'e) once_pc" where
  "SetOnce_SetError zero err = SetTest (zero, err)"

definition SetResult :: "'v \<Rightarrow> 'v \<Rightarrow> 'e option \<Rightarrow> ('v, 'e) once_pc" where
  "SetResult zero value' err = (if err \<noteq> None then SetOnce_SetError zero err else SetValue value')"

definition Wait :: "('v, 'e) once_pc" where "Wait = WaitDone"

definition WaitWithContext :: "('v, 'e) once_pc" where "WaitWithContext = WaitCtx"

fun once_start :: "('v, 'e) once_pc \<Rightarrow> bool" where
  "once_start (SetTest r) = True"
| "once_start WaitDone = True"
| "once_start WaitCtx = True"
| "once_start ResultAt = True"
| "once_start _ = False"

section \<open>ErrorOnce, Promise and Lazy\<close>

definition NewErrorOnce :: "(unit, 'e) SetOnce" where "NewErrorOnce = NewSetOnce"

definition ErrorOnce_SetError :: "'e option \<Rightarrow> (unit, 'e) once_pc" where
  "ErrorOnce_SetError err = SetOnce_SetError () err"

definition SetSuccess :: "(unit, 'e) once_pc" where "SetSuccess = SetOnce_SetError () None"

definition ErrorOnce_Error :: "(unit, 'e) SetOnce \<Rightarrow> 'e once_error option" where
  "ErrorOnce_Error s = (case Result s of Ok _ \<Rightarrow> None | Err e \<Rightarrow> Some e | Panic \<Rightarrow> None)"

text \<open>A promise is a new \<open>SetOnce\<close> with one goroutine that sets what the function returns.\<close>

definition NewPromise :: "'v \<Rightarrow> 'v \<times> 'e option \<Rightarrow> ('v, 'e) SetOnce \<times> ('v, 'e) once_pc" where
  "NewPromise zero fn_result = (NewSetOnce, SetResult zero (fst fn_result) (snd fn_result))"

record 'v Lazy =
  lz_once :: bool
  lz_value :: 'v

text \<open>\<open>sync.Once\<close> counts a call that panics as done; the panic goes to the first caller.\<close>

definition GetOrInit :: "'v Lazy \<Rightarrow> ('e, 'v) outcome \<Rightarrow> ('e, 'v) outcome \<times> 'v Lazy" where
  "GetOrInit l f_result =
     (if lz_once l then (Ok (lz_value l), l)
      else case f_result of
             Ok v \<Rightarrow> (Ok v, \<lparr>lz_once = True, lz_value = v\<rparr>)
           | _ \<Rightarrow> (Panic, l\<lparr>lz_once := True\<rparr>))"

fun lazy_calls :: "'v Lazy \<Rightarrow> ('e, 'v) outcome list \<Rightarrow> ('e, 'v) outcome list" where
  "lazy_calls l [] = []"
| "lazy_calls l (f # fs) = (case GetOrInit l f of (r, l') \<Rightarrow> r # lazy_calls l' fs)"

lemma lazy_calls_done: "lz_once l \<Longrightarrow> lazy_calls l fs = map (\<lambda>_. Ok (lz_value l)) fs"
  by (induction fs) (simp_all add: GetOrInit_def)

text \<open>Only the first call runs its function; all others get its value.\<close>

lemma lazy_first_value: "\<not> lz_once l \<Longrightarrow> lazy_calls l (Ok v # fs) = map (\<lambda>_. Ok v) (Ok v # fs)"
  by (simp add: GetOrInit_def lazy_calls_done)

section \<open>Everybody sees the one result\<close>

fun once_won :: "('v, 'e) once_pc \<Rightarrow> int" where
  "once_won (SetClose r e) = (if e = None then 1 else 0)"
| "once_won (SetReturned r e) = (if e = None then 1 else 0)"
| "once_won _ = 0"

fun once_asrt :: "('v, 'e) SetOnce \<Rightarrow> ('v, 'e) once_pc \<Rightarrow> bool" where
  "once_asrt s (SetClose r e) \<longleftrightarrow> (if e = None then so_res s = Some r else e = Some ErrAlreadySet \<and> so_res s \<noteq> None)"
| "once_asrt s (SetReturned r e) \<longleftrightarrow>
     so_done s \<and> (if e = None then so_res s = Some r else e = Some ErrAlreadySet \<and> so_res s \<noteq> None)"
| "once_asrt s WaitRead \<longleftrightarrow> so_done s"
| "once_asrt s (WaitReturned x) \<longleftrightarrow> x = Err CtxError \<or> (so_done s \<and> x = Result s)"
| "once_asrt s (ResultReturned x) \<longleftrightarrow> x = Err NotSetError \<or> x = Result s"
| "once_asrt s _ \<longleftrightarrow> True"

definition once_inv :: "('v, 'e) SetOnce \<Rightarrow> bool" where
  "once_inv s \<longleftrightarrow> (so_done s \<longrightarrow> so_res s \<noteq> None)"

definition once_total :: "('v, 'e) SetOnce \<Rightarrow> int" where
  "once_total s = (if so_res s = None then 0 else 1)"

text \<open>What a step does to the shared state: a result that is there stays, a channel that is closed stays closed.\<close>

definition once_grows :: "('v, 'e) SetOnce \<Rightarrow> ('v, 'e) SetOnce \<Rightarrow> bool" where
  "once_grows s s' \<longleftrightarrow> (so_done s \<longrightarrow> so_done s') \<and> (so_res s \<noteq> None \<longrightarrow> so_res s' = so_res s)"

lemma once_step_grows: "once_step s p s' p' \<Longrightarrow> once_grows s s'"
  by (induction rule: once_step.induct) (auto simp: once_grows_def setResult_locked_def setDone_def split: if_splits)

lemma once_asrt_grows:
  assumes "once_asrt s q" and "once_grows s s'" and "once_inv s"
  shows "once_asrt s' q"
proof (cases "so_res s")
  case None
  then have "\<not> so_done s" "Result s = Err NotSetError" using assms(3) by (simp_all add: once_inv_def Result_def)
  then show ?thesis using assms(1) None by (cases q) (auto split: if_splits)
next
  case (Some r)
  then have "so_res s' = so_res s" "Result s' = Result s" "so_done s \<longrightarrow> so_done s'"
    using assms(2) by (simp_all add: once_grows_def Result_def)
  then show ?thesis using assms(1) by (cases q) (auto split: if_splits)
qed

interpretation once: interleaving once_step "Collect once_start" once_inv once_asrt once_won once_total
proof
  show "once_asrt s p \<and> once_won p = 0" if "p \<in> Collect once_start" for s :: "('a, 'b) SetOnce" and p
    using that by (cases p) auto
  show "0 \<le> once_won p" for p :: "('a, 'b) once_pc" by (cases p) auto
  show "once_inv s' \<and> once_asrt s' p' \<and> once_total s' + once_won p = once_total s + once_won p'"
    if "once_step s p s' p'" "once_inv s" "once_asrt s p" for s s' :: "('a, 'b) SetOnce" and p p'
    using that
    by (induction rule: once_step.induct)
      (auto simp: once_inv_def once_total_def setResult_locked_def setDone_def split: if_splits)
  show "once_asrt s' q" if "once_step s p s' p'" "once_inv s" "once_asrt s q" for s s' :: "('a, 'b) SetOnce" and p p' q
    by (rule once_asrt_grows [OF that(3) once_step_grows [OF that(1)] that(2)])
qed

text \<open>
  C26.  Everybody sees the one result.  However many goroutines set, wait for and read a value at the
  same time: at most one setter has succeeded, and exactly one if any setter has returned; every other
  one that has returned was told \<open>ErrAlreadySet\<close>; and every waiter that has returned got the result
  of the one that succeeded, or its context was cancelled, never \<open>NotSetError\<close>.
\<close>


theorem set_once_agreement:
  assumes "par_runs once_step (Collect once_start) NewSetOnce s ts"
  shows "sum_of once_won ts \<le> 1
    \<and> ((\<exists>r e. SetReturned r e \<in> set ts) \<longrightarrow> sum_of once_won ts = 1)
    \<and> (\<forall>r e. SetReturned r e \<in> set ts \<longrightarrow> e = None \<or> e = Some ErrAlreadySet)
    \<and> (\<forall>r x. SetReturned r None \<in> set ts \<longrightarrow> WaitReturned x \<in> set ts \<longrightarrow> x = Err CtxError \<or> x = once_answer r)
    \<and> (\<forall>x. WaitReturned x \<in> set ts \<longrightarrow> x \<noteq> Err NotSetError)"
proof -
  have start: "once_inv NewSetOnce" "once_total NewSetOnce = 0" by (simp_all add: once_inv_def once_total_def NewSetOnce_def)
  note i = once.runs_keep(1) [OF assms start] and a = once.runs_keep(2) [OF assms start] and w = once.runs_keep(3) [OF assms start]
  have answer: "once_answer r \<noteq> Err NotSetError" for r :: "('a, 'b) once_result" by (cases r rule: once_answer.cases) auto
  have "so_res s \<noteq> None \<and> (e = None \<or> e = Some ErrAlreadySet) \<and> (e = None \<longrightarrow> so_res s = Some r)"
    if "SetReturned r e \<in> set ts" for r e using a [OF that] by (auto split: if_splits)
  moreover have "x = Err CtxError \<or> (\<exists>r. so_res s = Some r \<and> x = once_answer r)" if "WaitReturned x \<in> set ts" for x
    using a [OF that] i by (auto simp: once_inv_def Result_def)
  ultimately show ?thesis using w answer by (fastforce simp: once_total_def)
qed

theorem set_once_agreement_witness:
  "\<exists>s ts. par_runs once_step (Collect once_start) NewSetOnce s ts
     \<and> SetReturned (7 :: int, None :: int option) None \<in> set ts \<and> sum_of once_won ts = 1"
proof -
  let ?r = "(7 :: int, None :: int option)"
  let ?s = "\<lparr>so_done = False, so_res = Some ?r\<rparr>"
  let ?step = "par_step once_step (Collect once_start)"
  have 1: "?step (NewSetOnce, []) (NewSetOnce, [] @ [SetTest ?r])" by (rule par_step.spawn) simp
  have 2: "?step (NewSetOnce, [SetTest ?r]) (NewSetOnce, [SetTest ?r][0 := SetLock ?r])"
    by (rule par_step.run) (auto simp: NewSetOnce_def intro: once_step.set_open)
  have 3: "?step (NewSetOnce, [SetLock ?r]) (?s, [SetLock ?r][0 := SetClose ?r None])"
    by (rule par_step.run) (auto simp: NewSetOnce_def setResult_locked_def intro!: once_step.set_locked)
  have 4: "?step (?s, [SetClose ?r None]) (setDone ?s, [SetClose ?r None][0 := SetReturned ?r None])"
    by (rule par_step.run) (auto intro: once_step.set_close)
  have "?step\<^sup>*\<^sup>* (NewSetOnce, []) (setDone ?s, [SetReturned ?r None])"
    using 1 2 3 4 by (simp add: converse_rtranclp_into_rtranclp)
  then have "par_runs once_step (Collect once_start) NewSetOnce (setDone ?s) [SetReturned ?r None]" by (simp add: par_runs_def)
  with set_once_agreement [OF this] show ?thesis by fastforce
qed

end
