(* ===== verification/Value_Cache.thy ===== *)
theory Value_Cache
  imports Interleaving
begin

text \<open>
  The cache in front of a data source that keeps values in memory (\<open>packages/shared/pkg/cache/memory.go\<close>).
  The cache library is a parameter with the laws below.  The single-flight library is used as
  documented: \<open>Do\<close> runs the function or returns the result of a run for the same key.  The callback that
  reads the source is whatever the caller passes: it may return any value or error each time.
\<close>

section \<open>Stores with expiry\<close>

text \<open>
  A store of entries that live for a time: reading, storing for a duration, deleting, and the passing
  of time, which may lose entries and changes nothing else.
\<close>

record ('c, 'v) kv_ops =
  kv_New :: 'c
  kv_Get :: "'c \<Rightarrow> string \<Rightarrow> 'v option"
  kv_Set :: "'c \<Rightarrow> string \<Rightarrow> 'v \<Rightarrow> int \<Rightarrow> 'c"
  kv_Delete :: "'c \<Rightarrow> string \<Rightarrow> 'c"
  kv_pass :: "int \<Rightarrow> 'c \<Rightarrow> 'c"

definition kv_laws :: "('c, 'v) kv_ops \<Rightarrow> bool" where
  "kv_laws K \<longleftrightarrow>
     (\<forall>k. kv_Get K (kv_New K) k = None)
     \<and> (\<forall>c k v ttl j. j \<noteq> k \<longrightarrow> kv_Get K (kv_Set K c k v ttl) j = kv_Get K c j)
     \<and> (\<forall>c k v ttl. kv_Get K (kv_Set K c k v ttl) k \<in> {None, Some v})
     \<and> (\<forall>c k v ttl. 0 < ttl \<longrightarrow> kv_Get K (kv_Set K c k v ttl) k = Some v)
     \<and> (\<forall>c k j. kv_Get K (kv_Delete K c k) j = (if j = k then None else kv_Get K c j))
     \<and> (\<forall>t c k. kv_Get K (kv_pass K t c) k \<in> {None, kv_Get K c k})"

lemma kv_rules:
  assumes "kv_laws K"
  shows kv_New_empty: "kv_Get K (kv_New K) k = None"
    and kv_Set_other: "j \<noteq> k \<Longrightarrow> kv_Get K (kv_Set K c k v ttl) j = kv_Get K c j"
    and kv_Set_live: "0 < ttl \<Longrightarrow> kv_Get K (kv_Set K c k v ttl) k = Some v"
    and kv_Delete_get: "kv_Get K (kv_Delete K c k) j = (if j = k then None else kv_Get K c j)"
  using assms by (simp_all add: kv_laws_def)

lemma kv_SetD:
  assumes "kv_laws K" and "kv_Get K (kv_Set K c k v ttl) j = Some u"
  shows "j = k \<and> u = v \<or> j \<noteq> k \<and> kv_Get K c j = Some u"
proof (cases "j = k")
  case True
  have "kv_Get K (kv_Set K c k v ttl) k \<in> {None, Some v}" using assms(1) unfolding kv_laws_def by blast
  with True assms(2) show ?thesis by auto
next
  case False
  then show ?thesis using kv_Set_other [OF assms(1) False, of c v ttl] assms(2) by simp
qed

lemma kv_passD:
  assumes "kv_laws K" and "kv_Get K (kv_pass K t c) j = Some u"
  shows "kv_Get K c j = Some u"
proof -
  have "kv_Get K (kv_pass K t c) j \<in> {None, kv_Get K c j}" using assms(1) unfolding kv_laws_def by blast
  with assms(2) show ?thesis by auto
qed

lemma kv_DeleteD:
  assumes "kv_laws K" and "kv_Get K (kv_Delete K c k) j = Some u"
  shows "kv_Get K c j = Some u" and "j \<noteq> k"
  using assms kv_Delete_get [OF assms(1), of c k j] by (auto split: if_splits)

lemma unweighted:
  assumes "\<And>s p. p \<in> starts \<Longrightarrow> asrt s p"
    and "\<And>s p s' p'. step s p s' p' \<Longrightarrow> I s \<Longrightarrow> asrt s p \<Longrightarrow> I s' \<and> asrt s' p'"
    and "\<And>s p s' p' q. step s p s' p' \<Longrightarrow> asrt s q \<Longrightarrow> asrt s' q"
  shows "interleaving step starts I asrt (\<lambda>_. 0) (\<lambda>_. 0)"
  by unfold_locales (use assms in blast)+

section \<open>The memory cache\<close>

record 'v CacheConfig =
  cf_TTL :: int
  cf_RefreshInterval :: int
  cf_CallbackTimeout :: int
  cf_RefreshTimeout :: int
  cf_ExtractKeyFunc :: "('v \<Rightarrow> string) option"

record 'v Item =
  it_value :: 'v
  it_lastRefresh :: int

text \<open>
  The state: the cache, the background refreshes that \<open>GetOrSet\<close> has started and that have not begun, and
  for the proofs what the callback has returned for which key, what was set, and the results of
  finished flights.
\<close>

record ('c, 'v, 'e) MemoryCache =
  mc_cache :: 'c
  mc_pending :: "string list"
  mc_fetched :: "(string \<times> 'v) set"
  mc_set :: "(string \<times> 'v) set"
  mc_results :: "(string \<times> ('e, 'v) outcome) set"

definition second :: int where
  "second = 1000000000"

definition config_defaults :: "'v CacheConfig \<Rightarrow> 'v CacheConfig" where
  "config_defaults cfg =
     cfg\<lparr>cf_RefreshTimeout := (if cf_RefreshTimeout cfg = 0 then 30 * second else cf_RefreshTimeout cfg),
         cf_CallbackTimeout := (if cf_CallbackTimeout cfg = 0 then 30 * second else cf_CallbackTimeout cfg)\<rparr>"

definition NewMemoryCache :: "('c, 'v Item) kv_ops \<Rightarrow> ('c, 'v, 'e) MemoryCache" where
  "NewMemoryCache K = \<lparr>mc_cache = kv_New K, mc_pending = [], mc_fetched = {}, mc_set = {}, mc_results = {}\<rparr>"

definition GetWithoutTouch :: "('c, 'v Item) kv_ops \<Rightarrow> string \<Rightarrow> ('c, 'v, 'e) MemoryCache \<Rightarrow> 'v option" where
  "GetWithoutTouch K key s = map_option it_value (kv_Get K (mc_cache s) key)"

definition mem_put :: "('c, 'v Item) kv_ops \<Rightarrow> 'v CacheConfig \<Rightarrow> int \<Rightarrow> string \<Rightarrow> 'v \<Rightarrow> ('c, 'v, 'e) MemoryCache \<Rightarrow> ('c, 'v, 'e) MemoryCache" where
  "mem_put K cfg now key v s = s\<lparr>mc_cache := kv_Set K (mc_cache s) key \<lparr>it_value = v, it_lastRefresh = now\<rparr> (cf_TTL cfg)\<rparr>"

definition mem_Set :: "('c, 'v Item) kv_ops \<Rightarrow> 'v CacheConfig \<Rightarrow> int \<Rightarrow> string \<Rightarrow> 'v \<Rightarrow> ('c, 'v, 'e) MemoryCache \<Rightarrow> ('c, 'v, 'e) MemoryCache" where
  "mem_Set K cfg now key v s = (mem_put K cfg now key v s)\<lparr>mc_set := insert (key, v) (mc_set s)\<rparr>"

definition mem_Delete :: "('c, 'v Item) kv_ops \<Rightarrow> string \<Rightarrow> ('c, 'v, 'e) MemoryCache \<Rightarrow> ('c, 'v, 'e) MemoryCache" where
  "mem_Delete K key s = s\<lparr>mc_cache := kv_Delete K (mc_cache s) key\<rparr>"

definition storeKey :: "('v \<Rightarrow> string) option \<Rightarrow> string \<Rightarrow> 'v \<Rightarrow> string" where
  "storeKey extract key v = (case extract of None \<Rightarrow> key | Some f \<Rightarrow> f v)"

definition stale :: "'v CacheConfig \<Rightarrow> int \<Rightarrow> 'v Item \<Rightarrow> bool" where
  "stale cfg now item \<longleftrightarrow> 0 < cf_RefreshInterval cfg \<and> cf_RefreshInterval cfg < now - it_lastRefresh item"

text \<open>What the callback returned is put under its own key; a refresh that fails removes the entry.\<close>

definition note_fetched :: "string \<Rightarrow> 'v \<Rightarrow> ('c, 'v, 'e) MemoryCache \<Rightarrow> ('c, 'v, 'e) MemoryCache" where
  "note_fetched key v s = s\<lparr>mc_fetched := insert (key, v) (mc_fetched s)\<rparr>"

definition mem_store :: "('c, 'v Item) kv_ops \<Rightarrow> 'v CacheConfig \<Rightarrow> int \<Rightarrow> string \<Rightarrow> 'v \<Rightarrow> ('c, 'v, 'e) MemoryCache \<Rightarrow> ('c, 'v, 'e) MemoryCache" where
  "mem_store K cfg now key v s = mem_put K cfg now (storeKey (cf_ExtractKeyFunc cfg) key v) v s"

text \<open>
  Goroutines.  \<open>GetOrSet\<close> reads the cache; on a miss it enters a flight, reads the cache again, calls the
  callback and stores, or takes the result of another flight.  A stale entry is returned and a
  refresh is started.
\<close>

datatype ('v, 'e) mem_pc =
    MGet string | MDo string | MCheck string | MFetch string | MStore string 'v
  | MFlightEnd string "('e, 'v) outcome" | MReturn string "('e, 'v) outcome"
  | MBackground | MRefresh string | MRefreshed string 'v | MSet string 'v | MDelete string | MTime int | MDone

inductive mem_step ::
  "('c, 'v Item) kv_ops \<Rightarrow> 'v CacheConfig \<Rightarrow> ('c, 'v, 'e) MemoryCache \<Rightarrow> ('v, 'e) mem_pc \<Rightarrow> ('c, 'v, 'e) MemoryCache \<Rightarrow> ('v, 'e) mem_pc \<Rightarrow> bool"
  for K cfg where
  hit: "kv_Get K (mc_cache s) key = Some item \<Longrightarrow> \<not> stale cfg now item \<Longrightarrow> mem_step K cfg s (MGet key) s (MReturn key (Ok (it_value item)))"
| hit_stale: "kv_Get K (mc_cache s) key = Some item \<Longrightarrow> stale cfg now item \<Longrightarrow>
    mem_step K cfg s (MGet key) (s\<lparr>mc_pending := key # mc_pending s\<rparr>) (MReturn key (Ok (it_value item)))"
| miss: "kv_Get K (mc_cache s) key = None \<Longrightarrow> mem_step K cfg s (MGet key) s (MDo key)"
| lead: "mem_step K cfg s (MDo key) s (MCheck key)"
| share: "(key, r) \<in> mc_results s \<Longrightarrow> mem_step K cfg s (MDo key) s (MReturn key r)"
| check_hit: "kv_Get K (mc_cache s) key = Some item \<Longrightarrow> mem_step K cfg s (MCheck key) s (MFlightEnd key (Ok (it_value item)))"
| check_miss: "kv_Get K (mc_cache s) key = None \<Longrightarrow> mem_step K cfg s (MCheck key) s (MFetch key)"
| fetch_failed: "mem_step K cfg s (MFetch key) s (MFlightEnd key (Err e))"
| fetched: "mem_step K cfg s (MFetch key) (note_fetched key v s) (MStore key v)"
| stored: "mem_step K cfg s (MStore key v) (mem_store K cfg now key v s) (MFlightEnd key (Ok v))"
| flight_end: "mem_step K cfg s (MFlightEnd key r) (s\<lparr>mc_results := insert (key, r) (mc_results s)\<rparr>) (MReturn key r)"
| background: "key \<in> set (mc_pending s) \<Longrightarrow> mem_step K cfg s MBackground (s\<lparr>mc_pending := remove1 key (mc_pending s)\<rparr>) (MRefresh key)"
| refresh_shared: "mem_step K cfg s (MRefresh key) s MDone"
| refresh_failed: "mem_step K cfg s (MRefresh key) (mem_Delete K key s) MDone"
| refresh_fetched: "mem_step K cfg s (MRefresh key) (note_fetched key v s) (MRefreshed key v)"
| refreshed: "mem_step K cfg s (MRefreshed key v) (mem_store K cfg now key v s) MDone"
| set_value: "mem_step K cfg s (MSet key v) (mem_Set K cfg now key v s) MDone"
| delete: "mem_step K cfg s (MDelete key) (mem_Delete K key s) MDone"
| time: "mem_step K cfg s (MTime t) (s\<lparr>mc_cache := kv_pass K t (mc_cache s)\<rparr>) MDone"

fun mem_start :: "('v, 'e) mem_pc \<Rightarrow> bool" where
  "mem_start (MGet key) \<longleftrightarrow> True"
| "mem_start MBackground \<longleftrightarrow> True"
| "mem_start (MSet key v) \<longleftrightarrow> True"
| "mem_start (MDelete key) \<longleftrightarrow> True"
| "mem_start (MTime t) \<longleftrightarrow> True"
| "mem_start _ \<longleftrightarrow> False"

text \<open>Where a value under a key can come from.\<close>

definition value_of :: "('v \<Rightarrow> string) option \<Rightarrow> (string \<times> 'v) set \<Rightarrow> (string \<times> 'v) set \<Rightarrow> string \<Rightarrow> 'v \<Rightarrow> bool" where
  "value_of extract fetched sets key v \<longleftrightarrow>
     (key, v) \<in> fetched \<or> (key, v) \<in> sets \<or> (\<exists>j. (j, v) \<in> fetched \<and> storeKey extract j v = key)"

lemma value_of_mono:
  "value_of extract fetched sets key v \<Longrightarrow> fetched \<subseteq> fetched' \<Longrightarrow> sets \<subseteq> sets' \<Longrightarrow> value_of extract fetched' sets' key v"
  by (auto simp: value_of_def)

lemma value_of_intros:
  "(key, v) \<in> fetched \<Longrightarrow> value_of extract fetched sets key v"
  "(key, v) \<in> fetched \<Longrightarrow> value_of extract fetched sets (storeKey extract key v) v"
  "(key, v) \<in> sets \<Longrightarrow> value_of extract fetched sets key v"
  by (auto simp: value_of_def)

abbreviation mem_value :: "'v CacheConfig \<Rightarrow> ('c, 'v, 'e) MemoryCache \<Rightarrow> string \<Rightarrow> 'v \<Rightarrow> bool" where
  "mem_value cfg s \<equiv> value_of (cf_ExtractKeyFunc cfg) (mc_fetched s) (mc_set s)"

definition mem_inv :: "('c, 'v Item) kv_ops \<Rightarrow> 'v CacheConfig \<Rightarrow> ('c, 'v, 'e) MemoryCache \<Rightarrow> bool" where
  "mem_inv K cfg s \<longleftrightarrow>
     (\<forall>key item. kv_Get K (mc_cache s) key = Some item \<longrightarrow> mem_value cfg s key (it_value item))
     \<and> (\<forall>key v. (key, Ok v) \<in> mc_results s \<longrightarrow> mem_value cfg s key v)"

fun mem_asrt :: "'v CacheConfig \<Rightarrow> ('c, 'v, 'e) MemoryCache \<Rightarrow> ('v, 'e) mem_pc \<Rightarrow> bool" where
  "mem_asrt cfg s (MStore key v) \<longleftrightarrow> (key, v) \<in> mc_fetched s"
| "mem_asrt cfg s (MRefreshed key v) \<longleftrightarrow> (key, v) \<in> mc_fetched s"
| "mem_asrt cfg s (MFlightEnd key r) \<longleftrightarrow> (\<forall>v. r = Ok v \<longrightarrow> mem_value cfg s key v)"
| "mem_asrt cfg s (MReturn key r) \<longleftrightarrow> (\<forall>v. r = Ok v \<longrightarrow> mem_value cfg s key v)"
| "mem_asrt cfg s _ \<longleftrightarrow> True"

lemmas mem_defs = mem_put_def mem_Set_def mem_Delete_def mem_store_def note_fetched_def

lemma mem_step_grows:
  "mem_step K cfg s p s' p' \<Longrightarrow> mc_fetched s \<subseteq> mc_fetched s' \<and> mc_set s \<subseteq> mc_set s'"
  by (induction rule: mem_step.induct) (auto simp: mem_defs)

lemma mem_asrt_grows:
  "mem_asrt cfg s q \<Longrightarrow> mc_fetched s \<subseteq> mc_fetched s' \<Longrightarrow> mc_set s \<subseteq> mc_set s' \<Longrightarrow> mem_asrt cfg s' q"
  by (cases q) (auto intro: value_of_mono)

lemma mem_inv_put:
  assumes "kv_laws K" and "mem_inv K cfg s" and "mem_value cfg s' key v" and "mc_fetched s \<subseteq> mc_fetched s'" and "mc_set s \<subseteq> mc_set s'"
    and "mc_cache s' = mc_cache (mem_put K cfg now key v s)" and "mc_results s' = mc_results s"
  shows "mem_inv K cfg s'"
proof -
  have "mem_value cfg s' j (it_value item)" if "kv_Get K (mc_cache s') j = Some item" for j item
    using kv_SetD [OF assms(1)] that assms(2-6) by (fastforce simp: mem_put_def mem_inv_def intro: value_of_mono)
  moreover have "mem_value cfg s' j u" if "(j, Ok u) \<in> mc_results s'" for j u
    using that assms(2,7) value_of_mono [OF _ assms(4,5)] by (simp add: mem_inv_def)
  ultimately show ?thesis by (simp add: mem_inv_def)
qed

lemma mem_inv_mono:
  assumes "mem_inv K cfg s" and "mc_fetched s \<subseteq> mc_fetched s'" and "mc_set s = mc_set s'"
    and "\<And>key item. kv_Get K (mc_cache s') key = Some item \<Longrightarrow> kv_Get K (mc_cache s) key = Some item" and "mc_results s' = mc_results s"
  shows "mem_inv K cfg s'"
proof -
  have "mem_value cfg s key v \<Longrightarrow> mem_value cfg s' key v" for key v using assms(2,3) by (auto intro: value_of_mono)
  then show ?thesis using assms(1,4,5) by (simp add: mem_inv_def)
qed

lemma mem_inv_lose:
  assumes "mem_inv K cfg s" and "\<And>key item. kv_Get K c key = Some item \<Longrightarrow> kv_Get K (mc_cache s) key = Some item"
  shows "mem_inv K cfg (s\<lparr>mc_cache := c\<rparr>)"
  using assms by (simp add: mem_inv_def)

lemma mem_step_ok:
  assumes "mem_step K cfg s p s' p'" and "kv_laws K" and "mem_inv K cfg s" and "mem_asrt cfg s p"
  shows "mem_inv K cfg s' \<and> mem_asrt cfg s' p'"
  using assms
proof (induction rule: mem_step.induct)
  case (fetched s key v)
  then show ?case by (auto simp: note_fetched_def intro: mem_inv_mono [OF fetched(2)])
next
  case (stored s key v now)
  then show ?case
    using mem_inv_put [OF stored(1,2), of "mem_store K cfg now key v s" "storeKey (cf_ExtractKeyFunc cfg) key v" v now]
    by (simp add: mem_store_def) (simp add: mem_put_def value_of_intros)
next
  case (refreshed s key v now)
  then show ?case
    using mem_inv_put [OF refreshed(1,2), of "mem_store K cfg now key v s" "storeKey (cf_ExtractKeyFunc cfg) key v" v now]
    by (simp add: mem_store_def) (simp add: mem_put_def value_of_intros)
next
  case (refresh_fetched s key v)
  then show ?case by (auto simp: note_fetched_def intro: mem_inv_mono [OF refresh_fetched(2)])
next
  case (set_value s key v now)
  then show ?case
    using mem_inv_put [OF set_value(1,2), of "mem_Set K cfg now key v s" key v now]
    by (auto simp: mem_Set_def mem_put_def value_of_intros)
next
  case (refresh_failed s key)
  then show ?case using mem_inv_lose [OF refresh_failed(2) kv_DeleteD(1) [OF refresh_failed(1)]] by (simp add: mem_Delete_def)
next
  case (delete s key)
  then show ?case using mem_inv_lose [OF delete(2) kv_DeleteD(1) [OF delete(1)]] by (simp add: mem_Delete_def)
next
  case (time s t)
  then show ?case using mem_inv_lose [OF time(2) kv_passD [OF time(1)]] by simp
next
  case (flight_end s key r)
  then show ?case by (auto simp: mem_inv_def)
qed (auto simp: mem_inv_def)

text \<open>
  The memory cache answers with values of the source.  However many goroutines read through the
  cache, set, delete and refresh at the same time, and whatever the callbacks return: every value that
  \<open>GetOrSet\<close> returns for a key was returned by the callback for that key, stored under it by \<open>Set\<close>, or
  returned by the callback for another key and belongs under this one by its own key.
\<close>

lemma memory_cache_values:
  assumes "kv_laws K" and "par_runs (mem_step K cfg) (Collect mem_start) (NewMemoryCache K) s ts"
    and "MReturn key (Ok v) \<in> set ts"
  shows "(key, v) \<in> mc_fetched s \<or> (key, v) \<in> mc_set s \<or> (\<exists>j. (j, v) \<in> mc_fetched s \<and> storeKey (cf_ExtractKeyFunc cfg) j v = key)"
proof -
  have "interleaving (mem_step K cfg) (Collect mem_start) (mem_inv K cfg) (mem_asrt cfg) (\<lambda>_. 0) (\<lambda>_. 0)"
  proof (rule unweighted)
    show "mem_asrt cfg s p" if "p \<in> Collect mem_start" for s p using that by (cases p) auto
    show "mem_inv K cfg s' \<and> mem_asrt cfg s' p'" if "mem_step K cfg s p s' p'" "mem_inv K cfg s" "mem_asrt cfg s p" for s p s' p'
      by (rule mem_step_ok [OF that(1) assms(1) that(2,3)])
    show "mem_asrt cfg s' q" if "mem_step K cfg s p s' p'" "mem_asrt cfg s q" for s p s' p' q
      using mem_asrt_grows [OF that(2)] mem_step_grows [OF that(1)] by blast
  qed
  moreover have "mem_inv K cfg (NewMemoryCache K)" using assms(1) by (simp add: mem_inv_def NewMemoryCache_def kv_New_empty)
  ultimately have "mem_asrt cfg s (MReturn key (Ok v))" by (rule interleaving.runs_keep(2) [OF _ assms(2) _ _ assms(3)]) simp
  then show ?thesis by (simp add: value_of_def)
qed

text \<open>A store as the libraries document it, with the time each entry has left.\<close>

definition timed_kv :: "(string \<Rightarrow> ('v \<times> int) option, 'v) kv_ops" where
  "timed_kv =
     \<lparr>kv_New = (\<lambda>_. None), kv_Get = (\<lambda>c k. map_option fst (c k)), kv_Set = (\<lambda>c k v ttl. c(k := Some (v, ttl))),
      kv_Delete = (\<lambda>c k. c(k := None)),
      kv_pass = (\<lambda>t c k. case c k of Some (v, d) \<Rightarrow> if t < d then Some (v, d - t) else None | None \<Rightarrow> None)\<rparr>"

lemma timed_kv_laws: "kv_laws timed_kv"
  by (auto simp: kv_laws_def timed_kv_def split: option.splits)

end
