(* ===== verification/Redis_Cache.thy ===== *)
theory Redis_Cache
  imports Value_Cache
begin

text \<open>
  The cache in front of a data source that keeps values in Redis (\<open>packages/shared/pkg/cache/redis.go\<close>), with
  the locks of \<open>redis/lock.go\<close>.  The Redis service, the lock client and the encoding of values are
  parameters with the laws below; single-flight and the callback are used as in \<open>Value_Cache\<close>.
\<close>

section \<open>Configuration, locks and encoding\<close>

record 'v RedisConfig =
  rc_TTL :: int
  rc_RefreshInterval :: int
  rc_RefreshTimeout :: int
  rc_RedisTimeout :: int
  rc_RedisPrefix :: string
  rc_ExtractKeyFunc :: "('v \<Rightarrow> string) option"
  rc_LockTTL :: int
  rc_LockRetryInterval :: int

definition RedisLockOff :: int where
  "RedisLockOff = -1"

definition redisNoPTTL :: int where
  "redisNoPTTL = -1"

definition RedisDefaultTimeout :: int where
  "RedisDefaultTimeout = 2 * second"

definition defaultLockRetryInterval :: int where
  "defaultLockRetryInterval = 50 * 1000000"

text \<open>\<open>NewRedisCache\<close>: the defaults, and a lock that lasts as long as the calls made under it may take.\<close>

definition NewRedisCache :: "'v RedisConfig \<Rightarrow> 'v RedisConfig" where
  "NewRedisCache config =
     (let redisTimeout = (if rc_RedisTimeout config = 0 then RedisDefaultTimeout else rc_RedisTimeout config);
          refreshTimeout = (if rc_RefreshTimeout config = 0 then 30 * second else rc_RefreshTimeout config);
          config' = config\<lparr>rc_RedisTimeout := redisTimeout, rc_RefreshTimeout := refreshTimeout\<rparr>
      in if rc_LockTTL config = RedisLockOff then config'
         else config'\<lparr>rc_LockRetryInterval := (if rc_LockRetryInterval config = 0 then defaultLockRetryInterval else rc_LockRetryInterval config),
                      rc_LockTTL := refreshTimeout + 2 * redisTimeout\<rparr>)"

text \<open>
  The lock client: obtaining a lock, unless it is held, and releasing it.  When a lock expires is part
  of the state below.
\<close>

record 'l lock_ops =
  lk_New :: 'l
  lk_held :: "'l \<Rightarrow> string \<Rightarrow> bool"
  lk_Obtain :: "'l \<Rightarrow> string \<Rightarrow> int \<Rightarrow> 'l option"
  lk_Release :: "'l \<Rightarrow> string \<Rightarrow> 'l"

definition lock_laws :: "'l lock_ops \<Rightarrow> bool" where
  "lock_laws L \<longleftrightarrow>
     (\<forall>k. \<not> lk_held L (lk_New L) k)
     \<and> (\<forall>l k ttl l'. lk_Obtain L l k ttl = Some l' \<longrightarrow> \<not> lk_held L l k \<and> (\<forall>j. lk_held L l' j \<longleftrightarrow> j = k \<or> lk_held L l j))
     \<and> (\<forall>l k j. lk_held L (lk_Release L l k) j \<longleftrightarrow> j \<noteq> k \<and> lk_held L l j)"

text \<open>Encoding of values as JSON, which decoding inverts for the type of values that is cached.\<close>

record 'v json_ops =
  js_Marshal :: "'v \<Rightarrow> string option"
  js_Unmarshal :: "string \<Rightarrow> 'v option"

definition json_laws :: "'v json_ops \<Rightarrow> bool" where
  "json_laws J \<longleftrightarrow> (\<forall>v d. js_Marshal J v = Some d \<longrightarrow> js_Unmarshal J d = Some v)"

definition RedisKey :: "'v RedisConfig \<Rightarrow> string \<Rightarrow> string" where
  "RedisKey cfg key = rc_RedisPrefix cfg @ '':'' @ key"

definition GetLockKey :: "string \<Rightarrow> string" where
  "GetLockKey key = ''lock:'' @ key"

lemma RedisKey_inject [simp]: "RedisKey cfg k = RedisKey cfg j \<longleftrightarrow> k = j"
  by (simp add: RedisKey_def)

lemma GetLockKey_inject [simp]: "GetLockKey k = GetLockKey j \<longleftrightarrow> k = j"
  by (simp add: GetLockKey_def)

text \<open>
  The state: the service, the locks, the locks whose release failed, the time and when each lock expires,
  the writes whose client gave up on them while they may still take effect, the refreshes that were
  started and have not begun; and for the proofs the keys whose lock expired while it was held or
  for which a write took effect after its client had given up on it, what the callback returned, what was set, the results of
  finished flights, how often each key was deleted under its lock, and for the entry of each key how
  many of these deletions there had been when the callback that gave its value was called (nothing for a value of \<open>Set\<close>).
\<close>

record ('c, 'l, 'v, 'e) RedisCache =
  rs_redis :: 'c
  rs_locks :: 'l
  rs_lost :: "string set"
  rs_now :: int
  rs_until :: "string \<Rightarrow> int"
  rs_given_up :: "(string \<times> nat option \<times> 'v) set"
  rs_broken :: "string set"
  rs_pending :: "string list"
  rs_fetched :: "(string \<times> 'v) set"
  rs_set :: "(string \<times> 'v) set"
  rs_results :: "(string \<times> ('e, 'v) outcome) set"
  rs_deletes :: "string \<Rightarrow> nat"
  rs_stamp :: "string \<Rightarrow> nat option"

definition empty_redis :: "('c, string) kv_ops \<Rightarrow> 'l lock_ops \<Rightarrow> ('c, 'l, 'v, 'e) RedisCache" where
  "empty_redis R L = \<lparr>rs_redis = kv_New R, rs_locks = lk_New L, rs_lost = {}, rs_now = 0, rs_until = (\<lambda>_. 0), rs_given_up = {}, rs_broken = {}, rs_pending = [], rs_fetched = {}, rs_set = {}, rs_results = {},
     rs_deletes = (\<lambda>_. 0), rs_stamp = (\<lambda>_. None)\<rparr>"

text \<open>Every failure of \<open>getFromRedis\<close> counts as a miss.\<close>

definition getFromRedis :: "('c, string) kv_ops \<Rightarrow> 'v json_ops \<Rightarrow> 'v RedisConfig \<Rightarrow> string \<Rightarrow> ('c, 'l, 'v, 'e) RedisCache \<Rightarrow> 'v option" where
  "getFromRedis R J cfg key s = Option.bind (kv_Get R (rs_redis s) (RedisKey cfg key)) (js_Unmarshal J)"

definition setInRedis ::
  "('c, string) kv_ops \<Rightarrow> 'v json_ops \<Rightarrow> 'v RedisConfig \<Rightarrow> nat option \<Rightarrow> string \<Rightarrow> 'v \<Rightarrow> ('c, 'l, 'v, 'e) RedisCache \<Rightarrow> ('c, 'l, 'v, 'e) RedisCache" where
  "setInRedis R J cfg stamp key v s =
     (case js_Marshal J v of
        None \<Rightarrow> s
      | Some d \<Rightarrow> s\<lparr>rs_redis := kv_Set R (rs_redis s) (RedisKey cfg key) d (rc_TTL cfg), rs_stamp := (rs_stamp s)(key := stamp)\<rparr>)"

definition acquireLock :: "'l lock_ops \<Rightarrow> 'v RedisConfig \<Rightarrow> string \<Rightarrow> ('c, 'l, 'v, 'e) RedisCache \<Rightarrow> ('c, 'l, 'v, 'e) RedisCache option" where
  "acquireLock L cfg key s =
     (if rc_LockTTL cfg = RedisLockOff then Some s
      else case lk_Obtain L (rs_locks s) (GetLockKey (RedisKey cfg key)) (rc_LockTTL cfg) of
             None \<Rightarrow> None
           | Some l \<Rightarrow> Some (s\<lparr>rs_locks := l, rs_until := (rs_until s)(key := rs_now s + rc_LockTTL cfg)\<rparr>))"

definition releaseLock :: "'l lock_ops \<Rightarrow> 'v RedisConfig \<Rightarrow> string \<Rightarrow> ('c, 'l, 'v, 'e) RedisCache \<Rightarrow> ('c, 'l, 'v, 'e) RedisCache" where
  "releaseLock L cfg key s =
     (if rc_LockTTL cfg = RedisLockOff then s else s\<lparr>rs_locks := lk_Release L (rs_locks s) (GetLockKey (RedisKey cfg key))\<rparr>)"

text \<open>A release that fails leaves the lock to expire, or to a release that takes effect later.\<close>

definition loseLock :: "'v RedisConfig \<Rightarrow> string \<Rightarrow> ('c, 'l, 'v, 'e) RedisCache \<Rightarrow> ('c, 'l, 'v, 'e) RedisCache" where
  "loseLock cfg key s = (if rc_LockTTL cfg = RedisLockOff then s else s\<lparr>rs_lost := insert key (rs_lost s)\<rparr>)"

definition expireLock :: "'l lock_ops \<Rightarrow> 'v RedisConfig \<Rightarrow> string \<Rightarrow> ('c, 'l, 'v, 'e) RedisCache \<Rightarrow> ('c, 'l, 'v, 'e) RedisCache" where
  "expireLock L cfg key s = (releaseLock L cfg key s)\<lparr>rs_lost := rs_lost s - {key}\<rparr>"

text \<open>A lock that expires while a goroutine still counts on it.\<close>

definition overrunLock :: "'l lock_ops \<Rightarrow> 'v RedisConfig \<Rightarrow> string \<Rightarrow> ('c, 'l, 'v, 'e) RedisCache \<Rightarrow> ('c, 'l, 'v, 'e) RedisCache" where
  "overrunLock L cfg key s = (releaseLock L cfg key s)\<lparr>rs_broken := insert key (rs_broken s)\<rparr>"

text \<open>A write that fails for its client, and its later effect, if it has one.\<close>

definition give_up :: "nat option \<Rightarrow> string \<Rightarrow> 'v \<Rightarrow> ('c, 'l, 'v, 'e) RedisCache \<Rightarrow> ('c, 'l, 'v, 'e) RedisCache" where
  "give_up stamp key v s = s\<lparr>rs_given_up := insert (key, stamp, v) (rs_given_up s)\<rparr>"

definition late_write ::
  "('c, string) kv_ops \<Rightarrow> 'v json_ops \<Rightarrow> 'v RedisConfig \<Rightarrow> nat option \<Rightarrow> string \<Rightarrow> 'v \<Rightarrow> ('c, 'l, 'v, 'e) RedisCache \<Rightarrow> ('c, 'l, 'v, 'e) RedisCache" where
  "late_write R J cfg stamp key v s = (setInRedis R J cfg stamp key v s)\<lparr>rs_broken := insert key (rs_broken s)\<rparr>"

definition del_entry :: "('c, string) kv_ops \<Rightarrow> 'v RedisConfig \<Rightarrow> bool \<Rightarrow> string \<Rightarrow> ('c, 'l, 'v, 'e) RedisCache \<Rightarrow> ('c, 'l, 'v, 'e) RedisCache" where
  "del_entry R cfg locked key s =
     s\<lparr>rs_redis := kv_Delete R (rs_redis s) (RedisKey cfg key),
       rs_deletes := (if locked then (rs_deletes s)(key := Suc (rs_deletes s key)) else rs_deletes s)\<rparr>"

definition handleRefresh :: "'v RedisConfig \<Rightarrow> string \<Rightarrow> int \<Rightarrow> ('c, 'l, 'v, 'e) RedisCache \<Rightarrow> ('c, 'l, 'v, 'e) RedisCache" where
  "handleRefresh cfg key remainingTTL s =
     (if remainingTTL = redisNoPTTL then s
      else if rc_RefreshInterval cfg \<noteq> 0 \<and> rc_RefreshInterval cfg < rc_TTL cfg - remainingTTL then s\<lparr>rs_pending := key # rs_pending s\<rparr>
      else s)"

definition redis_fetched :: "string \<Rightarrow> 'v \<Rightarrow> ('c, 'l, 'v, 'e) RedisCache \<Rightarrow> ('c, 'l, 'v, 'e) RedisCache" where
  "redis_fetched key v s = s\<lparr>rs_fetched := insert (key, v) (rs_fetched s)\<rparr>"

text \<open>
  Goroutines of any number of instances over one service.  Any call to the service or the lock client
  may fail, and a write that failed may still take effect at any later time.  A flight that did not get the lock answers with what the
  callback returns and does not store it; a refresh that does not get it is skipped; a deletion goes
  on without it.
\<close>

datatype ('v, 'e) redis_pc =
    RGet string | RDo string | RLock string | RCheck string bool | RCall string bool nat | RStore string bool nat 'v
  | RUnlock string bool "('e, 'v) outcome" | RFlightEnd string "('e, 'v) outcome" | RReturn string "('e, 'v) outcome"
  | RSet string 'v | RDelete string | RDel string bool | RDelUnlock string bool | RDeleted string
  | RBackground | RRefresh string | RRefreshCall string nat | RRefreshStore string nat 'v | RRefreshUnlock string
  | RTime int | RExpire string | RLate | RDone

definition unlocks ::
  "'l lock_ops \<Rightarrow> 'v RedisConfig \<Rightarrow> string \<Rightarrow> bool \<Rightarrow> ('c, 'l, 'v, 'e) RedisCache \<Rightarrow> ('c, 'l, 'v, 'e) RedisCache \<Rightarrow> bool" where
  "unlocks L cfg key locked s s' \<longleftrightarrow> (if locked then s' = releaseLock L cfg key s \<or> s' = loseLock cfg key s else s' = s)"

inductive redis_step ::
  "('c, string) kv_ops \<Rightarrow> 'l lock_ops \<Rightarrow> 'v json_ops \<Rightarrow> 'v RedisConfig
     \<Rightarrow> ('c, 'l, 'v, 'e) RedisCache \<Rightarrow> ('v, 'e) redis_pc \<Rightarrow> ('c, 'l, 'v, 'e) RedisCache \<Rightarrow> ('v, 'e) redis_pc \<Rightarrow> bool"
  for R L J cfg where
  hit: "getFromRedis R J cfg key s = Some v \<Longrightarrow> redis_step R L J cfg s (RGet key) (handleRefresh cfg key ttl s) (RReturn key (Ok v))"
| miss: "redis_step R L J cfg s (RGet key) s (RDo key)"
| lead: "redis_step R L J cfg s (RDo key) s (RLock key)"
| share: "(key, r) \<in> rs_results s \<Longrightarrow> redis_step R L J cfg s (RDo key) s (RReturn key r)"
| locked: "acquireLock L cfg key s = Some s' \<Longrightarrow> redis_step R L J cfg s (RLock key) s' (RCheck key True)"
| not_locked: "rc_LockTTL cfg \<noteq> RedisLockOff \<Longrightarrow> redis_step R L J cfg s (RLock key) s (RCheck key False)"
| check_hit: "getFromRedis R J cfg key s = Some v \<Longrightarrow> redis_step R L J cfg s (RCheck key locked) s (RUnlock key locked (Ok v))"
| check_miss: "redis_step R L J cfg s (RCheck key locked) s (RCall key locked (rs_deletes s key))"
| call_failed: "redis_step R L J cfg s (RCall key locked n) s (RUnlock key locked (Err e))"
| called: "redis_step R L J cfg s (RCall key locked n) (redis_fetched key v s) (RStore key locked n v)"
| stored: "redis_step R L J cfg s (RStore key True n v) (setInRedis R J cfg (Some n) (storeKey (rc_ExtractKeyFunc cfg) key v) v s) (RUnlock key True (Ok v))"
| not_stored: "redis_step R L J cfg s (RStore key locked n v) s (RUnlock key locked (Ok v))"
| store_given_up: "redis_step R L J cfg s (RStore key True n v) (give_up (Some n) (storeKey (rc_ExtractKeyFunc cfg) key v) v s) (RUnlock key True (Ok v))"
| unlocked: "unlocks L cfg key locked s s' \<Longrightarrow> redis_step R L J cfg s (RUnlock key locked r) s' (RFlightEnd key r)"
| flight_end: "redis_step R L J cfg s (RFlightEnd key r) (s\<lparr>rs_results := insert (key, r) (rs_results s)\<rparr>) (RReturn key r)"
| set_value: "redis_step R L J cfg s (RSet key v) ((setInRedis R J cfg None key v s)\<lparr>rs_set := insert (key, v) (rs_set s)\<rparr>) RDone"
| set_failed: "redis_step R L J cfg s (RSet key v) s RDone"
| set_given_up: "redis_step R L J cfg s (RSet key v) ((give_up None key v s)\<lparr>rs_set := insert (key, v) (rs_set s)\<rparr>) RDone"
| delete_locked: "acquireLock L cfg key s = Some s' \<Longrightarrow> redis_step R L J cfg s (RDelete key) s' (RDel key True)"
| delete_unlocked: "rc_LockTTL cfg \<noteq> RedisLockOff \<Longrightarrow> redis_step R L J cfg s (RDelete key) s (RDel key False)"
| del: "redis_step R L J cfg s (RDel key locked) (del_entry R cfg locked key s) (RDelUnlock key locked)"
| del_failed: "redis_step R L J cfg s (RDel key locked) s (RDelUnlock key locked)"
| del_done: "unlocks L cfg key locked s s' \<Longrightarrow> redis_step R L J cfg s (RDelUnlock key locked) s' (RDeleted key)"
| background: "key \<in> set (rs_pending s) \<Longrightarrow>
    redis_step R L J cfg s RBackground (s\<lparr>rs_pending := remove1 key (rs_pending s)\<rparr>) (RRefresh key)"
| refresh_shared: "redis_step R L J cfg s (RRefresh key) s RDone"
| refresh_skipped: "rc_LockTTL cfg \<noteq> RedisLockOff \<Longrightarrow> redis_step R L J cfg s (RRefresh key) s RDone"
| refresh_locked: "acquireLock L cfg key s = Some s' \<Longrightarrow> redis_step R L J cfg s (RRefresh key) s' (RRefreshCall key (rs_deletes s' key))"
| refresh_failed: "redis_step R L J cfg s (RRefreshCall key n) s (RRefreshUnlock key)"
| refresh_called: "redis_step R L J cfg s (RRefreshCall key n) (redis_fetched key v s) (RRefreshStore key n v)"
| refreshed: "redis_step R L J cfg s (RRefreshStore key n v) (setInRedis R J cfg (Some n) (storeKey (rc_ExtractKeyFunc cfg) key v) v s) (RRefreshUnlock key)"
| not_refreshed: "redis_step R L J cfg s (RRefreshStore key n v) s (RRefreshUnlock key)"
| refresh_given_up: "redis_step R L J cfg s (RRefreshStore key n v) (give_up (Some n) (storeKey (rc_ExtractKeyFunc cfg) key v) v s) (RRefreshUnlock key)"
| refresh_unlocked: "unlocks L cfg key True s s' \<Longrightarrow> redis_step R L J cfg s (RRefreshUnlock key) s' RDone"
| time: "redis_step R L J cfg s (RTime t) (s\<lparr>rs_redis := kv_pass R t (rs_redis s), rs_now := rs_now s + t\<rparr>) RDone"
| expire: "key \<in> rs_lost s \<Longrightarrow> redis_step R L J cfg s (RExpire key) (expireLock L cfg key s) RDone"
| overrun: "lk_held L (rs_locks s) (GetLockKey (RedisKey cfg key)) \<Longrightarrow> key \<notin> rs_lost s \<Longrightarrow> rs_until s key \<le> rs_now s \<Longrightarrow>
    redis_step R L J cfg s (RExpire key) (overrunLock L cfg key s) RDone"
| late: "(key, stamp, v) \<in> rs_given_up s \<Longrightarrow> redis_step R L J cfg s RLate (late_write R J cfg stamp key v s) RDone"

fun redis_start :: "('v, 'e) redis_pc \<Rightarrow> bool" where
  "redis_start (RGet key) \<longleftrightarrow> True"
| "redis_start RBackground \<longleftrightarrow> True"
| "redis_start (RSet key v) \<longleftrightarrow> True"
| "redis_start (RDelete key) \<longleftrightarrow> True"
| "redis_start (RTime t) \<longleftrightarrow> True"
| "redis_start (RExpire key) \<longleftrightarrow> True"
| "redis_start RLate \<longleftrightarrow> True"
| "redis_start _ \<longleftrightarrow> False"

subsection \<open>Values\<close>

abbreviation redis_value :: "'v RedisConfig \<Rightarrow> ('c, 'l, 'v, 'e) RedisCache \<Rightarrow> string \<Rightarrow> 'v \<Rightarrow> bool" where
  "redis_value cfg s \<equiv> value_of (rc_ExtractKeyFunc cfg) (rs_fetched s) (rs_set s)"

definition redis_inv :: "('c, string) kv_ops \<Rightarrow> 'v json_ops \<Rightarrow> 'v RedisConfig \<Rightarrow> ('c, 'l, 'v, 'e) RedisCache \<Rightarrow> bool" where
  "redis_inv R J cfg s \<longleftrightarrow>
     (\<forall>key v. getFromRedis R J cfg key s = Some v \<longrightarrow> redis_value cfg s key v)
     \<and> (\<forall>key v. (key, Ok v) \<in> rs_results s \<longrightarrow> redis_value cfg s key v)
     \<and> (\<forall>key stamp v. (key, stamp, v) \<in> rs_given_up s \<longrightarrow> redis_value cfg s key v)"

fun redis_asrt :: "'v RedisConfig \<Rightarrow> ('c, 'l, 'v, 'e) RedisCache \<Rightarrow> ('v, 'e) redis_pc \<Rightarrow> bool" where
  "redis_asrt cfg s (RStore key locked n v) \<longleftrightarrow> (key, v) \<in> rs_fetched s"
| "redis_asrt cfg s (RRefreshStore key n v) \<longleftrightarrow> (key, v) \<in> rs_fetched s"
| "redis_asrt cfg s (RUnlock key locked r) \<longleftrightarrow> (\<forall>v. r = Ok v \<longrightarrow> redis_value cfg s key v)"
| "redis_asrt cfg s (RFlightEnd key r) \<longleftrightarrow> (\<forall>v. r = Ok v \<longrightarrow> redis_value cfg s key v)"
| "redis_asrt cfg s (RReturn key r) \<longleftrightarrow> (\<forall>v. r = Ok v \<longrightarrow> redis_value cfg s key v)"
| "redis_asrt cfg s _ \<longleftrightarrow> True"

lemma getFromRedis_eq: "getFromRedis R J cfg key s = Some v \<longleftrightarrow> (\<exists>d. kv_Get R (rs_redis s) (RedisKey cfg key) = Some d \<and> js_Unmarshal J d = Some v)"
  by (simp add: getFromRedis_def bind_eq_Some_conv)

text \<open>What the operations on locks, the ghost state and the refreshes leave alone.\<close>

lemma acquireLock_fields:
  assumes "acquireLock L cfg key s = Some s'"
  shows "rs_redis s' = rs_redis s" "rs_fetched s' = rs_fetched s" "rs_set s' = rs_set s" "rs_results s' = rs_results s"
    "rs_deletes s' = rs_deletes s" "rs_stamp s' = rs_stamp s" "rs_lost s' = rs_lost s" "rs_given_up s' = rs_given_up s" "rs_broken s' = rs_broken s"
  using assms by (auto simp: acquireLock_def split: if_splits option.splits)

lemma unlocks_fields:
  assumes "unlocks L cfg key locked s s'"
  shows "rs_redis s' = rs_redis s" "rs_fetched s' = rs_fetched s" "rs_set s' = rs_set s" "rs_results s' = rs_results s"
    "rs_deletes s' = rs_deletes s" "rs_stamp s' = rs_stamp s" "rs_given_up s' = rs_given_up s" "rs_broken s' = rs_broken s"
  using assms by (auto simp: unlocks_def releaseLock_def loseLock_def split: if_splits)

lemma handleRefresh_fields [simp]:
  "rs_redis (handleRefresh cfg key ttl s) = rs_redis s" "rs_fetched (handleRefresh cfg key ttl s) = rs_fetched s"
  "rs_set (handleRefresh cfg key ttl s) = rs_set s" "rs_results (handleRefresh cfg key ttl s) = rs_results s"
  "rs_deletes (handleRefresh cfg key ttl s) = rs_deletes s" "rs_stamp (handleRefresh cfg key ttl s) = rs_stamp s"
  "rs_lost (handleRefresh cfg key ttl s) = rs_lost s" "rs_locks (handleRefresh cfg key ttl s) = rs_locks s"
  "rs_given_up (handleRefresh cfg key ttl s) = rs_given_up s" "rs_broken (handleRefresh cfg key ttl s) = rs_broken s"
  by (simp_all add: handleRefresh_def)

lemma setInRedis_fields [simp]:
  "rs_fetched (setInRedis R J cfg n key v s) = rs_fetched s" "rs_set (setInRedis R J cfg n key v s) = rs_set s"
  "rs_results (setInRedis R J cfg n key v s) = rs_results s" "rs_deletes (setInRedis R J cfg n key v s) = rs_deletes s"
  "rs_lost (setInRedis R J cfg n key v s) = rs_lost s" "rs_locks (setInRedis R J cfg n key v s) = rs_locks s"
  "rs_given_up (setInRedis R J cfg n key v s) = rs_given_up s" "rs_broken (setInRedis R J cfg n key v s) = rs_broken s"
  by (simp_all add: setInRedis_def split: option.split)

lemma redis_fetched_fields [simp]:
  "rs_redis (redis_fetched key v s) = rs_redis s" "rs_fetched (redis_fetched key v s) = insert (key, v) (rs_fetched s)"
  "rs_set (redis_fetched key v s) = rs_set s" "rs_results (redis_fetched key v s) = rs_results s"
  "rs_deletes (redis_fetched key v s) = rs_deletes s" "rs_stamp (redis_fetched key v s) = rs_stamp s"
  "rs_lost (redis_fetched key v s) = rs_lost s" "rs_locks (redis_fetched key v s) = rs_locks s"
  "rs_given_up (redis_fetched key v s) = rs_given_up s" "rs_broken (redis_fetched key v s) = rs_broken s"
  by (simp_all add: redis_fetched_def)

lemma expireLock_fields [simp]:
  "rs_redis (expireLock L cfg key s) = rs_redis s" "rs_fetched (expireLock L cfg key s) = rs_fetched s"
  "rs_set (expireLock L cfg key s) = rs_set s" "rs_results (expireLock L cfg key s) = rs_results s"
  "rs_deletes (expireLock L cfg key s) = rs_deletes s" "rs_stamp (expireLock L cfg key s) = rs_stamp s"
  "rs_given_up (expireLock L cfg key s) = rs_given_up s" "rs_broken (expireLock L cfg key s) = rs_broken s"
  by (simp_all add: expireLock_def releaseLock_def)

lemma overrunLock_fields [simp]:
  "rs_redis (overrunLock L cfg key s) = rs_redis s" "rs_fetched (overrunLock L cfg key s) = rs_fetched s"
  "rs_set (overrunLock L cfg key s) = rs_set s" "rs_results (overrunLock L cfg key s) = rs_results s"
  "rs_deletes (overrunLock L cfg key s) = rs_deletes s" "rs_stamp (overrunLock L cfg key s) = rs_stamp s"
  "rs_given_up (overrunLock L cfg key s) = rs_given_up s" "rs_broken (overrunLock L cfg key s) = insert key (rs_broken s)"
  by (simp_all add: overrunLock_def releaseLock_def)

lemma give_up_fields [simp]:
  "rs_redis (give_up n key v s) = rs_redis s" "rs_fetched (give_up n key v s) = rs_fetched s"
  "rs_set (give_up n key v s) = rs_set s" "rs_results (give_up n key v s) = rs_results s"
  "rs_deletes (give_up n key v s) = rs_deletes s" "rs_stamp (give_up n key v s) = rs_stamp s"
  "rs_lost (give_up n key v s) = rs_lost s" "rs_locks (give_up n key v s) = rs_locks s"
  "rs_given_up (give_up n key v s) = insert (key, n, v) (rs_given_up s)" "rs_broken (give_up n key v s) = rs_broken s"
  by (simp_all add: give_up_def)

lemma late_write_fields [simp]:
  "rs_fetched (late_write R J cfg n key v s) = rs_fetched s" "rs_set (late_write R J cfg n key v s) = rs_set s"
  "rs_results (late_write R J cfg n key v s) = rs_results s" "rs_deletes (late_write R J cfg n key v s) = rs_deletes s"
  "rs_lost (late_write R J cfg n key v s) = rs_lost s" "rs_locks (late_write R J cfg n key v s) = rs_locks s"
  "rs_given_up (late_write R J cfg n key v s) = rs_given_up s" "rs_broken (late_write R J cfg n key v s) = insert key (rs_broken s)"
  by (simp_all add: late_write_def)

lemma redis_step_grows:
  "redis_step R L J cfg s p s' p' \<Longrightarrow> rs_fetched s \<subseteq> rs_fetched s' \<and> rs_set s \<subseteq> rs_set s'"
  by (induction rule: redis_step.induct) (auto simp: acquireLock_fields unlocks_fields del_entry_def)

lemma redis_asrt_grows:
  "redis_asrt cfg s q \<Longrightarrow> rs_fetched s \<subseteq> rs_fetched s' \<Longrightarrow> rs_set s \<subseteq> rs_set s' \<Longrightarrow> redis_asrt cfg s' q"
  by (cases q) (auto intro: value_of_mono)

lemma redis_inv_keep:
  assumes "redis_inv R J cfg s" and "rs_fetched s \<subseteq> rs_fetched s'" and "rs_set s \<subseteq> rs_set s'"
    and "\<And>key v. getFromRedis R J cfg key s' = Some v \<Longrightarrow> getFromRedis R J cfg key s = Some v \<or> redis_value cfg s' key v"
    and "\<And>key v. (key, Ok v) \<in> rs_results s' \<Longrightarrow> (key, Ok v) \<in> rs_results s \<or> redis_value cfg s' key v"
    and "\<And>key n v. (key, n, v) \<in> rs_given_up s' \<Longrightarrow> (key, n, v) \<in> rs_given_up s \<or> redis_value cfg s' key v"
  shows "redis_inv R J cfg s'"
proof -
  have "redis_value cfg s key v \<Longrightarrow> redis_value cfg s' key v" for key v using assms(2,3) by (auto intro: value_of_mono)
  then show ?thesis using assms(1,4-6) unfolding redis_inv_def by blast
qed

lemma getFromRedis_set:
  assumes "kv_laws R" and "json_laws J" and "getFromRedis R J cfg j (setInRedis R J cfg n key v s) = Some u"
  shows "getFromRedis R J cfg j s = Some u \<or> j = key \<and> u = v"
proof (cases "js_Marshal J v")
  case None
  then show ?thesis using assms(3) by (simp add: setInRedis_def)
next
  case (Some d)
  from assms(3) Some obtain d' where d': "kv_Get R (kv_Set R (rs_redis s) (RedisKey cfg key) d (rc_TTL cfg)) (RedisKey cfg j) = Some d'" "js_Unmarshal J d' = Some u"
    by (auto simp: setInRedis_def getFromRedis_eq)
  then show ?thesis using kv_SetD [OF assms(1) d'(1)] Some assms(2) by (auto simp: getFromRedis_eq json_laws_def)
qed

lemma getFromRedis_same: "rs_redis s' = rs_redis s \<Longrightarrow> getFromRedis R J cfg key s' = getFromRedis R J cfg key s"
  by (simp add: getFromRedis_def)

lemma getFromRedis_lose:
  assumes "getFromRedis R J cfg key s' = Some v" and "\<And>k d. kv_Get R (rs_redis s') k = Some d \<Longrightarrow> kv_Get R (rs_redis s) k = Some d"
  shows "getFromRedis R J cfg key s = Some v"
  using assms by (auto simp: getFromRedis_eq)

lemma redis_step_ok:
  assumes "redis_step R L J cfg s p s' p'" and "kv_laws R" and "json_laws J" and "redis_inv R J cfg s" and "redis_asrt cfg s p"
  shows "redis_inv R J cfg s' \<and> redis_asrt cfg s' p'"
proof -
  have p': "redis_asrt cfg s' p'" using assms(1,4,5)
    by (induction rule: redis_step.induct) (auto simp: redis_inv_def acquireLock_fields unlocks_fields value_of_intros)
  have entry: "getFromRedis R J cfg key s = Some v \<or> redis_value cfg s' key v" if "getFromRedis R J cfg key s' = Some v" for key v
    using assms(1,2,3,5,4) that
  proof (induction rule: redis_step.induct)
    case (stored s k n u)
    then show ?case using getFromRedis_set [OF stored(1,2,5)] by (auto simp: value_of_intros)
  next
    case (refreshed s k n u)
    then show ?case using getFromRedis_set [OF refreshed(1,2,5)] by (auto simp: value_of_intros)
  next
    case (set_value s k u)
    have "getFromRedis R J cfg key (setInRedis R J cfg None k u s) = Some v" using set_value(5) by (simp add: getFromRedis_def)
    from getFromRedis_set [OF set_value(1,2) this] show ?case by (auto simp: value_of_intros)
  next
    case (del s k locked)
    have "kv_Get R (rs_redis s) j = Some d" if "kv_Get R (rs_redis (del_entry R cfg locked k s)) j = Some d" for j d
      using kv_DeleteD(1) [OF del(1), of "rs_redis s" "RedisKey cfg k" j d] that unfolding del_entry_def by simp
    from getFromRedis_lose [OF del(5) this] show ?case by simp
  next
    case (time s t)
    have "kv_Get R (rs_redis s) j = Some d" if "kv_Get R (rs_redis (s\<lparr>rs_redis := kv_pass R t (rs_redis s), rs_now := rs_now s + t\<rparr>)) j = Some d" for j d
      using kv_passD [OF time(1), of t "rs_redis s" j d] that by simp
    from getFromRedis_lose [OF time(5) this] show ?case by simp
  next
    case (late k n u s)
    have "getFromRedis R J cfg key (setInRedis R J cfg n k u s) = Some v" using late(6) by (simp add: getFromRedis_def late_write_def)
    from getFromRedis_set [OF late(2,3) this] show ?case using late(1,5) by (auto simp: redis_inv_def)
  qed (auto simp: getFromRedis_def acquireLock_fields unlocks_fields)
  have results: "(key, Ok v) \<in> rs_results s \<or> redis_value cfg s' key v" if "(key, Ok v) \<in> rs_results s'" for key v
    using assms(1,5) that by (induction rule: redis_step.induct) (auto simp: acquireLock_fields unlocks_fields del_entry_def)
  have given_up: "(key, n, v) \<in> rs_given_up s \<or> redis_value cfg s' key v" if "(key, n, v) \<in> rs_given_up s'" for key n v
    using assms(1,5) that
    by (induction rule: redis_step.induct) (auto simp: acquireLock_fields unlocks_fields del_entry_def value_of_intros)
  from redis_step_grows [OF assms(1)] show ?thesis using redis_inv_keep [OF assms(4) _ _ entry results given_up] p' by blast
qed


text \<open>
  C37.  The Redis cache answers with values of the source.  However many instances read through the
  cache, set, delete and refresh at the same time, whatever the callbacks return and whichever calls to
  the service or for the lock fail: if JSON decodes what it encodes to the same value, for the values that
  are cached, every value that \<open>GetOrSet\<close> returns for a key was returned by the callback for
  that key, stored under it by \<open>Set\<close>, or returned by the callback for another key and belongs under this
  one by its own key.
\<close>

theorem redis_cache_values:
  assumes "kv_laws R" and "json_laws J" and "par_runs (redis_step R L J cfg) (Collect redis_start) (empty_redis R L) s ts"
    and "RReturn key (Ok v) \<in> set ts"
  shows "(key, v) \<in> rs_fetched s \<or> (key, v) \<in> rs_set s \<or> (\<exists>j. (j, v) \<in> rs_fetched s \<and> storeKey (rc_ExtractKeyFunc cfg) j v = key)"
proof -
  have "interleaving (redis_step R L J cfg) (Collect redis_start) (redis_inv R J cfg) (redis_asrt cfg) (\<lambda>_. 0) (\<lambda>_. 0)"
  proof (rule unweighted)
    show "redis_asrt cfg s p" if "p \<in> Collect redis_start" for s p using that by (cases p) auto
    show "redis_inv R J cfg s' \<and> redis_asrt cfg s' p'" if "redis_step R L J cfg s p s' p'" "redis_inv R J cfg s" "redis_asrt cfg s p" for s p s' p'
      by (rule redis_step_ok [OF that(1) assms(1,2) that(2,3)])
    show "redis_asrt cfg s' q" if "redis_step R L J cfg s p s' p'" "redis_asrt cfg s q" for s p s' p' q
      using redis_asrt_grows [OF that(2)] redis_step_grows [OF that(1)] by blast
  qed
  moreover have "redis_inv R J cfg (empty_redis R L)" using assms(1) by (simp add: redis_inv_def empty_redis_def getFromRedis_def kv_New_empty)
  ultimately have "redis_asrt cfg s (RReturn key (Ok v))" by (rule interleaving.runs_keep(2) [OF _ assms(3) _ _ assms(4)]) simp
  then show ?thesis by (simp add: value_of_def)
qed

subsection \<open>Deletions\<close>

text \<open>
  The goroutines that hold the lock of a key, and how the state shows that one does; what they know of
  the deletions; and the invariant on the entry of the key.
\<close>

abbreviation lock_of :: "'v RedisConfig \<Rightarrow> string \<Rightarrow> string" where
  "lock_of cfg key \<equiv> GetLockKey (RedisKey cfg key)"

fun holds_lock :: "string \<Rightarrow> ('v, 'e) redis_pc \<Rightarrow> int" where
  "holds_lock k (RCheck key locked) = (if locked \<and> key = k then 1 else 0)"
| "holds_lock k (RCall key locked n) = (if locked \<and> key = k then 1 else 0)"
| "holds_lock k (RStore key locked n v) = (if locked \<and> key = k then 1 else 0)"
| "holds_lock k (RUnlock key locked r) = (if locked \<and> key = k then 1 else 0)"
| "holds_lock k (RDel key locked) = (if locked \<and> key = k then 1 else 0)"
| "holds_lock k (RDelUnlock key locked) = (if locked \<and> key = k then 1 else 0)"
| "holds_lock k (RRefreshCall key n) = (if key = k then 1 else 0)"
| "holds_lock k (RRefreshStore key n v) = (if key = k then 1 else 0)"
| "holds_lock k (RRefreshUnlock key) = (if key = k then 1 else 0)"
| "holds_lock k _ = 0"

definition lock_taken :: "'l lock_ops \<Rightarrow> 'v RedisConfig \<Rightarrow> string \<Rightarrow> ('c, 'l, 'v, 'e) RedisCache \<Rightarrow> int" where
  "lock_taken L cfg k s = (if lk_held L (rs_locks s) (lock_of cfg k) \<and> k \<notin> rs_lost s then 1 else 0)"

fun fence_asrt :: "string \<Rightarrow> ('c, 'l, 'v, 'e) RedisCache \<Rightarrow> ('v, 'e) redis_pc \<Rightarrow> bool" where
  "fence_asrt k s (RCall key locked n) \<longleftrightarrow> (locked \<and> key = k \<longrightarrow> n = rs_deletes s k)"
| "fence_asrt k s (RStore key locked n v) \<longleftrightarrow> (locked \<and> key = k \<longrightarrow> n = rs_deletes s k)"
| "fence_asrt k s (RRefreshCall key n) \<longleftrightarrow> (key = k \<longrightarrow> n = rs_deletes s k)"
| "fence_asrt k s (RRefreshStore key n v) \<longleftrightarrow> (key = k \<longrightarrow> n = rs_deletes s k)"
| "fence_asrt k s _ \<longleftrightarrow> True"

definition fenced :: "('c, string) kv_ops \<Rightarrow> 'v RedisConfig \<Rightarrow> string \<Rightarrow> ('c, 'l, 'v, 'e) RedisCache \<Rightarrow> bool" where
  "fenced R cfg k s \<longleftrightarrow> (kv_Get R (rs_redis s) (RedisKey cfg k) \<noteq> None \<longrightarrow> rs_stamp s k \<in> {None, Some (rs_deletes s k)})"

definition fence_inv :: "('c, string) kv_ops \<Rightarrow> 'l lock_ops \<Rightarrow> 'v RedisConfig \<Rightarrow> string \<Rightarrow> ('c, 'l, 'v, 'e) RedisCache \<Rightarrow> bool" where
  "fence_inv R L cfg k s \<longleftrightarrow> fenced R cfg k s \<and> (k \<in> rs_lost s \<longrightarrow> lk_held L (rs_locks s) (lock_of cfg k))"

lemma acquireLock_held:
  assumes "lock_laws L" and "rc_LockTTL cfg \<noteq> RedisLockOff" and "acquireLock L cfg key s = Some s'"
  shows "\<not> lk_held L (rs_locks s) (lock_of cfg key)"
    and "lk_held L (rs_locks s') (lock_of cfg k) \<longleftrightarrow> k = key \<or> lk_held L (rs_locks s) (lock_of cfg k)"
proof -
  obtain l where l: "lk_Obtain L (rs_locks s) (lock_of cfg key) (rc_LockTTL cfg) = Some l" "rs_locks s' = l"
    using assms(2,3) by (auto simp: acquireLock_def split: option.splits)
  with assms(1) have "\<not> lk_held L (rs_locks s) (lock_of cfg key)" "\<And>j. lk_held L l j \<longleftrightarrow> j = lock_of cfg key \<or> lk_held L (rs_locks s) j"
    unfolding lock_laws_def by blast+
  then show "\<not> lk_held L (rs_locks s) (lock_of cfg key)"
    "lk_held L (rs_locks s') (lock_of cfg k) \<longleftrightarrow> k = key \<or> lk_held L (rs_locks s) (lock_of cfg k)" by (simp_all add: l(2))
qed

lemma releaseLock_held:
  assumes "lock_laws L" and "rc_LockTTL cfg \<noteq> RedisLockOff"
  shows "lk_held L (rs_locks (releaseLock L cfg key s)) (lock_of cfg k) \<longleftrightarrow> k \<noteq> key \<and> lk_held L (rs_locks s) (lock_of cfg k)"
    and "rs_lost (releaseLock L cfg key s) = rs_lost s"
  using assms by (simp_all add: releaseLock_def lock_laws_def)

lemma take_lock:
  assumes "lock_laws L" and "rc_LockTTL cfg \<noteq> RedisLockOff" and "acquireLock L cfg key s = Some s'" and "fence_inv R L cfg k s"
  shows "fence_inv R L cfg k s'" and "lock_taken L cfg k s' = lock_taken L cfg k s + (if key = k then 1 else 0)"
  using assms(4) acquireLock_held [OF assms(1-3)] acquireLock_fields [OF assms(3)]
  by (auto simp: fence_inv_def fenced_def lock_taken_def)

lemma give_lock:
  assumes "lock_laws L" and "rc_LockTTL cfg \<noteq> RedisLockOff" and "unlocks L cfg key locked s s'" and "fence_inv R L cfg k s"
    and "locked \<and> key = k \<Longrightarrow> 1 \<le> lock_taken L cfg k s"
  shows "fence_inv R L cfg k s'" and "lock_taken L cfg k s' + (if locked \<and> key = k then 1 else 0) = lock_taken L cfg k s"
proof -
  have fen: "fenced R cfg k s'" using assms(4) unlocks_fields [OF assms(3)] by (simp add: fence_inv_def fenced_def)
  consider "\<not> locked" "s' = s" | "locked" "s' = releaseLock L cfg key s" | "locked" "s' = loseLock cfg key s"
    using assms(3) by (auto simp: unlocks_def split: if_splits)
  then have "fence_inv R L cfg k s' \<and> lock_taken L cfg k s' + (if locked \<and> key = k then 1 else 0) = lock_taken L cfg k s"
  proof cases
    case 1
    then show ?thesis using assms(4) by simp
  next
    case 2
    then show ?thesis using assms(4,5) fen releaseLock_held(1) [OF assms(1,2), of key s k] releaseLock_held(2) [OF assms(1,2), of key s]
      by (cases "key = k") (auto simp: fence_inv_def lock_taken_def split: if_splits)
  next
    case 3
    then have "rs_locks s' = rs_locks s" "rs_lost s' = insert key (rs_lost s)" using assms(2) by (simp_all add: loseLock_def)
    with 3(1) show ?thesis using assms(4,5) fen by (auto simp: fence_inv_def lock_taken_def split: if_splits)
  qed
  then show "fence_inv R L cfg k s'" "lock_taken L cfg k s' + (if locked \<and> key = k then 1 else 0) = lock_taken L cfg k s" by simp_all
qed

text \<open>The remaining updates of the state.\<close>

lemma fenced_set:
  assumes "kv_laws R" and "fence_inv R L cfg k s" and "key = k \<Longrightarrow> n \<in> {None, Some (rs_deletes s k)}"
  shows "fence_inv R L cfg k (setInRedis R J cfg n key v s)"
proof (cases "js_Marshal J v")
  case (Some d)
  then show ?thesis using assms(2,3) kv_Set_other [OF assms(1), of "RedisKey cfg k" "RedisKey cfg key"]
    by (cases "key = k") (simp_all add: setInRedis_def fence_inv_def fenced_def)
qed (use assms(2) in \<open>simp add: setInRedis_def\<close>)

lemma fenced_del:
  assumes "kv_laws R" and "fence_inv R L cfg k s"
  shows "fence_inv R L cfg k (del_entry R cfg locked key s)"
  using assms(2) kv_Delete_get [OF assms(1)] by (simp add: fence_inv_def fenced_def del_entry_def)

lemma fenced_pass:
  assumes "kv_laws R" and "fence_inv R L cfg k s"
  shows "fence_inv R L cfg k (s\<lparr>rs_redis := kv_pass R t (rs_redis s), rs_now := u\<rparr>)"
  using assms(2) kv_passD [OF assms(1), of t "rs_redis s" "RedisKey cfg k"] by (auto simp: fence_inv_def fenced_def)

lemma lock_taken_simps [simp]:
  "lock_taken L cfg k (setInRedis R J cfg n key v s) = lock_taken L cfg k s"
  "lock_taken L cfg k (handleRefresh cfg key ttl s) = lock_taken L cfg k s"
  "lock_taken L cfg k (redis_fetched key v s) = lock_taken L cfg k s"
  "lock_taken L cfg k (del_entry R cfg locked key s) = lock_taken L cfg k s"
  "lock_taken L cfg k (s\<lparr>rs_redis := c, rs_now := u\<rparr>) = lock_taken L cfg k s"
  "lock_taken L cfg k (give_up n key v s) = lock_taken L cfg k s"
  "lock_taken L cfg k (late_write R J cfg n key v s) = lock_taken L cfg k s"
  "lock_taken L cfg k (s\<lparr>rs_pending := ps\<rparr>) = lock_taken L cfg k s"
  "lock_taken L cfg k (s\<lparr>rs_results := rs\<rparr>) = lock_taken L cfg k s"
  "lock_taken L cfg k (s\<lparr>rs_set := vs\<rparr>) = lock_taken L cfg k s"
  by (simp_all add: lock_taken_def del_entry_def)

lemma fence_inv_simps [simp]:
  "fence_inv R L cfg k (handleRefresh cfg key ttl s) \<longleftrightarrow> fence_inv R L cfg k s"
  "fence_inv R L cfg k (redis_fetched key v s) \<longleftrightarrow> fence_inv R L cfg k s"
  "fence_inv R L cfg k (s\<lparr>rs_pending := ps\<rparr>) \<longleftrightarrow> fence_inv R L cfg k s"
  "fence_inv R L cfg k (give_up n key v s) \<longleftrightarrow> fence_inv R L cfg k s"
  "fence_inv R L cfg k (late_write R J cfg n key v s) \<longleftrightarrow> fence_inv R L cfg k (setInRedis R J cfg n key v s)"
  "fence_inv R L cfg k (s\<lparr>rs_results := rs\<rparr>) \<longleftrightarrow> fence_inv R L cfg k s"
  "fence_inv R L cfg k (s\<lparr>rs_set := vs\<rparr>) \<longleftrightarrow> fence_inv R L cfg k s"
  by (simp_all add: fence_inv_def fenced_def late_write_def)

lemma expire_fence:
  assumes "lock_laws L" and "rc_LockTTL cfg \<noteq> RedisLockOff" and "key \<in> rs_lost s" and "fence_inv R L cfg k s"
  shows "fence_inv R L cfg k (expireLock L cfg key s)" and "lock_taken L cfg k (expireLock L cfg key s) = lock_taken L cfg k s"
proof -
  have "lk_held L (rs_locks (expireLock L cfg key s)) (lock_of cfg k) \<longleftrightarrow> k \<noteq> key \<and> lk_held L (rs_locks s) (lock_of cfg k)"
    "rs_lost (expireLock L cfg key s) = rs_lost s - {key}"
    using releaseLock_held(1) [OF assms(1,2), of key s k] releaseLock_held(2) [OF assms(1,2), of key s] by (simp_all add: expireLock_def)
  then show "fence_inv R L cfg k (expireLock L cfg key s)" "lock_taken L cfg k (expireLock L cfg key s) = lock_taken L cfg k s"
    using assms(3,4) by (auto simp: fence_inv_def fenced_def lock_taken_def)
qed

lemma overrun_fence:
  assumes "lock_laws L" and "rc_LockTTL cfg \<noteq> RedisLockOff" and "key \<noteq> k" and "fence_inv R L cfg k s"
  shows "fence_inv R L cfg k (overrunLock L cfg key s)" and "lock_taken L cfg k (overrunLock L cfg key s) = lock_taken L cfg k s"
  using assms(3,4) releaseLock_held(1) [OF assms(1,2), of key s k] releaseLock_held(2) [OF assms(1,2), of key s]
  by (simp_all add: overrunLock_def fence_inv_def fenced_def lock_taken_def releaseLock_def)

text \<open>One step that breaks no lock of the key and has no late effect on it: the holder of the lock is alone.\<close>

lemma fence_step:
  assumes "redis_step R L J cfg s p s' p'" and "kv_laws R" and "lock_laws L"
    and "rc_LockTTL cfg \<noteq> RedisLockOff" and "rc_ExtractKeyFunc cfg = None"
    and "fence_inv R L cfg k s" and "fence_asrt k s p" and "holds_lock k p \<le> lock_taken L cfg k s" and "k \<notin> rs_broken s'"
  shows "fence_inv R L cfg k s' \<and> fence_asrt k s' p' \<and> lock_taken L cfg k s' + holds_lock k p = lock_taken L cfg k s + holds_lock k p'"
  using assms
proof (induction rule: redis_step.induct)
  case (locked key s s')
  then show ?case using take_lock [OF locked(3,4,1,6)] by simp
next
  case (delete_locked key s s')
  then show ?case using take_lock [OF delete_locked(3,4,1,6)] by simp
next
  case (refresh_locked key s s')
  then show ?case using take_lock [OF refresh_locked(3,4,1,6)] by simp
next
  case (unlocked key locked s s' r)
  then show ?case using give_lock [OF unlocked(3,4,1,6)] by (simp split: if_splits)
next
  case (del_done key locked s s')
  then show ?case using give_lock [OF del_done(3,4,1,6)] by (simp split: if_splits)
next
  case (refresh_unlocked key s s')
  then show ?case using give_lock [OF refresh_unlocked(3,4,1,6)] by (simp split: if_splits)
next
  case (stored s key n v)
  then show ?case using fenced_set [OF stored(1,5), of key "Some n"] by (simp add: storeKey_def)
next
  case (refreshed s key n v)
  then show ?case using fenced_set [OF refreshed(1,5), of key "Some n"] by (simp add: storeKey_def)
next
  case (set_value s key v)
  have "fence_inv R L cfg k (setInRedis R J cfg None key v s)" by (rule fenced_set [OF set_value(1,5)]) simp
  then show ?case by simp
next
  case (del s key locked)
  then show ?case using fenced_del [OF del(1,5)] by simp
next
  case (time s t)
  then show ?case using fenced_pass [OF time(1,5)] by simp
next
  case (expire key s)
  then show ?case using expire_fence [OF expire(3,4,1,6)] by simp
next
  case (overrun s key)
  then show ?case using overrun_fence [OF overrun(5,6) _ overrun(8), of key] by (cases "key = k") simp_all
next
  case (late key n v s)
  have "fence_inv R L cfg k (setInRedis R J cfg n key v s)" by (rule fenced_set [OF late(2,6)]) (use late(9) in simp)
  then show ?case by simp
qed simp_all

lemma broken_grows: "redis_step R L J cfg s p s' p' \<Longrightarrow> rs_broken s \<subseteq> rs_broken s'"
  by (induction rule: redis_step.induct) (auto simp: acquireLock_fields unlocks_fields del_entry_def)

text \<open>Only a deletion under the lock moves the count of deletions.\<close>

lemma redis_step_deletes:
  "redis_step R L J cfg s p s' p' \<Longrightarrow> rs_deletes s' k = rs_deletes s k \<or> holds_lock k p = 1"
  by (induction rule: redis_step.induct) (auto simp: acquireLock_fields unlocks_fields del_entry_def)

lemma fence_asrt_deletes: "fence_asrt k s q \<Longrightarrow> rs_deletes s' k = rs_deletes s k \<or> holds_lock k q = 0 \<Longrightarrow> fence_asrt k s' q"
  by (cases q) (auto split: if_splits)

lemma holds_lock_cases: "holds_lock k p = 0 \<or> holds_lock k p = 1"
  by (cases p) auto

text \<open>
  C36.  A deletion is a fence.  In a cache with locks and without an \<open>ExtractKeyFunc\<close>: as long as no
  goroutine was still counting on the lock of a key when the lock expired, \<open>LockTTL\<close> after it was
  obtained, and no write of the key took effect after its client had given up on it: whenever the key has
  an entry, the entry was stored by \<open>Set\<close>, or the callback that returned its value was called after the
  last deletion of the key that was made under the lock.  So such a deletion is not undone by a fetch or a
  refresh that was under way, in whatever order the goroutines run and whichever calls fail.  The lock
  that \<open>NewRedisCache\<close> configures lasts as long as the timeouts of the calls made under it together: a read,
  the callback and a write.
\<close>

theorem redis_delete_fences:
  assumes "kv_laws R" and "lock_laws L" and "cfg = NewRedisCache config" and "rc_LockTTL cfg \<noteq> RedisLockOff" and "rc_ExtractKeyFunc cfg = None"
    and "par_runs (redis_step R L J cfg) (Collect redis_start) (empty_redis R L) s ts" and "key \<notin> rs_broken s"
  shows "(kv_Get R (rs_redis s) (RedisKey cfg key) \<noteq> None \<longrightarrow> rs_stamp s key = None \<or> rs_stamp s key = Some (rs_deletes s key))
    \<and> rc_LockTTL cfg = rc_RedisTimeout cfg + rc_RefreshTimeout cfg + rc_RedisTimeout cfg"
proof -
  let ?step = "\<lambda>s p s' p'. redis_step R L J cfg s p s' p' \<and> key \<notin> rs_broken s'"
  have runs: "par_runs ?step (Collect redis_start) (empty_redis R L) s ts"
    using broken_grows by (intro runs_restrict [where P = "\<lambda>s. key \<notin> rs_broken s", OF assms(6,7)]) blast
  have "interleaving ?step (Collect redis_start) (fence_inv R L cfg key) (fence_asrt key) (holds_lock key) (lock_taken L cfg key)"
  proof
    show "fence_asrt key s p \<and> holds_lock key p = 0" if "p \<in> Collect redis_start" for s p using that by (cases p) auto
    show "0 \<le> holds_lock key p" for p using holds_lock_cases [of key p] by auto
    show "fence_inv R L cfg key s' \<and> fence_asrt key s' p' \<and> lock_taken L cfg key s' + holds_lock key p = lock_taken L cfg key s + holds_lock key p'"
      if "?step s p s' p'" "fence_inv R L cfg key s" "fence_asrt key s p" "holds_lock key p \<le> lock_taken L cfg key s" for s p s' p'
      using fence_step [OF conjunct1 [OF that(1)] assms(1,2,4,5) that(2-4)] that(1) by blast
    show "fence_asrt key s' q"
      if "?step s p s' p'" "holds_lock key p + holds_lock key q \<le> lock_taken L cfg key s" "fence_asrt key s q" for s p s' p' q
    proof -
      have "lock_taken L cfg key s \<le> 1" by (simp add: lock_taken_def)
      then show ?thesis
        using fence_asrt_deletes [OF that(3), of s'] redis_step_deletes [OF conjunct1 [OF that(1)], of key] that(2) holds_lock_cases [of key q] by auto
    qed
  qed
  moreover have "fence_inv R L cfg key (empty_redis R L)" "lock_taken L cfg key (empty_redis R L) = 0"
    using assms(1,2) by (simp_all add: fence_inv_def fenced_def lock_taken_def empty_redis_def kv_New_empty lock_laws_def)
  ultimately have "fence_inv R L cfg key s" by (rule interleaving.runs_keep(1) [OF _ runs])
  moreover have "rc_LockTTL cfg = rc_RedisTimeout cfg + rc_RefreshTimeout cfg + rc_RedisTimeout cfg"
    using assms(3,4) by (auto simp: NewRedisCache_def Let_def split: if_splits)
  ultimately show ?thesis by (simp add: fence_inv_def fenced_def)
qed

subsection \<open>An example\<close>

definition set_locks :: "string set lock_ops" where
  "set_locks = \<lparr>lk_New = {}, lk_held = (\<lambda>l k. k \<in> l), lk_Obtain = (\<lambda>l k ttl. if k \<in> l then None else Some (insert k l)),
     lk_Release = (\<lambda>l k. l - {k})\<rparr>"

lemma set_locks_laws: "lock_laws set_locks"
  by (auto simp: lock_laws_def set_locks_def split: if_splits)

definition text_json :: "string json_ops" where
  "text_json = \<lparr>js_Marshal = Some, js_Unmarshal = Some\<rparr>"

lemma text_json_laws: "json_laws text_json"
  by (simp add: json_laws_def text_json_def)

definition example_config :: "(string \<Rightarrow> string) option \<Rightarrow> string RedisConfig" where
  "example_config extract = NewRedisCache \<lparr>rc_TTL = 60 * second, rc_RefreshInterval = 0, rc_RefreshTimeout = 0, rc_RedisTimeout = 0, rc_RedisPrefix = ''p'',
     rc_ExtractKeyFunc = extract, rc_LockTTL = 0, rc_LockRetryInterval = 0\<rparr>"

lemma example_config_fields [simp]:
  "rc_LockTTL (example_config extract) = 34 * second" "rc_ExtractKeyFunc (example_config extract) = extract" "rc_TTL (example_config extract) = 60 * second"
  "RedisKey (example_config extract) key = ''p:'' @ key"
  by (simp_all add: example_config_def NewRedisCache_def RedisLockOff_def RedisDefaultTimeout_def second_def RedisKey_def)

abbreviation example_runs ::
  "(string \<Rightarrow> string) option \<Rightarrow> (string \<Rightarrow> (string \<times> int) option, string set, string, unit) RedisCache \<Rightarrow> (string, unit) redis_pc list \<Rightarrow> bool" where
  "example_runs extract \<equiv> par_runs (redis_step timed_kv set_locks text_json (example_config extract)) (Collect redis_start) (empty_redis timed_kv set_locks)"

definition example_locked :: "(string \<Rightarrow> (string \<times> int) option, string set, string, unit) RedisCache" where
  "example_locked = (empty_redis timed_kv set_locks)\<lparr>rs_locks := {''lock:p:a''}, rs_until := (\<lambda>_. 0)(''a'' := 34 * second)\<rparr>"

text \<open>A flight for the key a that has called the callback and is about to store.\<close>

lemma example_flight: "example_runs extract (redis_fetched ''a'' v example_locked) [RStore ''a'' True 0 v]"
proof -
  let ?start = "empty_redis timed_kv set_locks :: (string \<Rightarrow> (string \<times> int) option, string set, string, unit) RedisCache"
  have lock: "acquireLock set_locks (example_config extract) ''a'' ?start = Some example_locked"
    by (simp add: acquireLock_def RedisLockOff_def second_def example_locked_def empty_redis_def set_locks_def GetLockKey_def)
  have "example_runs extract ?start [RGet ''a'']" by (rule single_start) simp
  then have "example_runs extract ?start [RDo ''a'']" by (rule single_step) (rule redis_step.miss)
  then have "example_runs extract ?start [RLock ''a'']" by (rule single_step) (rule redis_step.lead)
  then have "example_runs extract example_locked [RCheck ''a'' True]" by (rule single_step) (rule redis_step.locked [OF lock])
  then have "example_runs extract example_locked [RCall ''a'' True (rs_deletes example_locked ''a'')]" by (rule single_step) (rule redis_step.check_miss)
  then have "example_runs extract (redis_fetched ''a'' v example_locked) [RStore ''a'' True (rs_deletes example_locked ''a'') v]"
    by (rule single_step) (rule redis_step.called)
  then show ?thesis by (simp add: example_locked_def empty_redis_def)
qed

lemma example_stored:
  fixes v :: string
  defines "s \<equiv> setInRedis timed_kv text_json (example_config None) (Some 0) ''a'' v (redis_fetched ''a'' v example_locked)"
  shows "example_runs None s [RUnlock ''a'' True (Ok v)]" and "kv_Get timed_kv (rs_redis s) ''p:a'' = Some v"
proof -
  show "example_runs None s [RUnlock ''a'' True (Ok v)]" unfolding s_def
    using single_step [OF example_flight [of None v] redis_step.stored] by (simp add: storeKey_def)
  show "kv_Get timed_kv (rs_redis s) ''p:a'' = Some v"
    by (simp add: s_def setInRedis_def text_json_def timed_kv_def second_def)
qed

theorem redis_delete_fences_witness:
  "\<exists>s. example_runs None s [RUnlock ''a'' True (Ok ''v'')] \<and> kv_Get timed_kv (rs_redis s) ''p:a'' = Some ''v''
    \<and> (rs_stamp s ''a'' = None \<or> rs_stamp s ''a'' = Some (rs_deletes s ''a''))"
proof -
  define s where "s = setInRedis timed_kv text_json (example_config None) (Some 0) ''a'' ''v'' (redis_fetched ''a'' ''v'' example_locked)"
  note stored = example_stored [of "''v''", folded s_def]
  have "rc_LockTTL (example_config None) \<noteq> RedisLockOff" by (simp add: RedisLockOff_def second_def)
  moreover have "''a'' \<notin> rs_broken s" by (simp add: s_def example_locked_def empty_redis_def)
  ultimately show ?thesis
    using redis_delete_fences [OF timed_kv_laws set_locks_laws example_config_def _ _ stored(1), of "''a''"] stored by auto
qed

theorem redis_cache_values_witness:
  "\<exists>s. example_runs None s [RReturn ''a'' (Ok ''v'')] \<and> (''a'', ''v'') \<in> rs_fetched s"
proof -
  define s where "s = setInRedis timed_kv text_json (example_config None) (Some 0) ''a'' ''v'' (redis_fetched ''a'' ''v'' example_locked)"
  let ?free = "releaseLock set_locks (example_config None) ''a'' s"
  have "example_runs None ?free [RFlightEnd ''a'' (Ok ''v'')]"
    by (rule single_step [OF example_stored(1) [of "''v''", folded s_def]]) (rule redis_step.unlocked, simp add: unlocks_def)
  then have r: "example_runs None (?free\<lparr>rs_results := insert (''a'', Ok ''v'') (rs_results ?free)\<rparr>) [RReturn ''a'' (Ok ''v'')]"
    by (rule single_step) (rule redis_step.flight_end)
  have "rs_set ?free = {}" by (simp add: s_def releaseLock_def example_locked_def empty_redis_def)
  with r redis_cache_values [OF timed_kv_laws text_json_laws r, of "''a''" "''v''"] show ?thesis by (auto simp: storeKey_def)
qed

text \<open>
  With an \<open>ExtractKeyFunc\<close> the lock is that of the key asked for and not of the key stored under, and a
  deletion of the latter is undone by a fetch that was under way.
\<close>

lemma extracted_key_not_fenced:
  "\<exists>s ts. example_runs (Some (\<lambda>_. ''b'')) s ts \<and> rs_deletes s ''b'' = 1 \<and> rs_stamp s ''b'' = Some 0
    \<and> kv_Get timed_kv (rs_redis s) ''p:b'' = Some ''v''"
proof -
  let ?f = "Some (\<lambda>_. ''b'') :: (string \<Rightarrow> string) option"
  let ?cfg = "example_config ?f"
  define s where "s = redis_fetched ''a'' ''v'' example_locked"
  define both where "both = s\<lparr>rs_locks := {''lock:p:b'', ''lock:p:a''}, rs_until := (rs_until s)(''b'' := 34 * second)\<rparr>"
  let ?deleted = "del_entry timed_kv ?cfg True ''b'' both"
  let ?stored = "setInRedis timed_kv text_json ?cfg (Some 0) ''b'' ''v'' ?deleted"
  have lock: "acquireLock set_locks ?cfg ''b'' s = Some both"
    by (simp add: acquireLock_def RedisLockOff_def second_def s_def both_def redis_fetched_def example_locked_def empty_redis_def set_locks_def GetLockKey_def)
  have "example_runs ?f s [RStore ''a'' True 0 ''v'', RDelete ''b'']"
    using runs_spawn [OF example_flight [of ?f "''v''"], of "RDelete ''b''"] by (simp add: s_def)
  from runs_run [OF this, of 1] lock have "example_runs ?f both [RStore ''a'' True 0 ''v'', RDel ''b'' True]"
    by (simp add: redis_step.delete_locked)
  from runs_run [OF this, of 1] have "example_runs ?f ?deleted [RStore ''a'' True 0 ''v'', RDelUnlock ''b'' True]"
    by (simp add: redis_step.del)
  from runs_run [OF this, of 0] redis_step.stored [of timed_kv set_locks text_json ?cfg ?deleted "''a''" 0 "''v''"]
  have "example_runs ?f ?stored [RUnlock ''a'' True (Ok ''v''), RDelUnlock ''b'' True]" by (simp add: storeKey_def)
  moreover have "rs_deletes ?stored ''b'' = 1" "rs_stamp ?stored ''b'' = Some 0" "kv_Get timed_kv (rs_redis ?stored) ''p:b'' = Some ''v''"
    by (simp_all add: setInRedis_def del_entry_def text_json_def both_def s_def example_locked_def empty_redis_def timed_kv_def second_def)
  ultimately show ?thesis by blast
qed

section \<open>Deleting by prefix\<close>

text \<open>
  \<open>collectKeys\<close> reads pages of keys until the cursor is 0 or a call fails: the replies of the service in
  turn, \<open>None\<close> for a failure.  \<open>failed\<close> is how many deletions were made before they failed, if they did.
\<close>

fun collectKeys :: "(string list \<times> nat) option list \<Rightarrow> string list" where
  "collectKeys [] = []"
| "collectKeys (None # replies) = []"
| "collectKeys (Some (keys, cursor) # replies) = (if cursor = 0 then keys else keys @ collectKeys replies)"

definition DeleteByPrefix :: "('c, string) kv_ops \<Rightarrow> 'v RedisConfig \<Rightarrow> (string list \<times> nat) option list \<Rightarrow> nat option \<Rightarrow> 'c \<Rightarrow> string list \<times> 'c" where
  "DeleteByPrefix R cfg replies failed c =
     (let allKeys = collectKeys replies
      in if allKeys = [] then ([], c)
         else case failed of
           Some n \<Rightarrow> ([], foldl (kv_Delete R) c (take n allKeys))
         | None \<Rightarrow> (map (drop (length (rc_RedisPrefix cfg) + 1)) allKeys, foldl (kv_Delete R) c allKeys))"

lemma foldl_Delete:
  assumes "kv_laws R"
  shows "kv_Get R (foldl (kv_Delete R) c keys) j = (if j \<in> set keys then None else kv_Get R c j)"
  by (induction keys arbitrary: c) (auto simp: kv_Delete_get [OF assms])

text \<open>
  The keys that are returned are those that are gone, and nothing else goes, if the service returns only keys with the prefix of
  the cache, and every key under the prefix is gone if the service returned them all.
\<close>

lemma DeleteByPrefix_deletes:
  assumes "kv_laws R" and "DeleteByPrefix R cfg replies None c = (deleted, c')"
    and "\<And>k. k \<in> set (collectKeys replies) \<Longrightarrow> \<exists>key. k = RedisKey cfg key"
  shows "kv_Get R c' (RedisKey cfg key) = (if key \<in> set deleted then None else kv_Get R c (RedisKey cfg key))"
proof -
  let ?strip = "drop (length (rc_RedisPrefix cfg) + 1)"
  have strip: "?strip (RedisKey cfg j) = j" for j by (simp add: RedisKey_def)
  have "deleted = map ?strip (collectKeys replies)" "c' = foldl (kv_Delete R) c (collectKeys replies)"
    using assms(2) by (auto simp: DeleteByPrefix_def Let_def split: if_splits)
  moreover have "key \<in> ?strip ` set (collectKeys replies) \<longleftrightarrow> RedisKey cfg key \<in> set (collectKeys replies)"
    using assms(3) strip by (metis (no_types, lifting) image_iff)
  ultimately show ?thesis by (simp add: foldl_Delete [OF assms(1)])
qed

end
