(* ===== verification/Sandbox_Catalog.thy ===== *)
theory Sandbox_Catalog
  imports Redis_Cache
begin

text \<open>
  The catalog of running sandboxes (\<open>packages/shared/pkg/sandbox-catalog\<close>): the interface of \<open>catalog.go\<close> as a
  locale over an abstract specification, and its two implementations, in memory (\<open>catalog_memory.go\<close>) and on
  Redis with a local cache (\<open>catalog_redis.go\<close>).  The cache library, Redis and the encoding are the
  parameters of \<open>Value_Cache\<close> and \<open>Redis_Cache\<close>.
\<close>

section \<open>The interface\<close>

record SandboxInfo =
  si_OrchestratorID :: string
  si_OrchestratorIP :: string
  si_ExecutionID :: string
  si_StartedAt :: int
  si_MaxLengthInHours :: int

datatype catalog_error = ErrSandboxNotFound | ErrRedisGet | ErrRedisSet | ErrMarshal | ErrUnmarshal

text \<open>
  Whether the calls an operation makes succeed, whether a write that fails for its client is applied all
  the same, and whether an item that was read is still alive.
\<close>

record cenv =
  ce_get :: bool
  ce_set :: bool
  ce_del :: bool
  ce_late :: bool
  ce_live :: bool

text \<open>A pointer to a \<open>SandboxInfo\<close> may be \<open>nil\<close>, which is \<open>None\<close>.\<close>

record 's catalog_ops =
  ct_GetSandbox :: "cenv \<Rightarrow> string \<Rightarrow> 's \<Rightarrow> (catalog_error, SandboxInfo option) outcome \<times> 's"
  ct_StoreSandbox :: "cenv \<Rightarrow> string \<Rightarrow> SandboxInfo option \<Rightarrow> int \<Rightarrow> 's \<Rightarrow> (catalog_error, unit) outcome \<times> 's"
  ct_DeleteSandbox :: "cenv \<Rightarrow> string \<Rightarrow> string \<Rightarrow> 's \<Rightarrow> (catalog_error, unit) outcome \<times> 's"

datatype catalog_call = CGet string | CStore string SandboxInfo int | CDelete string string

datatype catalog_reply = GotInfo "(catalog_error, SandboxInfo option) outcome" | CallDone "(catalog_error, unit) outcome"

fun catalog_do :: "'s catalog_ops \<Rightarrow> cenv \<Rightarrow> catalog_call \<Rightarrow> 's \<Rightarrow> catalog_reply \<times> 's" where
  "catalog_do C e (CGet i) s = map_prod GotInfo id (ct_GetSandbox C e i s)"
| "catalog_do C e (CStore i info ttl) s = map_prod CallDone id (ct_StoreSandbox C e i (Some info) ttl s)"
| "catalog_do C e (CDelete i x) s = map_prod CallDone id (ct_DeleteSandbox C e i x s)"

fun catalog_run :: "'s catalog_ops \<Rightarrow> (cenv \<times> catalog_call) list \<Rightarrow> 's \<Rightarrow> catalog_reply list \<times> 's" where
  "catalog_run C [] s = ([], s)"
| "catalog_run C ((e, c) # calls) s = (case catalog_do C e c s of (r, s') \<Rightarrow> map_prod ((#) r) id (catalog_run C calls s'))"

text \<open>
  The specification: a map from sandboxes to what was stored last.  A deletion removes the sandbox only
  if the execution it names is the one stored, and does so if its calls succeed.
\<close>

type_synonym catalog = "string \<rightharpoonup> SandboxInfo"

definition executes :: "catalog \<Rightarrow> string \<Rightarrow> string \<Rightarrow> bool" where
  "executes m i x \<longleftrightarrow> (case m i of Some info \<Rightarrow> si_ExecutionID info = x | None \<Rightarrow> False)"

fun catalog_allows :: "cenv \<Rightarrow> catalog \<Rightarrow> catalog_call \<Rightarrow> catalog_reply \<Rightarrow> catalog \<Rightarrow> bool" where
  "catalog_allows e m (CGet i) (GotInfo r) m' \<longleftrightarrow>
     m' = m \<and> r \<noteq> Panic \<and> (\<forall>x. r = Ok x \<longrightarrow> x \<noteq> None \<and> x = m i)
     \<and> (ce_get e \<longrightarrow> r = (case m i of Some info \<Rightarrow> Ok (Some info) | None \<Rightarrow> Err ErrSandboxNotFound))"
| "catalog_allows e m (CStore i info ttl) (CallDone r) m' \<longleftrightarrow> r \<noteq> Panic \<and> m' = (if r = Ok () then m(i \<mapsto> info) else m)"
| "catalog_allows e m (CDelete i x) (CallDone r) m' \<longleftrightarrow>
     r \<noteq> Panic \<and> (m' = m \<or> executes m i x \<and> m' = m(i := None))
     \<and> (ce_get e \<and> ce_del e \<and> ce_live e \<and> executes m i x \<longrightarrow> m' = m(i := None))"
| "catalog_allows e m _ _ m' \<longleftrightarrow> False"

inductive catalog_trace :: "catalog \<Rightarrow> (cenv \<times> catalog_call) list \<Rightarrow> catalog_reply list \<Rightarrow> catalog \<Rightarrow> bool" where
  done_trace: "catalog_trace m [] [] m"
| more_trace: "catalog_allows e m c r m' \<Longrightarrow> catalog_trace m' calls rs m'' \<Longrightarrow> catalog_trace m ((e, c) # calls) (r # rs) m''"

inductive_cases trace_ConsE: "catalog_trace m ((e, c) # calls) rs m'"
inductive_cases trace_NilE: "catalog_trace m [] rs m'"

text \<open>A condition on what is stored, and under which circumstances.\<close>

fun keeps :: "(cenv \<Rightarrow> SandboxInfo \<Rightarrow> int \<Rightarrow> bool) \<Rightarrow> cenv \<times> catalog_call \<Rightarrow> bool" where
  "keeps fits (e, CStore i info ttl) \<longleftrightarrow> fits e info ttl"
| "keeps fits _ \<longleftrightarrow> True"

text \<open>
  The contract of an implementation: an invariant of its states, what it has of each sandbox, and that every
  operation does to that what the specification says, for what fits to be stored.
\<close>

locale sandbox_catalog =
  fixes C :: "'s catalog_ops" and ok :: "'s \<Rightarrow> bool" and has :: "'s \<Rightarrow> catalog" and fits :: "cenv \<Rightarrow> SandboxInfo \<Rightarrow> int \<Rightarrow> bool"
  assumes Get_law: "ok s \<Longrightarrow> ct_GetSandbox C e i s = (r, s') \<Longrightarrow> ok s' \<and> catalog_allows e (has s) (CGet i) (GotInfo r) (has s')"
    and Store_law: "ok s \<Longrightarrow> fits e info ttl \<Longrightarrow> ct_StoreSandbox C e i (Some info) ttl s = (u, s') \<Longrightarrow>
      ok s' \<and> catalog_allows e (has s) (CStore i info ttl) (CallDone u) (has s')"
    and Delete_law: "ok s \<Longrightarrow> ct_DeleteSandbox C e i x s = (u, s') \<Longrightarrow> ok s' \<and> catalog_allows e (has s) (CDelete i x) (CallDone u) (has s')"
begin

lemma do_allows:
  assumes "ok s" and "keeps fits (e, c)" and "catalog_do C e c s = (r, s')"
  shows "ok s' \<and> catalog_allows e (has s) c r (has s')"
proof (cases c)
  case (CGet i)
  obtain x s1 where x: "ct_GetSandbox C e i s = (x, s1)" by fastforce
  with CGet assms show ?thesis using Get_law [OF assms(1) x] by auto
next
  case (CStore i info ttl)
  obtain x s1 where x: "ct_StoreSandbox C e i (Some info) ttl s = (x, s1)" by fastforce
  with CStore assms show ?thesis using Store_law [OF assms(1) _ x] by auto
next
  case (CDelete i y)
  obtain x s1 where x: "ct_DeleteSandbox C e i y s = (x, s1)" by fastforce
  with CDelete assms show ?thesis using Delete_law [OF assms(1) x] by auto
qed

lemma run_traces:
  assumes "ok s" and "list_all (keeps fits) calls" and "catalog_run C calls s = (rs, s')"
  shows "ok s' \<and> catalog_trace (has s) calls rs (has s')"
  using assms
proof (induction calls arbitrary: s rs)
  case (Cons call calls)
  obtain e c where call: "call = (e, c)" by fastforce
  obtain r s1 where do_c: "catalog_do C e c s = (r, s1)" by fastforce
  obtain rs' where rs: "catalog_run C calls s1 = (rs', s')" "rs = r # rs'"
    using Cons.prems(3) call do_c by (cases "catalog_run C calls s1") auto
  have step: "ok s1 \<and> catalog_allows e (has s) c r (has s1)" using do_allows [OF Cons.prems(1) _ do_c] Cons.prems(2) call by simp
  have "ok s' \<and> catalog_trace (has s1) calls rs' (has s')" using Cons.IH [OF _ _ rs(1)] step Cons.prems(2) by simp
  with step show ?case by (auto simp: call rs(2) intro: catalog_trace.more_trace)
qed (auto intro: catalog_trace.done_trace)

end

text \<open>What the specification says of a sandbox nobody else stores: only a deletion that names its execution removes it.\<close>

fun leaves :: "string \<Rightarrow> string \<Rightarrow> catalog_call \<Rightarrow> bool" where
  "leaves i x (CGet j) \<longleftrightarrow> True"
| "leaves i x (CStore j info ttl) \<longleftrightarrow> j \<noteq> i"
| "leaves i x (CDelete j y) \<longleftrightarrow> j \<noteq> i \<or> y \<noteq> x"

lemma allows_leaves:
  "catalog_allows e m c r m' \<Longrightarrow> m i = Some info \<Longrightarrow> leaves i (si_ExecutionID info) c \<Longrightarrow> m' i = Some info"
  by (cases c; cases r) (auto simp: executes_def split: if_splits)

lemma trace_leaves:
  "catalog_trace m calls rs m' \<Longrightarrow> m i = Some info \<Longrightarrow> list_all (leaves i (si_ExecutionID info) \<circ> snd) calls \<Longrightarrow> m' i = Some info"
  by (induction rule: catalog_trace.induct) (auto dest: allows_leaves)

section \<open>In memory\<close>

definition Memory_GetSandbox :: "('c, SandboxInfo option) kv_ops \<Rightarrow> string \<Rightarrow> 'c \<Rightarrow> (catalog_error, SandboxInfo option) outcome" where
  "Memory_GetSandbox K sandboxID c = (case kv_Get K c sandboxID of Some info \<Rightarrow> Ok info | None \<Rightarrow> Err ErrSandboxNotFound)"

definition Memory_StoreSandbox :: "('c, SandboxInfo option) kv_ops \<Rightarrow> string \<Rightarrow> SandboxInfo option \<Rightarrow> int \<Rightarrow> 'c \<Rightarrow> 'c" where
  "Memory_StoreSandbox K sandboxID info expiration c = kv_Set K c sandboxID info expiration"

definition Memory_DeleteSandbox :: "('c, SandboxInfo option) kv_ops \<Rightarrow> bool \<Rightarrow> string \<Rightarrow> string \<Rightarrow> 'c \<Rightarrow> 'c" where
  "Memory_DeleteSandbox K live sandboxID executionID c =
     (case kv_Get K c sandboxID of
        None \<Rightarrow> c
      | Some item \<Rightarrow>
          if \<not> live then c
          else case item of
            None \<Rightarrow> c
          | Some info \<Rightarrow> if si_ExecutionID info \<noteq> executionID then c else kv_Delete K c sandboxID)"

definition memory_catalog :: "('c, SandboxInfo option) kv_ops \<Rightarrow> 'c catalog_ops" where
  "memory_catalog K =
     \<lparr>ct_GetSandbox = (\<lambda>e i c. (Memory_GetSandbox K i c, c)),
      ct_StoreSandbox = (\<lambda>e i info ttl c. (Ok (), Memory_StoreSandbox K i info ttl c)),
      ct_DeleteSandbox = (\<lambda>e i x c. (Ok (), Memory_DeleteSandbox K (ce_live e) i x c))\<rparr>"

definition memory_ok :: "('c, SandboxInfo option) kv_ops \<Rightarrow> 'c \<Rightarrow> bool" where
  "memory_ok K c \<longleftrightarrow> kv_laws K \<and> (\<forall>i. kv_Get K c i \<noteq> Some None)"

definition memory_has :: "('c, SandboxInfo option) kv_ops \<Rightarrow> 'c \<Rightarrow> catalog" where
  "memory_has K c i = Option.bind (kv_Get K c i) id"

lemma kv_Set_get:
  "kv_laws K \<Longrightarrow> 0 < ttl \<Longrightarrow> kv_Get K (kv_Set K c k v ttl) j = (if j = k then Some v else kv_Get K c j)"
  by (simp add: kv_Set_live kv_Set_other)

text \<open>
  What fits: it is stored for some time, it decodes to what was encoded, and a write that fails was not
  applied.
\<close>

definition info_fits :: "SandboxInfo option json_ops \<Rightarrow> cenv \<Rightarrow> SandboxInfo \<Rightarrow> int \<Rightarrow> bool" where
  "info_fits J e info ttl \<longleftrightarrow> 0 < ttl \<and> \<not> ce_late e
     \<and> (case js_Marshal J (Some info) of Some d \<Rightarrow> js_Unmarshal J d = Some (Some info) | None \<Rightarrow> True)"

interpretation memory: sandbox_catalog "memory_catalog K" "memory_ok K" "memory_has K" "info_fits J" for K :: "('c, SandboxInfo option) kv_ops" and J
proof (unfold_locales, goal_cases)
  case (1 s e i r s')
  then show ?case by (auto simp: memory_catalog_def Memory_GetSandbox_def memory_ok_def memory_has_def split: option.splits)
next
  case (2 s e info ttl i u s')
  then show ?case
    by (auto simp: info_fits_def memory_catalog_def Memory_StoreSandbox_def memory_ok_def memory_has_def kv_Set_get fun_eq_iff split: if_splits)
next
  case (3 s e i x u s')
  then show ?case
    by (auto simp: memory_catalog_def Memory_DeleteSandbox_def memory_ok_def memory_has_def executes_def kv_Delete_get fun_eq_iff
        split: option.splits if_splits)
qed

section \<open>On Redis\<close>

record ('r, 'c) RedisSandboxCatalog =
  sc_redis :: 'r
  sc_cache :: 'c

definition catalogRedisLocalCacheTtl :: int where
  "catalogRedisLocalCacheTtl = 500000000"

definition getCatalogKey :: "string \<Rightarrow> string" where
  "getCatalogKey sandboxID = ''sandbox:catalog:'' @ sandboxID"

lemma getCatalogKey_inject [simp]: "getCatalogKey i = getCatalogKey j \<longleftrightarrow> i = j"
  by (simp add: getCatalogKey_def)

type_synonym info_json = "SandboxInfo option json_ops"

definition Redis_GetSandbox ::
  "('r, string) kv_ops \<Rightarrow> ('c, SandboxInfo option) kv_ops \<Rightarrow> info_json \<Rightarrow> bool \<Rightarrow> bool \<Rightarrow> string \<Rightarrow> ('r, 'c) RedisSandboxCatalog
     \<Rightarrow> (catalog_error, SandboxInfo option) outcome \<times> ('r, 'c) RedisSandboxCatalog" where
  "Redis_GetSandbox R K J useLocalCache up sandboxID s =
     (case (if useLocalCache then kv_Get K (sc_cache s) sandboxID else None) of
        Some info \<Rightarrow> (Ok info, s)
      | None \<Rightarrow>
          if \<not> up then (Err ErrRedisGet, s)
          else case kv_Get R (sc_redis s) (getCatalogKey sandboxID) of
            None \<Rightarrow> (Err ErrSandboxNotFound, s)
          | Some data \<Rightarrow>
              (case js_Unmarshal J data of
                 None \<Rightarrow> (Err ErrUnmarshal, s)
               | Some info \<Rightarrow>
                   (Ok info, if useLocalCache then s\<lparr>sc_cache := kv_Set K (sc_cache s) sandboxID info catalogRedisLocalCacheTtl\<rparr> else s)))"

definition Redis_StoreSandbox ::
  "('r, string) kv_ops \<Rightarrow> ('c, SandboxInfo option) kv_ops \<Rightarrow> info_json \<Rightarrow> bool \<Rightarrow> bool \<Rightarrow> bool \<Rightarrow> string \<Rightarrow> SandboxInfo option \<Rightarrow> int
     \<Rightarrow> ('r, 'c) RedisSandboxCatalog \<Rightarrow> (catalog_error, unit) outcome \<times> ('r, 'c) RedisSandboxCatalog" where
  "Redis_StoreSandbox R K J useLocalCache up late sandboxID info expiration s =
     (case info of
        None \<Rightarrow> (Panic, s)
      | Some i \<Rightarrow>
          (case js_Marshal J (Some i) of
             None \<Rightarrow> (Err ErrMarshal, s)
           | Some data \<Rightarrow>
               let s' = s\<lparr>sc_redis := kv_Set R (sc_redis s) (getCatalogKey sandboxID) data expiration\<rparr>
               in if \<not> up then (Err ErrRedisSet, if late then s' else s)
                  else (Ok (), if useLocalCache then s'\<lparr>sc_cache := kv_Set K (sc_cache s') sandboxID info catalogRedisLocalCacheTtl\<rparr> else s')))"

text \<open>
  \<open>DeleteSandbox\<close> reads the entry and decides, then deletes: two calls, between which others may run.  Any
  failure to read counts as a missing entry, and a failure to delete is ignored.
\<close>

definition delete_decides :: "('r, string) kv_ops \<Rightarrow> info_json \<Rightarrow> bool \<Rightarrow> string \<Rightarrow> string \<Rightarrow> ('r, 'c) RedisSandboxCatalog \<Rightarrow> (catalog_error, bool) outcome" where
  "delete_decides R J up sandboxID executionID s =
     (if \<not> up then Ok False
      else case kv_Get R (sc_redis s) (getCatalogKey sandboxID) of
        None \<Rightarrow> Ok False
      | Some data \<Rightarrow>
          (case js_Unmarshal J data of
             None \<Rightarrow> Err ErrUnmarshal
           | Some None \<Rightarrow> Panic
           | Some (Some info) \<Rightarrow> Ok (si_ExecutionID info = executionID)))"

definition delete_removes :: "('r, string) kv_ops \<Rightarrow> ('c, SandboxInfo option) kv_ops \<Rightarrow> bool \<Rightarrow> string \<Rightarrow> ('r, 'c) RedisSandboxCatalog \<Rightarrow> ('r, 'c) RedisSandboxCatalog" where
  "delete_removes R K up sandboxID s =
     \<lparr>sc_redis = (if up then kv_Delete R (sc_redis s) (getCatalogKey sandboxID) else sc_redis s), sc_cache = kv_Delete K (sc_cache s) sandboxID\<rparr>"

definition Redis_DeleteSandbox ::
  "('r, string) kv_ops \<Rightarrow> ('c, SandboxInfo option) kv_ops \<Rightarrow> info_json \<Rightarrow> bool \<Rightarrow> bool \<Rightarrow> string \<Rightarrow> string \<Rightarrow> ('r, 'c) RedisSandboxCatalog
     \<Rightarrow> (catalog_error, unit) outcome \<times> ('r, 'c) RedisSandboxCatalog" where
  "Redis_DeleteSandbox R K J upGet upDel sandboxID executionID s =
     (case delete_decides R J upGet sandboxID executionID s of
        Ok True \<Rightarrow> (Ok (), delete_removes R K upDel sandboxID s)
      | Ok False \<Rightarrow> (Ok (), s)
      | Err err \<Rightarrow> (Err err, s)
      | Panic \<Rightarrow> (Panic, s))"

definition redis_catalog ::
  "('r, string) kv_ops \<Rightarrow> ('c, SandboxInfo option) kv_ops \<Rightarrow> info_json \<Rightarrow> bool \<Rightarrow> ('r, 'c) RedisSandboxCatalog catalog_ops" where
  "redis_catalog R K J useLocalCache =
     \<lparr>ct_GetSandbox = (\<lambda>e. Redis_GetSandbox R K J useLocalCache (ce_get e)),
      ct_StoreSandbox = (\<lambda>e. Redis_StoreSandbox R K J useLocalCache (ce_set e) (ce_late e)),
      ct_DeleteSandbox = (\<lambda>e. Redis_DeleteSandbox R K J (ce_get e) (ce_del e \<or> ce_late e))\<rparr>"

text \<open>
  Every entry on Redis decodes, and what the local cache has is what Redis has: this instance is the
  only one that writes these sandboxes, and nothing has expired.
\<close>

definition rcat_has :: "('r, string) kv_ops \<Rightarrow> info_json \<Rightarrow> ('r, 'c) RedisSandboxCatalog \<Rightarrow> catalog" where
  "rcat_has R J s i = Option.bind (Option.bind (kv_Get R (sc_redis s) (getCatalogKey i)) (js_Unmarshal J)) id"

definition rcat_ok :: "('r, string) kv_ops \<Rightarrow> ('c, SandboxInfo option) kv_ops \<Rightarrow> info_json \<Rightarrow> bool \<Rightarrow> ('r, 'c) RedisSandboxCatalog \<Rightarrow> bool" where
  "rcat_ok R K J useLocalCache s \<longleftrightarrow> kv_laws R \<and> kv_laws K
     \<and> (\<forall>i d. kv_Get R (sc_redis s) (getCatalogKey i) = Some d \<longrightarrow> (\<exists>info. js_Unmarshal J d = Some (Some info)))
     \<and> (useLocalCache \<longrightarrow> (\<forall>i v. kv_Get K (sc_cache s) i = Some v \<longrightarrow> v \<noteq> None \<and> v = rcat_has R J s i))"

lemma rcat_okD:
  assumes "rcat_ok R K J use s"
  shows "kv_laws R" "kv_laws K"
    and "kv_Get R (sc_redis s) (getCatalogKey i) = Some d \<Longrightarrow> \<exists>info. js_Unmarshal J d = Some (Some info)"
    and "use \<Longrightarrow> kv_Get K (sc_cache s) i = Some v \<Longrightarrow> v \<noteq> None \<and> v = rcat_has R J s i"
  using assms unfolding rcat_ok_def by blast+

lemma rcat_get:
  assumes "rcat_ok R K J use s" and "Redis_GetSandbox R K J use up i s = (r, s')"
  shows "rcat_ok R K J use s' \<and> rcat_has R J s' = rcat_has R J s \<and> r \<noteq> Panic \<and> (\<forall>x. r = Ok x \<longrightarrow> x \<noteq> None \<and> x = rcat_has R J s i)
    \<and> (up \<longrightarrow> r = (case rcat_has R J s i of Some info \<Rightarrow> Ok (Some info) | None \<Rightarrow> Err ErrSandboxNotFound))"
proof (cases "if use then kv_Get K (sc_cache s) i else None")
  case (Some v)
  then have "use" "kv_Get K (sc_cache s) i = Some v" by (auto split: if_splits)
  with rcat_okD(4) [OF assms(1) this] assms Some show ?thesis by (auto simp: Redis_GetSandbox_def)
next
  case None
  note ok = rcat_okD [OF assms(1)]
  show ?thesis
  proof (cases "up \<and> kv_Get R (sc_redis s) (getCatalogKey i) \<noteq> None")
    case True
    then obtain d info where d: "kv_Get R (sc_redis s) (getCatalogKey i) = Some d" "js_Unmarshal J d = Some (Some info)" using ok(3) by blast
    then have h: "rcat_has R J s i = Some info" by (simp add: rcat_has_def)
    let ?c = "kv_Set K (sc_cache s) i (Some info) catalogRedisLocalCacheTtl"
    have s': "r = Ok (Some info)" "s' = (if use then s\<lparr>sc_cache := ?c\<rparr> else s)" using assms(2) None True d by (auto simp: Redis_GetSandbox_def)
    have "rcat_has R J s' = rcat_has R J s" using s'(2) by (simp add: rcat_has_def fun_eq_iff)
    moreover have "kv_Get K ?c j = (if j = i then Some (Some info) else kv_Get K (sc_cache s) j)" for j
      by (rule kv_Set_get [OF ok(2)]) (simp add: catalogRedisLocalCacheTtl_def)
    ultimately show ?thesis using assms(1) s' h by (auto simp: rcat_ok_def split: if_splits)
  next
    case False
    then show ?thesis using assms None by (auto simp: Redis_GetSandbox_def rcat_has_def split: if_splits)
  qed
qed

lemma rcat_store:
  assumes "rcat_ok R K J use s" and "info_fits J e info ttl" and "Redis_StoreSandbox R K J use up (ce_late e) i (Some info) ttl s = (u, s')"
  shows "rcat_ok R K J use s' \<and> u \<noteq> Panic \<and> rcat_has R J s' = (if u = Ok () then (rcat_has R J s)(i \<mapsto> info) else rcat_has R J s)"
proof (cases "up \<and> js_Marshal J (Some info) \<noteq> None")
  case True
  note ok = rcat_okD [OF assms(1)]
  from True obtain d where d: "js_Marshal J (Some info) = Some d" by blast
  with assms(2) have dec: "js_Unmarshal J d = Some (Some info)" and ttl: "0 < ttl" by (simp_all add: info_fits_def)
  let ?c = "kv_Set K (sc_cache s) i (Some info) catalogRedisLocalCacheTtl" and ?r = "kv_Set R (sc_redis s) (getCatalogKey i) d ttl"
  have s': "u = Ok ()" "sc_redis s' = ?r" "sc_cache s' = (if use then ?c else sc_cache s)"
    using assms(3) True d by (auto simp: Redis_StoreSandbox_def Let_def)
  have r: "kv_Get R ?r (getCatalogKey j) = (if j = i then Some d else kv_Get R (sc_redis s) (getCatalogKey j))" for j
    using kv_Set_get [OF ok(1) ttl] by simp
  have h: "rcat_has R J s' = (rcat_has R J s)(i \<mapsto> info)" by (auto simp: rcat_has_def s'(2) r dec fun_eq_iff)
  have "kv_Get K ?c j = (if j = i then Some (Some info) else kv_Get K (sc_cache s) j)" for j
    by (rule kv_Set_get [OF ok(2)]) (simp add: catalogRedisLocalCacheTtl_def)
  then show ?thesis using assms(1) s' h r dec by (auto simp: rcat_ok_def split: if_splits)
next
  case False
  then show ?thesis using assms by (auto simp: Redis_StoreSandbox_def info_fits_def Let_def split: option.splits)
qed

lemma rcat_delete:
  assumes "rcat_ok R K J use s" and "Redis_DeleteSandbox R K J upGet upDel i x s = (u, s')"
  shows "rcat_ok R K J use s' \<and> u \<noteq> Panic
    \<and> (rcat_has R J s' = rcat_has R J s \<or> executes (rcat_has R J s) i x \<and> rcat_has R J s' = (rcat_has R J s)(i := None))
    \<and> (upGet \<and> upDel \<and> executes (rcat_has R J s) i x \<longrightarrow> rcat_has R J s' = (rcat_has R J s)(i := None))"
proof (cases "upGet \<and> kv_Get R (sc_redis s) (getCatalogKey i) \<noteq> None")
  case True
  note ok = rcat_okD [OF assms(1)]
  from True obtain d info where d: "kv_Get R (sc_redis s) (getCatalogKey i) = Some d" "js_Unmarshal J d = Some (Some info)" using ok(3) by blast
  have ex: "executes (rcat_has R J s) i x \<longleftrightarrow> si_ExecutionID info = x" by (simp add: executes_def rcat_has_def d)
  show ?thesis
  proof (cases "si_ExecutionID info = x")
    case eq: True
    then have s': "u = Ok ()" "s' = delete_removes R K upDel i s"
      using assms(2) d True by (auto simp: Redis_DeleteSandbox_def delete_decides_def)
    have h: "rcat_has R J s' = (if upDel then (rcat_has R J s)(i := None) else rcat_has R J s)"
      by (auto simp: s'(2) delete_removes_def rcat_has_def kv_Delete_get [OF ok(1)] fun_eq_iff)
    have "rcat_ok R K J use s'" using assms(1) h
      by (auto simp: rcat_ok_def s'(2) delete_removes_def kv_Delete_get [OF ok(1)] kv_Delete_get [OF ok(2)] split: if_splits)
    with h s'(1) ex eq show ?thesis by auto
  next
    case False
    then show ?thesis using assms d True ex by (auto simp: Redis_DeleteSandbox_def delete_decides_def)
  qed
next
  case False
  then show ?thesis using assms by (auto simp: Redis_DeleteSandbox_def delete_decides_def executes_def rcat_has_def split: if_splits)
qed

interpretation redis: sandbox_catalog "redis_catalog R K J use" "rcat_ok R K J use" "rcat_has R J" "info_fits J"
  for R :: "('r, string) kv_ops" and K :: "('c, SandboxInfo option) kv_ops" and J use
proof (unfold_locales, goal_cases)
  case (1 s e i r s')
  then show ?case using rcat_get [OF 1(1), of "ce_get e" i r s'] by (simp add: redis_catalog_def)
next
  case (2 s e info ttl i u s')
  then show ?case using rcat_store [OF 2(1,2), of "ce_set e" i u s'] by (simp add: redis_catalog_def)
next
  case (3 s e i x u s')
  then show ?case using rcat_delete [OF 3(1), of "ce_get e" "ce_del e \<or> ce_late e" i x u s'] by (auto simp: redis_catalog_def)
qed

section \<open>Both catalogs\<close>

lemma new_memory_ok: "kv_laws K \<Longrightarrow> memory_ok K (kv_New K) \<and> memory_has K (kv_New K) = Map.empty"
  by (simp add: memory_ok_def memory_has_def kv_New_empty fun_eq_iff)

lemma new_redis_ok:
  assumes "kv_laws R" and "kv_laws K"
  shows "rcat_ok R K J use \<lparr>sc_redis = kv_New R, sc_cache = kv_New K\<rparr> \<and> rcat_has R J \<lparr>sc_redis = kv_New R, sc_cache = kv_New K\<rparr> = Map.empty"
  using assms by (simp add: rcat_ok_def rcat_has_def kv_New_empty fun_eq_iff)

text \<open>
  C38.  Both catalogs refine a map, for one client and as long as nothing expires.  Take any sequence of
  calls by one instance that alone writes the catalog, in which nothing expires: what is stored is stored
  for some time and decodes from JSON to what was encoded, and a write that fails was not applied.
  Whichever of the calls underneath fail, every reply of the catalog in memory, and of the catalog on
  Redis with or without the local cache, is one that a map from sandboxes to what was stored last allows.
  In particular a deletion removes a sandbox only if it names the execution stored last, so the late
  deletion of an earlier execution does not remove the sandbox that runs now.
\<close>

theorem catalogs_refine_map:
  assumes "kv_laws R" and "kv_laws K" and "list_all (keeps (info_fits J)) calls"
    and "catalog_run (memory_catalog K) calls (kv_New K) = (rs, c)"
    and "catalog_run (redis_catalog R K J use) calls \<lparr>sc_redis = kv_New R, sc_cache = kv_New K\<rparr> = (rs', s)"
  shows "catalog_trace Map.empty calls rs (memory_has K c) \<and> catalog_trace Map.empty calls rs' (rcat_has R J s)"
  using memory.run_traces [OF _ assms(3,4)] new_memory_ok [OF assms(2)] redis.run_traces [OF _ assms(3,5)] new_redis_ok [OF assms(1,2)] by auto

definition example_info :: "string \<Rightarrow> SandboxInfo" where
  "example_info x = \<lparr>si_OrchestratorID = [], si_OrchestratorIP = [], si_ExecutionID = x, si_StartedAt = 0, si_MaxLengthInHours = 0\<rparr>"

definition info_codec :: info_json where
  "info_codec =
     \<lparr>js_Marshal = (\<lambda>v. case v of Some i \<Rightarrow> if i = example_info (si_ExecutionID i) then Some (si_ExecutionID i) else None | None \<Rightarrow> None),
      js_Unmarshal = (\<lambda>d. Some (Some (example_info d)))\<rparr>"

lemma info_codec_fits: "0 < ttl \<Longrightarrow> \<not> ce_late e \<Longrightarrow> info_fits info_codec e (example_info x) ttl"
  by (simp add: info_fits_def info_codec_def)

definition all_up :: cenv where
  "all_up = \<lparr>ce_get = True, ce_set = True, ce_del = True, ce_late = False, ce_live = True\<rparr>"

theorem catalogs_refine_map_witness:
  "\<exists>rs rs' m m'. catalog_trace Map.empty [(all_up, CStore ''s'' (example_info ''e2'') 60), (all_up, CDelete ''s'' ''e1''), (all_up, CGet ''s'')] rs m
     \<and> catalog_trace Map.empty [(all_up, CStore ''s'' (example_info ''e2'') 60), (all_up, CDelete ''s'' ''e1''), (all_up, CGet ''s'')] rs' m'
     \<and> m ''s'' = m' ''s''"
proof -
  let ?calls = "[(all_up, CStore ''s'' (example_info ''e2'') 60), (all_up, CDelete ''s'' ''e1''), (all_up, CGet ''s'')]"
  let ?K = "timed_kv :: (string \<Rightarrow> (SandboxInfo option \<times> int) option, SandboxInfo option) kv_ops"
  let ?R = "timed_kv :: (string \<Rightarrow> (string \<times> int) option, string) kv_ops"
  obtain rs c where m: "catalog_run (memory_catalog ?K) ?calls (kv_New ?K) = (rs, c)" by fastforce
  obtain rs' s where r: "catalog_run (redis_catalog ?R ?K info_codec True) ?calls \<lparr>sc_redis = kv_New ?R, sc_cache = kv_New ?K\<rparr> = (rs', s)" by fastforce
  have "\<not> ce_late all_up" by (simp add: all_up_def)
  then have "list_all (keeps (info_fits info_codec)) ?calls" using info_codec_fits by simp
  from catalogs_refine_map [OF timed_kv_laws timed_kv_laws this m r]
  have t: "catalog_trace Map.empty ?calls rs (memory_has ?K c)" "catalog_trace Map.empty ?calls rs' (rcat_has ?R info_codec s)" by simp_all
  have "memory_has ?K c ''s'' = Some (example_info ''e2'')" "rcat_has ?R info_codec s ''s'' = Some (example_info ''e2'')"
    using m r by (auto simp: memory_catalog_def Memory_StoreSandbox_def Memory_DeleteSandbox_def memory_has_def redis_catalog_def Redis_StoreSandbox_def
        Redis_DeleteSandbox_def Redis_GetSandbox_def delete_decides_def rcat_has_def timed_kv_def info_codec_def example_info_def all_up_def getCatalogKey_def
        catalogRedisLocalCacheTtl_def)
  with t show ?thesis by (metis (no_types))
qed

text \<open>
  On Redis the deletion is not atomic: an execution that another instance stores between the two calls of a deletion is
  removed by the deletion of the earlier one.
\<close>

lemma delete_race:
  assumes "kv_laws R" and "js_Unmarshal J d = Some (Some info)" and "js_Marshal J (Some info) = Some d" and "si_ExecutionID info \<noteq> x"
    and "delete_decides R J True i x s = Ok True" and "0 < ttl"
    and "Redis_StoreSandbox R K J use True late i (Some info) ttl s = (Ok (), s')"
  shows "rcat_has R J s' i = Some info" and "rcat_has R J (delete_removes R K True i s') i = None"
proof -
  have "sc_redis s' = kv_Set R (sc_redis s) (getCatalogKey i) d ttl"
    using assms(3,7) by (auto simp: Redis_StoreSandbox_def Let_def)
  then show "rcat_has R J s' i = Some info" using assms(2,3) kv_Set_get [OF assms(1,6)] by (simp add: rcat_has_def)
  show "rcat_has R J (delete_removes R K True i s') i = None" by (simp add: rcat_has_def delete_removes_def kv_Delete_get [OF assms(1)])
qed

end
