(* ===== verification/Pool_Sync.thy ===== *)
theory Pool_Sync
  imports Interleaving "HOL-Library.Multiset"
begin

text \<open>
  The synchroniser of a pool with a source (\<open>packages/shared/pkg/synchronization/synchronization.go\<close>) and
  the collector of errors (\<open>packages/shared/pkg/utils/errorcollector.go\<close>): goroutines that are started for
  every item and waited for.
\<close>

section \<open>The synchroniser\<close>

text \<open>The store is an interface its users implement: the operations of \<open>Store\<close>, over the state of the pool.\<close>

record ('x, 'i, 'p) sync_store =
  ss_SourceExists :: "'i list \<Rightarrow> 'p \<Rightarrow> bool"
  ss_PoolList :: "'x \<Rightarrow> 'p list"
  ss_PoolExists :: "'i \<Rightarrow> 'x \<Rightarrow> bool"
  ss_PoolInsert :: "'i \<Rightarrow> 'x \<Rightarrow> 'x"
  ss_PoolUpdate :: "'p \<Rightarrow> 'x \<Rightarrow> 'x"
  ss_PoolRemove :: "'p \<Rightarrow> 'x \<Rightarrow> 'x"

definition pool_keys :: "('x, 'i, 'p) sync_store \<Rightarrow> ('p \<Rightarrow> 'k) \<Rightarrow> 'x \<Rightarrow> 'k set" where
  "pool_keys S pid x = pid ` set (ss_PoolList S x)"

text \<open>Items of the source and of the pool have an identity, by which the operations find, add and remove them.\<close>

definition store_laws :: "('x, 'i, 'p) sync_store \<Rightarrow> ('i \<Rightarrow> 'k) \<Rightarrow> ('p \<Rightarrow> 'k) \<Rightarrow> bool" where
  "store_laws S sid pid \<longleftrightarrow>
     (\<forall>is p. ss_SourceExists S is p \<longleftrightarrow> pid p \<in> sid ` set is)
     \<and> (\<forall>i x. ss_PoolExists S i x \<longleftrightarrow> sid i \<in> pool_keys S pid x)
     \<and> (\<forall>i x. pool_keys S pid (ss_PoolInsert S i x) = insert (sid i) (pool_keys S pid x))
     \<and> (\<forall>p x. pool_keys S pid (ss_PoolUpdate S p x) = pool_keys S pid x)
     \<and> (\<forall>p x. pool_keys S pid (ss_PoolRemove S p x) = pool_keys S pid x - {pid p})"

lemma store_rules:
  assumes "store_laws S sid pid"
  shows "ss_SourceExists S is p \<longleftrightarrow> pid p \<in> sid ` set is" "ss_PoolExists S i x \<longleftrightarrow> sid i \<in> pool_keys S pid x"
    "pool_keys S pid (ss_PoolInsert S i x) = insert (sid i) (pool_keys S pid x)" "pool_keys S pid (ss_PoolUpdate S p x) = pool_keys S pid x"
    "pool_keys S pid (ss_PoolRemove S p x) = pool_keys S pid x - {pid p}"
  using assms by (simp_all add: store_laws_def)

text \<open>
  One goroutine per item of the source looks whether it is in the pool and inserts it if not; when all
  have ended, one per item of the pool looks whether it is in the source, and updates or removes it.
\<close>

datatype 'i discover_pc = Discover 'i | InsertingItem 'i | Discovered 'i

inductive discover_step :: "('x, 'i, 'p) sync_store \<Rightarrow> 'x \<Rightarrow> 'i discover_pc \<Rightarrow> 'x \<Rightarrow> 'i discover_pc \<Rightarrow> bool" for S where
  known: "ss_PoolExists S i x \<Longrightarrow> discover_step S x (Discover i) x (Discovered i)"
| unknown: "\<not> ss_PoolExists S i x \<Longrightarrow> discover_step S x (Discover i) x (InsertingItem i)"
| inserted: "discover_step S x (InsertingItem i) (ss_PoolInsert S i x) (Discovered i)"

datatype 'p outdated_pc = Judge 'p | Updating 'p | Removing 'p | Judged 'p

inductive outdated_step :: "('x, 'i, 'p) sync_store \<Rightarrow> 'i list \<Rightarrow> 'x \<Rightarrow> 'p outdated_pc \<Rightarrow> 'x \<Rightarrow> 'p outdated_pc \<Rightarrow> bool" for S items where
  listed: "ss_SourceExists S items p \<Longrightarrow> outdated_step S items x (Judge p) x (Updating p)"
| unlisted: "\<not> ss_SourceExists S items p \<Longrightarrow> outdated_step S items x (Judge p) x (Removing p)"
| updated: "outdated_step S items x (Updating p) (ss_PoolUpdate S p x) (Judged p)"
| removed: "outdated_step S items x (Removing p) (ss_PoolRemove S p x) (Judged p)"

text \<open>A group of goroutines and the wait for all of them.\<close>

definition group_runs :: "('s \<Rightarrow> 'p \<Rightarrow> 's \<Rightarrow> 'p \<Rightarrow> bool) \<Rightarrow> 's \<Rightarrow> 'p list \<Rightarrow> 's \<Rightarrow> 'p list \<Rightarrow> bool" where
  "group_runs step s ps s' qs \<longleftrightarrow> (par_step step {})\<^sup>*\<^sup>* (s, ps) (s', qs)"

definition syncDiscovered :: "('x, 'i, 'p) sync_store \<Rightarrow> 'i list \<Rightarrow> 'x \<Rightarrow> 'x \<Rightarrow> bool" where
  "syncDiscovered S items x x' \<longleftrightarrow> group_runs (discover_step S) x (map Discover items) x' (map Discovered items)"

definition syncOutdated :: "('x, 'i, 'p) sync_store \<Rightarrow> 'i list \<Rightarrow> 'x \<Rightarrow> 'x \<Rightarrow> bool" where
  "syncOutdated S items x x' \<longleftrightarrow> group_runs (outdated_step S items) x (map Judge (ss_PoolList S x)) x' (map Judged (ss_PoolList S x))"

text \<open>A round with what the source lists, or \<open>None\<close> if listing failed; and the loop of \<open>Start\<close> until it is cancelled.\<close>

inductive sync_round :: "('x, 'i, 'p) sync_store \<Rightarrow> 'i list option \<Rightarrow> 'x \<Rightarrow> 'x \<Rightarrow> bool" for S where
  list_failed: "sync_round S None x x"
| synced: "syncDiscovered S items x y \<Longrightarrow> syncOutdated S items y z \<Longrightarrow> sync_round S (Some items) x z"

datatype 'i sync_event = Tick "'i list option" | Cancelled

inductive sync_loop :: "('x, 'i, 'p) sync_store \<Rightarrow> 'i sync_event list \<Rightarrow> 'x \<Rightarrow> 'x \<Rightarrow> bool" for S where
  waiting: "sync_loop S [] x x"
| cancelled: "sync_loop S (Cancelled # evs) x x"
| tick: "sync_round S r x y \<Longrightarrow> sync_loop S evs y z \<Longrightarrow> sync_loop S (Tick r # evs) x z"

definition sync_Start :: "('x, 'i, 'p) sync_store \<Rightarrow> 'i list option option \<Rightarrow> 'i sync_event list \<Rightarrow> 'x \<Rightarrow> 'x \<Rightarrow> bool" where
  "sync_Start S initial evs x z \<longleftrightarrow>
     (case initial of None \<Rightarrow> sync_loop S evs x z | Some r \<Rightarrow> (\<exists>y. sync_round S r x y \<and> sync_loop S evs y z))"

subsection \<open>What a round does\<close>

lemma unweighted_group:
  assumes "group_runs step s ps s' qs" and "I s" and "\<And>p. p \<in> set ps \<Longrightarrow> A s p"
    and "\<And>s p s' p'. step s p s' p' \<Longrightarrow> I s \<Longrightarrow> A s p \<Longrightarrow> I s' \<and> A s' p'"
    and "\<And>s p s' p' q. step s p s' p' \<Longrightarrow> I s \<Longrightarrow> A s p \<Longrightarrow> A s q \<Longrightarrow> A s' q"
  shows "I s' \<and> (\<forall>q \<in> set qs. A s' q)"
proof -
  have "interleaving step {} I A (\<lambda>_. 0) (\<lambda>_. 0)" by unfold_locales (use assms(4,5) in blast)+
  from interleaving.steps_keep [OF this assms(1) [unfolded group_runs_def] assms(2)] assms(3) show ?thesis by (simp add: sum_of_def)
qed

lemma discovered_keys:
  assumes "store_laws S sid pid" and "syncDiscovered S items x y"
  shows "pool_keys S pid y = pool_keys S pid x \<union> sid ` set items"
proof -
  let ?I = "\<lambda>z. pool_keys S pid x \<subseteq> pool_keys S pid z \<and> pool_keys S pid z \<subseteq> pool_keys S pid x \<union> sid ` set items"
  let ?A = "\<lambda>z p. case p of Discover i \<Rightarrow> i \<in> set items | InsertingItem i \<Rightarrow> i \<in> set items | Discovered i \<Rightarrow> sid i \<in> pool_keys S pid z"
  note rules = store_rules [OF assms(1)]
  have "?I y \<and> (\<forall>q \<in> set (map Discovered items). ?A y q)"
  proof (rule unweighted_group [OF assms(2) [unfolded syncDiscovered_def]])
    show "?I z' \<and> ?A z' p'" if "discover_step S z p z' p'" "?I z" "?A z p" for z p z' p'
      using that by cases (auto simp: rules)
    show "?A z' q" if "discover_step S z p z' p'" "?I z" "?A z p" "?A z q" for z p z' p' q
      using that by cases (auto simp: rules split: discover_pc.splits)
  qed auto
  then show ?thesis by auto
qed

lemma outdated_keys:
  assumes "store_laws S sid pid" and "syncOutdated S items x y"
  shows "pool_keys S pid y = pool_keys S pid x \<inter> sid ` set items"
proof -
  let ?src = "sid ` set items"
  let ?I = "\<lambda>z. pool_keys S pid x \<inter> ?src \<subseteq> pool_keys S pid z \<and> pool_keys S pid z \<subseteq> pool_keys S pid x"
  let ?A = "\<lambda>z p. case p of Judge p \<Rightarrow> True | Updating p \<Rightarrow> pid p \<in> ?src | Removing p \<Rightarrow> pid p \<notin> ?src
    | Judged p \<Rightarrow> pid p \<in> ?src \<or> pid p \<notin> pool_keys S pid z"
  note rules = store_rules [OF assms(1)]
  have "?I y \<and> (\<forall>q \<in> set (map Judged (ss_PoolList S x)). ?A y q)"
  proof (rule unweighted_group [OF assms(2) [unfolded syncOutdated_def]])
    show "?I z' \<and> ?A z' p'" if "outdated_step S items z p z' p'" "?I z" "?A z p" for z p z' p'
      using that by cases (simp_all add: rules, blast)
    show "?A z' q" if "outdated_step S items z p z' p'" "?I z" "?A z p" "?A z q" for z p z' p' q
      using that by cases (auto simp: rules split: outdated_pc.splits)
  qed auto
  then have "pool_keys S pid y \<subseteq> pool_keys S pid x" "pool_keys S pid x \<inter> ?src \<subseteq> pool_keys S pid y"
    "\<forall>k \<in> pool_keys S pid x. k \<in> ?src \<or> k \<notin> pool_keys S pid y" by (auto simp: pool_keys_def [of S pid x])
  then show ?thesis by blast
qed

lemma round_keys:
  assumes "store_laws S sid pid" and "sync_round S r x z"
  shows "pool_keys S pid z = (case r of None \<Rightarrow> pool_keys S pid x | Some items \<Rightarrow> sid ` set items)"
  using assms(2)
proof cases
  case (synced items y)
  then show ?thesis using discovered_keys [OF assms(1) synced(2)] outdated_keys [OF assms(1) synced(3)] by auto
qed simp

text \<open>The list of the last round that got one, if there was a round before the cancellation.\<close>

fun last_listed :: "'i sync_event list \<Rightarrow> 'i list option \<Rightarrow> 'i list option" where
  "last_listed [] acc = acc"
| "last_listed (Cancelled # evs) acc = acc"
| "last_listed (Tick None # evs) acc = last_listed evs acc"
| "last_listed (Tick (Some items) # evs) acc = last_listed evs (Some items)"

lemma loop_keys:
  assumes "sync_loop S evs x z" and "store_laws S sid pid"
    and "pool_keys S pid x = (case acc of None \<Rightarrow> K | Some items \<Rightarrow> sid ` set items)"
  shows "pool_keys S pid z = (case last_listed evs acc of None \<Rightarrow> K | Some items \<Rightarrow> sid ` set items)"
  using assms
proof (induction arbitrary: acc rule: sync_loop.induct)
  case (tick r x y evs z)
  note y = round_keys [OF tick(4,1)]
  show ?case
  proof (cases r)
    case None
    then show ?thesis using tick.IH [OF tick(4), of acc] y tick(5) by simp
  next
    case (Some items)
    then show ?thesis using tick.IH [OF tick(4), of "Some items"] y by simp
  qed
qed auto

text \<open>
  C39.  The pool follows the source.  Whatever the pool held, however the goroutines of the rounds
  interleave, and whichever listings of the source fail: the pool holds exactly the items, by identity, that the last
  successful listing had, or what it held at the start if there was none.
\<close>

theorem pool_follows_source:
  assumes "store_laws S sid pid" and "sync_Start S initial evs x z"
  shows "pool_keys S pid z =
    (case last_listed (case initial of None \<Rightarrow> evs | Some r \<Rightarrow> Tick r # evs) None of None \<Rightarrow> pool_keys S pid x | Some items \<Rightarrow> sid ` set items)"
proof (cases initial)
  case None
  then show ?thesis using loop_keys [OF _ assms(1), of evs x z "pool_keys S pid x" None] assms(2) by (simp add: sync_Start_def)
next
  case (Some r)
  then obtain y where "sync_round S r x y" "sync_loop S evs y z" using assms(2) by (auto simp: sync_Start_def)
  then have "sync_loop S (Tick r # evs) x z" by (rule sync_loop.tick)
  from loop_keys [OF this assms(1), of "pool_keys S pid x" None] Some show ?thesis by simp
qed

text \<open>A group never gets stuck, and each of its goroutines takes two steps.\<close>

fun discover_left :: "'i discover_pc \<Rightarrow> nat" where
  "discover_left (Discover i) = 2" | "discover_left (InsertingItem i) = 1" | "discover_left (Discovered i) = 0"

fun outdated_left :: "'p outdated_pc \<Rightarrow> nat" where
  "outdated_left (Judge p) = 2" | "outdated_left (Updating p) = 1" | "outdated_left (Removing p) = 1" | "outdated_left (Judged p) = 0"

lemma discover_start: "\<exists>x' p'. discover_step S x (Discover i) x' p'"
  by (cases "ss_PoolExists S i x") (blast intro: discover_step.known discover_step.unknown)+

lemma outdated_start: "\<exists>x' p'. outdated_step S items x (Judge p) x' p'"
  by (cases "ss_SourceExists S items p") (blast intro: outdated_step.listed outdated_step.unlisted)+

lemma discover_progress:
  "discover_step S x p x' p' \<Longrightarrow> discover_left p' < discover_left p" "0 < discover_left p \<Longrightarrow> \<exists>x' p'. discover_step S x p x' p'"
proof -
  show "discover_step S x p x' p' \<Longrightarrow> discover_left p' < discover_left p" by (auto elim: discover_step.cases)
  show "0 < discover_left p \<Longrightarrow> \<exists>x' p'. discover_step S x p x' p'"
    by (cases p) (auto intro: discover_step.inserted discover_start)
qed

lemma outdated_progress:
  "outdated_step S items x p x' p' \<Longrightarrow> outdated_left p' < outdated_left p" "0 < outdated_left p \<Longrightarrow> \<exists>x' p'. outdated_step S items x p x' p'"
proof -
  show "outdated_step S items x p x' p' \<Longrightarrow> outdated_left p' < outdated_left p" by (auto elim: outdated_step.cases)
  show "0 < outdated_left p \<Longrightarrow> \<exists>x' p'. outdated_step S items x p x' p'"
    by (cases p) (auto intro: outdated_step.updated outdated_step.removed outdated_start)
qed

definition list_store :: "(nat list, nat, nat) sync_store" where
  "list_store = \<lparr>ss_SourceExists = (\<lambda>is p. p \<in> set is), ss_PoolList = (\<lambda>x. x), ss_PoolExists = (\<lambda>i x. i \<in> set x),
     ss_PoolInsert = (\<lambda>i x. i # x), ss_PoolUpdate = (\<lambda>p x. x), ss_PoolRemove = (\<lambda>p x. removeAll p x)\<rparr>"

lemma list_store_laws: "store_laws list_store id id"
  by (auto simp: store_laws_def list_store_def pool_keys_def)

lemma group_start: "group_runs step s ps s ps"
  by (simp add: group_runs_def)

lemma group_step: "group_runs step s ps s1 qs \<Longrightarrow> t < length qs \<Longrightarrow> step s1 (qs ! t) s2 p \<Longrightarrow> group_runs step s ps s2 (qs[t := p])"
  unfolding group_runs_def by (erule rtranclp.rtrancl_into_rtrancl) (rule par_step.run)

theorem pool_follows_source_witness:
  "\<exists>z. sync_Start list_store (Some (Some [1])) [Tick None, Cancelled] [2] z \<and> id ` set z = {1}"
proof -
  let ?D = "discover_step list_store" and ?O = "outdated_step list_store [1]"
  have "?D [2] (Discover 1) [2] (InsertingItem 1)" by (rule discover_step.unknown) (simp add: list_store_def)
  moreover have "?D [2] (InsertingItem 1) [1, 2] (Discovered 1)" using discover_step.inserted [of list_store "[2]" 1] by (simp add: list_store_def)
  ultimately have d: "syncDiscovered list_store [1] [2] [1, 2]"
    using group_step [OF group_step [OF group_start, of 0 "[Discover 1]" ?D "[2]" "[2]" "InsertingItem 1"], of 0 "[1, 2]" "Discovered 1"]
    by (simp add: syncDiscovered_def)
  have "?O [1, 2] (Judge 1) [1, 2] (Updating 1)" by (rule outdated_step.listed) (simp add: list_store_def)
  from group_step [OF group_start, of 0 "[Judge 1, Judge 2]" ?O "[1, 2]" "[1, 2]" "Updating 1"] this
  have "group_runs ?O [1, 2] [Judge 1, Judge 2] [1, 2] [Updating 1, Judge 2]" by simp
  from group_step [OF this, of 1 "[1, 2]" "Removing 2"] have "group_runs ?O [1, 2] [Judge 1, Judge 2] [1, 2] [Updating 1, Removing 2]"
    by (simp add: outdated_step.unlisted list_store_def)
  from group_step [OF this, of 1 "[1]" "Judged 2"] outdated_step.removed [of list_store "[1]" "[1, 2]" 2]
  have "group_runs ?O [1, 2] [Judge 1, Judge 2] [1] [Updating 1, Judged 2]" by (simp add: list_store_def)
  from group_step [OF this, of 0 "[1]" "Judged 1"] outdated_step.updated [of list_store "[1]" "[1]" 1]
  have "group_runs ?O [1, 2] [Judge 1, Judge 2] [1] [Judged 1, Judged 2]" by (simp add: list_store_def)
  then have "syncOutdated list_store [1] [1, 2] [1]" by (simp add: syncOutdated_def list_store_def)
  with d have "sync_round list_store (Some [1]) [2] [1]" by (rule sync_round.synced)
  moreover have "sync_loop list_store [Tick None, Cancelled] [1] [1]"
    by (rule sync_loop.tick [OF sync_round.list_failed]) (rule sync_loop.cancelled)
  ultimately have s: "sync_Start list_store (Some (Some [1])) [Tick None, Cancelled] [2] [1]" by (auto simp: sync_Start_def)
  from pool_follows_source [OF list_store_laws s] s show ?thesis by (auto simp: pool_keys_def list_store_def)
qed

section \<open>The collector of errors\<close>

text \<open>
  The state: the buffered channel of capacity 10, the errors collected, the units of the semaphore in use,
  the count of the wait group, whether the channel is closed and the collector has ended, whether
  \<open>Wait\<close> was called, and for the proofs whether \<open>Go\<close> was called although \<open>Wait\<close> had been called and no
  goroutine was left, or \<open>Wait\<close> was called a second time, and the errors raised so far.
\<close>

record 'e ErrorCollector =
  ec_input :: "'e list"
  ec_errs :: "'e list"
  ec_workers :: int
  ec_wg :: int
  ec_closed :: bool
  ec_done :: bool
  ec_waiting :: bool
  ec_misused :: bool
  ec_raised :: "'e multiset"

definition NewErrorCollector :: "'e ErrorCollector" where
  "NewErrorCollector = \<lparr>ec_input = [], ec_errs = [], ec_workers = 0, ec_wg = 0, ec_closed = False, ec_done = False, ec_waiting = False, ec_misused = False, ec_raised = {#}\<rparr>"

datatype 'e collected = NoError | OneError 'e | JoinedErrors "'e list"

fun wait_result :: "'e list \<Rightarrow> 'e collected" where
  "wait_result [] = NoError"
| "wait_result [e] = OneError e"
| "wait_result es = JoinedErrors es"

text \<open>
  \<open>Go\<close> counts a goroutine, which gets a unit of the semaphore, or the error of the context if that is done
  first, runs the function and sends its error.  \<open>Wait\<close> waits for all of them, closes the channel and waits
  for the collector, the goroutine at \<open>Receiving\<close> (the code starts one, the theorem allows several).  Nothing
  in the code keeps a caller from \<open>Go\<close> after \<open>Wait\<close> or from a second \<open>Wait\<close>: a send on the closed channel and
  a second close panic.
\<close>

datatype 'e collect_pc =
    GoCalled | Acquiring | Running | Sending 'e bool | SendPanic 'e bool | Releasing | Finishing | Finished
  | WaitCalled | WaitGroup | Closing | ClosePanic | AwaitDone | WaitReturned "'e collected"
  | Receiving | CollectorDone

inductive collect_step :: "int \<Rightarrow> 'e ErrorCollector \<Rightarrow> 'e collect_pc \<Rightarrow> 'e ErrorCollector \<Rightarrow> 'e collect_pc \<Rightarrow> bool" for maxConcurrency where
  go: "collect_step maxConcurrency s GoCalled
    (s\<lparr>ec_wg := ec_wg s + 1, ec_misused := ec_misused s \<or> ec_waiting s \<and> ec_wg s = 0\<rparr>) Acquiring"
| acquired: "ec_workers s < maxConcurrency \<Longrightarrow> collect_step maxConcurrency s Acquiring (s\<lparr>ec_workers := ec_workers s + 1\<rparr>) Running"
| not_acquired: "collect_step maxConcurrency s Acquiring (s\<lparr>ec_raised := add_mset e (ec_raised s)\<rparr>) (Sending e False)"
| succeeded: "collect_step maxConcurrency s Running s Releasing"
| failed: "collect_step maxConcurrency s Running (s\<lparr>ec_raised := add_mset e (ec_raised s)\<rparr>) (Sending e True)"
| sent: "length (ec_input s) < 10 \<Longrightarrow> \<not> ec_closed s \<Longrightarrow>
    collect_step maxConcurrency s (Sending e held) (s\<lparr>ec_input := ec_input s @ [e]\<rparr>) (if held then Releasing else Finishing)"
| send_panics: "ec_closed s \<Longrightarrow> collect_step maxConcurrency s (Sending e held) s (SendPanic e held)"
| released: "collect_step maxConcurrency s Releasing (s\<lparr>ec_workers := ec_workers s - 1\<rparr>) Finishing"
| finished: "collect_step maxConcurrency s Finishing (s\<lparr>ec_wg := ec_wg s - 1\<rparr>) Finished"
| wait: "collect_step maxConcurrency s WaitCalled (s\<lparr>ec_waiting := True, ec_misused := ec_misused s \<or> ec_waiting s\<rparr>) WaitGroup"
| all_finished: "ec_wg s = 0 \<Longrightarrow> collect_step maxConcurrency s WaitGroup s Closing"
| close_panics: "ec_closed s \<Longrightarrow> collect_step maxConcurrency s Closing s ClosePanic"
| closed: "\<not> ec_closed s \<Longrightarrow> collect_step maxConcurrency s Closing (s\<lparr>ec_closed := True\<rparr>) AwaitDone"
| wait_returns: "ec_done s \<Longrightarrow> collect_step maxConcurrency s AwaitDone s (WaitReturned (wait_result (ec_errs s)))"
| received: "ec_input s = e # rest \<Longrightarrow> collect_step maxConcurrency s Receiving (s\<lparr>ec_input := rest, ec_errs := ec_errs s @ [e]\<rparr>) Receiving"
| drained: "ec_input s = [] \<Longrightarrow> ec_closed s \<Longrightarrow> collect_step maxConcurrency s Receiving (s\<lparr>ec_done := True\<rparr>) CollectorDone"

fun collect_start :: "'e collect_pc \<Rightarrow> bool" where
  "collect_start GoCalled \<longleftrightarrow> True"
| "collect_start WaitCalled \<longleftrightarrow> True"
| "collect_start Receiving \<longleftrightarrow> True"
| "collect_start _ \<longleftrightarrow> False"

text \<open>What is accounted for: goroutines that have not finished, units of the semaphore, and errors on their way.\<close>

fun unfinished :: "'e collect_pc \<Rightarrow> int" where
  "unfinished Acquiring = 1" | "unfinished Running = 1" | "unfinished (Sending e held) = 1" | "unfinished Releasing = 1"
| "unfinished Finishing = 1" | "unfinished (SendPanic e held) = 1" | "unfinished _ = 0"

fun holds_unit :: "'e collect_pc \<Rightarrow> int" where
  "holds_unit Running = 1" | "holds_unit (Sending e held) = (if held then 1 else 0)" | "holds_unit Releasing = 1"
| "holds_unit (SendPanic e held) = (if held then 1 else 0)" | "holds_unit _ = 0"

fun carries :: "'e \<Rightarrow> 'e collect_pc \<Rightarrow> int" where
  "carries e (Sending d held) = (if d = e then 1 else 0)" | "carries e (SendPanic d held) = (if d = e then 1 else 0)" | "carries e _ = 0"

text \<open>The one call of \<open>Wait\<close> that has not closed the channel yet.\<close>

fun closes :: "'e collect_pc \<Rightarrow> int" where
  "closes WaitGroup = 1" | "closes Closing = 1" | "closes ClosePanic = 1" | "closes _ = 0"

definition to_close :: "'e ErrorCollector \<Rightarrow> int" where
  "to_close s = (if ec_waiting s \<and> \<not> ec_closed s then 1 else 0)"

definition on_the_way :: "'e \<Rightarrow> 'e ErrorCollector \<Rightarrow> int" where
  "on_the_way e s = int (count (ec_raised s) e) - int (count (mset (ec_errs s) + mset (ec_input s)) e)"

definition collect_inv :: "int \<Rightarrow> 'e ErrorCollector \<Rightarrow> bool" where
  "collect_inv maxConcurrency s \<longleftrightarrow> 0 \<le> ec_wg s \<and> ec_workers s \<le> max 0 maxConcurrency
     \<and> (ec_closed s \<longrightarrow> ec_waiting s \<and> ec_wg s = 0) \<and> (ec_done s \<longrightarrow> ec_closed s \<and> ec_input s = [])"

fun collect_asrt :: "'e ErrorCollector \<Rightarrow> 'e collect_pc \<Rightarrow> bool" where
  "collect_asrt s WaitGroup \<longleftrightarrow> ec_waiting s"
| "collect_asrt s Closing \<longleftrightarrow> ec_waiting s \<and> ec_wg s = 0"
| "collect_asrt s (SendPanic e held) \<longleftrightarrow> False"
| "collect_asrt s AwaitDone \<longleftrightarrow> ec_closed s"
| "collect_asrt s (WaitReturned r) \<longleftrightarrow> ec_done s \<and> r = wait_result (ec_errs s)"
| "collect_asrt s _ \<longleftrightarrow> True"

lemma collect_step_ok:
  assumes "collect_step n s p s' p'" and "\<not> ec_misused s'" and "collect_inv n s" and "collect_asrt s p" and "unfinished p \<le> ec_wg s"
  shows "collect_inv n s' \<and> collect_asrt s' p'"
  using assms by (induction rule: collect_step.induct) (auto simp: collect_inv_def)

lemma collect_step_free:
  assumes "collect_step n s p s' p'" and "\<not> ec_misused s'" and "collect_inv n s" and "collect_asrt s p"
    and "unfinished p + unfinished q \<le> ec_wg s" and "collect_asrt s q"
  shows "collect_asrt s' q"
  using assms
proof (induction rule: collect_step.induct)
  case (go s)
  then show ?case by (cases q) (auto simp: collect_inv_def)
qed (cases q; auto simp: collect_inv_def)+

lemma misused_stays: "collect_step n s p s' p' \<Longrightarrow> \<not> ec_misused s' \<Longrightarrow> \<not> ec_misused s"
  by (induction rule: collect_step.induct) auto

lemma one_closes:
  assumes "collect_step n s p s' p'" and "\<not> ec_misused s'" and "ec_closed s \<longrightarrow> ec_waiting s" and "p \<noteq> ClosePanic" and "closes p \<le> to_close s"
  shows "(ec_closed s' \<longrightarrow> ec_waiting s') \<and> p' \<noteq> ClosePanic \<and> to_close s' + closes p = to_close s + closes p'"
  using assms by (induction rule: collect_step.induct) (auto simp: to_close_def split: if_splits)

lemma collect_accounts:
  assumes "collect_step n s p s' p'"
  shows "ec_wg s' + unfinished p = ec_wg s + unfinished p'" and "ec_workers s' + holds_unit p = ec_workers s + holds_unit p'"
    and "on_the_way e s' + carries e p = on_the_way e s + carries e p'"
  using assms by (induction rule: collect_step.induct) (auto simp: on_the_way_def)

lemma accounted:
  assumes "\<And>p. p \<in> starts \<Longrightarrow> w p = 0" and "\<And>p. 0 \<le> w p" and "\<And>s p s' p'. step s p s' p' \<Longrightarrow> tot s' + w p = tot s + w p'"
  shows "interleaving step starts (\<lambda>_. True) (\<lambda>_ _. True) w tot"
  by unfold_locales (use assms in auto)

lemma collect_start_weights:
  "p \<in> Collect collect_start \<Longrightarrow> unfinished p = 0 \<and> holds_unit p = 0 \<and> carries e p = 0 \<and> closes p = 0 \<and> p \<noteq> ClosePanic \<and> collect_asrt s p"
  by (cases p) auto

lemma collect_weights: "0 \<le> unfinished p" "0 \<le> holds_unit p" "0 \<le> carries e p" "carries e p \<le> unfinished p" "0 \<le> closes p"
  by (cases p; simp)+

lemma sum_of_mono: "(\<And>p. v p \<le> w p) \<Longrightarrow> sum_of v ts \<le> sum_of w ts"
  by (induction ts) (auto intro: add_mono)

lemma collect_interleaving:
  "interleaving (\<lambda>s p s' p'. collect_step maxConcurrency s p s' p' \<and> \<not> ec_misused s') (Collect collect_start) (collect_inv maxConcurrency) collect_asrt unfinished (ec_wg :: 'a ErrorCollector \<Rightarrow> int)"
proof (unfold_locales, goal_cases)
  case (1 p s)
  then show ?case using collect_start_weights [OF 1(1)] by simp
next
  case (3 s p s' p')
  then show ?case using collect_step_ok [of maxConcurrency s p s' p'] collect_accounts(1) [of maxConcurrency s p s' p'] by simp
next
  case (4 s p s' p' q)
  then show ?case using collect_step_free [of maxConcurrency s p s' p' q] by simp
qed (rule collect_weights)

lemma close_interleaving:
  "interleaving (\<lambda>s p s' p'. collect_step maxConcurrency s p s' p' \<and> \<not> ec_misused s') (Collect collect_start) (\<lambda>s. ec_closed s \<longrightarrow> ec_waiting s) (\<lambda>_ p. p \<noteq> ClosePanic) closes to_close"
proof (unfold_locales, goal_cases)
  case (1 p s)
  then show ?case using collect_start_weights [OF 1(1)] by simp
next
  case (3 s p s' p')
  then show ?case using one_closes [of maxConcurrency s p s' p'] by simp
qed (simp_all add: collect_weights)

text \<open>
  C40.  Every error is collected, if \<open>Wait\<close> is called once and no call of \<open>Go\<close> finds \<open>Wait\<close> called and no
  goroutine left.  However many goroutines are started and however they interleave: what \<open>Wait\<close> returns is made
  of exactly the errors that were raised, each as often as it was; no goroutine panics, for none sends on the
  closed channel and the channel is closed once; and at most \<open>maxConcurrency\<close> functions run at a time.
\<close>

theorem collector_collects_all:
  assumes "par_runs (collect_step maxConcurrency) (Collect collect_start) NewErrorCollector s ts" and "\<not> ec_misused s"
  shows "(\<forall>r. WaitReturned r \<in> set ts \<longrightarrow> r = wait_result (ec_errs s) \<and> mset (ec_errs s) = ec_raised s)
    \<and> (\<forall>e held. Sending e held \<in> set ts \<longrightarrow> \<not> ec_closed s) \<and> (\<forall>e held. SendPanic e held \<notin> set ts)
    \<and> ClosePanic \<notin> set ts \<and> sum_of holds_unit ts \<le> max 0 maxConcurrency"
proof -
  let ?step = "\<lambda>s p s' p'. collect_step maxConcurrency s p s' p' \<and> \<not> ec_misused s'"
  have runs: "par_runs ?step (Collect collect_start) NewErrorCollector s ts"
    by (rule runs_restrict [where P = "\<lambda>s. \<not> ec_misused s", OF assms]) (rule misused_stays)
  note wg = interleaving.runs_keep [OF collect_interleaving runs]
  have inv: "collect_inv maxConcurrency s" and asrt: "\<And>p. p \<in> set ts \<Longrightarrow> collect_asrt s p" and sum: "sum_of unfinished ts = ec_wg s"
    using wg by (simp_all add: collect_inv_def NewErrorCollector_def)
  have "interleaving (collect_step maxConcurrency) (Collect collect_start) (\<lambda>_. True) (\<lambda>_ _. True) holds_unit (ec_workers :: 'a ErrorCollector \<Rightarrow> int)"
    by (rule accounted) (simp add: collect_start_weights, rule collect_weights, rule collect_accounts(2))
  from interleaving.runs_keep(3) [OF this assms(1)] have units: "sum_of holds_unit ts = ec_workers s" by (simp add: NewErrorCollector_def)
  from interleaving.runs_keep(2) [OF close_interleaving runs] have no_close_panic: "ClosePanic \<notin> set ts" by (auto simp: NewErrorCollector_def to_close_def)
  have no_send_panic: "SendPanic e held \<notin> set ts" for e held using asrt by fastforce
  have way: "sum_of (carries e) ts = on_the_way e s" for e
  proof -
    have "interleaving (collect_step maxConcurrency) (Collect collect_start) (\<lambda>_. True) (\<lambda>_ _. True) (carries e) (on_the_way e)"
      by (rule accounted) (simp add: collect_start_weights, rule collect_weights, rule collect_accounts(3))
    from interleaving.runs_keep(3) [OF this assms(1)] show ?thesis by (simp add: NewErrorCollector_def on_the_way_def)
  qed
  have "r = wait_result (ec_errs s) \<and> mset (ec_errs s) = ec_raised s" if "WaitReturned r \<in> set ts" for r
  proof -
    have r: "ec_done s" "r = wait_result (ec_errs s)" using asrt [OF that] by simp_all
    then have done_s: "ec_wg s = 0" "ec_input s = []" using inv by (simp_all add: collect_inv_def)
    have "on_the_way e s = 0" for e
      using sum_of_mono [of "carries e" unfinished ts, OF collect_weights(4)] sum_of_nonneg [of "carries e" ts, OF collect_weights(3)] way [of e] sum done_s(1) by simp
    then have "count (ec_raised s) e = count (mset (ec_errs s)) e" for e using done_s(2) by (simp add: on_the_way_def)
    then show ?thesis using r(2) by (simp add: multiset_eq_iff)
  qed
  moreover have "\<not> ec_closed s" if "Sending e held \<in> set ts" for e held
    using sum_of_member [of unfinished _ ts, OF collect_weights(1) that] sum inv by (auto simp: collect_inv_def)
  ultimately show ?thesis using units inv no_close_panic no_send_panic by (simp add: collect_inv_def)
qed

theorem collector_collects_all_witness:
  "\<exists>s. par_runs (collect_step 1) (Collect collect_start) NewErrorCollector s [Finished, WaitReturned (OneError ''e''), CollectorDone]
     \<and> \<not> ec_misused s \<and> ec_raised s = {#''e''#}"
proof -
  let ?runs = "\<lambda>s ts. par_runs (collect_step 1) (Collect collect_start) NewErrorCollector (s :: string ErrorCollector) ts"
  let ?new = "NewErrorCollector :: string ErrorCollector"
  have "?runs \<lparr>ec_input = [], ec_errs = [], ec_workers = 0, ec_wg = 0, ec_closed = False, ec_done = False, ec_waiting = False, ec_misused = False, ec_raised = {#}\<rparr> [GoCalled]" using single_start [of GoCalled "Collect collect_start" "collect_step 1" ?new] by (simp add: NewErrorCollector_def)
  from runs_run [OF this, of 0] collect_step.go [of 1 "\<lparr>ec_input = [], ec_errs = [], ec_workers = 0, ec_wg = 0, ec_closed = False, ec_done = False, ec_waiting = False, ec_misused = False, ec_raised = {#}\<rparr>"]
  have "?runs \<lparr>ec_input = [], ec_errs = [], ec_workers = 0, ec_wg = 1, ec_closed = False, ec_done = False, ec_waiting = False, ec_misused = False, ec_raised = {#}\<rparr> [Acquiring]" by simp
  from runs_run [OF this, of 0] collect_step.acquired [of "\<lparr>ec_input = [], ec_errs = [], ec_workers = 0, ec_wg = 1, ec_closed = False, ec_done = False, ec_waiting = False, ec_misused = False, ec_raised = {#}\<rparr>" 1]
  have "?runs \<lparr>ec_input = [], ec_errs = [], ec_workers = 1, ec_wg = 1, ec_closed = False, ec_done = False, ec_waiting = False, ec_misused = False, ec_raised = {#}\<rparr> [Running]" by simp
  from runs_run [OF this, of 0] collect_step.failed [of 1 "\<lparr>ec_input = [], ec_errs = [], ec_workers = 1, ec_wg = 1, ec_closed = False, ec_done = False, ec_waiting = False, ec_misused = False, ec_raised = {#}\<rparr>" "''e''"]
  have "?runs \<lparr>ec_input = [], ec_errs = [], ec_workers = 1, ec_wg = 1, ec_closed = False, ec_done = False, ec_waiting = False, ec_misused = False, ec_raised = {#''e''#}\<rparr> [Sending ''e'' True]" by simp
  from runs_run [OF this, of 0] collect_step.sent [of "\<lparr>ec_input = [], ec_errs = [], ec_workers = 1, ec_wg = 1, ec_closed = False, ec_done = False, ec_waiting = False, ec_misused = False, ec_raised = {#''e''#}\<rparr>" 1 "''e''" True]
  have "?runs \<lparr>ec_input = [''e''], ec_errs = [], ec_workers = 1, ec_wg = 1, ec_closed = False, ec_done = False, ec_waiting = False, ec_misused = False, ec_raised = {#''e''#}\<rparr> [Releasing]" by simp
  from runs_run [OF this, of 0] collect_step.released [of 1 "\<lparr>ec_input = [''e''], ec_errs = [], ec_workers = 1, ec_wg = 1, ec_closed = False, ec_done = False, ec_waiting = False, ec_misused = False, ec_raised = {#''e''#}\<rparr>"]
  have "?runs \<lparr>ec_input = [''e''], ec_errs = [], ec_workers = 0, ec_wg = 1, ec_closed = False, ec_done = False, ec_waiting = False, ec_misused = False, ec_raised = {#''e''#}\<rparr> [Finishing]" by simp
  from runs_run [OF this, of 0] collect_step.finished [of 1 "\<lparr>ec_input = [''e''], ec_errs = [], ec_workers = 0, ec_wg = 1, ec_closed = False, ec_done = False, ec_waiting = False, ec_misused = False, ec_raised = {#''e''#}\<rparr>"]
  have "?runs \<lparr>ec_input = [''e''], ec_errs = [], ec_workers = 0, ec_wg = 0, ec_closed = False, ec_done = False, ec_waiting = False, ec_misused = False, ec_raised = {#''e''#}\<rparr> [Finished]" by simp
  from runs_spawn [OF runs_spawn [OF this, of WaitCalled], of Receiving] have "?runs \<lparr>ec_input = [''e''], ec_errs = [], ec_workers = 0, ec_wg = 0, ec_closed = False, ec_done = False, ec_waiting = False, ec_misused = False, ec_raised = {#''e''#}\<rparr> [Finished, WaitCalled, Receiving]" by simp
  from runs_run [OF this, of 1] collect_step.wait [of 1 "\<lparr>ec_input = [''e''], ec_errs = [], ec_workers = 0, ec_wg = 0, ec_closed = False, ec_done = False, ec_waiting = False, ec_misused = False, ec_raised = {#''e''#}\<rparr>"]
  have "?runs \<lparr>ec_input = [''e''], ec_errs = [], ec_workers = 0, ec_wg = 0, ec_closed = False, ec_done = False, ec_waiting = True, ec_misused = False, ec_raised = {#''e''#}\<rparr> [Finished, WaitGroup, Receiving]" by simp
  from runs_run [OF this, of 1] collect_step.all_finished [of "\<lparr>ec_input = [''e''], ec_errs = [], ec_workers = 0, ec_wg = 0, ec_closed = False, ec_done = False, ec_waiting = True, ec_misused = False, ec_raised = {#''e''#}\<rparr>" 1]
  have "?runs \<lparr>ec_input = [''e''], ec_errs = [], ec_workers = 0, ec_wg = 0, ec_closed = False, ec_done = False, ec_waiting = True, ec_misused = False, ec_raised = {#''e''#}\<rparr> [Finished, Closing, Receiving]" by simp
  from runs_run [OF this, of 1] collect_step.closed [of "\<lparr>ec_input = [''e''], ec_errs = [], ec_workers = 0, ec_wg = 0, ec_closed = False, ec_done = False, ec_waiting = True, ec_misused = False, ec_raised = {#''e''#}\<rparr>" 1]
  have "?runs \<lparr>ec_input = [''e''], ec_errs = [], ec_workers = 0, ec_wg = 0, ec_closed = True, ec_done = False, ec_waiting = True, ec_misused = False, ec_raised = {#''e''#}\<rparr> [Finished, AwaitDone, Receiving]" by simp
  from runs_run [OF this, of 2] collect_step.received [of "\<lparr>ec_input = [''e''], ec_errs = [], ec_workers = 0, ec_wg = 0, ec_closed = True, ec_done = False, ec_waiting = True, ec_misused = False, ec_raised = {#''e''#}\<rparr>" "''e''" "[]" 1]
  have "?runs \<lparr>ec_input = [], ec_errs = [''e''], ec_workers = 0, ec_wg = 0, ec_closed = True, ec_done = False, ec_waiting = True, ec_misused = False, ec_raised = {#''e''#}\<rparr> [Finished, AwaitDone, Receiving]" by simp
  from runs_run [OF this, of 2] collect_step.drained [of "\<lparr>ec_input = [], ec_errs = [''e''], ec_workers = 0, ec_wg = 0, ec_closed = True, ec_done = False, ec_waiting = True, ec_misused = False, ec_raised = {#''e''#}\<rparr>" 1]
  have "?runs \<lparr>ec_input = [], ec_errs = [''e''], ec_workers = 0, ec_wg = 0, ec_closed = True, ec_done = True, ec_waiting = True, ec_misused = False, ec_raised = {#''e''#}\<rparr> [Finished, AwaitDone, CollectorDone]" by simp
  from runs_run [OF this, of 1] collect_step.wait_returns [of "\<lparr>ec_input = [], ec_errs = [''e''], ec_workers = 0, ec_wg = 0, ec_closed = True, ec_done = True, ec_waiting = True, ec_misused = False, ec_raised = {#''e''#}\<rparr>" 1]
  have r: "?runs \<lparr>ec_input = [], ec_errs = [''e''], ec_workers = 0, ec_wg = 0, ec_closed = True, ec_done = True, ec_waiting = True, ec_misused = False, ec_raised = {#''e''#}\<rparr> [Finished, WaitReturned (OneError ''e''), CollectorDone]" by simp
  from collector_collects_all [OF this] r show ?thesis by auto
qed

end
