(* ===== verification/Sandbox_Network.thy ===== *)
theory Sandbox_Network
  imports Identity_Names
begin

text \<open>
  The addresses and domains of a sandbox's network rules (\<open>packages/shared/pkg/sandbox-network/firewall.go\<close>),
  over what they use of the packages \<open>net\<close> and \<open>net/netip\<close>: the parsers of addresses and of address
  ranges.
\<close>

section \<open>Addresses\<close>

definition digit_of :: "char \<Rightarrow> int option" where
  "digit_of c = (let n = of_char c :: int in if 48 \<le> n \<and> n \<le> 57 then Some (n - 48) else None)"

definition hex_of :: "char \<Rightarrow> int option" where
  "hex_of c =
     (let n = of_char c :: int
      in if 48 \<le> n \<and> n \<le> 57 then Some (n - 48)
         else if 97 \<le> n \<and> n \<le> 102 then Some (n - 87)
         else if 65 \<le> n \<and> n \<le> 70 then Some (n - 55)
         else None)"

text \<open>\<open>parseIPv4Fields\<close>; \<open>edge\<close> holds at the start and after a dot.\<close>

fun parseIPv4Fields :: "int list \<Rightarrow> int \<Rightarrow> nat \<Rightarrow> bool \<Rightarrow> string \<Rightarrow> int list option" where
  "parseIPv4Fields octets val digLen edge [] = (if length octets < 3 then None else Some (octets @ [val]))"
| "parseIPv4Fields octets val digLen edge (c # s) =
     (case digit_of c of
        Some d \<Rightarrow>
          if digLen = 1 \<and> val = 0 then None
          else let val' = val * 10 + d in if 255 < val' then None else parseIPv4Fields octets val' (digLen + 1) False s
      | None \<Rightarrow>
          if c \<noteq> CHR ''.'' then None
          else if edge \<or> s = [] then None
          else if length octets = 3 then None
          else parseIPv4Fields (octets @ [val]) 0 0 True s)"

text \<open>The hexadecimal digits of a group: their value, how many, and what follows.\<close>

fun hex_group :: "int \<Rightarrow> nat \<Rightarrow> string \<Rightarrow> (int \<times> nat \<times> string) option" where
  "hex_group acc off [] = Some (acc, off, [])"
| "hex_group acc off (c # s) =
     (case hex_of c of
        None \<Rightarrow> Some (acc, off, c # s)
      | Some d \<Rightarrow> let acc' = acc * 16 + d in if 3 < off \<or> 65535 < acc' then None else hex_group acc' (off + 1) s)"

text \<open>The loop of \<open>parseIPv6\<close>: the bytes so far, where the ellipsis was, and the rest of the text.\<close>

function ipv6_loop :: "int list \<Rightarrow> nat option \<Rightarrow> string \<Rightarrow> (int list \<times> nat option \<times> string) option" where
  "ipv6_loop ip ell s =
     (if 16 \<le> length ip then Some (ip, ell, s)
      else case hex_group 0 0 s of
        None \<Rightarrow> None
      | Some (acc, off, rest) \<Rightarrow>
          if off = 0 then None
          else if take 1 rest = ''.'' then
            (if ell = None \<and> length ip \<noteq> 12 then None
             else if 16 < length ip + 4 then None
             else case parseIPv4Fields [] 0 0 True s of None \<Rightarrow> None | Some octets \<Rightarrow> Some (ip @ octets, ell, []))
          else
            (let ip' = ip @ [acc div 256, acc mod 256]
             in case rest of
                  [] \<Rightarrow> Some (ip', ell, [])
                | c # r \<Rightarrow>
                    if c \<noteq> CHR '':'' \<or> r = [] then None
                    else if hd r = CHR '':'' then
                      (if ell \<noteq> None then None
                       else if tl r = [] then Some (ip', Some (length ip'), [])
                       else ipv6_loop ip' (Some (length ip')) (tl r))
                    else ipv6_loop ip' ell r))"
  by pat_completeness auto
termination by (relation "measure (\<lambda>(ip, _, _). 16 - length ip)") auto

declare ipv6_loop.simps [simp del]

definition parseIPv6 :: "string \<Rightarrow> int list option" where
  "parseIPv6 s =
     (let lead = take 2 s = ''::''; s' = (if lead then drop 2 s else s)
      in if lead \<and> s' = [] then Some (replicate 16 0)
         else case ipv6_loop [] (if lead then Some 0 else None) s' of
           None \<Rightarrow> None
         | Some (ip, ell, rest) \<Rightarrow>
             if rest \<noteq> [] then None
             else if length ip < 16 then
               (case ell of None \<Rightarrow> None | Some k \<Rightarrow> Some (take k ip @ replicate (16 - length ip) 0 @ drop k ip))
             else if ell \<noteq> None then None
             else Some ip)"

text \<open>\<open>netip.ParseAddr\<close> of an address without a zone, which is the only kind that \<open>net\<close> accepts.\<close>

record Addr =
  ad_BitLen :: int
  ad_As16 :: "int list"

definition ParseAddr :: "string \<Rightarrow> Addr option" where
  "ParseAddr s =
     (if CHR ''%'' \<in> set s then None
      else case dropWhile (\<lambda>c. c \<noteq> CHR ''.'' \<and> c \<noteq> CHR '':'') s of
        [] \<Rightarrow> None
      | c # _ \<Rightarrow>
          if c = CHR ''.'' then
            map_option (\<lambda>f. \<lparr>ad_BitLen = 32, ad_As16 = replicate 10 0 @ [255, 255] @ f\<rparr>) (parseIPv4Fields [] 0 0 True s)
          else map_option (\<lambda>ip. \<lparr>ad_BitLen = 128, ad_As16 = ip\<rparr>) (parseIPv6 s))"

definition net_ParseIP :: "string \<Rightarrow> int list option" where
  "net_ParseIP s = map_option ad_As16 (ParseAddr s)"

fun dtoi_loop :: "int \<Rightarrow> string \<Rightarrow> int option" where
  "dtoi_loop n [] = Some n"
| "dtoi_loop n (c # s) =
     (case digit_of c of None \<Rightarrow> None | Some d \<Rightarrow> let n' = n * 10 + d in if 16777215 \<le> n' then None else dtoi_loop n' s)"

definition dtoi_all :: "string \<Rightarrow> int option" where
  "dtoi_all s = (if s = [] then None else dtoi_loop 0 s)"

definition ParseCIDR :: "string \<Rightarrow> (int list \<times> int) option" where
  "ParseCIDR s =
     (case Cut s (CHR ''/'') of
        (addr, bits, found) \<Rightarrow>
          if \<not> found then None
          else case ParseAddr addr of
            None \<Rightarrow> None
          | Some a \<Rightarrow>
              (case dtoi_all bits of None \<Rightarrow> None | Some n \<Rightarrow> if ad_BitLen a < n then None else Some (ad_As16 a, n)))"

definition IsUnspecified :: "int list \<Rightarrow> bool" where
  "IsUnspecified ip \<longleftrightarrow> ip = replicate 10 0 @ [255, 255, 0, 0, 0, 0] \<or> ip = replicate 16 0"

section \<open>Entries of the rules\<close>

definition AllInternetTrafficCIDR :: string where
  "AllInternetTrafficCIDR = ''0.0.0.0/0''"

definition DeniedSandboxCIDRs :: "string list" where
  "DeniedSandboxCIDRs =
     [''10.0.0.0/8'', ''127.0.0.0/8'', ''169.254.0.0/16'', ''172.16.0.0/12'', ''192.168.0.0/16'', ''::1/128'', ''fc00::/7'', ''fe80::/10'']"

definition AddressStringToCIDR :: "string \<Rightarrow> string" where
  "AddressStringToCIDR addressString = (if \<not> Contains addressString ''/'' then addressString @ ''/32'' else addressString)"

fun AddressStringsToCIDRs :: "string list \<Rightarrow> string list" where
  "AddressStringsToCIDRs [] = []"
| "AddressStringsToCIDRs (a # as) = AddressStringToCIDR a # AddressStringsToCIDRs as"

definition IsIPOrCIDR :: "string \<Rightarrow> bool" where
  "IsIPOrCIDR s \<longleftrightarrow> (if net_ParseIP s \<noteq> None then True else ParseCIDR s \<noteq> None)"

definition IsSpecifiedIPOrCIDR :: "string \<Rightarrow> bool" where
  "IsSpecifiedIPOrCIDR s \<longleftrightarrow>
     (if \<not> IsIPOrCIDR s then False
      else if s = AllInternetTrafficCIDR then True
      else case net_ParseIP s of
        Some ip \<Rightarrow> \<not> IsUnspecified ip
      | None \<Rightarrow> (case ParseCIDR s of None \<Rightarrow> False | Some (ip, n) \<Rightarrow> \<not> IsUnspecified ip))"

fun ParseAddressesAndDomains_loop :: "string list \<Rightarrow> string list \<Rightarrow> string list \<Rightarrow> string list \<times> string list" where
  "ParseAddressesAndDomains_loop addresses domains [] = (addresses, domains)"
| "ParseAddressesAndDomains_loop addresses domains (entry # entries) =
     (if IsIPOrCIDR entry then ParseAddressesAndDomains_loop (addresses @ [entry]) domains entries
      else ParseAddressesAndDomains_loop addresses (domains @ [entry]) entries)"

definition ParseAddressesAndDomains :: "string list \<Rightarrow> string list \<times> string list" where
  "ParseAddressesAndDomains entries = ParseAddressesAndDomains_loop [] [] entries"

section \<open>What the parsers accept\<close>

lemma slash_no_digit: "digit_of CHR ''/'' = None" "hex_of CHR ''/'' = None"
  by code_simp+

lemma parseIPv4Fields_slash: "parseIPv4Fields octets val n edge s = Some r \<Longrightarrow> CHR ''/'' \<notin> set s"
  by (induction octets val n edge s rule: parseIPv4Fields.induct)
    (auto simp: slash_no_digit Let_def split: option.splits if_splits)

lemma hex_group_slash: "hex_group acc off s = Some (a, k, rest) \<Longrightarrow> CHR ''/'' \<in> set s \<longleftrightarrow> CHR ''/'' \<in> set rest"
  by (induction acc off s rule: hex_group.induct) (auto simp: slash_no_digit Let_def split: option.splits if_splits)

lemma ipv6_loop_slash: "ipv6_loop ip ell s = Some (ip', ell', rest) \<Longrightarrow> CHR ''/'' \<in> set s \<Longrightarrow> CHR ''/'' \<in> set rest"
proof (induction ip ell s rule: ipv6_loop.induct)
  case (1 ip ell s)
  note unfolded = 1(3) [unfolded ipv6_loop.simps [of ip ell s]]
  show ?case
  proof (cases "16 \<le> length ip")
    case True
    then show ?thesis using unfolded 1(4) by simp
  next
    case False
    then obtain acc off r where g: "hex_group 0 0 s = Some (acc, off, r)" using unfolded by (auto split: option.splits)
    have r: "CHR ''/'' \<in> set r" using hex_group_slash [OF g] 1(4) by simp
    have "parseIPv4Fields [] 0 0 True s = None" using parseIPv4Fields_slash [of "[]" 0 0 True s] 1(4) by (cases "parseIPv4Fields [] 0 0 True s") auto
    then have nz: "off \<noteq> 0" and dot: "take 1 r \<noteq> ''.''" using unfolded False g by (auto split: if_splits)
    obtain c t where t: "r = c # t" using r by (cases r) auto
    have c: "c = CHR '':''" "t \<noteq> []" using unfolded False g nz dot t by (auto simp: Let_def split: if_splits)
    then have tr: "CHR ''/'' \<in> set t" using r t by simp
    show ?thesis
    proof (cases "hd t = CHR '':''")
      case True
      then have tt: "CHR ''/'' \<in> set (tl t)" using tr c(2) by (cases t) auto
      then have "ipv6_loop (ip @ [acc div 256, acc mod 256]) (Some (length (ip @ [acc div 256, acc mod 256]))) (tl t) = Some (ip', ell', rest)"
        using unfolded False g nz dot t c True by (auto simp: Let_def split: if_splits)
      then show ?thesis using 1(1) [OF False g refl refl nz dot refl t] c True tt unfolded False g nz dot t by (auto simp: Let_def split: if_splits)
    next
      case no: False
      then have "ipv6_loop (ip @ [acc div 256, acc mod 256]) ell t = Some (ip', ell', rest)"
        using unfolded False g nz dot t c by (auto simp: Let_def split: if_splits)
      then show ?thesis using 1(2) [OF False g refl refl nz dot refl t] c no tr by auto
    qed
  qed
qed

lemma parseIPv6_slash:
  assumes "parseIPv6 s = Some ip"
  shows "CHR ''/'' \<notin> set s"
proof
  assume a: "CHR ''/'' \<in> set s"
  let ?s = "if take 2 s = ''::'' then drop 2 s else s"
  have "CHR ''/'' \<in> set ?s"
  proof (cases "take 2 s = ''::''")
    case True
    then have "s = ''::'' @ drop 2 s" by (metis append_take_drop_id)
    then have "set s = set ''::'' \<union> set (drop 2 s)" by (metis set_append)
    with a True show ?thesis by simp
  qed (use a in simp)
  then show False using assms ipv6_loop_slash [of "[]" _ ?s] by (fastforce simp: parseIPv6_def Let_def split: option.splits if_splits)
qed

lemma ParseAddr_accepts:
  assumes "ParseAddr s = Some a"
  shows "CHR ''/'' \<notin> set s" and "32 \<le> ad_BitLen a"
  using assms parseIPv4Fields_slash [of "[]" 0 0 True s] parseIPv6_slash [of s]
  by (auto simp: ParseAddr_def split: if_splits list.splits)

lemma ParseCIDR_append:
  assumes "ParseAddr s = Some a"
  shows "ParseCIDR (s @ ''/32'') = Some (ad_As16 a, 32)"
proof -
  have "Cut (s @ CHR ''/'' # ''32'') (CHR ''/'') = (s, ''32'', True)" by (rule Cut_append) (rule ParseAddr_accepts(1) [OF assms])
  moreover have "dtoi_all ''32'' = Some 32" by code_simp
  ultimately show ?thesis using assms ParseAddr_accepts(2) [OF assms] by (simp add: ParseCIDR_def)
qed

lemma ParseCIDR_slash: "ParseCIDR s \<noteq> None \<Longrightarrow> CHR ''/'' \<in> set s"
  using Cut_none [of "CHR ''/''" s] by (cases "CHR ''/'' \<in> set s") (simp_all add: ParseCIDR_def)

text \<open>
  An entry that is accepted is a range with an address.  If \<open>IsSpecifiedIPOrCIDR\<close> accepts an entry, then
  the range that \<open>AddressStringToCIDR\<close> makes of it can be parsed, it has the address of the entry, and
  that is not the unspecified address unless the entry is the range of all addresses.
\<close>

lemma specified_entries_are_ranges:
  assumes "IsSpecifiedIPOrCIDR s"
  shows "\<exists>ip n. ParseCIDR (AddressStringToCIDR s) = Some (ip, n) \<and> (net_ParseIP s = Some ip \<and> n = 32 \<or> ParseCIDR s = Some (ip, n))
    \<and> (s = AllInternetTrafficCIDR \<or> \<not> IsUnspecified ip)"
proof (cases "net_ParseIP s")
  case (Some ip)
  then obtain a where a: "ParseAddr s = Some a" "ip = ad_As16 a" by (auto simp: net_ParseIP_def)
  have "AddressStringToCIDR s = s @ ''/32''" using ParseAddr_accepts(1) [OF a(1)] by (simp add: AddressStringToCIDR_def Contains_single)
  then show ?thesis using ParseCIDR_append [OF a(1)] assms Some a(2) by (auto simp: IsSpecifiedIPOrCIDR_def split: if_splits)
next
  case None
  then obtain ip n where c: "ParseCIDR s = Some (ip, n)" using assms by (auto simp: IsSpecifiedIPOrCIDR_def IsIPOrCIDR_def split: if_splits)
  then have "AddressStringToCIDR s = s" using ParseCIDR_slash [of s] by (simp add: AddressStringToCIDR_def Contains_single)
  then show ?thesis using c assms None by (auto simp: IsSpecifiedIPOrCIDR_def split: if_splits)
qed

text \<open>The unspecified addresses are refused however they are written, and the denied ranges all parse.\<close>

lemma unspecified_refused:
  "\<not> IsSpecifiedIPOrCIDR ''0.0.0.0''" "\<not> IsSpecifiedIPOrCIDR ''::''" "\<not> IsSpecifiedIPOrCIDR ''0:0::0''" "\<not> IsSpecifiedIPOrCIDR ''::ffff:0.0.0.0''"
  "\<not> IsSpecifiedIPOrCIDR ''0.0.0.0/8''" "IsSpecifiedIPOrCIDR ''0.0.0.0/0''" "\<not> IsSpecifiedIPOrCIDR ''::/0''"
  by code_simp+

lemma denied_ranges_parse: "list_all (\<lambda>s. ParseCIDR s \<noteq> None) DeniedSandboxCIDRs"
  by code_simp

lemma ParseAddressesAndDomains_loop_eq:
  "ParseAddressesAndDomains_loop as ds entries = (as @ filter IsIPOrCIDR entries, ds @ filter (\<lambda>e. \<not> IsIPOrCIDR e) entries)"
  by (induction entries arbitrary: as ds) simp_all

text \<open>Addresses and domains are separated: nothing is lost and the order is kept.\<close>

lemma ParseAddressesAndDomains_separates:
  "ParseAddressesAndDomains entries = (filter IsIPOrCIDR entries, filter (\<lambda>e. \<not> IsIPOrCIDR e) entries)"
  by (simp add: ParseAddressesAndDomains_def ParseAddressesAndDomains_loop_eq)

end
