(* ===== verification/Spec2Isabelle.thy ===== *)
theory Spec2Isabelle
  imports Header_Properties Filesystem_Service Process_Service Agent_Main
    Storage_Progress Storage_Remote Proxy_Handler Sync_Once
    Sandbox_Catalog Pool_Sync Sandbox_Network
begin

text \<open>
  This development is a model of Aether: the agent that runs inside a sandbox (\<open>main.go\<close>, \<open>internal\<close>)
  and the packages it shares with the services that run sandboxes (\<open>packages/shared/pkg\<close>).

  \<^bold>\<open>The program.\<close>  The agent receives a manifest, the list of network destinations and path globs a
  sandbox may use, over HTTP.  It keeps it in a store; a callback of the store rebuilds an
  \<open>iptables\<close> chain, and a FUSE overlay asks the store for every path.  Two services serve requests of
  the backend: one on files with watchers, one on processes, whose output goes to any number of
  subscribers through a multiplexed channel.  A reverse tunnel carries requests of the backend to a
  local port.  The shared packages hold the storage of sandbox images: a header says, for every block
  of an image, which build stores it and where, and a snapshot turns a header and a set of dirty
  blocks into the next header.  Objects are read from a local directory, Cloud Storage or S3 through a
  cache on a shared directory.  Around that stand values that are set once, limits on concurrency,
  and the names, keys and targets that clients send.

  \<^bold>\<open>Foundations.\<close>
  \<^item> \<open>Aether_Prelude\<close>: machine words, the outcome of a call (value, error, panic), programs over a
    world, and the arithmetic between words and numbers (collection \<open>go_nat\<close>).
  \<^item> \<open>Go_Text\<close>, \<open>Go_Json\<close>: what the code uses of \<open>strings\<close>, \<open>path/filepath\<close>, \<open>strconv\<close> and
    \<open>encoding/json\<close>, executable and total; \<open>Match\<close> is the glob matcher of the standard library.
  \<^item> \<open>Go_Files\<close>, \<open>Shared_Files\<close>: programs whose system calls interleave over one file system, and the
    proof method for them, a locale in which files under final names never change and temporary files
    have one owner.
  \<^item> \<open>Interleaving\<close>: goroutines over a shared state, and the locale for their invariants.

  \<^bold>\<open>Storage headers\<close> (\<open>storage/header\<close>).  \<open>Header_Mapping\<close> is \<open>mapping.go\<close>, \<open>Header_Index\<close> is
  \<open>block.go\<close>, \<open>diff.go\<close>, \<open>inspect.go\<close> and \<open>header.go\<close>, \<open>Header_Snapshot\<close> is \<open>metadata.go\<close>,
  \<open>Header_Codec\<close> is \<open>serialization.go\<close>, all on 64-bit words.  The specification of a header is the
  function from offsets to storage locations; \<open>Header_Properties\<close> shows that merging, normalising and
  creating mappings implement the operations on that function, that a snapshot of a header implements the
  snapshot of its function, that every header reachable from a template by snapshots can be looked up
  at every block, and that encoding and decoding are inverse.  The bit sets are a parameter with the
  laws of the locale for bit sets, which a list of booleans meets.

  \<^bold>\<open>The agent.\<close>  \<open>Manifest_Store\<close> is \<open>manifest.go\<close>, \<open>Fuse_Overlay\<close> is \<open>fuse.go\<close>, \<open>Egress_Firewall\<close> is
  \<open>network/firewall.go\<close>, \<open>Agent_Cgroups\<close> is \<open>services/cgroups\<close>, \<open>Agent_Runtime\<close> holds the small
  utilities, \<open>Filesystem_Entries\<close> and \<open>Filesystem_Service\<close> the file system service,
  \<open>Process_Multiplex\<close>, \<open>Process_Handler\<close> and \<open>Process_Service\<close> the process service,
  \<open>Reverse_Tunnel\<close> is \<open>tunnel.go\<close> and \<open>Agent_Main\<close> is \<open>main.go\<close>.  Shown are: the store always answers for
  the current manifest; apart from virtual files the overlay shows nothing the manifest does not allow, and
  its policy never hides what a literal glob allows; the chain drops what no rule accepts and, if
  \<open>iptables\<close> takes the rules of a push, holds exactly the rules of the manifest;
  watchers and channels deliver everything once and in order; response streams are well formed and stop
  at the first failed send; every tunnelled request is answered at most once and none is forgotten.  This theory puts them together: a manifest pushed
  to a running agent is enforced by all parts (\<open>manifest_push_enforced\<close>).

  \<^bold>\<open>Storage\<close> (\<open>storage\<close>, \<open>storage/lock\<close>).  \<open>File_Lock\<close> is the lock files and the files that appear whole,
  \<open>Storage_Cache\<close> and \<open>Storage_Blob\<close> the two kinds of cached objects, \<open>Storage_Local\<close> the local
  provider, \<open>Storage_Remote\<close> the two cloud providers with \<open>Multipart_Upload\<close>, and \<open>Storage_Names\<close> the
  configuration, file names and upload tokens.  The specification of a remote object is the relation
  \<open>seek_remote\<close> between calls and replies.  Shown are: in every interleaving with any failures the cache
  answers as the object itself (\<open>cache_transparent\<close>, \<open>blob_transparent\<close>), each of its operations can
  always take its next step and, but for the storing of a whole file, returns after a bounded number of its own
  steps (\<open>Storage_Progress\<close>), and the local and cloud objects meet the specification (the locale
  \<open>remote_object\<close>, interpreted for both clouds), except for a response of a cloud that is cut on the way,
  which \<open>ReadAt\<close> takes for the end of the object.

  \<^bold>\<open>The reverse proxy\<close> (\<open>proxy\<close>, \<open>smap\<close>).  \<open>Proxy_Pool\<close> is the pool of clients with its connections, \<open>Proxy_Handler\<close>
  the handler, its errors and pages, and the limit around a request.  Shown are: the counters agree with
  the connections in every interleaving and removing a client closes the connections it had then
  (\<open>pool_accounts\<close>), requests are admitted by the limit and give back what they took
  (\<open>proxy_admission\<close>), and a request without a target is refused (\<open>bad_targets_refused\<close>).

  \<^bold>\<open>Caches, catalog, synchronisation\<close> (\<open>cache\<close>, \<open>redis/lock.go\<close>, \<open>sandbox-catalog\<close>, \<open>synchronization\<close>,
  \<open>utils/errorcollector.go\<close>, \<open>sandbox-network\<close>).  \<open>Value_Cache\<close> and \<open>Redis_Cache\<close> are the two caches as step
  relations: values come from the source (\<open>redis_cache_values\<close>), and a deletion under the lock is not
  undone as long as no lock is outlived by its holder and no write takes effect late (\<open>redis_delete_fences\<close>).  \<open>Sandbox_Catalog\<close> has the interface of the catalog as a locale, interpreted for
  both implementations, which refine a map for one writer while nothing expires (\<open>catalogs_refine_map\<close>).  \<open>Pool_Sync\<close>: a pool follows its source and every
  error is collected, if the collector is not used after \<open>Wait\<close>.  \<open>Sandbox_Network\<close>: the address parsers and what the rules accept.

  \<^bold>\<open>Shared utilities.\<close>  \<open>Sync_Once\<close>: set-once values agree.  \<open>Admission_Limits\<close>: the semaphore accounts for
  what is held, connections stay below their limit, updates are undone together.  \<open>Identity_Names\<close>:
  names are normalised, keys verify, requests go to the sandbox they name.

  \<^bold>\<open>Parameters.\<close>  Code that is not in the repository is an argument of the definitions: bit sets, the
  FUSE loopback node, \<open>iptables\<close>, \<open>tc\<close>, name resolution, system calls of processes and cgroups, the
  notification library, the web socket, the concurrent map, the cloud services and clients, hashes and
  random sources, the time-limited cache, Redis and its locks.  What a theorem needs of them is a named predicate (such as \<open>iptables_laws\<close>,
  \<open>cmap_laws\<close>, \<open>gcs_laws\<close>, \<open>s3_laws\<close>, \<open>bucket_laws\<close>, \<open>kv_laws\<close>, \<open>lock_laws\<close>, \<open>json_laws\<close>), and its witness applies it to a concrete
  instance.  Feature flags, time and the order of goroutines are arguments or choices of a step relation,
  over which the theorems quantify.

  \<^bold>\<open>Bounds.\<close>  No definition has fuel but \<open>run_prog\<close>, the interpreter that evaluates programs in witnesses;
  loops are recursion with a termination proof, and what may wait or never end is a step relation.
  Sizes are bounded where the code computes on 64 bits; the bounds stand in the theorems.

  \<^bold>\<open>Not modelled.\<close>  Generated code (protocol buffers, the Firecracker client, the edge API, mocks); metrics,
  traces and log output, which no modelled decision reads; construction of clients of third-party
  services; the HTML of error pages; printing functions of headers (\<open>Format\<close>, \<open>Visualize\<close>); flag parsing
  and listening of the agent.
\<close>

section \<open>A manifest takes effect\<close>

text \<open>
  C4.  A manifest pushed to a running agent is enforced by all parts at once.  Take an agent whose
  firewall and overlay were both set up at boot, whatever manifests it received since.  A push whose
  body decodes is answered with the numbers of its rules; afterwards every path that can be walked
  through the overlay is matched by an entry of this manifest or lies above one; and if \<open>iptables\<close>
  accepts the flush and each rule of this push when it is issued, the chain holds exactly the base
  exemptions, the rules of this manifest and \<open>DROP\<close>, with the jump from \<open>OUTPUT\<close> as it was.
\<close>

theorem manifest_push_enforced:
  assumes "boot ho callbackURL w0 = (ag0, w1)" and "agent_run ag0 w1 ag w"
    and "decode_manifest body = Some man" and "handle_manifest (ag_store ag) body w = (resp, store', w')"
    and "ag_fw ag0 = Some fw" and "ag_overlay ag0 = Some o'"
    and "iptables_laws (ho_iptables ho) chain jump"
  shows "resp = HttpJson (JObject [(''filesystem_rules'', JNumber (Itoa (int (length (m_Filesystem man))))),
                                   (''network_rules'', JNumber (Itoa (int (length (m_Network man))))),
                                   (''ok'', JBool True)])
    \<and> (push_accepted (ho_iptables ho) (push_rules (ho_LookupHost ho) fw (m_Network man)) w \<longrightarrow>
        jump w' = jump w \<and> chain w' = Some (base_rules (ho_LookupHost ho) fw
          @ concat (map (entry_rules (ho_LookupHost ho)) (m_Network man)) @ [drop_rule]))
    \<and> (\<forall>loopback H name names n. walk (\<lambda>_. store') loopback H o' name names = Ok (n :: 'i node) \<longrightarrow>
        (\<exists>e \<in> set (m_Filesystem man). matchGlob (fe_Path e) (full_path (name # names))
           \<or> HasPrefix (fe_Path e) (full_path (name # names) @ ''/'')))"
proof -
  have ok: "agent_ok ho ag" "ag_fw ag = Some fw" "ag_overlay ag = Some o'"
    using agent_run_ok [OF assms(2) boot_ok [OF assms(1)]] assms(5,6) by simp_all
  note effect = push_effect [OF ok(1) assms(3,4)]
  have "jump w' = jump w \<and> chain w' = Some (base_rules (ho_LookupHost ho) fw
      @ concat (map (entry_rules (ho_LookupHost ho)) (m_Network man)) @ [drop_rule])"
    if "push_accepted (ho_iptables ho) (push_rules (ho_LookupHost ho) fw (m_Network man)) w"
    using Apply_installs [OF assms(7) that] effect(3) ok(2) by (auto simp: apply_manifest_def push_rules_def)
  moreover have "\<exists>e \<in> set (m_Filesystem man). matchGlob (fe_Path e) (full_path (name # names))
       \<or> HasPrefix (fe_Path e) (full_path (name # names) @ ''/'')"
    if "walk (\<lambda>_. store') loopback H o' name names = Ok (n :: 'i node)" for loopback H name names n
  proof -
    have o': "o_store o' = Some 0" "o_virtuals o' name = None" using ok(1,3) by (simp_all add: agent_ok_def)
    from walk_checked [OF that o'(2), of names "[]"] o'(1)
    show ?thesis using not_denied_iff [of "\<lambda>_. store'" 0 man] store_reachable_ok [OF effect(2)] effect(1) by simp
  qed
  ultimately show ?thesis using effect(4) by blast
qed

text \<open>A host on which everything works, over the state of the firewall chain.\<close>

definition example_host :: "string list set \<Rightarrow> (string list list option \<times> bool) host_ops" where
  "example_host bad = \<lparr>ho_MkdirAll = (\<lambda>_. io_return ()), ho_Stat = (\<lambda>_. Ok 1), ho_Mount = (\<lambda>_ _. Ok ()),
     ho_ParseURL = (\<lambda>_. None), ho_iptables = sim_run bad, ho_LookupHost = (\<lambda>_. None), ho_NetExists = (\<lambda>_. True),
     ho_NetEntries = None, ho_tc = (\<lambda>_. io_return ())\<rparr>"

definition example_body :: "json option" where
  "example_body = Some (JObject [(''version'', JNumber ''1''), (''network'', JArray [JObject [(''pattern'', JString ''h:9'')]]),
     (''filesystem'', JArray [JObject [(''path'', JString ''/usr/**'')]])])"

lemma example_body_decodes:
  "decode_manifest example_body = Some \<lparr>m_Version = 1, m_WorkspaceID = [],
     m_Network = [zero_network\<lparr>ne_Pattern := ''h:9''\<rparr>], m_Filesystem = [zero_filesystem\<lparr>fe_Path := ''/usr/**''\<rparr>],
     m_Credentials = Map.empty\<rparr>"
  by (simp add: decode_manifest_def example_body_def manifest_fields_def network_entry_fields_def filesystem_entry_fields_def
      field_def fold_key_def upper_char_def Atoi_def decimal_def)

lemma example_boot:
  "\<exists>ag w1. boot (example_host {}) [] (None, False) = (ag, w1) \<and> ag_fw ag = Some \<lparr>tunnelHost = [], tunnelPort = 0\<rparr>
     \<and> ag_overlay ag \<noteq> None \<and> fst w1 \<noteq> None"
  by (simp add: boot_def boot_overlay_def example_host_def MountAt_def NewOverlay_def parseTunnelURL_def run_firewall
      Net_Setup_def detectInterface_def io_try_def Let_def split_beta)

theorem manifest_push_enforced_witness:
  "\<exists>ag w resp store' w'. boot (example_host {}) [] (None, False) = (ag, w)
     \<and> handle_manifest (ag_store ag) example_body w = (resp, store', w')
     \<and> fst w' = Some (base_rules (\<lambda>_. None) \<lparr>tunnelHost = [], tunnelPort = 0\<rparr> @ [entry_rule ''h'' ''9'', drop_rule])"
proof -
  obtain ag w o' where b: "boot (example_host {}) [] (None, False) = (ag, w)"
      "ag_fw ag = Some \<lparr>tunnelHost = [], tunnelPort = 0\<rparr>" "ag_overlay ag = Some o'" "fst w \<noteq> None"
    using example_boot by auto
  obtain resp store' w' where h: "handle_manifest (ag_store ag) example_body w = (resp, store', w')"
    by (metis surj_pair)
  have laws: "iptables_laws (ho_iptables (example_host {})) fst snd"
    using sim_run_laws [of "{}"] by (simp add: example_host_def)
  have accepted: "push_accepted (ho_iptables (example_host {})) rules w" for rules
    using sim_run_accepts [of rules "{}" w] b(4) by (simp add: example_host_def)
  have "entry_rules (\<lambda>_. None) (zero_network\<lparr>ne_Pattern := ''h:9''\<rparr>) = [entry_rule ''h'' ''9'']"
    by (simp add: entry_rules_def zero_network_def splitHostPort_def SplitHostPort_def last_index_of_def index_of_def
        resolveHost_def ParseIP_def)
  then have "fst w' = Some (base_rules (\<lambda>_. None) \<lparr>tunnelHost = [], tunnelPort = 0\<rparr> @ [entry_rule ''h'' ''9'', drop_rule])"
    using manifest_push_enforced [where 'i = unit, OF b(1) agent_run.refl example_body_decodes h b(2,3) laws] accepted
    by (simp add: example_host_def)
  with b(1) h show ?thesis by blast
qed

text \<open>
  An agent whose firewall could not be set up keeps running: every push is answered as
  applied, the world outside is untouched, and the network stays as it was.
\<close>

lemma push_without_firewall:
  assumes "boot ho callbackURL w0 = (ag0, w1)" and "agent_run ag0 w1 ag w"
    and "parseTunnelURL (ho_ParseURL ho) callbackURL = (h, p)"
    and "Firewall_Setup (ho_iptables ho) (ho_LookupHost ho) h p (snd (boot_overlay ho w0)) = (Err e, w2)"
    and "decode_manifest body = Some man" and "handle_manifest (ag_store ag) body w = (resp, store', w')"
  shows "ag_fw ag = None \<and> w' = w \<and> resp = HttpJson (JObject
    [(''filesystem_rules'', JNumber (Itoa (int (length (m_Filesystem man))))),
     (''network_rules'', JNumber (Itoa (int (length (m_Network man))))), (''ok'', JBool True)])"
proof -
  have "ag_fw ag0 = None"
    using assms(1,3,4) by (auto simp: boot_def Let_def split_beta)
  then have ok: "agent_ok ho ag" "ag_fw ag = None"
    using agent_run_ok [OF assms(2) boot_ok [OF assms(1)]] by simp_all
  from push_effect [OF ok(1) assms(5,6)] ok(2) show ?thesis by (simp add: apply_manifest_def)
qed

end
